(* ===== verification/Ikvm_Prelude.thy ===== *)
theory Ikvm_Prelude
  imports Main "HOL-Library.Word"
begin

text \<open>
  Shared vocabulary of the development: Python's \<open>bytes\<close> as lists of 8-bit words, the two
  integer codecs every wire format of the collection is built from (\<open>struct\<close>'s little-endian
  fields and \<open>int.from_bytes\<close>/\<open>int.to_bytes\<close> in either order), slices and slice
  assignment, and the generic list facts the component theories use.
\<close>

type_synonym byte = "8 word"
type_synonym bytes = "byte list"

named_theorems codec_simps \<open>lengths, positions and round trips of the integer codecs\<close>
named_theorems slice_simps \<open>rewriting of slices and slice assignments\<close>

section \<open>Integer codecs\<close>

text \<open>\<open>le_bytes k x\<close> is \<open>(x mod 256^k).to_bytes(k, "little")\<close>; \<open>le_nat\<close> is
  \<open>int.from_bytes(bs, "little")\<close>; the \<open>be\<close> pair is the big-endian one.\<close>

primrec le_bytes :: "nat \<Rightarrow> nat \<Rightarrow> bytes" where
  "le_bytes 0 x = []"
| "le_bytes (Suc k) x = of_nat x # le_bytes k (x div 256)"

primrec le_nat :: "bytes \<Rightarrow> nat" where
  "le_nat [] = 0"
| "le_nat (b # bs) = unat b + 256 * le_nat bs"

definition be_bytes :: "nat \<Rightarrow> nat \<Rightarrow> bytes" where
  "be_bytes k x = rev (le_bytes k x)"

definition be_nat :: "bytes \<Rightarrow> nat" where
  "be_nat bs = le_nat (rev bs)"

lemma length_le_bytes [simp, codec_simps]: "length (le_bytes k x) = k"
  by (induction k arbitrary: x) auto

lemma length_be_bytes [simp, codec_simps]: "length (be_bytes k x) = k"
  by (simp add: be_bytes_def)

lemma unat_of_nat_byte: "unat (of_nat x :: byte) = x mod 256"
  by (simp add: unat_of_nat)

lemma le_nat_le_bytes [simp, codec_simps]: "le_nat (le_bytes k x) = x mod 256 ^ k"
proof (induction k arbitrary: x)
  case 0
  then show ?case by simp
next
  case (Suc k)
  have "x mod 256 ^ Suc k = x mod 256 + 256 * (x div 256 mod 256 ^ k)"
    by (simp add: mod_mult2_eq)
  with Suc show ?case by (simp add: unat_of_nat_byte)
qed

lemma be_nat_be_bytes [simp, codec_simps]: "be_nat (be_bytes k x) = x mod 256 ^ k"
  by (simp add: be_nat_def be_bytes_def)

lemma le_nat_less: "le_nat bs < 256 ^ length bs"
proof (induction bs)
  case Nil
  then show ?case by simp
next
  case (Cons b bs)
  have "unat b < 256" using unsigned_less [of b, where 'a = nat] by simp
  with Cons show ?case by simp
qed

lemma be_nat_less: "be_nat bs < 256 ^ length bs"
  using le_nat_less [of "rev bs"] by (simp add: be_nat_def)

lemma le_bytes_le_nat [simp, codec_simps]: "le_bytes (length bs) (le_nat bs) = bs"
proof (induction bs)
  case Nil
  then show ?case by simp
next
  case (Cons b bs)
  have b: "unat b < 256" using unsigned_less [of b, where 'a = nat] by simp
  have "(of_nat (unat b + 256 * le_nat bs) :: byte) = b"
  proof (rule unsigned_word_eqI)
    show "unat (of_nat (unat b + 256 * le_nat bs) :: byte) = unat b"
      using b by (simp only: unat_of_nat_byte) simp
  qed
  moreover have "(unat b + 256 * le_nat bs) div 256 = le_nat bs"
    using b by simp
  ultimately show ?case using Cons by simp
qed

lemma be_bytes_be_nat: "length bs = k \<Longrightarrow> be_bytes k (be_nat bs) = bs"
  using le_bytes_le_nat [of "rev bs"] by (simp add: be_bytes_def be_nat_def)

text \<open>Masking a Python integer: \<open>x & 0xFF\<close> stored in a \<open>bytearray\<close> cell, and
  \<open>x & 0xFFFFFFFF\<close>, \<open>x & 0xFFFF\<close> packed little-endian.\<close>

definition mask_byte :: "int \<Rightarrow> byte" where
  "mask_byte x = word_of_int x"

definition mask_le :: "nat \<Rightarrow> int \<Rightarrow> bytes" where
  "mask_le k x = le_bytes k (nat (x mod 256 ^ k))"

lemma uint_mask_byte [simp, codec_simps]: "uint (mask_byte x) = x mod 256"
  by (simp add: mask_byte_def uint_word_of_int)

lemma length_mask_le [simp, codec_simps]: "length (mask_le k x) = k"
  by (simp add: mask_le_def)

lemma le_nat_mask_le [simp, codec_simps]: "int (le_nat (mask_le k x)) = x mod 256 ^ k"
proof -
  have "nat (x mod 256 ^ k) < 256 ^ k"
    by (simp add: nat_less_iff)
  then show ?thesis by (simp add: mask_le_def)
qed

lemma length4E:
  assumes "length xs = 4"
  obtains a b c d where "xs = [a, b, c, d]"
proof -
  obtain a ys where "xs = a # ys" and ys: "length ys = 3" using assms by (cases xs) auto
  moreover obtain b zs where "ys = b # zs" and zs: "length zs = 2" using ys by (cases ys) auto
  moreover obtain c ws where "zs = c # ws" and ws: "length ws = 1" using zs by (cases zs) auto
  moreover obtain d where "ws = [d]" using ws by (cases ws) auto
  ultimately show ?thesis using that by simp
qed

section \<open>Slices\<close>

text \<open>\<open>pslice i j xs\<close> is Python's \<open>xs[i:j]\<close> for non-negative bounds, \<open>splice_at i j ys xs\<close>
  the value of a \<open>bytearray\<close> after \<open>xs[i:j] = ys\<close>.\<close>

definition pslice :: "nat \<Rightarrow> nat \<Rightarrow> 'a list \<Rightarrow> 'a list" where
  "pslice i j xs = take (j - i) (drop i xs)"

definition splice_at :: "nat \<Rightarrow> nat \<Rightarrow> 'a list \<Rightarrow> 'a list \<Rightarrow> 'a list" where
  "splice_at i j ys xs = take i xs @ ys @ drop (max i j) xs"

lemma length_pslice [simp, slice_simps]: "length (pslice i j xs) = min (j - i) (length xs - i)"
  by (simp add: pslice_def min.commute)

lemma pslice_append_left: "j \<le> length xs \<Longrightarrow> pslice i j (xs @ ys) = pslice i j xs"
  by (cases "i \<le> j") (auto simp: pslice_def)

lemma pslice_all [simp]: "length xs \<le> j \<Longrightarrow> pslice 0 j xs = xs"
  by (auto simp: pslice_def)

lemma pslice_adjacent:
  "i \<le> j \<Longrightarrow> j \<le> k \<Longrightarrow> pslice i j xs @ pslice j k xs = pslice i k xs"
proof -
  assume "i \<le> j" and "j \<le> k"
  then have "k - i = (j - i) + (k - j)" and "j = (j - i) + i" by simp_all
  then show ?thesis
    by (metis pslice_def take_add drop_drop)
qed

lemma pslice_pslice:
  assumes "i + k \<le> n"
  shows "pslice i (i + k) (pslice a (a + n) xs) = pslice (a + i) (a + i + k) xs"
proof -
  have "min k (n - i) = k" using assms by simp
  then show ?thesis by (simp add: pslice_def drop_take add.commute [of i a])
qed

lemma nth_pslice: "k < length (pslice i j xs) \<Longrightarrow> pslice i j xs ! k = xs ! (i + k)"
  by (auto simp: pslice_def)

lemma length_splice_at:
  "i \<le> j \<Longrightarrow> j \<le> length xs \<Longrightarrow> length ys = j - i \<Longrightarrow> length (splice_at i j ys xs) = length xs"
  by (simp add: splice_at_def)

lemma pslice_splice_at_same:
  "i \<le> length xs \<Longrightarrow> length ys = j - i \<Longrightarrow> pslice i j (splice_at i j ys xs) = ys"
  by (simp add: pslice_def splice_at_def min.absorb2)

lemma nth_splice_at_before: "k < i \<Longrightarrow> i \<le> length xs \<Longrightarrow> splice_at i j ys xs ! k = xs ! k"
  by (simp add: splice_at_def nth_append)

lemma nth_splice_at_after:
  "i \<le> j \<Longrightarrow> j \<le> length xs \<Longrightarrow> length ys = j - i \<Longrightarrow> j \<le> k \<Longrightarrow>
    splice_at i j ys xs ! k = xs ! k"
  by (auto simp: splice_at_def nth_append)

section \<open>Association lists in insertion order\<close>

text \<open>A Python \<open>OrderedDict\<close> is an association list with distinct keys, oldest first.\<close>

definition od_keys :: "('k \<times> 'v) list \<Rightarrow> 'k list" where
  "od_keys = map fst"

definition od_pop :: "'k \<Rightarrow> ('k \<times> 'v) list \<Rightarrow> ('k \<times> 'v) list" where
  "od_pop k d = filter (\<lambda>(k', _). k' \<noteq> k) d"

definition od_move_to_end :: "'k \<Rightarrow> ('k \<times> 'v) list \<Rightarrow> ('k \<times> 'v) list" where
  "od_move_to_end k d = (case map_of d k of None \<Rightarrow> d | Some v \<Rightarrow> od_pop k d @ [(k, v)])"

lemma map_of_od_pop: "map_of (od_pop k d) = (map_of d)(k := None)"
  by (induction d) (auto simp: od_pop_def fun_eq_iff)

lemma set_od_pop: "set (od_pop k d) = {p \<in> set d. fst p \<noteq> k}"
  by (auto simp: od_pop_def)

lemma od_pop_id: "k \<notin> fst ` set d \<Longrightarrow> od_pop k d = d"
  by (induction d) (auto simp: od_pop_def)

lemma distinct_od_pop: "distinct (map fst d) \<Longrightarrow> distinct (map fst (od_pop k d))"
  by (induction d) (auto simp: od_pop_def)

lemma length_od_pop_le: "length (od_pop k d) \<le> length d"
  by (simp add: od_pop_def)

lemma set_od_move_to_end:
  "distinct (map fst d) \<Longrightarrow> set (od_move_to_end k d) = set d"
  by (auto simp: od_move_to_end_def set_od_pop split: option.splits dest: map_of_SomeD)
     (metis eq_key_imp_eq_value)

lemma distinct_od_move_to_end:
  "distinct (map fst d) \<Longrightarrow> distinct (map fst (od_move_to_end k d))"
  by (auto simp: od_move_to_end_def distinct_od_pop set_od_pop split: option.splits)

lemma length_od_move_to_end:
  "distinct (map fst d) \<Longrightarrow> length (od_move_to_end k d) = length d"
  by (metis distinct_card distinct_map distinct_od_move_to_end set_od_move_to_end)

section \<open>Polling loops\<close>

text \<open>A loop that looks at round \<open>k\<close>, returns there or goes on with round \<open>k + 1\<close>, ends in the
  first round where it may return.\<close>

lemma poll_loop:
  assumes step: "\<And>k. f k = (if P k then g k else f (Suc k))" and ends: "\<exists>m \<ge> k. P m"
  shows "\<exists>n \<ge> k. P n \<and> (\<forall>j. k \<le> j \<and> j < n \<longrightarrow> \<not> P j) \<and> f k = g n"
proof -
  obtain n where n: "k \<le> n" "P n" and least: "\<And>j. k \<le> j \<Longrightarrow> P j \<Longrightarrow> n \<le> j"
    using ends exists_least_iff [of "\<lambda>n. k \<le> n \<and> P n"] by (metis linorder_not_less)
  have first: "\<not> P j" if "k \<le> j" "j < n" for j using least [OF that(1)] that(2) by auto
  have "f i = g n" if "k \<le> i" "i \<le> n" for i
    using that
  proof (induction "n - i" arbitrary: i)
    case 0
    then show ?case using n step [of n] by simp
  next
    case (Suc d)
    then have "i < n" and "f (Suc i) = g n" by auto
    then show ?case using step [of i] first [of i] Suc.prems by simp
  qed
  then show ?thesis using n first by blast
qed

lemma map_filter_append: "List.map_filter f (xs @ ys) = List.map_filter f xs @ List.map_filter f ys"
  by (simp add: map_filter_def)

lemma map_filter_cong: "(\<And>x. x \<in> set xs \<Longrightarrow> f x = g x) \<Longrightarrow> List.map_filter f xs = List.map_filter g xs"
  by (induction xs) (auto simp: map_filter_simps split: option.splits)

end
