(* ===== verification/Py_Value.thy ===== *)
theory Py_Value
  imports Ikvm_Prelude
begin

text \<open>
  The part of Python's built-in values and string library that the sources use: the JSON-shaped
  values of state files, receipts and results, \<open>str.strip\<close>, \<open>str(int)\<close>, \<open>int(str)\<close>,
  \<open>str.replace\<close> and \<open>bytes.find\<close>/\<open>decode\<close>. Strings are lists of Latin-1 characters,
  so \<open>encode("ascii")\<close> can fail on the upper half, as it does in the sources.
\<close>

datatype pyval =
    PNone
  | PBool bool
  | PInt int
  | PStr string
  | PList "pyval list"
  | PDict "(string \<times> pyval) list"

section \<open>Whitespace and \<open>strip\<close>\<close>

definition is_space :: "char \<Rightarrow> bool" where
  "is_space c \<longleftrightarrow> (let n = of_char c :: nat in
     (9 \<le> n \<and> n \<le> 13) \<or> (28 \<le> n \<and> n \<le> 32) \<or> n = 133 \<or> n = 160)"

definition lstrip :: "string \<Rightarrow> string" where
  "lstrip s = dropWhile is_space s"

definition strip :: "string \<Rightarrow> string" where
  "strip s = rev (dropWhile is_space (rev (lstrip s)))"

lemma strip_idem_iff:
  "strip s = s \<longleftrightarrow> s = [] \<or> (\<not> is_space (hd s) \<and> \<not> is_space (last s))"
proof (cases s)
  case Nil
  then show ?thesis by (simp add: strip_def lstrip_def)
next
  case (Cons c cs)
  have len: "length (dropWhile is_space xs) < length xs" if "xs \<noteq> []" "is_space (hd xs)" for xs
    using that by (cases xs) (auto simp: le_imp_less_Suc length_dropWhile_le)
  have le: "length (strip s) \<le> length (lstrip s)"
    using length_dropWhile_le [of is_space "rev (lstrip s)"] by (simp add: strip_def)
  show ?thesis
  proof (cases "is_space (hd s)")
    case True
    with Cons len [of s] have "length (lstrip s) < length s" by (simp add: lstrip_def)
    with le Cons True show ?thesis by (metis leD list.distinct(1))
  next
    case False
    with Cons have l: "lstrip s = s" by (simp add: lstrip_def)
    show ?thesis
    proof (cases "is_space (last s)")
      case True
      then have "is_space (hd (rev s))" by (simp only: hd_rev)
      with Cons have "length (dropWhile is_space (rev s)) < length (rev s)"
        by (intro len) auto
      then have "length (strip s) < length s" by (simp add: strip_def l)
      with True Cons show ?thesis by auto
    next
      case F: False
      then have "\<not> is_space (hd (rev s))" by (simp add: hd_rev)
      then have "dropWhile is_space (rev s) = rev s"
        by (cases "rev s") simp_all
      then have "strip s = s" by (simp add: strip_def l)
      with False F show ?thesis by simp
    qed
  qed
qed

lemma strip_nonspace: "\<forall>c \<in> set s. \<not> is_space c \<Longrightarrow> strip s = s"
  by (cases "s = []") (auto simp: strip_idem_iff)

text \<open>Character codes compared as binary integers, so that the classes evaluate quickly.\<close>

lemma of_char_integer: "(of_char c :: integer) = of_nat (of_char c :: nat)" by (cases c) simp

lemma char_le: "(numeral k \<le> (of_char c :: nat)) \<longleftrightarrow> (numeral k \<le> (of_char c :: integer))" 
  "((of_char c :: nat) \<le> numeral k) \<longleftrightarrow> ((of_char c :: integer) \<le> numeral k)"
  "((of_char c :: nat) = numeral k) \<longleftrightarrow> ((of_char c :: integer) = numeral k)"
  unfolding of_char_integer by (metis of_nat_le_iff of_nat_numeral) (metis of_nat_le_iff of_nat_numeral, metis of_nat_eq_iff of_nat_numeral)

lemma is_space_code [code]: "is_space c \<longleftrightarrow> (let n = of_char c :: integer in
     (9 \<le> n \<and> n \<le> 13) \<or> (28 \<le> n \<and> n \<le> 32) \<or> n = 133 \<or> n = 160)"
  unfolding is_space_def Let_def char_le ..

section \<open>Decimal text\<close>

definition digit_char :: "nat \<Rightarrow> char" where
  "digit_char d = char_of (48 + d)"

definition is_digit :: "char \<Rightarrow> bool" where
  "is_digit c \<longleftrightarrow> 48 \<le> (of_char c :: nat) \<and> (of_char c :: nat) \<le> 57"

lemma is_digit_code [code]: "is_digit c \<longleftrightarrow> (let n = of_char c :: integer in (48 \<le> n \<and> n \<le> 57))"
  unfolding is_digit_def Let_def char_le ..

definition digit_val :: "char \<Rightarrow> nat" where
  "digit_val c = of_char c - 48"

fun str_nat :: "nat \<Rightarrow> string" where
  "str_nat n = (if n < 10 then [digit_char n] else str_nat (n div 10) @ [digit_char (n mod 10)])"

declare str_nat.simps [simp del]

definition str_int :: "int \<Rightarrow> string" where
  "str_int i = (if i < 0 then ''-'' @ str_nat (nat (- i)) else str_nat (nat i))"

text \<open>\<open>digits_val\<close> reads the body of \<open>int(text)\<close>: decimal digits, single underscores allowed
  between two digits only.\<close>

fun digits_val :: "nat \<Rightarrow> string \<Rightarrow> nat option" where
  "digits_val acc [] = Some acc"
| "digits_val acc (c # cs) =
     (if is_digit c then digits_val (10 * acc + digit_val c) cs
      else if c = CHR ''_'' then
        (case cs of [] \<Rightarrow> None
         | d # ds \<Rightarrow> if is_digit d then digits_val (10 * acc + digit_val d) ds else None)
      else None)"

definition unsigned_val :: "string \<Rightarrow> nat option" where
  "unsigned_val s = (case s of [] \<Rightarrow> None | c # cs \<Rightarrow> if is_digit c then digits_val 0 s else None)"

definition py_int :: "string \<Rightarrow> int option" where
  "py_int text = (let s = strip text in case s of
      [] \<Rightarrow> None
    | c # cs \<Rightarrow>
        if c = CHR ''-'' then map_option (\<lambda>n. - int n) (unsigned_val cs)
        else if c = CHR ''+'' then map_option int (unsigned_val cs)
        else map_option int (unsigned_val s))"

lemma of_char_digit_char: "d < 10 \<Longrightarrow> (of_char (digit_char d) :: nat) = 48 + d"
  by (simp add: digit_char_def)

lemma digit_char_facts [simp]:
  assumes "d < 10"
  shows "is_digit (digit_char d)" and "digit_val (digit_char d) = d"
    and "\<not> is_space (digit_char d)" and "digit_char d \<noteq> CHR ''-''" and "digit_char d \<noteq> CHR ''+''"
proof -
  have n: "(of_char (digit_char d) :: nat) = 48 + d" by (rule of_char_digit_char [OF assms])
  with assms show "is_digit (digit_char d)" and "digit_val (digit_char d) = d"
    and "\<not> is_space (digit_char d)"
    by (auto simp: is_digit_def digit_val_def is_space_def Let_def)
  show "digit_char d \<noteq> CHR ''-''"
  proof
    assume "digit_char d = CHR ''-''"
    then have "(of_char (digit_char d) :: nat) = of_char (CHR ''-'')" by simp
    with n show False by simp
  qed
  show "digit_char d \<noteq> CHR ''+''"
  proof
    assume "digit_char d = CHR ''+''"
    then have "(of_char (digit_char d) :: nat) = of_char (CHR ''+'')" by simp
    with n show False by simp
  qed
qed

lemma str_nat_digits: "c \<in> set (str_nat n) \<Longrightarrow> is_digit c \<and> \<not> is_space c \<and> c \<noteq> CHR ''-'' \<and> c \<noteq> CHR ''+''"
proof (induction n rule: str_nat.induct)
  case (1 n)
  then show ?case
    by (cases "n < 10") (auto simp: str_nat.simps [of n])
qed

lemma str_nat_not_Nil [simp]: "str_nat n \<noteq> []"
  by (simp add: str_nat.simps)

lemma digits_val_append_digit:
  "digits_val acc s = Some m \<Longrightarrow> \<forall>c \<in> set s. is_digit c \<Longrightarrow> d < 10 \<Longrightarrow>
    digits_val acc (s @ [digit_char d]) = Some (10 * m + d)"
  by (induction s arbitrary: acc) auto

lemma digits_val_str_nat: "digits_val 0 (str_nat n) = Some n"
proof (induction n rule: str_nat.induct)
  case (1 n)
  show ?case
  proof (cases "n < 10")
    case True
    then show ?thesis by (simp add: str_nat.simps [of n])
  next
    case False
    with "1.IH" have "digits_val 0 (str_nat (n div 10)) = Some (n div 10)" by simp
    then have "digits_val 0 (str_nat (n div 10) @ [digit_char (n mod 10)])
        = Some (10 * (n div 10) + n mod 10)"
      by (rule digits_val_append_digit) (auto dest: str_nat_digits)
    with False show ?thesis by (simp add: str_nat.simps [of n])
  qed
qed

lemma unsigned_val_str_nat [simp]: "unsigned_val (str_nat n) = Some n"
  using str_nat_digits [of "hd (str_nat n)" n]
  by (cases "str_nat n") (auto simp: unsigned_val_def digits_val_str_nat [of n, symmetric])

lemma py_int_str_int [simp]: "py_int (str_int i) = Some i"
proof -
  have ns: "\<forall>c \<in> set (str_int i). \<not> is_space c"
    by (auto simp: str_int_def is_space_def dest: str_nat_digits)
  have st: "strip (str_int i) = str_int i" by (rule strip_nonspace [OF ns])
  show ?thesis
  proof (cases "i < 0")
    case True
    then show ?thesis using st by (simp add: py_int_def str_int_def Let_def)
  next
    case False
    obtain c cs where c: "str_nat (nat i) = c # cs" by (cases "str_nat (nat i)") auto
    then have "c \<noteq> CHR ''-'' \<and> c \<noteq> CHR ''+''" using str_nat_digits [of c "nat i"] by simp
    moreover have "unsigned_val (c # cs) = Some (nat i)"
      using unsigned_val_str_nat [of "nat i"] c by simp
    ultimately show ?thesis using st False c by (simp add: py_int_def str_int_def Let_def)
  qed
qed

section \<open>\<open>str\<close> of a value, \<open>str.replace\<close>, \<open>encode\<close>\<close>

text \<open>\<open>str(value)\<close> for the scalar values the sources stringify; containers are never
  stringified by the modelled code and get no text here.\<close>

fun py_str :: "pyval \<Rightarrow> string option" where
  "py_str PNone = Some ''None''"
| "py_str (PBool b) = Some (if b then ''True'' else ''False'')"
| "py_str (PInt i) = Some (str_int i)"
| "py_str (PStr s) = Some s"
| "py_str (PList _) = None"
| "py_str (PDict _) = None"

fun starts_with :: "'a list \<Rightarrow> 'a list \<Rightarrow> bool" where
  "starts_with s [] = True"
| "starts_with [] (p # ps) = False"
| "starts_with (c # cs) (p # ps) = (c = p \<and> starts_with cs ps)"

lemma starts_with_iff: "starts_with s p \<longleftrightarrow> (\<exists>t. s = p @ t)"
  by (induction s p rule: starts_with.induct) auto

lemma starts_with_append [simp]: "starts_with (p @ t) p"
  by (auto simp: starts_with_iff)

text \<open>\<open>s.replace(old, new)\<close> for a non-empty \<open>old\<close>: leftmost, non-overlapping.\<close>

function replace :: "string \<Rightarrow> string \<Rightarrow> string \<Rightarrow> string" where
  "replace old new s = (case s of [] \<Rightarrow> []
     | c # cs \<Rightarrow> if old \<noteq> [] \<and> starts_with s old then new @ replace old new (drop (length old) s)
                  else c # replace old new cs)"
  by pat_completeness auto
termination
  by (relation "measure (\<lambda>(old, new, s). length s)") auto

declare replace.simps [simp del]

lemma replace_Nil [simp]: "replace old new [] = []"
  by (simp add: replace.simps)

lemma replace_match:
  "old \<noteq> [] \<Longrightarrow> starts_with s old \<Longrightarrow> replace old new s = new @ replace old new (drop (length old) s)"
  by (subst replace.simps) (cases s; cases old; simp)

lemma replace_step:
  "\<not> (old \<noteq> [] \<and> starts_with (c # cs) old) \<Longrightarrow> replace old new (c # cs) = c # replace old new cs"
  by (subst replace.simps) auto

definition encode_ascii :: "string \<Rightarrow> bytes option" where
  "encode_ascii s = (if \<forall>c \<in> set s. (of_char c :: nat) < 128
     then Some (map (\<lambda>c. of_nat (of_char c)) s) else None)"

lemma length_encode_ascii: "encode_ascii s = Some bs \<Longrightarrow> length bs = length s"
  by (auto simp: encode_ascii_def split: if_splits)

lemma encode_ascii_inj:
  "encode_ascii s = Some bs \<Longrightarrow> encode_ascii t = Some bs \<Longrightarrow> s = t"
proof (induction bs arbitrary: s t)
  case Nil
  then show ?case by (auto simp: encode_ascii_def split: if_splits)
next
  case (Cons b bs)
  obtain c s' where s: "s = c # s'" using Cons.prems(1) by (cases s) (auto simp: encode_ascii_def)
  obtain d t' where t: "t = d # t'" using Cons.prems(2) by (cases t) (auto simp: encode_ascii_def)
  have cd: "(of_char c :: nat) < 128" "(of_char d :: nat) < 128"
    and e: "(of_nat (of_char c) :: byte) = of_nat (of_char d)"
    using Cons.prems by (auto simp: s t encode_ascii_def split: if_splits)
  from arg_cong [OF e, of unat] cd have "(of_char c :: nat) = of_char d"
    by (simp add: unat_of_nat_byte)
  then have "c = d" by (metis char_of_char)
  moreover have "s' = t'"
    using Cons.prems by (intro Cons.IH) (auto simp: s t encode_ascii_def split: if_splits)
  ultimately show ?case by (simp add: s t)
qed

lemma strip_report: "strip (str_nat n @ [CHR 0x0A]) = str_nat n"
proof -
  have "dropWhile is_space (rev (str_nat n @ [CHR 0x0A])) = rev (str_nat n)"
    using str_nat_digits [of "last (str_nat n)" n] by (cases "str_nat n" rule: rev_cases) (auto simp: is_space_def)
  moreover have "dropWhile is_space (str_nat n @ x) = str_nat n @ x" for x
    using str_nat_digits [of "hd (str_nat n)" n] by (cases "str_nat n") auto
  ultimately show ?thesis by (simp only: strip_def lstrip_def rev_rev_ident)
qed

lemma strip_Nil [simp]: "strip [] = []"
  by (simp add: strip_def lstrip_def)

end
