(* ===== verification/Py_Regex.thy ===== *)
theory Py_Regex
  imports Py_Value
begin

text \<open>
  The part of Python's \<open>re\<close> module the sources use. A pattern denotes, at a position of a text, the
  list of all ways it can match there, in the order in which the backtracking matcher tries them; the
  match Python reports is the first. An iteration of a repetition that consumes nothing ends it.
  Character classes are predicates, so a flag such as \<open>(?i)\<close> is part of the classes and of \<open>RxRef\<close>,
  which compares without case because every pattern with a back reference carries that flag.
  \<open>RxBol\<close> is \<open>^\<close> under \<open>re.MULTILINE\<close>, \<open>RxStart\<close> and \<open>RxEnd\<close> are \<open>^\<close> and \<open>$\<close> without it: \<open>$\<close> also
  matches before a newline that ends the text.
\<close>

section \<open>Character classes\<close>

definition is_word :: "char \<Rightarrow> bool" where
  "is_word c \<longleftrightarrow> (let n = of_char c :: nat in
     (48 \<le> n \<and> n \<le> 57) \<or> (65 \<le> n \<and> n \<le> 90) \<or> (97 \<le> n \<and> n \<le> 122) \<or> n = 95
     \<or> n \<in> {170, 178, 179, 181, 185, 186, 188, 189, 190} \<or> (192 \<le> n \<and> n \<noteq> 215 \<and> n \<noteq> 247))"

definition to_lower :: "char \<Rightarrow> char" where
  "to_lower c = (let n = of_char c :: nat in
     if (65 \<le> n \<and> n \<le> 90) \<or> (192 \<le> n \<and> n \<le> 222 \<and> n \<noteq> 215) then char_of (n + 32) else c)"

lemma is_word_code [code]: "is_word c \<longleftrightarrow> (let n = of_char c :: integer in
     (48 \<le> n \<and> n \<le> 57) \<or> (65 \<le> n \<and> n \<le> 90) \<or> (97 \<le> n \<and> n \<le> 122) \<or> n = 95
     \<or> n = 170 \<or> n = 178 \<or> n = 179 \<or> n = 181 \<or> n = 185 \<or> n = 186 \<or> n = 188 \<or> n = 189 \<or> n = 190 \<or> (192 \<le> n \<and> n \<noteq> 215 \<and> n \<noteq> 247))"
  unfolding is_word_def Let_def insert_iff empty_iff char_le by simp

lemma to_lower_code [code]: "to_lower c = (let n = of_char c :: integer in
     if (65 \<le> n \<and> n \<le> 90) \<or> (192 \<le> n \<and> n \<le> 222 \<and> n \<noteq> 215) then char_of (n + 32) else c)"
proof -
  have "char_of ((of_char c :: integer) + 32) = char_of ((of_char c :: nat) + 32)"
    unfolding of_char_integer by (metis char_of_nat of_nat_add of_nat_numeral)
  then show ?thesis unfolding to_lower_def Let_def char_le by simp
qed

definition py_lower :: "string \<Rightarrow> string" where
  "py_lower = map to_lower"

section \<open>Patterns\<close>

datatype regex =
    RxEps
  | RxCls "char \<Rightarrow> bool"
  | RxSeq regex regex
  | RxAlt regex regex
  | RxStar regex
  | RxLazy regex
  | RxGroup nat regex
  | RxRef nat
  | RxWordB
  | RxBol
  | RxStart
  | RxEnd
  | RxNotAhead regex

text \<open>Where the matcher is: the character before, what is left of the text, and the groups so far.\<close>

record rx_state =
  rx_before :: "char option"
  rx_rest :: string
  rx_groups :: "(nat \<times> string) list"

definition rx_skip :: "nat \<Rightarrow> rx_state \<Rightarrow> rx_state" where
  "rx_skip n st = (if n = 0 then st
     else st\<lparr>rx_before := Some (last (take n (rx_rest st))), rx_rest := drop n (rx_rest st)\<rparr>)"

text \<open>Greedy and lazy repetition of a one-step matcher; \<open>n\<close> bounds the iterations, and the length of
  the remaining text is enough, as every iteration consumes a character.\<close>

fun rx_star_iter :: "(rx_state \<Rightarrow> rx_state list) \<Rightarrow> nat \<Rightarrow> rx_state \<Rightarrow> rx_state list" where
  "rx_star_iter f 0 st = [st]"
| "rx_star_iter f (Suc n) st =
     concat (map (\<lambda>st1. if length (rx_rest st1) < length (rx_rest st) then rx_star_iter f n st1 else []) (f st)) @ [st]"

fun rx_lazy_iter :: "(rx_state \<Rightarrow> rx_state list) \<Rightarrow> nat \<Rightarrow> rx_state \<Rightarrow> rx_state list" where
  "rx_lazy_iter f 0 st = [st]"
| "rx_lazy_iter f (Suc n) st =
     st # concat (map (\<lambda>st1. if length (rx_rest st1) < length (rx_rest st) then rx_lazy_iter f n st1 else []) (f st))"

primrec rx_all :: "regex \<Rightarrow> rx_state \<Rightarrow> rx_state list" where
  "rx_all RxEps st = [st]"
| "rx_all (RxCls P) st = (case rx_rest st of [] \<Rightarrow> []
     | c # cs \<Rightarrow> if P c then [st\<lparr>rx_before := Some c, rx_rest := cs\<rparr>] else [])"
| "rx_all (RxSeq a b) st = concat (map (rx_all b) (rx_all a st))"
| "rx_all (RxAlt a b) st = rx_all a st @ rx_all b st"
| "rx_all (RxStar a) st = rx_star_iter (rx_all a) (length (rx_rest st)) st"
| "rx_all (RxLazy a) st = rx_lazy_iter (rx_all a) (length (rx_rest st)) st"
| "rx_all (RxGroup n a) st = map (\<lambda>st1. st1\<lparr>rx_groups := (n, take (length (rx_rest st) - length (rx_rest st1)) (rx_rest st)) # rx_groups st1\<rparr>) (rx_all a st)"
| "rx_all (RxRef n) st = (case map_of (rx_groups st) n of None \<Rightarrow> []
     | Some g \<Rightarrow> if starts_with (py_lower (rx_rest st)) (py_lower g) then [rx_skip (length g) st] else [])"
| "rx_all RxWordB st = (let a = (case rx_before st of None \<Rightarrow> False | Some c \<Rightarrow> is_word c);
       b = (case rx_rest st of [] \<Rightarrow> False | c # cs \<Rightarrow> is_word c) in if a \<noteq> b then [st] else [])"
| "rx_all RxBol st = (case rx_before st of None \<Rightarrow> [st] | Some c \<Rightarrow> if c = CHR 0x0A then [st] else [])"
| "rx_all RxStart st = (if rx_before st = None then [st] else [])"
| "rx_all RxEnd st = (if rx_rest st = [] \<or> rx_rest st = [CHR 0x0A] then [st] else [])"
| "rx_all (RxNotAhead a) st = (if rx_all a st = [] then [st] else [])"

definition rx_exec :: "regex \<Rightarrow> char option \<Rightarrow> string \<Rightarrow> rx_state option" where
  "rx_exec r b s = (case rx_all r \<lparr>rx_before = b, rx_rest = s, rx_groups = []\<rparr> of [] \<Rightarrow> None | st # _ \<Rightarrow> Some st)"

definition rx_group :: "nat \<Rightarrow> rx_state \<Rightarrow> string" where
  "rx_group n st = (case map_of (rx_groups st) n of None \<Rightarrow> [] | Some g \<Rightarrow> g)"

text \<open>\<open>pattern.match\<close>, and \<open>pattern.search\<close>: the state at the end of the leftmost match.\<close>

definition rx_match :: "regex \<Rightarrow> string \<Rightarrow> rx_state option" where
  "rx_match r s = rx_exec r None s"

fun rx_search_at :: "regex \<Rightarrow> char option \<Rightarrow> string \<Rightarrow> rx_state option" where
  "rx_search_at r b s = (case rx_exec r b s of Some st \<Rightarrow> Some st
     | None \<Rightarrow> (case s of [] \<Rightarrow> None | c # cs \<Rightarrow> rx_search_at r (Some c) cs))"

declare rx_search_at.simps [simp del]

definition rx_search :: "regex \<Rightarrow> string \<Rightarrow> rx_state option" where
  "rx_search r s = rx_search_at r None s"

text \<open>\<open>pattern.finditer\<close> and \<open>pattern.sub\<close> for patterns that cannot match the empty text: the
  scan resumes where a match ended.\<close>

function rx_finditer_at :: "regex \<Rightarrow> char option \<Rightarrow> string \<Rightarrow> rx_state list" where
  "rx_finditer_at r b s = (case s of [] \<Rightarrow> [] | c # cs \<Rightarrow>
     (case rx_exec r b s of
        Some st \<Rightarrow> if length (rx_rest st) < length s then st # rx_finditer_at r (rx_before st) (rx_rest st)
                   else rx_finditer_at r (Some c) cs
      | None \<Rightarrow> rx_finditer_at r (Some c) cs))"
  by pat_completeness auto
termination
  by (relation "measure (\<lambda>(r, b, s). length s)") auto

declare rx_finditer_at.simps [simp del]

definition rx_finditer :: "regex \<Rightarrow> string \<Rightarrow> rx_state list" where
  "rx_finditer r s = rx_finditer_at r None s"

function rx_sub_at :: "regex \<Rightarrow> (rx_state \<Rightarrow> string) \<Rightarrow> char option \<Rightarrow> string \<Rightarrow> string" where
  "rx_sub_at r repl b s = (case s of [] \<Rightarrow> [] | c # cs \<Rightarrow>
     (case rx_exec r b s of
        Some st \<Rightarrow> if length (rx_rest st) < length s then repl st @ rx_sub_at r repl (rx_before st) (rx_rest st)
                   else c # rx_sub_at r repl (Some c) cs
      | None \<Rightarrow> c # rx_sub_at r repl (Some c) cs))"
  by pat_completeness auto
termination
  by (relation "measure (\<lambda>(r, repl, b, s). length s)") auto

declare rx_sub_at.simps [simp del]

definition rx_sub :: "regex \<Rightarrow> (rx_state \<Rightarrow> string) \<Rightarrow> string \<Rightarrow> string" where
  "rx_sub r repl s = rx_sub_at r repl None s"

section \<open>Pattern notation\<close>

definition rx_opt :: "regex \<Rightarrow> regex" where "rx_opt a = RxAlt a RxEps"
definition rx_plus :: "regex \<Rightarrow> regex" where "rx_plus a = RxSeq a (RxStar a)"

fun rx_upto :: "nat \<Rightarrow> regex \<Rightarrow> regex" where
  "rx_upto 0 a = RxEps"
| "rx_upto (Suc n) a = rx_opt (RxSeq a (rx_upto n a))"

fun rx_seq :: "regex list \<Rightarrow> regex" where
  "rx_seq [] = RxEps"
| "rx_seq [a] = a"
| "rx_seq (a # b # as) = RxSeq a (rx_seq (b # as))"

fun rx_lit :: "string \<Rightarrow> regex" where
  "rx_lit [] = RxEps"
| "rx_lit (c # s) = RxSeq (RxCls (\<lambda>x. x = c)) (rx_lit s)"

text \<open>A literal under \<open>(?i)\<close>.\<close>

fun rx_ilit :: "string \<Rightarrow> regex" where
  "rx_ilit [] = RxEps"
| "rx_ilit (c # s) = RxSeq (RxCls (\<lambda>x. to_lower x = to_lower c)) (rx_ilit s)"

fun rx_alts :: "regex list \<Rightarrow> regex" where
  "rx_alts [] = RxCls (\<lambda>c. False)"
| "rx_alts [a] = a"
| "rx_alts (a # b # as) = RxAlt a (rx_alts (b # as))"

abbreviation rx_ws :: regex where "rx_ws \<equiv> RxStar (RxCls is_space)"
abbreviation rx_chr :: "char \<Rightarrow> regex" where "rx_chr c \<equiv> RxCls (\<lambda>x. x = c)"
abbreviation rx_in :: "string \<Rightarrow> regex" where "rx_in cs \<equiv> RxCls (\<lambda>x. x \<in> set cs)"
abbreviation rx_out :: "string \<Rightarrow> regex" where "rx_out cs \<equiv> RxCls (\<lambda>x. x \<notin> set cs)"

section \<open>A match consumes a leading part of the text\<close>

definition rx_reaches :: "rx_state \<Rightarrow> rx_state \<Rightarrow> bool" where
  "rx_reaches st st1 \<longleftrightarrow> (\<exists>p. rx_rest st = p @ rx_rest st1)"

lemma rx_reaches_refl [simp]: "rx_reaches st st"
  by (simp add: rx_reaches_def)

lemma rx_reaches_trans: "rx_reaches a b \<Longrightarrow> rx_reaches b c \<Longrightarrow> rx_reaches a c"
  by (auto simp: rx_reaches_def)

lemma rx_reaches_length: "rx_reaches a b \<Longrightarrow> length (rx_rest b) \<le> length (rx_rest a)"
  by (auto simp: rx_reaches_def)

lemma rx_skip_reaches: "rx_reaches st (rx_skip n st)"
  unfolding rx_reaches_def rx_skip_def
  by (rule exI [of _ "take n (rx_rest st)"]) simp

lemma rx_iter_reaches:
  assumes f: "\<And>st st1. st1 \<in> set (f st) \<Longrightarrow> rx_reaches st st1"
  shows "st1 \<in> set (rx_star_iter f n st) \<Longrightarrow> rx_reaches st st1"
    and "st1 \<in> set (rx_lazy_iter f n st) \<Longrightarrow> rx_reaches st st1"
proof -
  have "rx_reaches st st1" if "x \<in> set (f st)" "rx_reaches x st1" for x st using f that rx_reaches_trans by blast
  then show "st1 \<in> set (rx_star_iter f n st) \<Longrightarrow> rx_reaches st st1" "st1 \<in> set (rx_lazy_iter f n st) \<Longrightarrow> rx_reaches st st1"
    by (induction n arbitrary: st) (auto split: if_splits)
qed

lemma rx_all_reaches: "st1 \<in> set (rx_all r st) \<Longrightarrow> rx_reaches st st1"
proof (induction r arbitrary: st st1)
  case (RxCls P)
  then show ?case by (cases "rx_rest st") (auto simp: rx_reaches_def split: if_splits)
next
  case (RxSeq a b)
  then show ?case using rx_reaches_trans by fastforce
next
  case (RxStar r)
  then show ?case using rx_iter_reaches(1) [of "rx_all r"] by simp
next
  case (RxLazy r)
  then show ?case using rx_iter_reaches(2) [of "rx_all r"] by simp
next
  case (RxGroup n r)
  then show ?case by (fastforce simp: rx_reaches_def)
next
  case (RxRef n)
  then show ?case using rx_skip_reaches by (auto split: option.splits if_splits)
qed (auto simp: rx_reaches_def Let_def split: list.splits option.splits if_splits)

section \<open>Matching literals and runs of a class\<close>

lemma rx_skip_simps [simp]:
  "rx_skip 0 st = st" "rx_rest (rx_skip n st) = drop n (rx_rest st)" "rx_groups (rx_skip n st) = rx_groups st"
  by (simp_all add: rx_skip_def)

lemma rx_skip_Suc:
  assumes "rx_rest st = c # cs" and "i \<le> length cs"
  shows "rx_skip i (st\<lparr>rx_before := Some c, rx_rest := cs\<rparr>) = rx_skip (Suc i) st"
  using assms by (cases i; cases cs) (auto simp: rx_skip_def)

lemma rx_skip_add:
  assumes "i + j \<le> length (rx_rest st)"
  shows "rx_skip j (rx_skip i st) = rx_skip (i + j) st"
proof (cases "i = 0 \<or> j = 0")
  case False
  then have "last (take (i + j) (rx_rest st)) = last (take j (drop i (rx_rest st)))"
    using assms by (simp add: take_add last_append)
  with False show ?thesis by (simp add: rx_skip_def add.commute)
qed auto

lemma rx_all_lit: "rx_all (rx_lit s) st = (if starts_with (rx_rest st) s then [rx_skip (length s) st] else [])"
proof (induction s arbitrary: st)
  case (Cons c s)
  show ?case
  proof (cases "rx_rest st")
    case (Cons d cs)
    with Cons.IH [of "st\<lparr>rx_before := Some d, rx_rest := cs\<rparr>"] rx_skip_Suc [OF Cons, of "length s"] show ?thesis
      by (auto simp: starts_with_iff)
  qed simp
qed simp

lemma starts_with_length: "starts_with s p \<Longrightarrow> length p \<le> length s"
  by (auto simp: starts_with_iff)

lemma py_lower_simps [simp]: "py_lower [] = []" "py_lower (c # s) = to_lower c # py_lower s"
  "py_lower (s @ t) = py_lower s @ py_lower t" "length (py_lower s) = length s"
  by (simp_all add: py_lower_def)

lemma rx_all_ilit:
  "rx_all (rx_ilit s) st = (if starts_with (py_lower (rx_rest st)) (py_lower s) then [rx_skip (length s) st] else [])"
proof (induction s arbitrary: st)
  case (Cons c s)
  show ?case
  proof (cases "rx_rest st")
    case (Cons d cs)
    have "length s \<le> length cs" if "starts_with (py_lower cs) (py_lower s)"
      using starts_with_length [OF that] by simp
    with Cons Cons.IH [of "st\<lparr>rx_before := Some d, rx_rest := cs\<rparr>"] rx_skip_Suc [OF Cons, of "length s"] show ?thesis
      by auto
  qed simp
qed simp

lemma rx_star_iter_cls:
  assumes "rx_rest st = v @ w" and "\<forall>c \<in> set v. P c" and "w = [] \<or> \<not> P (hd w)" and "length v + length w \<le> n"
  shows "rx_star_iter (rx_all (RxCls P)) n st = map (\<lambda>i. rx_skip i st) (rev [0..<Suc (length v)])"
    and "rx_lazy_iter (rx_all (RxCls P)) n st = map (\<lambda>i. rx_skip i st) [0..<Suc (length v)]"
  using assms
proof (induction v arbitrary: st n)
  case Nil
  { case 1
    then show ?case by (cases n; cases w) auto
  next
    case 2
    then show ?case by (cases n; cases w) auto }
next
  case (Cons c v)
  have shift: "map (\<lambda>i. rx_skip i (st\<lparr>rx_before := Some c, rx_rest := v @ w\<rparr>)) [0..<Suc (length v)]
      = map (\<lambda>i. rx_skip i st) [Suc 0..<Suc (Suc (length v))]"
    if "rx_rest st = (c # v) @ w" for st
  proof -
    have "map (\<lambda>i. rx_skip i (st\<lparr>rx_before := Some c, rx_rest := v @ w\<rparr>)) [0..<Suc (length v)]
        = map (\<lambda>i. rx_skip (Suc i) st) [0..<Suc (length v)]"
      by (rule map_cong) (use that in \<open>auto intro!: rx_skip_Suc\<close>)
    then show ?thesis by (simp only: map_Suc_upt [symmetric] map_map comp_def)
  qed
  have step: "rx_all (RxCls P) st = [st\<lparr>rx_before := Some c, rx_rest := v @ w\<rparr>]"
    if "rx_rest st = (c # v) @ w" "\<forall>d \<in> set (c # v). P d" for st
    using that by simp
  { case 1
    then obtain m where n: "n = Suc m" by (cases n) auto
    with 1 step [OF 1(1,2)] Cons.IH(1) [of "st\<lparr>rx_before := Some c, rx_rest := v @ w\<rparr>" m]
    have "rx_star_iter (rx_all (RxCls P)) n st
        = rev (map (\<lambda>i. rx_skip i (st\<lparr>rx_before := Some c, rx_rest := v @ w\<rparr>)) [0..<Suc (length v)]) @ [st]"
      by (simp add: rev_map del: rx_all.simps)
    also have "\<dots> = rev (map (\<lambda>i. rx_skip i st) (0 # [Suc 0..<Suc (Suc (length v))]))"
      using shift [OF 1(1)] by (simp only: rev.simps list.map rx_skip_simps)
    finally show ?case by (simp only: rev_map length_Cons upt_conv_Cons [of 0, symmetric] zero_less_Suc)
  next
    case 2
    then obtain m where n: "n = Suc m" by (cases n) auto
    with 2 step [OF 2(1,2)] Cons.IH(2) [of "st\<lparr>rx_before := Some c, rx_rest := v @ w\<rparr>" m]
    have "rx_lazy_iter (rx_all (RxCls P)) n st
        = st # map (\<lambda>i. rx_skip i (st\<lparr>rx_before := Some c, rx_rest := v @ w\<rparr>)) [0..<Suc (length v)]"
      by (simp del: rx_all.simps)
    also have "\<dots> = map (\<lambda>i. rx_skip i st) (0 # [Suc 0..<Suc (Suc (length v))])"
      using shift [OF 2(1)] by (simp only: list.map rx_skip_simps)
    finally show ?case by (simp only: length_Cons upt_conv_Cons [of 0, symmetric] zero_less_Suc) }
qed

lemma rx_cls_step: "st1 \<in> set (rx_all (RxCls P) st) \<Longrightarrow> \<exists>c. rx_rest st = c # rx_rest st1 \<and> P c"
  by (cases "rx_rest st") (auto split: if_splits)

lemma rx_star_cls_run:
  assumes "st1 \<in> set (rx_all (RxStar (RxCls P)) st)"
  shows "\<exists>h. rx_rest st = h @ rx_rest st1 \<and> (\<forall>c \<in> set h. P c)"
proof -
  have iter: "st1 \<in> set (rx_star_iter f n st) \<Longrightarrow> \<exists>h. rx_rest st = h @ rx_rest st1 \<and> (\<forall>c \<in> set h. P c)"
    if f: "\<And>st st1. st1 \<in> set (f st) \<Longrightarrow> \<exists>c. rx_rest st = c # rx_rest st1 \<and> P c" for f n
  proof (induction n arbitrary: st)
    case (Suc n)
    then consider "st1 = st" | x where "x \<in> set (f st)" "st1 \<in> set (rx_star_iter f n x)"
      by (auto split: if_splits)
    then show ?case
    proof cases
      case 2
      from Suc.IH [OF 2(2)] f [OF 2(1)] show ?thesis by (auto intro: exI [of _ "_ # _"])
    qed simp
  qed simp
  show ?thesis
    by (rule iter [of "rx_all (RxCls P)" "length (rx_rest st)", OF rx_cls_step]) (use assms in simp_all)
qed

lemma rx_exec_mem: "rx_exec r b s = Some x \<Longrightarrow> x \<in> set (rx_all r \<lparr>rx_before = b, rx_rest = s, rx_groups = []\<rparr>)"
  by (auto simp: rx_exec_def split: list.splits)

lemma to_lower_below:
  assumes "n < 65"
  shows "(of_char (to_lower x) :: nat) = n \<longleftrightarrow> (of_char x :: nat) = n"
proof (cases "to_lower x = x")
  case False
  then have "(of_char (to_lower x) :: nat) = of_char x + 32" "65 \<le> (of_char x :: nat)"
    by (auto simp: to_lower_def Let_def split: if_splits)
  with assms show ?thesis by simp
qed simp

section \<open>Reasoning about the first match\<close>

text \<open>From remaining text \<open>s\<close> and groups \<open>g\<close> the first match leaves \<open>s'\<close> and \<open>g'\<close>, whatever came
  before; and the pattern cannot match there at all.\<close>

definition rx_goes :: "regex \<Rightarrow> string \<Rightarrow> (nat \<times> string) list \<Rightarrow> string \<Rightarrow> (nat \<times> string) list \<Rightarrow> bool" where
  "rx_goes r s g s' g' \<longleftrightarrow> (\<forall>st. rx_rest st = s \<longrightarrow> rx_groups st = g \<longrightarrow>
     (\<exists>x xs. rx_all r st = x # xs \<and> rx_rest x = s' \<and> rx_groups x = g'))"

definition rx_fails :: "regex \<Rightarrow> string \<Rightarrow> (nat \<times> string) list \<Rightarrow> bool" where
  "rx_fails r s g \<longleftrightarrow> (\<forall>st. rx_rest st = s \<longrightarrow> rx_groups st = g \<longrightarrow> rx_all r st = [])"

lemma rx_goes_seq: "rx_goes a s g s1 g1 \<Longrightarrow> rx_goes b s1 g1 s2 g2 \<Longrightarrow> rx_goes (RxSeq a b) s g s2 g2"
  unfolding rx_goes_def by fastforce

lemma rx_goes_eps: "rx_goes RxEps s g s g"
  by (simp add: rx_goes_def)

lemma rx_goes_cls: "P c \<Longrightarrow> rx_goes (RxCls P) (c # s) g s g"
  by (auto simp: rx_goes_def)

lemma rx_goes_lit: "rx_goes (rx_lit l) (l @ s) g s g"
  by (auto simp: rx_goes_def rx_all_lit)

lemma rx_goes_star:
  assumes "\<forall>c \<in> set v. P c" and "w = [] \<or> \<not> P (hd w)"
  shows "rx_goes (RxStar (RxCls P)) (v @ w) g w g"
  unfolding rx_goes_def
proof (intro allI impI)
  fix st :: rx_state assume st: "rx_rest st = v @ w" "rx_groups st = g"
  then show "\<exists>x xs. rx_all (RxStar (RxCls P)) st = x # xs \<and> rx_rest x = w \<and> rx_groups x = g"
    using rx_star_iter_cls(1) [OF st(1) assms, of "length (rx_rest st)"] by (simp del: rx_all.simps(2))
qed

lemma rx_goes_group:
  assumes "rx_goes r (v @ s') g s' g'"
  shows "rx_goes (RxGroup n r) (v @ s') g s' ((n, v) # g')"
  using assms unfolding rx_goes_def by fastforce

lemma rx_goes_lazy:
  assumes "\<forall>c \<in> set v. P c" and "w = [] \<or> \<not> P (hd w)" and "k \<le> length v"
    and "\<And>i. i < k \<Longrightarrow> rx_fails b (drop i (v @ w)) ((n, take i v) # g)"
    and "rx_goes b (drop k (v @ w)) ((n, take k v) # g) s' g'"
  shows "rx_goes (RxSeq (RxGroup n (RxLazy (RxCls P))) b) (v @ w) g s' g'"
  unfolding rx_goes_def
proof (intro allI impI)
  fix st :: rx_state assume st: "rx_rest st = v @ w" "rx_groups st = g"
  define f where "f i = (rx_skip i st)\<lparr>rx_groups := (n, take (length (rx_rest st) - length (rx_rest (rx_skip i st))) (rx_rest st)) # g\<rparr>" for i
  have all: "rx_all (RxGroup n (RxLazy (RxCls P))) st = map f [0..<Suc (length v)]"
    using rx_star_iter_cls(2) [OF st(1) assms(1,2), of "length (rx_rest st)"] st
    by (simp add: f_def del: rx_all.simps(2) upt_Suc)
  have f: "rx_rest (f i) = drop i (v @ w) \<and> rx_groups (f i) = (n, take i v) # g" if "i \<le> length v" for i
    using that st by (simp add: f_def)
  have "rx_all b (f i) = []" if "i < k" for i
    using assms(4) [OF that] f [of i] that assms(3) by (auto simp: rx_fails_def)
  then have pre: "concat (map (rx_all b) (map f [0..<k])) = []" by simp
  obtain x xs where x: "rx_all b (f k) = x # xs" "rx_rest x = s'" "rx_groups x = g'"
    using assms(5) f [OF assms(3)] unfolding rx_goes_def by blast
  have "[0..<Suc (length v)] = [0..<k] @ k # [Suc k..<Suc (length v)]"
    using assms(3) by (metis Suc_leI le_add_same_cancel1 le_imp_less_Suc upt_add_eq_append upt_conv_Cons zero_le le_add_diff_inverse less_imp_le)
  then have "concat (map (rx_all b) (map f [0..<Suc (length v)]))
      = concat (map (rx_all b) (map f [0..<k])) @ rx_all b (f k) @ concat (map (rx_all b) (map f [Suc k..<Suc (length v)]))"
    by (simp only: map_append concat_append list.map concat.simps)
  then have "rx_all (RxSeq (RxGroup n (RxLazy (RxCls P))) b) st
      = x # xs @ concat (map (rx_all b) (map f [Suc k..<Suc (length v)]))"
    unfolding rx_all.simps(3) all pre x(1) by simp
  with x show "\<exists>x xs. rx_all (RxSeq (RxGroup n (RxLazy (RxCls P))) b) st = x # xs \<and> rx_rest x = s' \<and> rx_groups x = g'"
    by blast
qed

lemma rx_fails_seq: "rx_fails a s g \<Longrightarrow> rx_fails (RxSeq a b) s g"
  by (simp add: rx_fails_def)

lemma rx_fails_lit: "\<not> starts_with s l \<Longrightarrow> rx_fails (rx_lit l) s g"
  by (simp add: rx_fails_def rx_all_lit)

lemma rx_exec_goes: "rx_goes r s [] s' g' \<Longrightarrow> \<exists>x. rx_exec r b s = Some x \<and> rx_rest x = s' \<and> rx_groups x = g'"
  unfolding rx_goes_def rx_exec_def
  by (drule spec [of _ "\<lparr>rx_before = b, rx_rest = s, rx_groups = []\<rparr>"]) auto

lemma rx_exec_fails: "rx_fails r s [] \<Longrightarrow> rx_exec r b s = None"
  by (simp add: rx_fails_def rx_exec_def)

text \<open>Searching and scanning skip the text in which no match starts.\<close>

lemma rx_search_skip:
  assumes "\<And>i. i < length pre \<Longrightarrow> rx_fails r (drop i (pre @ s)) []" and "rx_goes r s [] s' g'"
  shows "\<exists>x. rx_search_at r b (pre @ s) = Some x \<and> rx_rest x = s' \<and> rx_groups x = g'"
  using assms(1)
proof (induction pre arbitrary: b)
  case Nil
  then show ?case using rx_exec_goes [OF assms(2), of b] by (subst rx_search_at.simps) auto
next
  case (Cons c pre)
  have "rx_exec r b ((c # pre) @ s) = None" using Cons.prems [of 0] by (intro rx_exec_fails) simp
  moreover have "\<exists>x. rx_search_at r (Some c) (pre @ s) = Some x \<and> rx_rest x = s' \<and> rx_groups x = g'"
    by (rule Cons.IH) (use Cons.prems [of "Suc _"] in simp)
  ultimately show ?case by (subst rx_search_at.simps) simp
qed

lemma rx_search_none:
  assumes "\<And>i. i \<le> length s \<Longrightarrow> rx_fails r (drop i s) []"
  shows "rx_search_at r b s = None"
  using assms
proof (induction s arbitrary: b)
  case Nil
  then show ?case using rx_exec_fails [of r "[]" b] by (subst rx_search_at.simps) simp
next
  case (Cons c s)
  have "rx_exec r b (c # s) = None" using Cons.prems [of 0] by (intro rx_exec_fails) simp
  moreover have "rx_search_at r (Some c) s = None" by (rule Cons.IH) (use Cons.prems [of "Suc _"] in simp)
  ultimately show ?case by (subst rx_search_at.simps) simp
qed

lemma rx_finditer_skip:
  assumes "\<And>i. i < length pre \<Longrightarrow> rx_fails r (drop i (pre @ s)) []"
  shows "\<exists>b'. rx_finditer_at r b (pre @ s) = rx_finditer_at r b' s"
  using assms
proof (induction pre arbitrary: b)
  case (Cons c pre)
  have "rx_exec r b (c # pre @ s) = None" using Cons.prems [of 0] by (intro rx_exec_fails) simp
  moreover have "\<exists>b'. rx_finditer_at r (Some c) (pre @ s) = rx_finditer_at r b' s"
    by (rule Cons.IH) (use Cons.prems [of "Suc _"] in simp)
  ultimately show ?case by (simp add: rx_finditer_at.simps [of r b "c # pre @ s"])
qed auto

lemma rx_finditer_hit:
  assumes "rx_goes r s [] s' g'" and "length s' < length s"
  shows "\<exists>x b'. rx_finditer_at r b s = x # rx_finditer_at r b' s' \<and> rx_groups x = g'"
proof -
  obtain x where "rx_exec r b s = Some x" "rx_rest x = s'" "rx_groups x = g'"
    using rx_exec_goes [OF assms(1)] by blast
  with assms(2) show ?thesis by (cases s) (auto simp: rx_finditer_at.simps [of r b "_ # _"])
qed

end
