(* ===== verification/Ikvm_Errors.thy ===== *)
theory Ikvm_Errors
  imports Py_Regex "HOL-Library.Sublist"
begin

text \<open>
  \<open>plugins/module_utils/errors.py\<close>: the stable failure classes, the exception every module
  hands to \<open>fail_json\<close>, and secret redaction in its three stages: literal secrets,
  \<open>_REDACTION_PATTERNS\<close> applied with \<open>re.sub\<close>, and the length bound. The type \<open>exn\<close> is what the
  functions of the other components can raise.
\<close>

section \<open>Failure classes\<close>

datatype error_class =
    CONNECTION | TLS_VALIDATION | AUTHENTICATION | UNSUPPORTED_CAPABILITY | INVALID_STATE
  | TIMEOUT | PROTOCOL | REMOTE_OPERATION | IDENTITY_MISMATCH | BMC_BUSY

fun error_class_str :: "error_class \<Rightarrow> string" where
  "error_class_str CONNECTION = ''connection''"
| "error_class_str TLS_VALIDATION = ''tls_validation''"
| "error_class_str AUTHENTICATION = ''authentication''"
| "error_class_str UNSUPPORTED_CAPABILITY = ''unsupported_capability''"
| "error_class_str INVALID_STATE = ''invalid_state''"
| "error_class_str TIMEOUT = ''timeout''"
| "error_class_str PROTOCOL = ''protocol''"
| "error_class_str REMOTE_OPERATION = ''remote_operation''"
| "error_class_str IDENTITY_MISMATCH = ''identity_mismatch''"
| "error_class_str BMC_BUSY = ''bmc_busy''"

definition error_class_ALL :: "error_class list" where
  "error_class_ALL = [CONNECTION, TLS_VALIDATION, AUTHENTICATION, UNSUPPORTED_CAPABILITY,
     INVALID_STATE, TIMEOUT, PROTOCOL, REMOTE_OPERATION, IDENTITY_MISMATCH, BMC_BUSY]"

text \<open>The exception types are in one-to-one correspondence with the classes, so
  \<open>ERROR_CLASS_TO_EXCEPTION\<close> maps a class string back to the class.\<close>

definition ERROR_CLASS_TO_EXCEPTION :: "string \<rightharpoonup> error_class" where
  "ERROR_CLASS_TO_EXCEPTION = map_of (map (\<lambda>c. (error_class_str c, c)) error_class_ALL)"

section \<open>Exceptions\<close>

text \<open>What an \<open>IkvmError\<close> carries besides its text, and the exceptions of the modelled code.
  The constructors after \<open>Ikvm\<close> are Python's built-in exceptions and the two private
  markers of \<open>iusb.py\<close>.\<close>

record ikvm_error =
  error_class :: error_class
  endpoint :: "string option"
  operation :: "string option"
  indeterminate :: bool
  return_value :: "int option"

datatype exn =
    Ikvm ikvm_error
  | IdleTimeout
  | EOFError
  | CacheReadOnlyError
  | ValueError
  | OverflowError
  | UnicodeEncodeError
  | ZeroDivisionError
  | AssertionError
  | OSError
  | FileNotFoundError
  | IsADirectoryError
  | RequestException
  | TypeError
  | KeyError
  | PermissionError
  | RuntimeError

definition raises :: "error_class \<Rightarrow> string \<Rightarrow> string option \<Rightarrow> exn" where
  "raises cls op ep = Ikvm \<lparr>error_class = cls, endpoint = ep, operation = Some op,
     indeterminate = False, return_value = None\<rparr>"

definition ProtocolError :: "string \<Rightarrow> exn" where
  "ProtocolError op = raises PROTOCOL op None"

definition ConnectionErr :: "string \<Rightarrow> exn" where
  "ConnectionErr op = raises CONNECTION op None"

section \<open>Redaction\<close>

definition MAX_DIAGNOSTIC_BYTES :: nat where
  "MAX_DIAGNOSTIC_BYTES = 2048"

definition REDACTED :: string where
  "REDACTED = ''[REDACTED]''"

text \<open>\<open>extra_secrets\<close> is absent, one literal (a string, decoded bytes, or any non-iterable
  value stringified), or an iterable whose \<open>None\<close> items are skipped.\<close>

datatype extra_secrets = NoSecrets | OneSecret string | ManySecrets "string option list"

fun secret_list :: "extra_secrets \<Rightarrow> string list" where
  "secret_list NoSecrets = []"
| "secret_list (OneSecret s) = [s]"
| "secret_list (ManySecrets xs) = map the (filter (\<lambda>x. x \<noteq> None) xs)"

text \<open>\<open>sorted({s for s in secrets if s}, key=len, reverse=True)\<close>.\<close>

definition secrets_longest_first :: "string list \<Rightarrow> string list" where
  "secrets_longest_first xs =
     sort_key (\<lambda>s. - int (length s)) (remdups (filter (\<lambda>s. s \<noteq> []) xs))"

definition replace_secrets :: "string list \<Rightarrow> string \<Rightarrow> string" where
  "replace_secrets xs text = fold (\<lambda>secret r. replace secret REDACTED r) (secrets_longest_first xs) text"

definition truncate_text :: "string \<Rightarrow> string" where
  "truncate_text r = (if length r > MAX_DIAGNOSTIC_BYTES
     then take MAX_DIAGNOSTIC_BYTES r @ ''... [truncated, ''
            @ str_nat (length r - MAX_DIAGNOSTIC_BYTES) @ '' more characters]''
     else r)"

definition AMI_SECRET_NAMES :: "string list" where
  "AMI_SECRET_NAMES = [''SESSION_COOKIE'', ''SessionCookie'', ''STOKEN'', ''kvmtoken'', ''webcookie'',
     ''WEBVAR_PASSWORD'', ''CSRFTOKEN'']"

definition QUOTES :: string where "QUOTES = [CHR 0x27, CHR 0x22]"
definition CRLF :: string where "CRLF = [CHR 0x0D, CHR 0x0A]"

text \<open>Sub-patterns: the credential headers, \<open>\s*[:=]\s*\<close>, an optional quote, and the element-name class.\<close>

definition rx_headers :: regex where
  "rx_headers = rx_alts (map rx_ilit [''authorization'', ''proxy-authorization'', ''set-cookie'', ''cookie''])"

definition rx_assign :: regex where "rx_assign = rx_seq [rx_ws, rx_in '':='', rx_ws]"
definition rx_colon :: regex where "rx_colon = rx_seq [rx_ws, rx_chr (CHR '':''), rx_ws]"
definition rx_quote_opt :: regex where "rx_quote_opt = rx_opt (rx_in QUOTES)"

definition is_ascii_alpha :: "char \<Rightarrow> bool" where
  "is_ascii_alpha c \<longleftrightarrow> (let n = of_char c :: nat in (65 \<le> n \<and> n \<le> 90) \<or> (97 \<le> n \<and> n \<le> 122))"

lemma is_ascii_alpha_code [code]: "is_ascii_alpha c \<longleftrightarrow> (let n = of_char c :: integer in (65 \<le> n \<and> n \<le> 90) \<or> (97 \<le> n \<and> n \<le> 122))"
  unfolding is_ascii_alpha_def Let_def char_le ..

abbreviation rx_name_class :: regex where
  "rx_name_class \<equiv> RxStar (RxCls (\<lambda>c. is_ascii_alpha c \<or> is_digit c \<or> c \<in> set ''_:.-''))"

definition QUOTED_HEADER_PATTERN :: regex where
  "QUOTED_HEADER_PATTERN = rx_seq [RxWordB, RxGroup 1 rx_headers,
     RxGroup 2 (RxSeq (rx_upto 3 (RxCls (\<lambda>c. \<not> is_word c))) rx_assign), RxGroup 3 (rx_in QUOTES),
     RxStar (RxSeq (RxNotAhead (RxRef 3)) (RxCls (\<lambda>c. c \<noteq> CHR 0x0A))), RxRef 3]"

definition LINE_HEADER_PATTERN :: regex where
  "LINE_HEADER_PATTERN = rx_seq [RxBol, RxGroup 1 rx_ws, RxGroup 2 rx_headers, RxGroup 3 rx_colon, rx_plus (rx_out CRLF)]"

definition HEADER_PATTERN :: regex where
  "HEADER_PATTERN = rx_seq [RxWordB, RxGroup 1 rx_headers, RxGroup 2 rx_colon, rx_plus (rx_out CRLF)]"

definition ami_value_char :: "char \<Rightarrow> bool" where
  "ami_value_char c \<longleftrightarrow> \<not> is_space c \<and> c \<notin> set ('',;&}<'' @ QUOTES)"

definition AMI_PATTERN :: regex where
  "AMI_PATTERN = rx_seq [RxGroup 1 rx_quote_opt, RxGroup 2 (rx_alts (map rx_ilit AMI_SECRET_NAMES)), RxRef 1,
     RxGroup 3 rx_assign, RxGroup 4 rx_quote_opt, RxStar (RxCls ami_value_char), RxRef 4]"

definition GENERIC_PATTERN :: regex where
  "GENERIC_PATTERN = rx_seq [RxWordB,
     RxGroup 1 (rx_alts (map rx_ilit [''password'', ''passwd'', ''pwd'', ''secret'', ''passphrase'']
       @ [rx_seq [rx_ilit ''api'', rx_opt (rx_in ''_-''), rx_ilit ''key''], rx_ilit ''token'', rx_ilit ''apikey''])),
     RxGroup 2 (RxSeq rx_quote_opt rx_assign), RxGroup 3 rx_quote_opt,
     RxStar (RxCls (\<lambda>c. \<not> is_space c \<and> c \<notin> set ('',;&}'' @ QUOTES))), RxRef 3]"

definition XML_PATTERN :: regex where
  "XML_PATTERN = rx_seq [rx_lit ''<'',
     RxGroup 1 (rx_seq [rx_name_class, rx_alts (map rx_ilit [''password'', ''secret'', ''passphrase'', ''token'', ''key'']), rx_name_class]),
     rx_lit ''>'', RxLazy (RxCls (\<lambda>c. True)), rx_lit ''</'', RxRef 1, rx_lit ''>'']"

definition URL_PATTERN :: regex where
  "URL_PATTERN = rx_seq [RxWordB,
     RxGroup 1 (rx_seq [RxCls is_ascii_alpha, RxStar (RxCls (\<lambda>c. is_ascii_alpha c \<or> is_digit c \<or> c \<in> set ''+.-'')), rx_lit ''://'']),
     RxGroup 2 (rx_plus (RxCls (\<lambda>c. \<not> is_space c \<and> c \<notin> set ''/:@''))), rx_chr (CHR '':''),
     RxGroup 3 (rx_plus (RxCls (\<lambda>c. \<not> is_space c \<and> c \<notin> set ''/@''))), rx_chr (CHR ''@'')]"

text \<open>\<open>_REDACTION_PATTERNS\<close>: each pattern with its replacement, applied in order.\<close>

definition REDACTION_PATTERNS :: "(regex \<times> (rx_state \<Rightarrow> string)) list" where
  "REDACTION_PATTERNS = [
     (QUOTED_HEADER_PATTERN, \<lambda>m. rx_group 1 m @ rx_group 2 m @ rx_group 3 m @ REDACTED @ rx_group 3 m),
     (LINE_HEADER_PATTERN, \<lambda>m. rx_group 1 m @ rx_group 2 m @ rx_group 3 m @ REDACTED),
     (HEADER_PATTERN, \<lambda>m. rx_group 1 m @ rx_group 2 m @ REDACTED),
     (AMI_PATTERN, \<lambda>m. rx_group 1 m @ rx_group 2 m @ rx_group 1 m @ rx_group 3 m @ rx_group 4 m @ REDACTED @ rx_group 4 m),
     (GENERIC_PATTERN, \<lambda>m. rx_group 1 m @ rx_group 2 m @ rx_group 3 m @ REDACTED @ rx_group 3 m),
     (XML_PATTERN, \<lambda>m. ''<'' @ rx_group 1 m @ ''>'' @ REDACTED @ ''</'' @ rx_group 1 m @ ''>''),
     (URL_PATTERN, \<lambda>m. rx_group 1 m @ rx_group 2 m @ '':'' @ REDACTED @ ''@'')]"

definition sub_patterns :: "string \<Rightarrow> string" where
  "sub_patterns text = fold (\<lambda>(pattern, replacement) r. rx_sub pattern replacement r) REDACTION_PATTERNS text"

definition redact :: "string option \<Rightarrow> extra_secrets \<Rightarrow> string" where
  "redact text secrets = (case text of None \<Rightarrow> []
     | Some t \<Rightarrow> truncate_text (sub_patterns (replace_secrets (secret_list secrets) t)))"

section \<open>The exception object\<close>

record ikvm_exception = ikvm_error +
  message :: string
  diagnostic :: "string option"

definition ikvm_error_init ::
  "error_class \<Rightarrow> string \<Rightarrow> string option \<Rightarrow> string option \<Rightarrow>
   string option \<Rightarrow> extra_secrets \<Rightarrow> bool \<Rightarrow> int option \<Rightarrow> ikvm_exception" where
  "ikvm_error_init cls msg ep op diag secrets indet rv =
     \<lparr>error_class = cls, endpoint = ep, operation = op, indeterminate = indet, return_value = rv,
      message = redact (Some msg) secrets,
      diagnostic = (case diag of None \<Rightarrow> None | Some d \<Rightarrow> Some (redact (Some d) secrets))\<rparr>"

definition to_result :: "ikvm_exception \<Rightarrow> (string \<times> pyval) list" where
  "to_result e =
     [(''msg'', PStr (message e)), (''error_class'', PStr (error_class_str (error_class e)))]
     @ (case endpoint e of None \<Rightarrow> [] | Some v \<Rightarrow> [(''endpoint'', PStr v)])
     @ (case operation e of None \<Rightarrow> [] | Some v \<Rightarrow> [(''operation'', PStr v)])
     @ (case diagnostic e of None \<Rightarrow> [] | Some v \<Rightarrow> if v = [] then [] else [(''diagnostic'', PStr v)])
     @ (case return_value e of None \<Rightarrow> [] | Some v \<Rightarrow> [(''return_value'', PInt v)])
     @ (if indeterminate e then [(''indeterminate'', PBool True)] else [])"

section \<open>Facts\<close>

lemma error_class_ALL_complete: "set error_class_ALL = UNIV"
proof -
  have "c \<in> set error_class_ALL" for c by (cases c) (simp_all add: error_class_ALL_def)
  then show ?thesis by auto
qed

lemma error_class_str_inj: "error_class_str a = error_class_str b \<Longrightarrow> a = b"
  by (cases a; cases b) simp_all

lemma sublist_append_disjoint:
  assumes "sublist s (a @ b)" and "set s \<inter> set a = {}" and "s \<noteq> []"
  shows "sublist s b"
  using assms
proof (induction a)
  case Nil
  then show ?case by simp
next
  case (Cons x a)
  obtain c s' where s: "s = c # s'" using Cons.prems(3) by (cases s) auto
  from Cons.prems have "c \<noteq> x" by (auto simp: s)
  then have "\<not> prefix s (x # a @ b)" by (simp add: s)
  with Cons.prems(1) have "sublist s (a @ b)" by (auto simp: sublist_Cons_right)
  with Cons show ?case by auto
qed

lemma prefix_replace:
  "prefix s (replace old new t) \<Longrightarrow> set s \<inter> set new = {} \<Longrightarrow> new \<noteq> [] \<Longrightarrow> prefix s t"
proof (induction old new t arbitrary: s rule: replace.induct)
  case (1 old new t)
  show ?case
  proof (cases s)
    case Nil
    then show ?thesis by simp
  next
    case s: (Cons c s')
    show ?thesis
    proof (cases t)
      case Nil
      with 1(3) s show ?thesis by simp
    next
      case t: (Cons d t')
      show ?thesis
      proof (cases "old \<noteq> [] \<and> starts_with t old")
        case True
        then have "replace old new t = new @ replace old new (drop (length old) t)"
          by (simp add: replace_match)
        with 1(3,4,5) s show ?thesis by (cases new) auto
      next
        case False
        then have "replace old new t = d # replace old new t'"
          using t by (simp add: replace_step)
        with 1 s t False show ?thesis by auto
      qed
    qed
  qed
qed

lemma sublist_replace:
  assumes "set s \<inter> set new = {}" and "new \<noteq> []" and "s \<noteq> []"
  shows "sublist s (replace old new t) \<Longrightarrow> sublist s t"
  using assms
proof (induction old new t rule: replace.induct)
  case (1 old new t)
  show ?case
  proof (cases t)
    case Nil
    with 1(3) 1(6) show ?thesis by simp
  next
    case t: (Cons d t')
    show ?thesis
    proof (cases "old \<noteq> [] \<and> starts_with t old")
      case True
      then have "replace old new t = new @ replace old new (drop (length old) t)"
        by (simp add: replace_match)
      with 1(3,4,6) have "sublist s (replace old new (drop (length old) t))"
        by (metis sublist_append_disjoint)
      with 1 t True have "sublist s (drop (length old) t)" by simp
      then show ?thesis by (meson sublist_drop sublist_order.order_trans)
    next
      case False
      then have r: "replace old new t = d # replace old new t'"
        using t by (simp add: replace_step)
      show ?thesis
      proof (cases "prefix s (replace old new t)")
        case True
        then have "prefix s t" using 1(4,5) by (rule prefix_replace)
        then show ?thesis by auto
      next
        case F: False
        with r 1(3) have "sublist s (replace old new t')" by (simp add: sublist_Cons_right)
        with 1 t False have "sublist s t'" by simp
        then show ?thesis by (simp add: t sublist_Cons_right)
      qed
    qed
  qed
qed

lemma replace_removes:
  assumes "set s \<inter> set new = {}" and "new \<noteq> []" and "s \<noteq> []"
  shows "\<not> sublist s (replace s new t)"
  using assms
proof (induction s new t rule: replace.induct)
  case (1 s new t)
  show ?case
  proof (cases t)
    case Nil
    with 1(5) show ?thesis by simp
  next
    case t: (Cons d t')
    show ?thesis
    proof (cases "starts_with t s")
      case True
      then have r: "replace s new t = new @ replace s new (drop (length s) t)"
        using 1(5) by (simp add: replace_match)
      have "\<not> sublist s (replace s new (drop (length s) t))"
        using 1 t True by simp
      then show ?thesis using r 1(3,5) by (metis sublist_append_disjoint)
    next
      case False
      then have r: "replace s new t = d # replace s new t'"
        using t by (simp add: replace_step)
      have "\<not> prefix s (replace s new t)"
        using prefix_replace [of s s new t] 1(3,4) False by (auto simp: prefix_def starts_with_iff)
      moreover have "\<not> sublist s (replace s new t')" using 1 t False by simp
      ultimately show ?thesis using r by (simp add: sublist_Cons_right)
    qed
  qed
qed

lemma fold_replace_keeps_out:
  assumes "set s \<inter> set REDACTED = {}" and "s \<noteq> []"
  shows "\<not> sublist s t \<Longrightarrow> \<not> sublist s (fold (\<lambda>secret r. replace secret REDACTED r) xs t)"
proof (induction xs arbitrary: t)
  case Nil
  then show ?case by simp
next
  case (Cons x xs)
  have "\<not> sublist s (replace x REDACTED t)"
    using Cons.prems sublist_replace [OF assms(1) _ assms(2)] by (auto simp: REDACTED_def)
  then show ?case using Cons.IH by simp
qed

lemma fold_replace_removes:
  assumes "set s \<inter> set REDACTED = {}" and "s \<noteq> []"
  shows "s \<in> set xs \<Longrightarrow> \<not> sublist s (fold (\<lambda>secret r. replace secret REDACTED r) xs t)"
proof (induction xs arbitrary: t)
  case Nil
  then show ?case by simp
next
  case (Cons x xs)
  show ?case
  proof (cases "s = x")
    case True
    have "\<not> sublist s (replace s REDACTED t)"
      by (rule replace_removes [OF assms(1) _ assms(2)]) (simp add: REDACTED_def)
    with True show ?thesis using fold_replace_keeps_out [OF assms] by simp
  next
    case False
    with Cons show ?thesis by simp
  qed
qed

lemma truncate_text_bound: "length (truncate_text r) \<le> MAX_DIAGNOSTIC_BYTES + 34 + length (str_nat (length r))"
proof -
  have mono: "length (str_nat m) \<le> length (str_nat n)" if "m \<le> n" for m n
    using that
  proof (induction n arbitrary: m rule: less_induct)
    case (less n)
    show ?case
    proof (cases "m < 10")
      case True
      then show ?thesis by (simp add: str_nat.simps [of m] Suc_leI)
    next
      case False
      with less.prems have "m div 10 \<le> n div 10" and "n div 10 < n" by (auto simp: div_le_mono)
      with less.IH have "length (str_nat (m div 10)) \<le> length (str_nat (n div 10))" by blast
      with False less.prems show ?thesis
        by (simp add: str_nat.simps [of m] str_nat.simps [of n])
    qed
  qed
  show ?thesis
    using mono [of "length r - MAX_DIAGNOSTIC_BYTES" "length r"]
    by (simp add: truncate_text_def)
qed

section \<open>The pattern of the BMC's own secret names\<close>

lemma rx_all_alts: "rx_all (rx_alts rs) st = concat (map (\<lambda>r. rx_all r st) rs)"
  by (induction rs rule: rx_alts.induct) (auto split: list.splits)

lemma ami_names_lower: "map py_lower AMI_SECRET_NAMES = [''session_cookie'', ''sessioncookie'', ''stoken'', ''kvmtoken'',
    ''webcookie'', ''webvar_password'', ''csrftoken'']"
  by code_simp

text \<open>No secret name is a prefix of another, whatever the case.\<close>

lemma ami_names_apart:
  assumes "a \<in> set AMI_SECRET_NAMES" and "b \<in> set AMI_SECRET_NAMES" and "starts_with (py_lower a @ s) (py_lower b)"
  shows "a = b"
proof -
  have "\<forall>x \<in> set (map py_lower AMI_SECRET_NAMES). \<forall>y \<in> set (map py_lower AMI_SECRET_NAMES). x \<noteq> y \<longrightarrow> \<not> starts_with x y"
    unfolding ami_names_lower by simp
  then have "py_lower x = py_lower y" if "x \<in> set AMI_SECRET_NAMES" "y \<in> set AMI_SECRET_NAMES" "starts_with (py_lower x) (py_lower y)" for x y
    using that unfolding list.set_map by blast
  moreover have "starts_with (py_lower a) (py_lower b) \<or> starts_with (py_lower b) (py_lower a)"
    using assms(3) unfolding starts_with_iff append_eq_append_conv2 by metis
  ultimately have "py_lower a = py_lower b" using assms(1,2) by metis
  moreover have "distinct (map py_lower AMI_SECRET_NAMES)" unfolding ami_names_lower by simp
  ultimately show ?thesis using assms(1,2) by (simp add: distinct_map inj_on_def)
qed

lemma ami_name_goes:
  assumes "name \<in> set AMI_SECRET_NAMES" and "py_lower spelled = py_lower name"
  shows "rx_goes (rx_alts (map rx_ilit AMI_SECRET_NAMES)) (spelled @ s) g s g"
  unfolding rx_goes_def
proof (intro allI impI)
  fix st :: rx_state assume st: "rx_rest st = spelled @ s" "rx_groups st = g"
  have len: "length name = length spelled" using assms(2) py_lower_simps(4) by metis
  have one: "rx_all (rx_ilit n) st = (if n = name then [rx_skip (length spelled) st] else [])"
    if "n \<in> set AMI_SECRET_NAMES" for n
    using st assms ami_names_apart [OF assms(1) that, of "py_lower s"] len by (auto simp: rx_all_ilit)
  have "distinct AMI_SECRET_NAMES" by (simp add: AMI_SECRET_NAMES_def)
  then have "concat (map (\<lambda>n. rx_all (rx_ilit n) st) ns) = (if name \<in> set ns then [rx_skip (length spelled) st] else [])"
    if "set ns \<subseteq> set AMI_SECRET_NAMES" "distinct ns" for ns
    using that by (induction ns) (auto simp: one)
  with assms(1) \<open>distinct AMI_SECRET_NAMES\<close>
  have "rx_all (rx_alts (map rx_ilit AMI_SECRET_NAMES)) st = [rx_skip (length spelled) st]"
    by (simp add: rx_all_alts comp_def)
  with st show "\<exists>x xs. rx_all (rx_alts (map rx_ilit AMI_SECRET_NAMES)) st = x # xs \<and> rx_rest x = s \<and> rx_groups x = g"
    by simp
qed

lemma ami_name_fails:
  assumes "\<forall>n \<in> set AMI_SECRET_NAMES. \<not> starts_with (py_lower s) (py_lower n)"
  shows "rx_fails (rx_alts (map rx_ilit AMI_SECRET_NAMES)) s g"
  using assms by (auto simp: rx_fails_def rx_all_alts rx_all_ilit)

definition quote_mark :: "string \<Rightarrow> bool" where
  "quote_mark q \<longleftrightarrow> q = [] \<or> (\<exists>c \<in> set QUOTES. q = [c])"

lemma quote_opt_goes:
  assumes "quote_mark q" and "q = [] \<longrightarrow> s \<noteq> [] \<and> hd s \<notin> set QUOTES"
  shows "rx_goes (RxGroup n rx_quote_opt) (q @ s) g s ((n, q) # g)"
proof (rule rx_goes_group)
  show "rx_goes rx_quote_opt (q @ s) g s g"
    using assms by (cases s) (auto simp: rx_goes_def rx_quote_opt_def rx_opt_def quote_mark_def)
qed

lemma ref_goes: "map_of g n = Some q \<Longrightarrow> rx_goes (RxRef n) (q @ s) g s g"
  by (simp add: rx_goes_def)

lemma assign_goes:
  assumes "\<forall>c \<in> set w1. is_space c" and "\<forall>c \<in> set w2. is_space c" and "sep \<in> set '':=''" and "s \<noteq> []" "\<not> is_space (hd s)"
  shows "rx_goes rx_assign (w1 @ sep # w2 @ s) g s g"
  unfolding rx_assign_def rx_seq.simps
proof (rule rx_goes_seq)
  show "rx_goes rx_ws (w1 @ sep # w2 @ s) g (sep # w2 @ s) g"
    by (rule rx_goes_star) (use assms(1,3) in \<open>auto simp: is_space_def\<close>)
  show "rx_goes (RxSeq (rx_in '':='') rx_ws) (sep # w2 @ s) g s g"
    by (rule rx_goes_seq [OF rx_goes_cls], fact, rule rx_goes_star) (use assms in auto)
qed

lemma ami_goes:
  assumes "name \<in> set AMI_SECRET_NAMES" and "py_lower spelled = py_lower name" and "quote_mark q" and "quote_mark q'"
    and "\<forall>c \<in> set w1. is_space c" and "\<forall>c \<in> set w2. is_space c" and "sep \<in> set '':=''"
    and "v \<noteq> []" and "\<forall>c \<in> set v. ami_value_char c" and "q' = [] \<longrightarrow> s = [] \<or> \<not> ami_value_char (hd s)"
  shows "rx_goes AMI_PATTERN (q @ spelled @ q @ w1 @ sep # w2 @ q' @ v @ q' @ s) [] s
    [(4, q'), (3, w1 @ sep # w2), (2, spelled), (1, q)]"
proof -
  have "spelled \<noteq> [] \<and> hd spelled \<notin> set QUOTES"
  proof -
    have "\<forall>x \<in> set (map py_lower AMI_SECRET_NAMES). x \<noteq> [] \<and> hd x \<notin> set QUOTES"
      unfolding ami_names_lower by (simp add: QUOTES_def)
    then have "py_lower name \<noteq> [] \<and> hd (py_lower name) \<notin> set QUOTES" using assms(1) by simp
    moreover have "c \<in> set QUOTES \<Longrightarrow> to_lower c = c" for c by (auto simp: QUOTES_def to_lower_def Let_def)
    ultimately show ?thesis using assms(2) by (cases spelled) (simp, metis list.sel(1) list.distinct(1) py_lower_simps(2))
  qed
  then have 1: "rx_goes (RxGroup 1 rx_quote_opt) (q @ spelled @ t) [] (spelled @ t) [(1, q)]" for t
    by (intro quote_opt_goes assms) auto
  have 2: "rx_goes (RxGroup 2 (rx_alts (map rx_ilit AMI_SECRET_NAMES))) (spelled @ t) g t ((2, spelled) # g)" for t g
    by (rule rx_goes_group, rule ami_name_goes [OF assms(1,2)])
  have v: "\<not> is_space (hd v)" "hd v \<notin> set QUOTES" using assms(8,9) by (cases v; simp add: ami_value_char_def)+
  have q': "q' @ v @ t \<noteq> []" "\<not> is_space (hd (q' @ v @ t))" for t
    using assms(4,8) v by (auto simp: quote_mark_def QUOTES_def is_space_def)
  have 3: "rx_goes (RxGroup 3 rx_assign) ((w1 @ sep # w2) @ q' @ v @ t) g (q' @ v @ t) ((3, w1 @ sep # w2) # g)" for t g
    using assign_goes [OF assms(5-7) q'] by (intro rx_goes_group) simp
  have 4: "rx_goes (RxGroup 4 rx_quote_opt) (q' @ v @ t) g (v @ t) ((4, q') # g)" for t g
    using quote_opt_goes [OF assms(4), of "v @ t" 4 g] v assms(8) by simp
  have 5: "rx_goes (RxStar (RxCls ami_value_char)) (v @ q' @ s) g (q' @ s) g" for g
    by (rule rx_goes_star [OF assms(9)]) (use assms(4,10) in \<open>auto simp: quote_mark_def ami_value_char_def\<close>)
  show ?thesis
    unfolding AMI_PATTERN_def rx_seq.simps
    using 3 [of "q' @ s" "[(2, spelled), (1, q)]"]
    by (intro rx_goes_seq [OF 1] rx_goes_seq [OF 2] rx_goes_seq [OF ref_goes] rx_goes_seq [OF _ rx_goes_seq [OF 4 rx_goes_seq [OF 5 ref_goes]]])
      simp_all
qed

section \<open>Properties\<close>

text \<open>The wire names of the error classes and \<open>ERROR_CLASS_TO_EXCEPTION\<close> are inverse: every class
  is found again under its own name, and no other text names a class.\<close>

theorem error_class_names_roundtrip:
  "ERROR_CLASS_TO_EXCEPTION (error_class_str c) = Some c
   \<and> (case ERROR_CLASS_TO_EXCEPTION s of Some d \<Rightarrow> error_class_str d = s | None \<Rightarrow> \<forall>d. error_class_str d \<noteq> s)"
proof -
  have "ERROR_CLASS_TO_EXCEPTION (error_class_str d) = Some d" for d
    by (cases d) (simp_all add: ERROR_CLASS_TO_EXCEPTION_def error_class_ALL_def)
  moreover have "error_class_str d = s" if "ERROR_CLASS_TO_EXCEPTION s = Some d" for d
    using that by (auto simp: ERROR_CLASS_TO_EXCEPTION_def dest!: map_of_SomeD)
  ultimately show ?thesis by (auto split: option.splits)
qed

lemma set_secrets_longest_first: "set (secrets_longest_first xs) = {s \<in> set xs. s \<noteq> []}"
  by (auto simp: secrets_longest_first_def)

text \<open>No literal secret survives: after the first stage of \<open>redact\<close>, the text contains no
  occurrence of any non-empty secret passed as \<open>extra_secrets\<close>, whatever the text, the other secrets and
  their overlaps, as long as the secret shares no character with the replacement mark.\<close>

theorem literal_secrets_removed:
  assumes "s \<in> set (secret_list secrets)" and "s \<noteq> []" and "set s \<inter> set REDACTED = {}"
  shows "\<not> sublist s (replace_secrets (secret_list secrets) t)"
  unfolding replace_secrets_def
  by (rule fold_replace_removes [OF assms(3,2)]) (use assms(1,2) in \<open>simp add: set_secrets_longest_first\<close>)

theorem literal_secrets_removed_witness:
  "\<not> sublist ''hunter2'' (replace_secrets (secret_list (ManySecrets [Some ''hunt'', None, Some ''hunter2''])) ''pw=hunter2;'')"
  by (rule literal_secrets_removed) (simp_all add: REDACTED_def)

lemma ami_fails:
  assumes "\<forall>n \<in> set AMI_SECRET_NAMES. \<not> starts_with (py_lower s) (py_lower n)"
    and "\<forall>n \<in> set AMI_SECRET_NAMES. \<not> starts_with (py_lower (drop 1 s)) (py_lower n) \<or> hd s \<notin> set QUOTES"
  shows "rx_fails AMI_PATTERN s []"
proof -
  have "rx_all (rx_alts (map rx_ilit AMI_SECRET_NAMES)) st1 = []"
    if "st1 \<in> set (rx_all (RxGroup 1 rx_quote_opt) st)" "rx_rest st = s" for st st1
  proof -
    have "rx_rest st1 = s \<or> (hd s \<in> set QUOTES \<and> rx_rest st1 = drop 1 s)"
      using that by (cases s) (auto simp: rx_quote_opt_def rx_opt_def split: if_splits)
    then have "\<forall>n \<in> set AMI_SECRET_NAMES. \<not> starts_with (py_lower (rx_rest st1)) (py_lower n)"
      using assms by (elim disjE conjE) simp_all
    from ami_name_fails [OF this, of "rx_groups st1"] show ?thesis by (simp add: rx_fails_def)
  qed
  then have "rx_all (RxSeq (RxGroup 2 (rx_alts (map rx_ilit AMI_SECRET_NAMES))) r) st1 = []"
    if "st1 \<in> set (rx_all (RxGroup 1 rx_quote_opt) st)" "rx_rest st = s" for st st1 r
    using that by (simp only: rx_all.simps(3,7) list.map concat.simps)
  then show ?thesis
    unfolding rx_fails_def AMI_PATTERN_def rx_seq.simps rx_all.simps(3) [of "RxGroup 1 _"]
    by (intro allI impI, unfold concat_eq_Nil_conv set_map) blast
qed

lemma rx_sub_skip:
  assumes "\<And>i. i < length pre \<Longrightarrow> rx_fails r (drop i (pre @ s)) []"
  shows "\<exists>b'. rx_sub_at r repl b (pre @ s) = pre @ rx_sub_at r repl b' s"
  using assms
proof (induction pre arbitrary: b)
  case (Cons c pre)
  have "rx_exec r b (c # pre @ s) = None" using Cons.prems [of 0] by (intro rx_exec_fails) simp
  moreover have "\<exists>b'. rx_sub_at r repl (Some c) (pre @ s) = pre @ rx_sub_at r repl b' s"
    by (rule Cons.IH) (use Cons.prems [of "Suc _"] in simp)
  ultimately show ?case by (auto simp: rx_sub_at.simps [of r repl b "c # pre @ s"])
qed auto

lemma rx_sub_hit:
  assumes "rx_goes r s [] s' g'" and "length s' < length s"
  shows "\<exists>x b'. rx_sub_at r repl b s = repl x @ rx_sub_at r repl b' s' \<and> rx_groups x = g'"
proof -
  obtain x where "rx_exec r b s = Some x" "rx_rest x = s'" "rx_groups x = g'"
    using rx_exec_goes [OF assms(1)] by blast
  with assms(2) show ?thesis by (cases s) (auto simp: rx_sub_at.simps [of r repl b "_ # _"])
qed

text \<open>A value the BMC names as a secret is destroyed and only it: in any text in which a known secret
  name, in any case, quoted or bare, is assigned a value free of the separators, the pattern for the
  BMC's own names leaves everything before it and the assignment itself in place, puts the mark where
  the value stood, and goes on with the rest.\<close>

theorem ami_value_redacted:
  assumes "name \<in> set AMI_SECRET_NAMES" and "py_lower spelled = py_lower name" and "quote_mark q" and "quote_mark q'"
    and "\<forall>c \<in> set w1. is_space c" and "\<forall>c \<in> set w2. is_space c" and "sep \<in> set '':=''"
    and "v \<noteq> []" and "\<forall>c \<in> set v. ami_value_char c" and "q' = [] \<longrightarrow> s = [] \<or> \<not> ami_value_char (hd s)"
    and "pre = [] \<or> last pre \<notin> set QUOTES"
    and "\<forall>i < length pre. \<forall>n \<in> set AMI_SECRET_NAMES.
       \<not> starts_with (py_lower (drop i (pre @ q @ spelled @ q @ w1 @ sep # w2 @ q' @ v @ q' @ s))) (py_lower n)"
  shows "\<exists>b. rx_sub AMI_PATTERN (snd (REDACTION_PATTERNS ! 3)) (pre @ q @ spelled @ q @ w1 @ sep # w2 @ q' @ v @ q' @ s)
     = pre @ q @ spelled @ q @ w1 @ sep # w2 @ q' @ REDACTED @ q'
       @ rx_sub_at AMI_PATTERN (snd (REDACTION_PATTERNS ! 3)) b s"
proof -
  let ?t = "q @ spelled @ q @ w1 @ sep # w2 @ q' @ v @ q' @ s" and ?repl = "snd (REDACTION_PATTERNS ! 3)"
  have "rx_fails AMI_PATTERN (drop i (pre @ ?t)) []" if i: "i < length pre" for i
  proof (rule ami_fails)
    show "\<forall>n \<in> set AMI_SECRET_NAMES. \<not> starts_with (py_lower (drop i (pre @ ?t))) (py_lower n)"
      using assms(12) i by blast
    have "hd (drop i (pre @ ?t)) = pre ! i" using i by (simp add: hd_append hd_drop_conv_nth)
    moreover have "pre ! i = last pre" if "\<not> Suc i < length pre"
    proof -
      have "i = length pre - 1" using i that by simp
      moreover have "pre \<noteq> []" using i by auto
      ultimately show ?thesis by (simp add: last_conv_nth)
    qed
    ultimately show "\<forall>n \<in> set AMI_SECRET_NAMES. \<not> starts_with (py_lower (drop 1 (drop i (pre @ ?t)))) (py_lower n)
        \<or> hd (drop i (pre @ ?t)) \<notin> set QUOTES"
      using assms(11,12) i by (cases "Suc i < length pre") auto
  qed
  then obtain b1 where "rx_sub_at AMI_PATTERN ?repl None (pre @ ?t) = pre @ rx_sub_at AMI_PATTERN ?repl b1 ?t"
    using rx_sub_skip by blast
  moreover obtain x b where "rx_sub_at AMI_PATTERN ?repl b1 ?t = ?repl x @ rx_sub_at AMI_PATTERN ?repl b s"
      "rx_groups x = [(4, q'), (3, w1 @ sep # w2), (2, spelled), (1, q)]"
    using rx_sub_hit [OF ami_goes [OF assms(1-10)]] assms(8) by (cases v) (simp, fastforce)
  moreover from this(2) have "?repl x = q @ spelled @ q @ w1 @ sep # w2 @ q' @ REDACTED @ q'"
    by (simp add: REDACTION_PATTERNS_def rx_group_def)
  ultimately show ?thesis by (auto simp: rx_sub_def)
qed

theorem ami_value_redacted_witness:
  "\<exists>b. rx_sub AMI_PATTERN (snd (REDACTION_PATTERNS ! 3)) ''x=1 stoken=abc;'' = ''x=1 stoken='' @ REDACTED
     @ rx_sub_at AMI_PATTERN (snd (REDACTION_PATTERNS ! 3)) b '';''"
proof -
  have low: "py_lower ''stoken'' = py_lower ''STOKEN''" by code_simp
  have none: "\<forall>i < length ''x=1 ''. \<forall>n \<in> set (map py_lower AMI_SECRET_NAMES). \<not> starts_with (drop i (py_lower ''x=1 stoken=abc;'')) n"
  proof -
    have "py_lower ''x=1 stoken=abc;'' = ''x=1 stoken=abc;''" by code_simp
    then show ?thesis unfolding ami_names_lower by (auto simp: less_Suc_eq numeral_eq_Suc)
  qed
  have dl: "py_lower (drop i t) = drop i (py_lower t)" for i t by (simp add: py_lower_def drop_map)
  have v: "\<forall>c \<in> set ''abc''. ami_value_char c" by (simp add: ami_value_char_def is_space_def QUOTES_def)
  show ?thesis
    using ami_value_redacted [of "''STOKEN''" "''stoken''" "[]" "[]" "[]" "[]" "CHR ''=''" "''abc''" "'';''" "''x=1 ''"] low none v
    by (simp add: dl quote_mark_def AMI_SECRET_NAMES_def QUOTES_def ami_value_char_def)
qed

text \<open>A quoted value that holds a space keeps the closing quote from matching: the pattern then gives up
  the quote, takes an empty value, and the value itself stays.\<close>

lemma quoted_value_with_space_survives:
  "sub_patterns (''pwd='' @ [CHR 0x27] @ ''a b'' @ [CHR 0x27]) = ''pwd='' @ REDACTED @ [CHR 0x27] @ ''a b'' @ [CHR 0x27]"
  by code_simp

end
