(* ===== verification/Ikvm_Models.thy ===== *)
theory Ikvm_Models
  imports Ikvm_Errors
begin

text \<open>
  \<open>plugins/module_utils/models.py\<close>: the coercions of BMC text, the JNLP session with its derived
  port mode, and the operation receipt every mutating module returns. A dataclass handed to the
  receipt is the dictionary \<open>dataclasses.asdict\<close> makes of it.
\<close>

section \<open>Coercions\<close>

definition POWER_STATES :: "string list" where
  "POWER_STATES = [''on'', ''off'', ''shutdown'', ''reset'', ''boot'']"

definition BOOT_DEVICES :: "string list" where
  "BOOT_DEVICES = [''network'', ''floppy'', ''hd'', ''safe'', ''optical'', ''setup'', ''default'']"

text \<open>\<open>py_str\<close> is \<open>str(value)\<close> of a scalar and undefined on a container, whose text starts with a
  bracket and so is neither blank, nor a number, nor \<open>0\<close>.\<close>

definition optional_str :: "pyval \<Rightarrow> string option" where
  "optional_str v = (case v of
      PNone \<Rightarrow> None | PDict _ \<Rightarrow> None | PList _ \<Rightarrow> None
    | _ \<Rightarrow> (case py_str v of None \<Rightarrow> None
            | Some s \<Rightarrow> let text = strip s in if text = [] then None else Some text))"

definition optional_int :: "pyval \<Rightarrow> int option" where
  "optional_int v = (case v of
      PNone \<Rightarrow> None | PBool _ \<Rightarrow> None
    | _ \<Rightarrow> (case py_str v of None \<Rightarrow> None | Some s \<Rightarrow> py_int (strip s)))"

definition optional_bool_flag :: "pyval \<Rightarrow> bool option" where
  "optional_bool_flag v = (case v of
      PNone \<Rightarrow> None
    | _ \<Rightarrow> (case py_str v of None \<Rightarrow> Some True
            | Some s \<Rightarrow> let text = strip s in if text = [] then None else Some (text \<noteq> ''0'')))"

section \<open>\<open>JnlpSession\<close>\<close>

type_synonym arguments = "(string \<times> string) list"

definition arg_get :: "arguments \<Rightarrow> string \<Rightarrow> pyval" where
  "arg_get args name = (case map_of args name of None \<Rightarrow> PNone | Some s \<Rightarrow> PStr s)"

record jnlp_session =
  kvm_port :: "int option"
  kvm_token :: "string option"
  web_cookie :: "string option"
  single_port_enabled :: "bool option"
  cd_port :: "int option"
  fd_port :: "int option"
  hd_port :: "int option"
  cd_state :: "string option"
  cd_num :: "int option"
  kvm_secure :: "bool option"
  vm_secure :: "bool option"
  port_mode :: string
  jnlp_extra :: arguments

definition NAMED_ARGUMENTS :: "string set" where
  "NAMED_ARGUMENTS = {''kvmport'', ''kvmtoken'', ''webcookie'', ''singleportenabled'', ''cdport'', ''fdport'',
     ''hdport'', ''cdstate'', ''cdnum'', ''kvmsecure'', ''vmsecure''}"

definition from_arguments :: "arguments \<Rightarrow> jnlp_session" where
  "from_arguments args =
     (let cd = optional_int (arg_get args ''cdport'');
          fd = optional_int (arg_get args ''fdport'');
          hd_p = optional_int (arg_get args ''hdport'');
          single = optional_bool_flag (arg_get args ''singleportenabled'');
          has_dedicated_ports = (cd \<noteq> None \<or> fd \<noteq> None \<or> hd_p \<noteq> None);
          mode = (if has_dedicated_ports then ''dedicated_ports''
                  else if single = Some True then ''single_port''
                  else ''unknown'')
      in \<lparr>kvm_port = optional_int (arg_get args ''kvmport''),
          kvm_token = optional_str (arg_get args ''kvmtoken''),
          web_cookie = optional_str (arg_get args ''webcookie''),
          single_port_enabled = single, cd_port = cd, fd_port = fd, hd_port = hd_p,
          cd_state = optional_str (arg_get args ''cdstate''),
          cd_num = optional_int (arg_get args ''cdnum''),
          kvm_secure = optional_bool_flag (arg_get args ''kvmsecure''),
          vm_secure = optional_bool_flag (arg_get args ''vmsecure''),
          port_mode = mode,
          jnlp_extra = filter (\<lambda>(name, _). name \<notin> NAMED_ARGUMENTS) args\<rparr>)"

section \<open>\<open>OperationReceipt\<close>\<close>

definition RECEIPT_SCHEMA :: string where
  "RECEIPT_SCHEMA = ''asmb8-ikvm-operation/v1''"

datatype receipt_value = Plain pyval | Dataclass "(string \<times> pyval) list"

record operation_receipt =
  rc_action :: string
  rc_endpoint :: string
  rc_changed :: bool
  rc_previous :: receipt_value
  rc_desired :: receipt_value
  rc_observed :: receipt_value
  rc_error_class :: "string option"
  rc_extra :: "(string \<times> receipt_value) list"

fun to_serializable :: "receipt_value \<Rightarrow> pyval" where
  "to_serializable (Plain v) = v"
| "to_serializable (Dataclass kvs) = PDict kvs"

fun redact_strings :: "pyval \<Rightarrow> pyval" where
  "redact_strings (PStr s) = PStr (redact (Some s) NoSecrets)"
| "redact_strings (PDict kvs) = PDict (map (\<lambda>(k, v). (k, redact_strings v)) kvs)"
| "redact_strings (PList vs) = PList (map (redact_strings) vs)"
| "redact_strings v = v"

text \<open>\<open>dict.update\<close>: an existing key keeps its place.\<close>

fun dict_set :: "'k \<Rightarrow> 'v \<Rightarrow> ('k \<times> 'v) list \<Rightarrow> ('k \<times> 'v) list" where
  "dict_set k v [] = [(k, v)]"
| "dict_set k v ((k', v') # d) = (if k' = k then (k, v) # d else (k', v') # dict_set k v d)"

definition receipt_base :: "operation_receipt \<Rightarrow> (string \<times> pyval) list" where
  "receipt_base r =
     [(''schema'', PStr RECEIPT_SCHEMA), (''action'', PStr (rc_action r)), (''endpoint'', PStr (rc_endpoint r)),
      (''changed'', PBool (rc_changed r)), (''previous'', to_serializable (rc_previous r)),
      (''desired'', to_serializable (rc_desired r)), (''observed'', to_serializable (rc_observed r)),
      (''error_class'', (case rc_error_class r of None \<Rightarrow> PNone | Some c \<Rightarrow> PStr c))]"

definition receipt_to_dict :: "operation_receipt \<Rightarrow> pyval" where
  "receipt_to_dict r = redact_strings (PDict
     (fold (\<lambda>(k, v). dict_set k (to_serializable v)) (rc_extra r) (receipt_base r)))"

section \<open>Facts\<close>

fun strings_of :: "pyval \<Rightarrow> string list" where
  "strings_of (PStr s) = [s]"
| "strings_of (PDict kvs) = concat (map (\<lambda>(k, v). strings_of v) kvs)"
| "strings_of (PList vs) = concat (map strings_of vs)"
| "strings_of v = []"

lemma strings_of_redact:
  "strings_of (redact_strings v) = map (\<lambda>s. redact (Some s) NoSecrets) (strings_of v)"
  by (induction v rule: strings_of.induct) (auto simp: map_concat comp_def split_def intro!: arg_cong [where f = concat])

lemma map_of_dict_set: "map_of (dict_set k v d) = (map_of d)(k \<mapsto> v)"
  by (induction k v d rule: dict_set.induct) (auto simp: fun_eq_iff)

lemma map_of_fold_dict_set:
  "map_of (fold (\<lambda>(k, v). dict_set k (f v)) kvs d) k = (case map_of (rev kvs) k of
     Some v \<Rightarrow> Some (f v) | None \<Rightarrow> map_of d k)"
  by (induction kvs arbitrary: d) (auto simp: map_of_dict_set map_add_def split: option.splits)

lemma optional_int_str_int: "optional_int (PStr (str_int i)) = Some i"
proof -
  have ns: "\<forall>c \<in> set (str_int i). \<not> is_space c"
    by (auto simp: str_int_def is_space_def dest: str_nat_digits)
  show ?thesis using strip_nonspace [OF ns] by (simp add: optional_int_def)
qed

lemma port_mode_cases:
  "port_mode (from_arguments args) \<in> {''dedicated_ports'', ''single_port'', ''unknown''}"
  "port_mode (from_arguments args) = ''dedicated_ports'' \<longleftrightarrow>
     cd_port (from_arguments args) \<noteq> None \<or> fd_port (from_arguments args) \<noteq> None \<or> hd_port (from_arguments args) \<noteq> None"
  by (auto simp: from_arguments_def Let_def)

section \<open>Properties\<close>

lemma map_of_map_snd: "map_of (map (\<lambda>(k, v). (k, f v)) d) k = map_option f (map_of d k)"
  by (induction d) auto

text \<open>Every receipt is redacted and complete: it is a dictionary in which each base field and each
  extra field is present with the redacted form of its value, an extra field overriding a base field of
  the same name, and every string in it, at any depth, is an output of \<open>redact\<close>.\<close>

theorem receipt_redacted:
  "\<exists>kvs. receipt_to_dict r = PDict kvs
    \<and> map_of kvs k = map_option (redact_strings) (case map_of (rev (rc_extra r)) k of
         Some v \<Rightarrow> Some (to_serializable v) | None \<Rightarrow> map_of (receipt_base r) k)
    \<and> (\<exists>originals. strings_of (receipt_to_dict r) = map (\<lambda>s. redact (Some s) NoSecrets) originals)"
proof (intro exI conjI)
  let ?d = "fold (\<lambda>(k, v). dict_set k (to_serializable v)) (rc_extra r) (receipt_base r)"
  show "receipt_to_dict r = PDict (map (\<lambda>(k, v). (k, redact_strings v)) ?d)"
    by (simp add: receipt_to_dict_def)
  show "map_of (map (\<lambda>(k, v). (k, redact_strings v)) ?d) k = map_option (redact_strings)
      (case map_of (rev (rc_extra r)) k of Some v \<Rightarrow> Some (to_serializable v) | None \<Rightarrow> map_of (receipt_base r) k)"
    by (simp add: map_of_map_snd map_of_fold_dict_set)
  show "strings_of (receipt_to_dict r) = map (\<lambda>s. redact (Some s) NoSecrets) (strings_of (PDict ?d))"
    unfolding receipt_to_dict_def by (rule strings_of_redact)
qed

text \<open>A parsed JNLP session keeps the session credentials out of \<open>extra\<close> (no named argument ever
  appears there, every other argument does), and reports dedicated ports exactly when a media port
  parsed as a number, a single port only when none did and the flag is set.\<close>

theorem jnlp_session_fields:
  "(\<forall>name v. (name, v) \<in> set (jnlp_extra (from_arguments args)) \<longleftrightarrow> (name, v) \<in> set args \<and> name \<notin> NAMED_ARGUMENTS)
   \<and> {''kvmtoken'', ''webcookie''} \<subseteq> NAMED_ARGUMENTS
   \<and> (port_mode (from_arguments args) = ''dedicated_ports'' \<longleftrightarrow> \<not> (cd_port (from_arguments args) = None
        \<and> fd_port (from_arguments args) = None \<and> hd_port (from_arguments args) = None))
   \<and> (port_mode (from_arguments args) = ''single_port'' \<longleftrightarrow> cd_port (from_arguments args) = None
        \<and> fd_port (from_arguments args) = None \<and> hd_port (from_arguments args) = None
        \<and> single_port_enabled (from_arguments args) = Some True)
   \<and> cd_port (from_arguments ((''cdport'', str_int p) # args)) = Some p"
  by (auto simp: from_arguments_def Let_def NAMED_ARGUMENTS_def arg_get_def optional_int_str_int)

end
