(* ===== verification/Ipmi_Client.thy ===== *)
theory Ipmi_Client
  imports Ikvm_Models
begin

text \<open>
  \<open>plugins/module_utils/ipmi.py\<close>: the classified wrapper over \<open>pyghmi\<close>, and the four modules that drive the
  BMC through it, \<open>asmb8_power\<close>, \<open>asmb8_boot\<close>, \<open>asmb8_reset\<close> and \<open>asmb8_identify\<close>. \<open>pyghmi\<close> and the BMC are
  an argument \<open>bmc\<close>: the outcome of a command as a function of the commands issued so far, that one
  last. The commands a run issues are part of its result. A module that ends in \<open>fail_json\<close> is
  represented by the error it renders, whose text is not modelled.
\<close>

section \<open>Commands and outcomes\<close>

datatype ipmi_cmd =
    Connect string int
  | GetPower
  | SetPower string "int option"
  | GetBootdev
  | SetBootdev string bool bool
  | GetMci
  | ResetBmc
  | RawCommand nat nat bool
  | SetIdentify bool "int option" bool

type_synonym pydict = "(string \<times> pyval) list"

text \<open>\<open>GotNothing\<close> is \<open>None\<close>; the last constructor is a \<open>PyghmiException\<close> with its text, marked when it is
  an \<open>UnsupportedFunctionality\<close>.\<close>

datatype ipmi_outcome = GotDict pydict | GotStr string | GotNothing | PyghmiException bool string

type_synonym bmc = "ipmi_cmd list \<Rightarrow> ipmi_outcome"

fun mutating :: "ipmi_cmd \<Rightarrow> bool" where
  "mutating (SetPower s w) = True"
| "mutating (SetBootdev d p u) = True"
| "mutating ResetBmc = True"
| "mutating (RawCommand n c r) = True"
| "mutating (SetIdentify b d l) = True"
| "mutating _ = False"

section \<open>\<open>IpmiClient\<close>\<close>

definition SET_POWER_WAIT_TIMEOUT_MESSAGE :: string where
  "SET_POWER_WAIT_TIMEOUT_MESSAGE = ''System did not accomplish power state change''"

definition BLINK_UNSUPPORTED_MESSAGE :: string where
  "BLINK_UNSUPPORTED_MESSAGE = ''Blink not supported with generic IPMI''"

definition AUTH_FAILURE_MARKERS :: "string list" where
  "AUTH_FAILURE_MARKERS = [''password'', ''rakp'', ''unauthorized'', ''wrong kg'']"

definition classify_session_error :: "string \<Rightarrow> error_class" where
  "classify_session_error msg =
     (let lowered = py_lower msg in
      if list_ex (\<lambda>marker. sublist marker lowered) AUTH_FAILURE_MARKERS then AUTHENTICATION
      else if sublist ''timeout'' lowered then TIMEOUT
      else CONNECTION)"

record ipmi_client =
  ic_endpoint :: string
  ic_log :: "ipmi_cmd list"

definition ipmi_error :: "error_class \<Rightarrow> string \<Rightarrow> bool \<Rightarrow> ipmi_client \<Rightarrow> exn" where
  "ipmi_error cls op indet c = Ikvm \<lparr>error_class = cls, endpoint = Some (ic_endpoint c), operation = Some op,
     indeterminate = indet, return_value = None\<rparr>"

definition issue :: "bmc \<Rightarrow> ipmi_cmd \<Rightarrow> ipmi_client \<Rightarrow> ipmi_outcome \<times> ipmi_client" where
  "issue bmc cmd c = (let c1 = c\<lparr>ic_log := ic_log c @ [cmd]\<rparr> in (bmc (ic_log c1), c1))"

definition ipmi_endpoint :: "string \<Rightarrow> int \<Rightarrow> string" where
  "ipmi_endpoint host port = host @ '':'' @ str_int port"

definition ipmi_connect :: "bmc \<Rightarrow> string \<Rightarrow> int \<Rightarrow> (exn option) \<times> ipmi_client" where
  "ipmi_connect bmc host port =
     (case issue bmc (Connect host port) \<lparr>ic_endpoint = ipmi_endpoint host port, ic_log = []\<rparr> of
        (PyghmiException _ msg, c) \<Rightarrow> (Some (ipmi_error (classify_session_error msg) ''ipmi_connect'' False c), c)
      | (_, c) \<Rightarrow> (None, c))"

text \<open>\<open>dict(...)\<close> of what a command returned; \<open>raw_command\<close> may return \<open>None\<close>, which becomes the empty
  dictionary, and the others return a dictionary by contract.\<close>

fun as_dict :: "ipmi_outcome \<Rightarrow> pydict" where
  "as_dict (GotDict d) = d"
| "as_dict _ = []"

definition get_power_state :: "bmc \<Rightarrow> ipmi_client \<Rightarrow> (exn + pydict) \<times> ipmi_client" where
  "get_power_state bmc c = (case issue bmc GetPower c of
      (PyghmiException _ _, c1) \<Rightarrow> (Inl (ipmi_error REMOTE_OPERATION ''get_power'' False c1), c1)
    | (out, c1) \<Rightarrow> (Inr (as_dict out), c1))"

definition set_power_state :: "bmc \<Rightarrow> string \<Rightarrow> int option \<Rightarrow> ipmi_client \<Rightarrow> (exn + pydict) \<times> ipmi_client" where
  "set_power_state bmc state wait c = (case issue bmc (SetPower state wait) c of
      (PyghmiException _ msg, c1) \<Rightarrow>
        if sublist SET_POWER_WAIT_TIMEOUT_MESSAGE msg
        then (Inl (ipmi_error TIMEOUT ''set_power'' True c1), c1)
        else (Inl (ipmi_error REMOTE_OPERATION ''set_power'' False c1), c1)
    | (out, c1) \<Rightarrow> (Inr (as_dict out), c1))"

definition get_boot_device :: "bmc \<Rightarrow> ipmi_client \<Rightarrow> (exn + pydict) \<times> ipmi_client" where
  "get_boot_device bmc c = (case issue bmc GetBootdev c of
      (PyghmiException _ _, c1) \<Rightarrow> (Inl (ipmi_error REMOTE_OPERATION ''get_bootdev'' False c1), c1)
    | (out, c1) \<Rightarrow> (Inr (as_dict out), c1))"

definition set_boot_device :: "bmc \<Rightarrow> string \<Rightarrow> bool \<Rightarrow> bool \<Rightarrow> ipmi_client \<Rightarrow> (exn + pydict) \<times> ipmi_client" where
  "set_boot_device bmc device persist uefiboot c = (case issue bmc (SetBootdev device persist uefiboot) c of
      (PyghmiException _ _, c1) \<Rightarrow> (Inl (ipmi_error REMOTE_OPERATION ''set_bootdev'' False c1), c1)
    | (out, c1) \<Rightarrow>
        (let response = as_dict out in
         if map_of response ''error'' \<noteq> None then (Inl (ipmi_error REMOTE_OPERATION ''set_bootdev'' False c1), c1)
         else (Inr response, c1)))"

definition get_mc_info :: "bmc \<Rightarrow> ipmi_client \<Rightarrow> (exn + string option) \<times> ipmi_client" where
  "get_mc_info bmc c = (case issue bmc GetMci c of
      (PyghmiException _ _, c1) \<Rightarrow> (Inl (ipmi_error REMOTE_OPERATION ''get_mci'' False c1), c1)
    | (GotStr s, c1) \<Rightarrow> (Inr (Some s), c1)
    | (_, c1) \<Rightarrow> (Inr None, c1))"

definition reset_bmc :: "bmc \<Rightarrow> string \<Rightarrow> ipmi_client \<Rightarrow> (exn + pydict) \<times> ipmi_client" where
  "reset_bmc bmc mode c =
     (let cold = (mode = ''cold'') in
      case issue bmc (if cold then ResetBmc else RawCommand 6 3 False) c of
        (PyghmiException _ _, c1) \<Rightarrow> (Inl (ipmi_error REMOTE_OPERATION ''reset_bmc'' False c1), c1)
      | (out, c1) \<Rightarrow>
          (let response = (if cold then [] else as_dict out) in
           if map_of response ''error'' \<noteq> None then (Inl (ipmi_error REMOTE_OPERATION ''reset_bmc'' False c1), c1)
           else (Inr (fold (\<lambda>(k, v). dict_set k v) response [(''mode'', PStr mode)]), c1)))"

definition set_identify :: "bmc \<Rightarrow> bool \<Rightarrow> int option \<Rightarrow> ipmi_client \<Rightarrow> (exn option) \<times> ipmi_client" where
  "set_identify bmc on duration c = (case issue bmc (SetIdentify on duration False) c of
      (PyghmiException unsupported msg, c1) \<Rightarrow>
        if unsupported \<or> sublist BLINK_UNSUPPORTED_MESSAGE msg
        then (Some (ipmi_error UNSUPPORTED_CAPABILITY ''set_identify'' False c1), c1)
        else (Some (ipmi_error REMOTE_OPERATION ''set_identify'' False c1), c1)
    | (_, c1) \<Rightarrow> (None, c1))"

section \<open>The modules\<close>

text \<open>What a module hands to \<open>exit_json\<close> and \<open>fail_json\<close>; \<open>BadParams\<close> is a \<open>fail_json\<close> without an
  error class, \<open>MissingLibrary\<close> the one of \<open>missing_required_lib\<close> (the flag is \<open>HAS_PYGHMI\<close>).\<close>

datatype module_result = ExitJson pydict | FailJson exn | BadParams | MissingLibrary

definition receipt :: "string \<Rightarrow> string \<Rightarrow> bool \<Rightarrow> pyval \<Rightarrow> pyval \<Rightarrow> pyval \<Rightarrow> pyval" where
  "receipt action ep changed previous desired observed = receipt_to_dict
     \<lparr>rc_action = action, rc_endpoint = ep, rc_changed = changed, rc_previous = Plain previous, rc_desired = Plain desired,
      rc_observed = Plain observed, rc_error_class = None, rc_extra = []\<rparr>"

definition dict_get :: "pydict \<Rightarrow> string \<Rightarrow> pyval \<Rightarrow> pyval" where
  "dict_get d k v0 = (case map_of d k of None \<Rightarrow> v0 | Some v \<Rightarrow> v)"

subsection \<open>\<open>asmb8_power\<close>\<close>

definition CONFIRMABLE_STATES :: "string list" where
  "CONFIRMABLE_STATES = [''on'', ''off'', ''shutdown'']"

definition power_plan :: "string \<Rightarrow> pyval \<Rightarrow> bool" where
  "power_plan state previous_powerstate \<longleftrightarrow> previous_powerstate \<noteq> PStr state"

definition power_result :: "string \<Rightarrow> ipmi_client \<Rightarrow> bool \<Rightarrow> pydict \<Rightarrow> pydict \<Rightarrow> module_result" where
  "power_result state c changed previous observed = ExitJson
     [(''changed'', PBool changed), (''state'', PStr state), (''previous_state'', PDict previous), (''desired_state'', PStr state),
      (''observed'', PDict observed),
      (''operation'', receipt (''asmb8_power.'' @ state) (ic_endpoint c) changed (PDict previous) (PStr state) (PDict observed))]"

definition power_main :: "bool \<Rightarrow> bmc \<Rightarrow> string \<Rightarrow> int \<Rightarrow> string \<Rightarrow> int \<Rightarrow> bool \<Rightarrow> module_result \<times> ipmi_cmd list" where
  "power_main has_pyghmi bmc host ipmi_port state wait_timeout check_mode =
     (if \<not> has_pyghmi then (MissingLibrary, [])
      else case ipmi_connect bmc host ipmi_port of
        (Some e, c) \<Rightarrow> (FailJson e, ic_log c)
      | (None, c) \<Rightarrow> (case get_power_state bmc c of
        (Inl e, c1) \<Rightarrow> (FailJson e, ic_log c1)
      | (Inr previous, c1) \<Rightarrow>
          (let changed = power_plan state (dict_get previous ''powerstate'' PNone) in
           if \<not> changed \<or> check_mode then (power_result state c1 changed previous previous, ic_log c1)
           else (case set_power_state bmc state (if state \<in> set CONFIRMABLE_STATES then Some wait_timeout else None) c1 of
                   (Inl e, c2) \<Rightarrow> (FailJson e, ic_log c2)
                 | (Inr observed, c2) \<Rightarrow> (power_result state c2 True previous observed, ic_log c2)))))"

subsection \<open>\<open>asmb8_boot\<close>\<close>

definition reject_persistent :: "bool \<Rightarrow> exn option" where
  "reject_persistent persistent = (if persistent then Some (raises UNSUPPORTED_CAPABILITY ''asmb8_boot'' None) else None)"

text \<open>Python's \<open>==\<close> of a value and a boolean: the integers 0 and 1 equal \<open>False\<close> and \<open>True\<close>.\<close>

fun equals_bool :: "pyval \<Rightarrow> bool \<Rightarrow> bool" where
  "equals_bool (PBool x) b = (x = b)"
| "equals_bool (PInt i) b = (i = of_bool b)"
| "equals_bool _ b = False"

definition boot_plan :: "string \<Rightarrow> bool \<Rightarrow> pydict \<Rightarrow> bool" where
  "boot_plan device uefi previous \<longleftrightarrow>
     (let observed_uefi = dict_get previous ''uefimode'' (PBool uefi)
      in dict_get previous ''bootdev'' PNone \<noteq> PStr device \<or> \<not> equals_bool observed_uefi uefi)"

definition boot_result :: "string \<Rightarrow> bool \<Rightarrow> ipmi_client \<Rightarrow> bool \<Rightarrow> pydict \<Rightarrow> pydict \<Rightarrow> module_result" where
  "boot_result device uefi c changed previous observed = ExitJson
     [(''changed'', PBool changed), (''device'', PStr device), (''uefi'', PBool uefi), (''previous'', PDict previous),
      (''operation'', receipt ''asmb8_boot'' (ic_endpoint c) changed (PDict previous)
         (PDict [(''bootdev'', PStr device), (''uefiboot'', PBool uefi), (''persist'', PBool False)]) (PDict observed))]"

definition boot_main :: "bool \<Rightarrow> bmc \<Rightarrow> string \<Rightarrow> int \<Rightarrow> string \<Rightarrow> bool \<Rightarrow> bool \<Rightarrow> bool \<Rightarrow> module_result \<times> ipmi_cmd list" where
  "boot_main has_pyghmi bmc host ipmi_port device uefi persistent check_mode =
     (if \<not> has_pyghmi then (MissingLibrary, [])
      else case reject_persistent persistent of Some e \<Rightarrow> (FailJson e, [])
      | None \<Rightarrow> (case ipmi_connect bmc host ipmi_port of
        (Some e, c) \<Rightarrow> (FailJson e, ic_log c)
      | (None, c) \<Rightarrow> (case get_boot_device bmc c of
        (Inl e, c1) \<Rightarrow> (FailJson e, ic_log c1)
      | (Inr previous, c1) \<Rightarrow>
          (let changed = boot_plan device uefi previous in
           if \<not> changed \<or> check_mode then (boot_result device uefi c1 changed previous previous, ic_log c1)
           else (case set_boot_device bmc device False uefi c1 of
                   (Inl e, c2) \<Rightarrow> (FailJson e, ic_log c2)
                 | (Inr raw_observed, c2) \<Rightarrow>
                     (boot_result device uefi c2 True previous
                        (dict_set ''uefimode'' (PBool uefi) (dict_set ''persistent'' (PBool False) raw_observed)), ic_log c2))))))"

subsection \<open>\<open>asmb8_reset\<close>\<close>

definition reset_result :: "string \<Rightarrow> string \<Rightarrow> pyval \<Rightarrow> module_result" where
  "reset_result mode ep observed = ExitJson
     [(''changed'', PBool True), (''mode'', PStr mode), (''observed'', observed),
      (''operation'', receipt (''asmb8_reset.'' @ mode) ep True PNone (PStr mode) observed)]"

definition reset_main :: "bool \<Rightarrow> bmc \<Rightarrow> string \<Rightarrow> int \<Rightarrow> string \<Rightarrow> bool \<Rightarrow> module_result \<times> ipmi_cmd list" where
  "reset_main has_pyghmi bmc host ipmi_port mode check_mode =
     (if \<not> has_pyghmi then (MissingLibrary, [])
      else if check_mode then (reset_result mode (ipmi_endpoint host ipmi_port) PNone, [])
      else (case ipmi_connect bmc host ipmi_port of
        (Some e, c) \<Rightarrow> (FailJson e, ic_log c)
      | (None, c) \<Rightarrow> (case reset_bmc bmc mode c of
        (Inl e, c1) \<Rightarrow> (FailJson e, ic_log c1)
      | (Inr observed, c1) \<Rightarrow> (reset_result mode (ic_endpoint c1) (PDict observed), ic_log c1))))"

subsection \<open>\<open>asmb8_identify\<close>\<close>

definition validate_duration :: "string \<Rightarrow> int option \<Rightarrow> bool" where
  "validate_duration state duration \<longleftrightarrow>
     \<not> (state = ''off'' \<and> duration \<noteq> None)
     \<and> \<not> (state = ''on'' \<and> (case duration of None \<Rightarrow> False | Some d \<Rightarrow> d < 1))"

definition identify_desired :: "string \<Rightarrow> int option \<Rightarrow> pyval" where
  "identify_desired state duration = PDict [(''state'', PStr state),
     (''duration'', case duration of None \<Rightarrow> PNone | Some d \<Rightarrow> PInt d)]"

definition identify_result :: "string \<Rightarrow> int option \<Rightarrow> string \<Rightarrow> pyval \<Rightarrow> module_result" where
  "identify_result state duration ep observed = ExitJson
     [(''changed'', PBool True), (''state'', PStr state),
      (''duration'', case duration of None \<Rightarrow> PNone | Some d \<Rightarrow> PInt d), (''observed'', observed),
      (''operation'', receipt (''asmb8_identify.'' @ state) ep True PNone (identify_desired state duration) observed)]"

definition identify_main :: "bool \<Rightarrow> bmc \<Rightarrow> string \<Rightarrow> int \<Rightarrow> string \<Rightarrow> int option \<Rightarrow> bool \<Rightarrow> module_result \<times> ipmi_cmd list" where
  "identify_main has_pyghmi bmc host ipmi_port state duration check_mode =
     (if \<not> has_pyghmi then (MissingLibrary, [])
      else if \<not> validate_duration state duration then (BadParams, [])
      else if check_mode then (identify_result state duration (ipmi_endpoint host ipmi_port) PNone, [])
      else (case ipmi_connect bmc host ipmi_port of
        (Some e, c) \<Rightarrow> (FailJson e, ic_log c)
      | (None, c) \<Rightarrow> (case set_identify bmc (state = ''on'') duration c of
        (Some e, c1) \<Rightarrow> (FailJson e, ic_log c1)
      | (None, c1) \<Rightarrow> (identify_result state duration (ic_endpoint c1) (identify_desired state duration), ic_log c1))))"

section \<open>Properties\<close>

lemmas ipmi_defs = ipmi_connect_def issue_def get_power_state_def set_power_state_def get_boot_device_def
  set_boot_device_def reset_bmc_def set_identify_def Let_def

text \<open>The commands of one run, and what may follow the connection.\<close>

lemma power_log:
  "snd (power_main has_pyghmi bmc host port state wt check) \<in> {[], [Connect host port], [Connect host port, GetPower],
     [Connect host port, GetPower, SetPower state (if state \<in> set CONFIRMABLE_STATES then Some wt else None)]}"
  by (auto simp: power_main_def ipmi_defs split: prod.splits ipmi_outcome.splits)

lemma boot_log:
  "snd (boot_main has_pyghmi bmc host port device uefi persistent check) \<in> {[], [Connect host port], [Connect host port, GetBootdev],
     [Connect host port, GetBootdev, SetBootdev device False uefi]}"
  by (auto simp: boot_main_def ipmi_defs split: prod.splits ipmi_outcome.splits option.splits)

lemma reset_log:
  "snd (reset_main has_pyghmi bmc host port mode check) \<in> {[], [Connect host port],
     [Connect host port, if mode = ''cold'' then ResetBmc else RawCommand 6 3 False]}"
  by (auto simp: reset_main_def ipmi_defs split: prod.splits ipmi_outcome.splits)

lemma identify_log:
  "snd (identify_main has_pyghmi bmc host port state duration check) \<in> {[], [Connect host port],
     [Connect host port, SetIdentify (state = ''on'') duration False]}"
  by (auto simp: identify_main_def ipmi_defs split: prod.splits ipmi_outcome.splits)

text \<open>C36. Check mode changes nothing: whatever the BMC answers, no module run in check mode issues a mutating
  command, the reset and identify modules then issue no command at all, and a request for a
  persistent boot order is refused before the connection is opened in either mode; without the
  \<open>pyghmi\<close> library it fails for that reason, before everything else.\<close>

theorem check_mode_never_mutates:
  "\<not> list_ex mutating (snd (power_main has_pyghmi bmc host port state wt True))
   \<and> \<not> list_ex mutating (snd (boot_main has_pyghmi bmc host port device uefi persistent True))
   \<and> snd (reset_main has_pyghmi bmc host port mode True) = [] \<and> snd (identify_main has_pyghmi bmc host port state duration True) = []
   \<and> boot_main has_pyghmi bmc host port device uefi True check
       = (if has_pyghmi then FailJson (raises UNSUPPORTED_CAPABILITY ''asmb8_boot'' None) else MissingLibrary, [])"
  by (auto simp: power_main_def boot_main_def reset_main_def identify_main_def reject_persistent_def ipmi_defs
      split: prod.splits ipmi_outcome.splits option.splits)

text \<open>\<open>asmb8_power\<close> acts exactly on a difference and tells the truth about it: after a reading, the
  power command is issued if and only if the reading differs from the request and the run is real; the
  receipt says \<open>changed\<close> exactly when there was a difference; a command whose confirmation timed out is
  reported as an indeterminate \<open>TIMEOUT\<close>, every other rejection as a plain \<open>REMOTE_OPERATION\<close> failure.\<close>

theorem power_acts_on_difference:
  assumes "bmc [Connect host port] = GotNothing" and "bmc [Connect host port, GetPower] = GotDict previous"
  shows "let differs = (map_of previous ''powerstate'' \<noteq> Some (PStr state));
           cmd = SetPower state (if state \<in> {''on'', ''off'', ''shutdown''} then Some wt else None);
           c = \<lparr>ic_endpoint = ipmi_endpoint host port, ic_log = []\<rparr>
     in power_main True bmc host port state wt check =
       (if \<not> differs \<or> check then (power_result state c differs previous previous, [Connect host port, GetPower])
        else (case bmc [Connect host port, GetPower, cmd] of
                PyghmiException u msg \<Rightarrow>
                  if sublist SET_POWER_WAIT_TIMEOUT_MESSAGE msg then FailJson (ipmi_error TIMEOUT ''set_power'' True c)
                  else FailJson (ipmi_error REMOTE_OPERATION ''set_power'' False c)
              | out \<Rightarrow> power_result state c True previous (as_dict out),
              [Connect host port, GetPower, cmd]))"
proof -
  have d: "dict_get previous ''powerstate'' PNone \<noteq> PStr state \<longleftrightarrow> map_of previous ''powerstate'' \<noteq> Some (PStr state)"
    by (simp add: dict_get_def split: option.splits)
  show ?thesis
    unfolding Let_def
    by (cases "bmc [Connect host port, GetPower, SetPower state (if state \<in> {''on'', ''off'', ''shutdown''} then Some wt else None)]")
      (auto simp: power_main_def ipmi_connect_def issue_def get_power_state_def set_power_state_def Let_def assms power_plan_def d
        CONFIRMABLE_STATES_def power_result_def ipmi_error_def)
qed

theorem power_acts_on_difference_witness:
  "snd (power_main True (\<lambda>l. if l = [Connect ''h'' 623] then GotNothing else GotDict [(''powerstate'', PStr ''on'')]) ''h'' 623 ''off'' 60 False)
     = [Connect ''h'' 623, GetPower, SetPower ''off'' (Some 60)]"
  using power_acts_on_difference [of "\<lambda>l. if l = [Connect ''h'' 623] then GotNothing else GotDict [(''powerstate'', PStr ''on'')]"
      "''h''" 623 "[(''powerstate'', PStr ''on'')]" "''off''" 60 False]
  by (simp add: Let_def)

end
