(* ===== verification/Iusb_Frame.thy ===== *)
theory Iusb_Frame
  imports Ikvm_Errors
begin

text \<open>
  \<open>plugins/module_utils/iusb.py\<close>, framing and authentication: the 32-byte IUSB header
  (\<open>Header\<close>), the packet view of its payload (\<open>Packet\<close>), the authentication packet, the
  interpretation of the redirection ACK, and the pure frame functions. Header fields are Python
  integers, so they are \<open>int\<close> here and \<open>marshal\<close> masks them; payload bytes are words.
\<close>

section \<open>Constants\<close>

definition HEADER_LEN :: nat where [simp]: "HEADER_LEN = 32"
definition SIGNATURE :: bytes where "SIGNATURE = [73, 85, 83, 66, 32, 32, 32, 32]"
definition IUSB_MAJOR :: int where [simp]: "IUSB_MAJOR = 1"
definition IUSB_MINOR :: int where [simp]: "IUSB_MINOR = 0"
definition DEVICE_CDROM :: int where [simp]: "DEVICE_CDROM = 5"
definition OP_AUTH :: byte where [simp]: "OP_AUTH = 0xF2"
definition OP_REDIRECT_ACK :: byte where [simp]: "OP_REDIRECT_ACK = 0xF1"
definition OP_KILL_REDIR :: byte where [simp]: "OP_KILL_REDIR = 0xF6"
definition OP_START_STOP_UNIT :: byte where [simp]: "OP_START_STOP_UNIT = 0x1B"
definition ENV_OFF_DATA_LEN :: nat where [simp]: "ENV_OFF_DATA_LEN = 0"
definition ENV_OFF_RESP_LEN :: nat where [simp]: "ENV_OFF_RESP_LEN = 25"
definition OPCODE_OFFSET :: nat where [simp]: "OPCODE_OFFSET = 9"
definition EJECT_BYTE_OFFSET :: nat where [simp]: "EJECT_BYTE_OFFSET = 13"
definition CONN_STATUS_OFFSET :: nat where [simp]: "CONN_STATUS_OFFSET = 30"
definition AUTH_TOKEN_OFFSET :: nat where [simp]: "AUTH_TOKEN_OFFSET = 31"
definition AUTH_PAYLOAD_LEN :: nat where [simp]: "AUTH_PAYLOAD_LEN = 128"
definition SSI_AUTH_PAYLOAD_LEN :: nat where [simp]: "SSI_AUTH_PAYLOAD_LEN = 240"
definition CONN_OK :: byte where [simp]: "CONN_OK = 1"

section \<open>Header\<close>

record header =
  major :: int
  minor :: int
  data_packet_len :: int
  server_caps :: int
  device_type :: int
  protocol :: int
  direction :: int
  device_number :: int
  interface_number :: int
  client_data :: int
  hdr_instance :: int
  sequence_number :: int

text \<open>The dataclass defaults.\<close>

definition default_header :: header where
  "default_header = \<lparr>major = IUSB_MAJOR, minor = IUSB_MINOR, data_packet_len = 0, server_caps = 0,
     device_type = 0, protocol = 1, direction = 0, device_number = 0, interface_number = 0,
     client_data = 0, hdr_instance = 0, sequence_number = 0\<rparr>"

text \<open>The \<open>bytearray\<close> before its checksum byte (offset 11) is filled in, and the wire form:
  \<open>(-sum(b)) & 0xFF\<close> is negation in 8-bit arithmetic.\<close>

definition marshal_unsummed :: "header \<Rightarrow> bytes" where
  "marshal_unsummed h = SIGNATURE
     @ [mask_byte (major h), mask_byte (minor h), of_nat HEADER_LEN, 0]
     @ mask_le 4 (data_packet_len h)
     @ [mask_byte (server_caps h), mask_byte (device_type h), mask_byte (protocol h),
        mask_byte (direction h), mask_byte (device_number h), mask_byte (interface_number h),
        mask_byte (client_data h), mask_byte (hdr_instance h)]
     @ mask_le 4 (sequence_number h)
     @ replicate 4 0"

definition marshal :: "header \<Rightarrow> bytes" where
  "marshal h = (let b = marshal_unsummed h; checksum = - sum_list b in b[11 := checksum])"

definition parse_header :: "bytes \<Rightarrow> exn + header" where
  "parse_header b =
     (if length b < HEADER_LEN then Inl (ProtocolError ''iusb.parse_header'')
      else if pslice 0 8 b \<noteq> SIGNATURE then Inl (ProtocolError ''iusb.parse_header'')
      else Inr \<lparr>major = uint (b ! 8), minor = uint (b ! 9),
        data_packet_len = int (le_nat (pslice 12 16 b)),
        server_caps = uint (b ! 16), device_type = uint (b ! 17), protocol = uint (b ! 18),
        direction = uint (b ! 19), device_number = uint (b ! 20),
        interface_number = uint (b ! 21), client_data = uint (b ! 22),
        hdr_instance = uint (b ! 23), sequence_number = int (le_nat (pslice 24 28 b))\<rparr>)"

section \<open>Packet\<close>

record packet =
  pkt_header :: header
  payload :: bytes

definition opcode :: "packet \<Rightarrow> byte" where
  "opcode p = (if length (payload p) \<le> OPCODE_OFFSET then 0 else payload p ! OPCODE_OFFSET)"

definition cdb :: "packet \<Rightarrow> bytes" where
  "cdb p = (if length (payload p) \<le> OPCODE_OFFSET then [] else drop OPCODE_OFFSET (payload p))"

definition is_eject :: "packet \<Rightarrow> bool" where
  "is_eject p \<longleftrightarrow> opcode p = OP_START_STOP_UNIT \<and> length (payload p) > EJECT_BYTE_OFFSET
     \<and> payload p ! EJECT_BYTE_OFFSET = 2"

definition is_kill :: "packet \<Rightarrow> bool" where
  "is_kill p \<longleftrightarrow> opcode p = OP_KILL_REDIR"

section \<open>Authentication\<close>

definition build_auth :: "int \<Rightarrow> int \<Rightarrow> string \<Rightarrow> bool \<Rightarrow> exn + bytes" where
  "build_auth dev inst token ssi =
     (let payload_len = (if ssi then SSI_AUTH_PAYLOAD_LEN else AUTH_PAYLOAD_LEN);
          header_bytes = marshal (default_header\<lparr>data_packet_len := int payload_len,
             device_type := dev, protocol := 1, direction := 128, hdr_instance := inst\<rparr>);
          body = (replicate payload_len 0)[OPCODE_OFFSET := OP_AUTH, CONN_STATUS_OFFSET := 0]
      in case encode_ascii token of
           None \<Rightarrow> Inl UnicodeEncodeError
         | Some token_bytes \<Rightarrow>
             (let stop = AUTH_TOKEN_OFFSET + length token_bytes in
              if stop > payload_len then Inl (ProtocolError ''iusb.build_auth'')
              else Inr (header_bytes @ splice_at AUTH_TOKEN_OFFSET stop token_bytes body)))"

text \<open>\<open>other_ip\<close> works on code points: \<open>decode("ascii", errors="replace")\<close> turns every byte
  above 127 into U+FFFD.\<close>

definition decode_ascii_replace :: "bytes \<Rightarrow> nat list" where
  "decode_ascii_replace = map (\<lambda>b. if unat b < 128 then unat b else 0xFFFD)"

definition is_space_code :: "nat \<Rightarrow> bool" where
  "is_space_code n \<longleftrightarrow> (9 \<le> n \<and> n \<le> 13) \<or> (28 \<le> n \<and> n \<le> 32)"

definition other_ip :: "bytes \<Rightarrow> nat list" where
  "other_ip pl = (if length pl \<le> AUTH_TOKEN_OFFSET then []
     else let raw = takeWhile (\<lambda>b. b \<noteq> 0) (drop AUTH_TOKEN_OFFSET pl);
              text = decode_ascii_replace raw
          in rev (dropWhile is_space_code (rev (dropWhile is_space_code text))))"

definition interpret_ack :: "packet \<Rightarrow> string option \<Rightarrow> exn + unit" where
  "interpret_ack p ep =
     (if opcode p \<noteq> OP_REDIRECT_ACK then Inl (raises PROTOCOL ''iusb.authenticate'' ep)
      else if length (payload p) \<le> CONN_STATUS_OFFSET
        then Inl (raises PROTOCOL ''iusb.authenticate'' ep)
      else if payload p ! CONN_STATUS_OFFSET = CONN_OK then Inr ()
      else Inl (raises BMC_BUSY ''iusb.authenticate'' ep))"

section \<open>Pure framing\<close>

definition parse_request_frame :: "bytes \<Rightarrow> exn + packet" where
  "parse_request_frame frame =
     (if length frame < HEADER_LEN then Inl (ProtocolError ''iusb.parse_request_frame'')
      else case parse_header (take HEADER_LEN frame) of
          Inl e \<Rightarrow> Inl e
        | Inr h \<Rightarrow>
            (let pl = drop HEADER_LEN frame in
             if int (length pl) \<noteq> data_packet_len h
             then Inl (ProtocolError ''iusb.parse_request_frame'')
             else Inr \<lparr>pkt_header = h, payload = pl\<rparr>))"

definition build_response_frame :: "header \<Rightarrow> bytes \<Rightarrow> int \<Rightarrow> bytes" where
  "build_response_frame req_header pl dev =
     marshal (default_header\<lparr>data_packet_len := int (length pl), device_type := dev, protocol := 1,
       direction := 128, hdr_instance := hdr_instance req_header,
       sequence_number := sequence_number req_header\<rparr>) @ pl"

section \<open>Facts about the header codec\<close>

lemma length_SIGNATURE [simp]: "length SIGNATURE = 8"
  by (simp add: SIGNATURE_def)

lemma length_marshal_unsummed [simp]: "length (marshal_unsummed h) = 32"
  by (simp add: marshal_unsummed_def)

lemma length_marshal [simp]: "length (marshal h) = 32"
  by (simp add: marshal_def Let_def)

lemma mask_le4_cases:
  obtains a b c d where "mask_le 4 x = [a, b, c, d]" and "int (le_nat [a, b, c, d]) = x mod 2 ^ 32"
proof -
  have "length (mask_le 4 x) = 4" by simp
  then obtain a b c d where e: "mask_le 4 x = [a, b, c, d]"
    by (rule length4E)
  moreover have "int (le_nat [a, b, c, d]) = x mod 2 ^ 32"
    using le_nat_mask_le [of 4 x] e by simp
  ultimately show ?thesis by (rule that)
qed

text \<open>What a header becomes once its fields have been masked to their wire width.\<close>

definition wire_header :: "header \<Rightarrow> header" where
  "wire_header h = \<lparr>major = major h mod 256, minor = minor h mod 256,
     data_packet_len = data_packet_len h mod 2 ^ 32, server_caps = server_caps h mod 256,
     device_type = device_type h mod 256, protocol = protocol h mod 256,
     direction = direction h mod 256, device_number = device_number h mod 256,
     interface_number = interface_number h mod 256, client_data = client_data h mod 256,
     hdr_instance = hdr_instance h mod 256, sequence_number = sequence_number h mod 2 ^ 32\<rparr>"

lemma parse_header_marshal: "parse_header (marshal h @ rest) = Inr (wire_header h)"
proof -
  obtain a b c d where x: "mask_le 4 (data_packet_len h) = [a, b, c, d]"
    and x': "int (le_nat [a, b, c, d]) = data_packet_len h mod 2 ^ 32" by (rule mask_le4_cases)
  obtain e f g i where y: "mask_le 4 (sequence_number h) = [e, f, g, i]"
    and y': "int (le_nat [e, f, g, i]) = sequence_number h mod 2 ^ 32" by (rule mask_le4_cases)
  obtain ck where m: "marshal h = (marshal_unsummed h)[11 := ck]" by (simp add: marshal_def Let_def)
  show ?thesis
    using x' y'
    by (simp add: parse_header_def m marshal_unsummed_def x y SIGNATURE_def pslice_def wire_header_def
        del: le_nat.simps)
qed

lemma sum_list_update_byte:
  fixes xs :: bytes
  shows "i < length xs \<Longrightarrow> sum_list (xs[i := v]) = sum_list xs - xs ! i + v"
  by (induction xs arbitrary: i) (auto split: nat.splits)

lemma marshal_unsummed_11 [simp]: "marshal_unsummed h ! 11 = 0"
  by (simp add: marshal_unsummed_def SIGNATURE_def)

lemma marshal_checksum: "sum_list (marshal h) = 0"
  by (simp add: marshal_def Let_def sum_list_update_byte)

lemma parse_header_Inr_iff:
  "(\<exists>h. parse_header b = Inr h) \<longleftrightarrow> 32 \<le> length b \<and> pslice 0 8 b = SIGNATURE"
  by (auto simp: parse_header_def)

lemma parse_header_ranges:
  assumes "parse_header b = Inr h"
  shows "0 \<le> data_packet_len h" and "data_packet_len h < 2 ^ 32"
    and "0 \<le> sequence_number h" and "sequence_number h < 2 ^ 32"
    and "0 \<le> hdr_instance h" and "hdr_instance h < 256"
proof -
  have l: "int (le_nat (pslice i (i + 4) b)) < 2 ^ 32" if "i + 4 \<le> length b" for i
    using le_nat_less [of "pslice i (i + 4) b"] that by (simp add: min_absorb1)
  have len: "32 \<le> length b" using assms by (auto simp: parse_header_def split: if_splits)
  from assms l [of 12] l [of 24] len
  show "0 \<le> data_packet_len h" and "data_packet_len h < 2 ^ 32"
    and "0 \<le> sequence_number h" and "sequence_number h < 2 ^ 32"
    and "0 \<le> hdr_instance h" and "hdr_instance h < 256"
    using uint_lt2p [of "b ! 23"] by (auto simp: parse_header_def split: if_splits)
qed

lemma parse_header_errors:
  "parse_header b = Inl e \<Longrightarrow> e = ProtocolError ''iusb.parse_header''"
  by (auto simp: parse_header_def split: if_splits)

lemma parse_request_frame_marshal:
  assumes "data_packet_len h = int (length pl)" and "length pl < 2 ^ 32"
  shows "parse_request_frame (marshal h @ pl) = Inr \<lparr>pkt_header = wire_header h, payload = pl\<rparr>"
  using assms parse_header_marshal [of h "[]"]
  by (simp add: parse_request_frame_def wire_header_def)

lemmas frame_simps = parse_header_marshal parse_request_frame_marshal

section \<open>Properties\<close>

definition header_in_range :: "header \<Rightarrow> bool" where
  "header_in_range h \<longleftrightarrow> list_all (\<lambda>x. 0 \<le> x \<and> x < 256) [major h, minor h, server_caps h, device_type h,
       protocol h, direction h, device_number h, interface_number h, client_data h, hdr_instance h]
     \<and> list_all (\<lambda>x. 0 \<le> x \<and> x < 2 ^ 32) [data_packet_len h, sequence_number h]"

lemma mod_eq_self_iff_range: "0 < (n :: int) \<Longrightarrow> (x mod n = x) \<longleftrightarrow> 0 \<le> x \<and> x < n"
  by (metis mod_pos_pos_trivial pos_mod_bound pos_mod_sign)

lemma wire_header_id: "wire_header h = h \<longleftrightarrow> header_in_range h"
  by (cases h) (auto simp: wire_header_def header_in_range_def mod_eq_self_iff_range)

text \<open>A marshalled IUSB header is 32 bytes that sum to zero modulo 256, and parsing it, whatever
  follows, returns the header with each field reduced to its width on the wire; a header whose fields
  fit their widths comes back unchanged.\<close>

theorem header_roundtrip:
  "length (marshal h) = HEADER_LEN \<and> sum_list (marshal h) = 0
   \<and> parse_header (marshal h @ rest) = Inr (wire_header h)
   \<and> (parse_header (marshal h @ rest) = Inr h \<longleftrightarrow> header_in_range h)"
  using wire_header_id [of h] by (simp add: parse_header_marshal marshal_checksum)

text \<open>\<open>Header.parse\<close> accepts a buffer exactly when it holds at least 32 bytes that start with the
  signature, raises a protocol error for \<open>iusb.parse_header\<close> otherwise, and every length and sequence
  number it returns is a 32-bit unsigned value.\<close>

theorem header_acceptance:
  "(case parse_header b of
      Inr h \<Rightarrow> 32 \<le> length b \<and> take 8 b = SIGNATURE
        \<and> 0 \<le> data_packet_len h \<and> data_packet_len h < 2 ^ 32
        \<and> 0 \<le> sequence_number h \<and> sequence_number h < 2 ^ 32
    | Inl e \<Rightarrow> e = ProtocolError ''iusb.parse_header'' \<and> \<not> (32 \<le> length b \<and> take 8 b = SIGNATURE))"
proof (cases "parse_header b")
  case (Inl e)
  then show ?thesis
    using parse_header_errors [OF Inl] parse_header_Inr_iff [of b] by (auto simp: pslice_def)
next
  case (Inr h)
  then have "\<exists>h. parse_header b = Inr h" by blast
  with Inr parse_header_ranges [OF Inr] parse_header_Inr_iff [of b] show ?thesis by (simp add: pslice_def)
qed

section \<open>Authentication\<close>

lemma auth_body_opcode:
  assumes "31 + length t \<le> n"
  shows "splice_at 31 (31 + length t) t ((replicate n 0)[9 := x, 30 := y]) ! 9 = x"
    and "pslice 31 (31 + length t) (splice_at 31 (31 + length t) t ((replicate n (0::byte))[9 := x, 30 := y])) = t"
    and "length (splice_at 31 (31 + length t) t ((replicate n 0)[9 := x, 30 := y])) = n"
  using assms by (simp_all add: nth_splice_at_before pslice_splice_at_same length_splice_at)

text \<open>For an ASCII token, \<open>build_auth\<close> fails exactly when the token does not fit behind offset
  31 of the 128-byte (240-byte with SSI) payload. Otherwise the frame it builds is one that
  \<open>parse_request_frame\<close> accepts, its opcode is the authentication opcode and the token's bytes stand
  at offset 31.\<close>

theorem build_auth_layout:
  assumes "encode_ascii token = Some t" and "n = (if ssi then 240 else 128)"
  shows "if n < 31 + length t then build_auth dev inst token ssi = Inl (ProtocolError ''iusb.build_auth'')
    else \<exists>frame p. build_auth dev inst token ssi = Inr frame \<and> parse_request_frame frame = Inr p
      \<and> length (payload p) = n \<and> opcode p = OP_AUTH \<and> pslice 31 (31 + length t) (payload p) = t
      \<and> device_type (pkt_header p) = dev mod 256 \<and> hdr_instance (pkt_header p) = inst mod 256"
proof (cases "n < 31 + length t")
  case True
  with assms show ?thesis by (cases ssi) (auto simp: build_auth_def Let_def)
next
  case False
  let ?body = "splice_at 31 (31 + length t) t ((replicate n 0)[9 := OP_AUTH, 30 := 0])"
  let ?h = "default_header\<lparr>data_packet_len := int n, device_type := dev, protocol := 1, direction := 128,
      hdr_instance := inst\<rparr>"
  have n: "n = 128 \<or> n = 240" using assms(2) by simp
  have body: "length ?body = n" "?body ! 9 = OP_AUTH" "pslice 31 (31 + length t) ?body = t"
    using auth_body_opcode [of t n] False by simp_all
  have "build_auth dev inst token ssi = Inr (marshal ?h @ ?body)"
    using assms False by (cases ssi) (auto simp: build_auth_def Let_def)
  moreover have "parse_request_frame (marshal ?h @ ?body) = Inr \<lparr>pkt_header = wire_header ?h, payload = ?body\<rparr>"
    by (rule parse_request_frame_marshal) (use body(1) n in auto)
  ultimately show ?thesis
    using False body n by (auto simp: opcode_def wire_header_def)
qed

theorem build_auth_layout_witness:
  "encode_ascii ''tok'' = Some [116, 111, 107]
   \<and> (\<exists>frame p. build_auth 5 0 ''tok'' False = Inr frame \<and> parse_request_frame frame = Inr p
      \<and> length (payload p) = 128 \<and> opcode p = OP_AUTH \<and> pslice 31 34 (payload p) = [116, 111, 107]
      \<and> device_type (pkt_header p) = 5 \<and> hdr_instance (pkt_header p) = 0)"
proof -
  have t: "encode_ascii ''tok'' = Some [116, 111, 107]" by code_simp
  show ?thesis using build_auth_layout [OF t, of 128 False 5 0] t by simp
qed

end
