(* ===== verification/Iusb_Cache.thy ===== *)
theory Iusb_Cache
  imports Ikvm_Errors
begin

text \<open>
  \<open>plugins/module_utils/iusb.py\<close>, the ISO backing store: the \<open>Reader\<close> protocol as a locale,
  \<open>FileReader\<close> (a local image file), and the windowed LRU \<open>Cache\<close> in front of a reader. The
  two sections that \<open>Cache._window\<close> runs under its lock are separate definitions, so that the
  interleaving of several threads between them can be stated as a step relation.
\<close>

section \<open>The \<open>Reader\<close> protocol\<close>

text \<open>A reader has a state, because both implementations change on a read (a file position, the
  cached windows). \<open>content\<close> is the medium it serves. \<open>read_at\<close> returns up to \<open>n\<close> bytes,
  fewer at the end of the medium.\<close>

type_synonym 'r read_op = "'r \<Rightarrow> int \<Rightarrow> int \<Rightarrow> (exn + bytes) \<times> 'r"

locale reader =
  fixes read_at :: "'r read_op"
    and content :: "'r \<Rightarrow> bytes"
    and rsize :: "'r \<Rightarrow> nat"
    and invar :: "'r \<Rightarrow> bool"
  assumes read_at_slice:
      "invar r \<Longrightarrow> 0 \<le> off \<Longrightarrow> fst (read_at r n off) = Inr (pslice (nat off) (nat (off + n)) (content r))"
    and read_at_invar: "invar r \<Longrightarrow> invar (snd (read_at r n off))"
    and read_at_content: "invar r \<Longrightarrow> content (snd (read_at r n off)) = content r"
    and rsize_content: "invar r \<Longrightarrow> rsize r = length (content r)"

section \<open>\<open>FileReader\<close>\<close>

text \<open>The file system as far as \<open>FileReader\<close> looks at it.\<close>

datatype fs_node = DirNode | FileNode bytes | UnreadableNode

record file_reader =
  fr_data :: bytes
  fr_size :: nat
  fr_pos :: nat
  fr_closed :: bool

definition file_reader_open :: "(string \<rightharpoonup> fs_node) \<Rightarrow> string \<Rightarrow> exn + file_reader" where
  "file_reader_open fs path = (case fs path of
      Some DirNode \<Rightarrow> Inl IsADirectoryError
    | None \<Rightarrow> Inl FileNotFoundError
    | Some UnreadableNode \<Rightarrow> Inl OSError
    | Some (FileNode bs) \<Rightarrow> Inr \<lparr>fr_data = bs, fr_size = length bs, fr_pos = 0, fr_closed = False\<rparr>)"

text \<open>\<open>seek\<close> and \<open>read\<close> on the one file object, which has one position, and \<open>read_at\<close> as the two in a row. An
  \<open>OSError\<close> of reading the image itself is not modelled.\<close>

definition file_seek :: "nat \<Rightarrow> file_reader \<Rightarrow> file_reader" where
  "file_seek off f = f\<lparr>fr_pos := off\<rparr>"

definition file_read :: "nat \<Rightarrow> file_reader \<Rightarrow> bytes \<times> file_reader" where
  "file_read n f = (let data = pslice (fr_pos f) (fr_pos f + n) (fr_data f) in (data, f\<lparr>fr_pos := fr_pos f + length data\<rparr>))"

definition file_read_at :: "file_reader read_op" where
  "file_read_at f n off =
     (if n \<le> 0 \<or> off < 0 then (Inr [], f)
      else if fr_closed f then (Inl ValueError, f)
      else let (data, f1) = file_read (nat n) (file_seek (nat off) f) in (Inr data, f1))"

definition file_close :: "file_reader \<Rightarrow> file_reader" where
  "file_close f = f\<lparr>fr_closed := True\<rparr>"

definition file_invar :: "file_reader \<Rightarrow> bool" where
  "file_invar f \<longleftrightarrow> \<not> fr_closed f \<and> fr_size f = length (fr_data f)"

interpretation file_rd: reader file_read_at fr_data fr_size file_invar
proof unfold_locales
  fix f :: file_reader and n off :: int
  assume f: "file_invar f"
  show "fst (file_read_at f n off) = Inr (pslice (nat off) (nat (off + n)) (fr_data f))" if "0 \<le> off"
    using f that by (auto simp: file_read_at_def file_read_def file_seek_def file_invar_def Let_def pslice_def nat_add_distrib)
  show "file_invar (snd (file_read_at f n off))" and "fr_data (snd (file_read_at f n off)) = fr_data f"
    using f by (auto simp: file_read_at_def file_read_def file_seek_def file_invar_def Let_def)
  show "fr_size f = length (fr_data f)" using f by (simp add: file_invar_def)
qed

lemma file_reader_open_invar: "file_reader_open fs path = Inr f \<Longrightarrow> file_invar f"
  by (auto simp: file_reader_open_def file_invar_def split: option.splits fs_node.splits)

section \<open>\<open>Cache\<close>\<close>

definition WINDOW_SIZE :: nat where "WINDOW_SIZE = 512 * 1024"
definition DEFAULT_MAX_WINDOWS :: nat where "DEFAULT_MAX_WINDOWS = 64"

record 'r cache =
  c_reader :: 'r
  c_window_size :: nat
  c_max_windows :: nat
  c_size :: nat
  c_windows :: "(nat \<times> bytes) list"
  c_hits :: nat
  c_misses :: nat
  c_fetched :: nat

definition cache_init :: "('r \<Rightarrow> nat) \<Rightarrow> 'r \<Rightarrow> nat \<Rightarrow> nat \<Rightarrow> 'r cache" where
  "cache_init size_op r ws mw = \<lparr>c_reader = r, c_window_size = ws, c_max_windows = mw,
     c_size = size_op r, c_windows = [], c_hits = 0, c_misses = 0, c_fetched = 0\<rparr>"

text \<open>The first locked section of \<open>_window\<close>: a hit moves the window to the most recently used
  end, a miss is counted.\<close>

definition window_lookup :: "nat \<Rightarrow> 'r cache \<Rightarrow> bytes option \<times> 'r cache" where
  "window_lookup start c = (case map_of (c_windows c) start of
      Some data \<Rightarrow> (Some data, c\<lparr>c_windows := od_move_to_end start (c_windows c), c_hits := c_hits c + 1\<rparr>)
    | None \<Rightarrow> (None, c\<lparr>c_misses := c_misses c + 1\<rparr>))"

definition window_want :: "nat \<Rightarrow> 'r cache \<Rightarrow> int" where
  "window_want start c = (if start + c_window_size c > c_size c then int (c_size c) - int start
     else int (c_window_size c))"

fun evict :: "nat \<Rightarrow> 'a list \<Rightarrow> 'a list" where
  "evict m ws = (if length ws > m then evict m (tl ws) else ws)"

declare evict.simps [simp del]

text \<open>The second locked section: the existing entry wins over a concurrent fetch, otherwise the
  fetched window is stored and the least recently used ones are evicted.\<close>

definition window_insert :: "nat \<Rightarrow> bytes \<Rightarrow> 'r cache \<Rightarrow> bytes \<times> 'r cache" where
  "window_insert start data c =
     (let c1 = c\<lparr>c_fetched := c_fetched c + length data\<rparr> in
      case map_of (c_windows c1) start of
        Some existing \<Rightarrow> (existing, c1\<lparr>c_windows := od_move_to_end start (c_windows c1)\<rparr>)
      | None \<Rightarrow> (data, c1\<lparr>c_windows := evict (c_max_windows c1) (c_windows c1 @ [(start, data)])\<rparr>))"

definition cache_window :: "'r read_op \<Rightarrow> nat \<Rightarrow> 'r cache \<Rightarrow> (exn + bytes) \<times> 'r cache" where
  "cache_window rd start c = (case window_lookup start c of
      (Some data, c1) \<Rightarrow> (Inr data, c1)
    | (None, c1) \<Rightarrow>
        (case rd (c_reader c1) (window_want start c1) (int start) of
           (Inl e, r1) \<Rightarrow> (Inl e, c1\<lparr>c_reader := r1\<rparr>)
         | (Inr data, r1) \<Rightarrow>
             (let (d, c2) = window_insert start data (c1\<lparr>c_reader := r1\<rparr>) in (Inr d, c2))))"

function cache_read_loop ::
  "'r read_op \<Rightarrow> nat \<Rightarrow> nat \<Rightarrow> bytes \<Rightarrow> 'r cache \<Rightarrow> (exn + bytes) \<times> 'r cache" where
  "cache_read_loop rd pos stop out c =
     (if pos < stop then
        if c_window_size c = 0 then (Inl ZeroDivisionError, c)
        else let win_start = pos - pos mod c_window_size c in
          (case cache_window rd win_start c of
             (Inl e, c1) \<Rightarrow> (Inl e, c1)
           | (Inr win, c1) \<Rightarrow>
               (let in_win = pos - win_start in
                if in_win \<ge> length win then (Inr out, c1)
                else let chunk_len = min (length win - in_win) (stop - pos) in
                  if chunk_len = 0 then (Inr out, c1)
                  else cache_read_loop rd (pos + chunk_len) stop
                         (out @ pslice in_win (in_win + chunk_len) win) c1))
      else (Inr out, c))"
  by pat_completeness auto
termination
  by (relation "measure (\<lambda>(rd, pos, stop, out, c). stop - pos)") auto

declare cache_read_loop.simps [simp del]

definition cache_read_at :: "'r read_op \<Rightarrow> 'r cache read_op" where
  "cache_read_at rd c n off =
     (if off < 0 then (Inl ValueError, c)
      else if off \<ge> int (c_size c) then (Inr [], c)
      else let stop = min (off + n) (int (c_size c))
           in cache_read_loop rd (nat off) (nat stop) [] c)"

text \<open>\<open>write_at\<close> and \<open>_invalidate\<close>. The writer, when there is one, acts on the same medium the
  reader reads.\<close>

function invalidate_loop :: "nat \<Rightarrow> nat \<Rightarrow> nat \<Rightarrow> (nat \<times> bytes) list \<Rightarrow> (nat \<times> bytes) list" where
  "invalidate_loop ws w stop wins =
     (if w < stop \<and> 0 < ws then invalidate_loop ws (w + ws) stop (od_pop w wins) else wins)"
  by pat_completeness auto
termination
  by (relation "measure (\<lambda>(ws, w, stop, wins). stop - w)") auto

declare invalidate_loop.simps [simp del]

definition invalidate :: "nat \<Rightarrow> nat \<Rightarrow> 'r cache \<Rightarrow> exn + 'r cache" where
  "invalidate off len c =
     (if len = 0 then Inr c
      else if c_window_size c = 0 then Inl ZeroDivisionError
      else Inr (c\<lparr>c_windows := invalidate_loop (c_window_size c) (off - off mod c_window_size c)
                               (off + len) (c_windows c)\<rparr>))"

definition cache_write_at ::
  "('r \<Rightarrow> bytes \<Rightarrow> nat \<Rightarrow> (exn + int) \<times> 'r) option \<Rightarrow> 'r cache \<Rightarrow> bytes \<Rightarrow> nat \<Rightarrow> (exn + int) \<times> 'r cache" where
  "cache_write_at writer c data off = (case writer of
      None \<Rightarrow> (Inl CacheReadOnlyError, c)
    | Some wr \<Rightarrow>
        (case wr (c_reader c) data off of
           (Inl e, r1) \<Rightarrow> (Inl e, c\<lparr>c_reader := r1\<rparr>)
         | (Inr n, r1) \<Rightarrow>
             (case invalidate off (length data) (c\<lparr>c_reader := r1\<rparr>) of
                Inl e \<Rightarrow> (Inl e, c\<lparr>c_reader := r1\<rparr>)
              | Inr c1 \<Rightarrow> (Inr n, c1))))"

definition cache_stats :: "'r cache \<Rightarrow> nat \<times> nat \<times> nat" where
  "cache_stats c = (c_hits c, c_misses c, c_fetched c)"

definition cached_window_count :: "'r cache \<Rightarrow> nat" where
  "cached_window_count c = length (c_windows c)"

section \<open>Interleaving of threads\<close>

text \<open>\<open>_window\<close> releases its lock between the two sections and reads the backing in between: a \<open>seek\<close> and a \<open>read\<close>
  on the one shared file object. A thread is outside \<open>_window\<close>, has missed a window, has sought its
  offset, or holds the bytes it read; each rule is one locked section or one operation on the file, which
  stays open. With \<open>serial\<close>, a fetch starts only when no other is between its \<open>seek\<close> and its \<open>read\<close>; nothing in
  the code enforces that.\<close>

datatype window_thread = Outside | Missed nat | Sought nat | Fetched nat bytes

type_synonym cache_threads = "file_reader cache \<times> (nat \<Rightarrow> window_thread)"

inductive cache_step :: "bool \<Rightarrow> cache_threads \<Rightarrow> cache_threads \<Rightarrow> bool" for serial :: bool where
  hit: "th t = Outside \<Longrightarrow> window_lookup s c = (Some d, c1) \<Longrightarrow> cache_step serial (c, th) (c1, th)"
| miss: "th t = Outside \<Longrightarrow> s mod c_window_size c = 0 \<Longrightarrow> s < c_size c \<Longrightarrow>
    window_lookup s c = (None, c1) \<Longrightarrow> cache_step serial (c, th) (c1, th(t := Missed s))"
| seek: "th t = Missed s \<Longrightarrow> serial \<longrightarrow> (\<forall>u s'. th u \<noteq> Sought s') \<Longrightarrow>
    cache_step serial (c, th) (c\<lparr>c_reader := file_seek s (c_reader c)\<rparr>, th(t := Sought s))"
| read: "th t = Sought s \<Longrightarrow> file_read (nat (window_want s c)) (c_reader c) = (data, r1) \<Longrightarrow>
    cache_step serial (c, th) (c\<lparr>c_reader := r1\<rparr>, th(t := Fetched s data))"
| insert: "th t = Fetched s data \<Longrightarrow> window_insert s data c = (d, c1) \<Longrightarrow>
    cache_step serial (c, th) (c1, th(t := Outside))"

inductive cache_reachable :: "bool \<Rightarrow> file_reader cache \<Rightarrow> cache_threads \<Rightarrow> bool"
  for serial :: bool and c0 :: "file_reader cache" where
  start: "cache_reachable serial c0 (c0, \<lambda>_. Outside)"
| step: "cache_reachable serial c0 x \<Longrightarrow> cache_step serial x y \<Longrightarrow> cache_reachable serial c0 y"

inductive_simps cache_step_iff: "cache_step serial (c, th) (c1, th1)"

section \<open>Correctness of the cache over any reader\<close>

definition window_ok :: "nat \<Rightarrow> bytes \<Rightarrow> nat \<times> bytes \<Rightarrow> bool" where
  "window_ok ws medium w \<longleftrightarrow> fst w mod ws = 0 \<and> snd w = pslice (fst w) (fst w + ws) medium"

definition cache_invar :: "('r \<Rightarrow> bytes) \<Rightarrow> ('r \<Rightarrow> bool) \<Rightarrow> 'r cache \<Rightarrow> bool" where
  "cache_invar cont I c \<longleftrightarrow> I (c_reader c) \<and> c_size c = length (cont (c_reader c))
     \<and> 0 < c_window_size c \<and> distinct (map fst (c_windows c))
     \<and> length (c_windows c) \<le> c_max_windows c
     \<and> (\<forall>w \<in> set (c_windows c). window_ok (c_window_size c) (cont (c_reader c)) w)"

definition same_config :: "'r cache \<Rightarrow> 'r cache \<Rightarrow> bool" where
  "same_config c c1 \<longleftrightarrow> c_window_size c1 = c_window_size c \<and> c_max_windows c1 = c_max_windows c
     \<and> c_size c1 = c_size c"

lemma same_config_refl [simp]: "same_config c c"
  by (simp add: same_config_def)

lemma same_config_trans: "same_config a b \<Longrightarrow> same_config b c \<Longrightarrow> same_config a c"
  by (simp add: same_config_def)

lemma evict_drop: "evict m ws = drop (length ws - m) ws"
proof (induction m ws rule: evict.induct)
  case (1 m ws)
  show ?case
  proof (cases "length ws > m")
    case True
    then have "evict m ws = drop (length (tl ws) - m) (tl ws)"
      using 1 by (simp add: evict.simps [of m ws])
    also have "\<dots> = drop (length ws - m) ws"
      using True by (cases ws) (simp_all add: Suc_diff_le)
    finally show ?thesis .
  next
    case False
    then show ?thesis by (simp add: evict.simps [of m ws])
  qed
qed

lemma length_evict: "length (evict m ws) = min m (length ws)"
  by (simp add: evict_drop)

lemma set_evict: "set (evict m ws) \<subseteq> set ws"
  by (simp add: evict_drop set_drop_subset)

lemma distinct_evict: "distinct (map f ws) \<Longrightarrow> distinct (map f (evict m ws))"
  by (simp add: evict_drop drop_map [symmetric])

lemma window_lookup_Some:
  assumes "cache_invar cont I c" and "window_lookup s c = (Some d, c1)"
  shows "cache_invar cont I c1" and "same_config c c1" and "c_reader c1 = c_reader c"
    and "s mod c_window_size c = 0" and "d = pslice s (s + c_window_size c) (cont (c_reader c))"
proof -
  from assms have m: "map_of (c_windows c) s = Some d"
    and c1: "c1 = c\<lparr>c_windows := od_move_to_end s (c_windows c), c_hits := c_hits c + 1\<rparr>"
    by (auto simp: window_lookup_def split: option.splits)
  from assms(1) show "cache_invar cont I c1" and "same_config c c1" and "c_reader c1 = c_reader c"
    by (auto simp: cache_invar_def c1 same_config_def set_od_move_to_end distinct_od_move_to_end
        length_od_move_to_end)
  from map_of_SomeD [OF m] assms(1)
  show "s mod c_window_size c = 0" and "d = pslice s (s + c_window_size c) (cont (c_reader c))"
    by (auto simp: cache_invar_def window_ok_def)
qed

lemma window_lookup_None:
  assumes "cache_invar cont I c" and "window_lookup s c = (None, c1)"
  shows "cache_invar cont I c1" and "same_config c c1" and "c_reader c1 = c_reader c"
  using assms by (auto simp: window_lookup_def cache_invar_def same_config_def split: option.splits)

lemma window_insert_spec:
  assumes inv: "cache_invar cont I c" and ins: "window_insert s data c = (d, c1)"
    and al: "s mod c_window_size c = 0" and data: "data = pslice s (s + c_window_size c) (cont (c_reader c))"
  shows "cache_invar cont I c1" and "same_config c c1" and "c_reader c1 = c_reader c" and "d = data"
proof -
  show "same_config c c1" and "c_reader c1 = c_reader c"
    using ins by (auto simp: window_insert_def same_config_def Let_def split: option.splits)
  have "cache_invar cont I c1 \<and> d = data"
  proof (cases "map_of (c_windows c) s")
    case None
    then have "s \<notin> fst ` set (c_windows c)" by (simp add: map_of_eq_None_iff)
    then have "distinct (map fst (evict (c_max_windows c) (c_windows c @ [(s, data)])))"
      using inv by (intro distinct_evict) (auto simp: cache_invar_def)
    moreover have "window_ok (c_window_size c) (cont (c_reader c)) w"
      if "w \<in> set (evict (c_max_windows c) (c_windows c @ [(s, data)]))" for w
      using subsetD [OF set_evict that] inv al data by (auto simp: cache_invar_def window_ok_def)
    ultimately show ?thesis
      using None inv ins by (auto simp: window_insert_def cache_invar_def Let_def length_evict)
  next
    case (Some d0)
    then have "d0 = data" using inv data by (auto simp: cache_invar_def window_ok_def dest!: map_of_SomeD)
    with Some inv ins show ?thesis
      by (auto simp: window_insert_def cache_invar_def Let_def set_od_move_to_end
          distinct_od_move_to_end length_od_move_to_end)
  qed
  then show "cache_invar cont I c1" and "d = data" by auto
qed

lemma cache_read_loop_step:
  assumes "pos < stop" and "c_window_size c \<noteq> 0" and "a = pos - pos mod c_window_size c"
    and "cache_window rd a c = (Inr win, c1)" and "pos - a < length win"
    and "k = min (length win - (pos - a)) (stop - pos)"
  shows "cache_read_loop rd pos stop out c
    = cache_read_loop rd (pos + k) stop (out @ pslice (pos - a) (pos - a + k) win) c1"
proof -
  have "k \<noteq> 0" and "\<not> length win \<le> pos - a" using assms(1,5,6) by auto
  then show ?thesis
    by (subst cache_read_loop.simps)
       (simp only: assms(1,2,4) assms(3) [symmetric] assms(6) [symmetric] Let_def if_True if_False
         prod.case sum.case)
qed

context reader
begin

lemma fetch_window:
  assumes "cache_invar content invar c" and "s < c_size c"
  shows "fst (read_at (c_reader c) (window_want s c) (int s))
    = Inr (pslice s (s + c_window_size c) (content (c_reader c)))"
proof -
  have r: "invar (c_reader c)" and sz: "c_size c = length (content (c_reader c))"
    using assms by (auto simp: cache_invar_def)
  have e: "nat (int s + window_want s c) = min (s + c_window_size c) (c_size c)"
    using assms(2) by (auto simp: window_want_def nat_add_distrib)
  have "fst (read_at (c_reader c) (window_want s c) (int s))
      = Inr (pslice s (min (s + c_window_size c) (c_size c)) (content (c_reader c)))"
    using read_at_slice [OF r, of "int s" "window_want s c"] e by simp
  also have "pslice s (min (s + c_window_size c) (c_size c)) (content (c_reader c))
      = pslice s (s + c_window_size c) (content (c_reader c))"
    using assms(2) by (auto simp: pslice_def sz min_def)
  finally show ?thesis .
qed

lemma set_reader_invar:
  assumes "cache_invar content invar c"
  shows "cache_invar content invar (c\<lparr>c_reader := snd (read_at (c_reader c) n off)\<rparr>)"
  using assms by (auto simp: cache_invar_def read_at_invar read_at_content)

lemma cache_window_spec:
  assumes inv: "cache_invar content invar c" and al: "s mod c_window_size c = 0" and lt: "s < c_size c"
    and w: "cache_window read_at s c = (res, c1)"
  shows "res = Inr (pslice s (s + c_window_size c) (content (c_reader c)))"
    and "cache_invar content invar c1" and "same_config c c1"
    and "content (c_reader c1) = content (c_reader c)"
proof -
  obtain o1 c' where lk: "window_lookup s c = (o1, c')" by (cases "window_lookup s c")
  have "res = Inr (pslice s (s + c_window_size c) (content (c_reader c)))
    \<and> cache_invar content invar c1 \<and> same_config c c1 \<and> content (c_reader c1) = content (c_reader c)"
  proof (cases o1)
    case (Some d)
    with lk w have "res = Inr d" and "c1 = c'" by (auto simp: cache_window_def)
    then show ?thesis using window_lookup_Some [OF inv] lk Some by auto
  next
    case None
    note n = window_lookup_None [OF inv lk [unfolded None]]
    let ?r = "read_at (c_reader c') (window_want s c') (int s)"
    let ?d = "pslice s (s + c_window_size c) (content (c_reader c))"
    from n(2,3) lt have lt': "s < c_size c'" by (simp add: same_config_def)
    have f: "fst ?r = Inr ?d"
      using fetch_window [OF n(1) lt'] n(2,3) by (simp add: same_config_def)
    obtain d c2 where i: "window_insert s ?d (c'\<lparr>c_reader := snd ?r\<rparr>) = (d, c2)" by fastforce
    have cont: "content (snd ?r) = content (c_reader c)"
      using inv n(3) by (auto simp: cache_invar_def read_at_content)
    have "res = Inr d" and "c1 = c2"
      using w f i lk None by (auto simp: cache_window_def split: prod.splits sum.splits)
    moreover note window_insert_spec [OF set_reader_invar [OF n(1)] i]
    ultimately show ?thesis using n cont al by (auto simp: same_config_def)
  qed
  then show "res = Inr (pslice s (s + c_window_size c) (content (c_reader c)))"
    and "cache_invar content invar c1" and "same_config c c1"
    and "content (c_reader c1) = content (c_reader c)" by auto
qed

lemma cache_read_loop_spec:
  assumes "cache_invar content invar c" and "pos \<le> stop" and "stop \<le> c_size c"
    and "cache_read_loop read_at pos stop out c = (res, c1)"
  shows "res = Inr (out @ pslice pos stop (content (c_reader c)))
    \<and> cache_invar content invar c1 \<and> same_config c c1 \<and> content (c_reader c1) = content (c_reader c)"
  using assms
proof (induction "stop - pos" arbitrary: pos out c rule: less_induct)
  case less
  show ?case
  proof (cases "pos < stop")
    case False
    then have "cache_read_loop read_at pos stop out c = (Inr out, c)"
      by (subst cache_read_loop.simps) simp
    with False less.prems show ?thesis by (simp add: pslice_def)
  next
    case True
    define ws a cont where "ws = c_window_size c" and "a = pos - pos mod ws"
      and "cont = content (c_reader c)"
    define win where "win = pslice a (a + ws) cont"
    define k where "k = min (length win - (pos - a)) (stop - pos)"
    have ws: "0 < ws" and sz: "c_size c = length cont"
      using less.prems(1) by (simp_all add: cache_invar_def ws_def cont_def)
    have al: "a mod ws = 0" and a: "a \<le> pos" and inws: "pos - a < ws"
      using ws by (simp_all add: a_def minus_mod_eq_mult_div [symmetric] mod_less_divisor)
    have lt: "a < c_size c" using a True less.prems(3) by linarith
    obtain w c' where cw: "cache_window read_at a c = (w, c')" by fastforce
    note spec = cache_window_spec [OF less.prems(1) al [unfolded ws_def] lt cw,
        folded ws_def cont_def, folded win_def]
    have len: "length win = min ws (length cont - a)" by (simp add: win_def)
    have inwin: "pos - a < length win" using inws a True less.prems(3) sz len by linarith
    have kle: "k \<le> length win - (pos - a)" "k \<le> stop - pos" by (simp_all add: k_def)
    have "length win \<le> ws" by (simp add: len)
    with kle inwin True have k: "pos + k \<le> stop" "(pos - a) + k \<le> ws" by linarith+
    have k0: "0 < k" using inwin True by (simp add: k_def)
    have chunk: "pslice (pos - a) (pos - a + k) win = pslice pos (pos + k) cont"
      using pslice_pslice [OF k(2), of a cont] a by (simp add: win_def)
    have "cache_read_loop read_at pos stop out c
        = cache_read_loop read_at (pos + k) stop (out @ pslice pos (pos + k) cont) c'"
      using cache_read_loop_step [OF True _ a_def [unfolded ws_def] cw [unfolded spec(1)] inwin k_def, of out]
        ws chunk by (simp add: ws_def)
    then have r: "cache_read_loop read_at (pos + k) stop (out @ pslice pos (pos + k) cont) c' = (res, c1)"
      using less.prems(4) by simp
    have dec: "stop - (pos + k) < stop - pos" and sz': "stop \<le> c_size c'"
      using k k0 True spec(3) less.prems(3) by (auto simp: same_config_def)
    note ih = less.hyps [OF dec spec(2) k(1) sz' r]
    have "pslice pos (pos + k) cont @ pslice (pos + k) stop cont = pslice pos stop cont"
      using k(1) by (intro pslice_adjacent) auto
    then show ?thesis
      using ih spec(3,4) by (simp add: cont_def [symmetric] same_config_trans [OF spec(3)])
  qed
qed

lemma cache_read_at_spec:
  assumes "cache_invar content invar c" and "0 \<le> off"
  shows "fst (cache_read_at read_at c n off) = Inr (pslice (nat off) (nat (off + n)) (content (c_reader c)))"
    and "cache_invar content invar (snd (cache_read_at read_at c n off))"
    and "content (c_reader (snd (cache_read_at read_at c n off))) = content (c_reader c)"
    and "same_config c (snd (cache_read_at read_at c n off))"
proof -
  let ?cont = "content (c_reader c)"
  have sz: "c_size c = length ?cont" using assms(1) by (simp add: cache_invar_def)
  have "fst (cache_read_at read_at c n off) = Inr (pslice (nat off) (nat (off + n)) ?cont)
    \<and> cache_invar content invar (snd (cache_read_at read_at c n off))
    \<and> content (c_reader (snd (cache_read_at read_at c n off))) = ?cont
    \<and> same_config c (snd (cache_read_at read_at c n off))"
  proof (cases "off \<ge> int (c_size c)")
    case True
    then show ?thesis using assms by (simp add: cache_read_at_def pslice_def sz nat_le_iff)
  next
    case False
    let ?stop = "nat (min (off + n) (int (c_size c)))"
    show ?thesis
    proof (cases "nat off \<le> ?stop")
      case True
      obtain res c1 where l: "cache_read_loop read_at (nat off) ?stop [] c = (res, c1)" by fastforce
      have "?stop \<le> c_size c" by simp
      note sp = cache_read_loop_spec [OF assms(1) True this l]
      have "pslice (nat off) ?stop ?cont = pslice (nat off) (nat (off + n)) ?cont"
        using False by (auto simp: pslice_def sz min_def)
      with sp l False assms(2) show ?thesis by (simp add: cache_read_at_def Let_def)
    next
      case F: False
      then have "\<not> nat off < ?stop" by linarith
      then have "cache_read_loop read_at (nat off) ?stop [] c = (Inr [], c)"
        by (subst cache_read_loop.simps) (simp only: if_False)
      moreover have "nat (off + n) \<le> nat off" using F False assms(2) by (simp add: min_def split: if_splits)
      ultimately show ?thesis using False assms by (simp add: cache_read_at_def Let_def pslice_def)
    qed
  qed
  then show "fst (cache_read_at read_at c n off) = Inr (pslice (nat off) (nat (off + n)) ?cont)"
    and "cache_invar content invar (snd (cache_read_at read_at c n off))"
    and "content (c_reader (snd (cache_read_at read_at c n off))) = ?cont"
    and "same_config c (snd (cache_read_at read_at c n off))" by auto
qed

lemma cache_init_invar:
  "invar r \<Longrightarrow> 0 < ws \<Longrightarrow> cache_invar content invar (cache_init rsize r ws mw)"
  by (simp add: cache_invar_def cache_init_def rsize_content)

text \<open>A cache is itself a reader of the same medium.\<close>

lemma cache_reader:
  "reader (cache_read_at read_at) (\<lambda>c. content (c_reader c)) c_size (cache_invar content invar)"
proof unfold_locales
  fix c :: "'r cache" and n off :: int
  assume c: "cache_invar content invar c"
  show "fst (cache_read_at read_at c n off) = Inr (pslice (nat off) (nat (off + n)) (content (c_reader c)))"
    if "0 \<le> off" by (rule cache_read_at_spec(1) [OF c that])
  show "cache_invar content invar (snd (cache_read_at read_at c n off))"
    using c cache_read_at_spec(2) [OF c] by (cases "0 \<le> off") (auto simp: cache_read_at_def)
  show "content (c_reader (snd (cache_read_at read_at c n off))) = content (c_reader c)"
    using c cache_read_at_spec(3) [OF c] by (cases "0 \<le> off") (auto simp: cache_read_at_def)
  show "c_size c = length (content (c_reader c))" using c by (simp add: cache_invar_def)
qed

end

interpretation cached_file: reader "cache_read_at file_read_at" "\<lambda>c. fr_data (c_reader c)" c_size
    "cache_invar fr_data file_invar"
  by (rule file_rd.cache_reader)

section \<open>Threads\<close>

text \<open>What a window may hold: with serial fetches its bytes of the image, otherwise the bytes of some range of
  the image of its length.\<close>

definition held :: "bool \<Rightarrow> nat \<Rightarrow> bytes \<Rightarrow> nat \<times> bytes \<Rightarrow> bool" where
  "held serial ws img w \<longleftrightarrow> fst w mod ws = 0 \<and>
     (if serial then snd w = pslice (fst w) (fst w + ws) img
      else \<exists>p. snd w = pslice p (p + min ws (length img - fst w)) img)"

definition windows_ok :: "(nat \<times> bytes \<Rightarrow> bool) \<Rightarrow> nat \<Rightarrow> (nat \<times> bytes) list \<Rightarrow> bool" where
  "windows_ok Q mw wins \<longleftrightarrow> distinct (map fst wins) \<and> length wins \<le> mw \<and> (\<forall>w \<in> set wins. Q w)"

definition thread_ok :: "bool \<Rightarrow> nat \<Rightarrow> bytes \<Rightarrow> nat \<Rightarrow> window_thread \<Rightarrow> bool" where
  "thread_ok serial ws img pos t \<longleftrightarrow> (case t of
      Outside \<Rightarrow> True
    | Missed s \<Rightarrow> s mod ws = 0 \<and> s < length img
    | Sought s \<Rightarrow> s mod ws = 0 \<and> s < length img \<and> (serial \<longrightarrow> pos = s)
    | Fetched s data \<Rightarrow> held serial ws img (s, data))"

definition threads_ok :: "bool \<Rightarrow> nat \<Rightarrow> nat \<Rightarrow> bytes \<Rightarrow> cache_threads \<Rightarrow> bool" where
  "threads_ok serial ws mw img x \<longleftrightarrow> (let c = fst x in
     fr_data (c_reader c) = img \<and> c_size c = length img \<and> c_window_size c = ws \<and> c_max_windows c = mw
     \<and> windows_ok (held serial ws img) mw (c_windows c))
   \<and> (\<forall>t. thread_ok serial ws img (fr_pos (c_reader (fst x))) (snd x t))
   \<and> (serial \<longrightarrow> (\<forall>t u s s'. snd x t = Sought s \<longrightarrow> snd x u = Sought s' \<longrightarrow> t = u))"

lemma windows_ok_insert:
  assumes "windows_ok Q (c_max_windows c) (c_windows c)" and "Q (s, data)" and "window_insert s data c = (d, c1)"
  shows "windows_ok Q (c_max_windows c) (c_windows c1) \<and> same_config c c1 \<and> c_reader c1 = c_reader c"
proof (cases "map_of (c_windows c) s")
  case None
  then have "s \<notin> fst ` set (c_windows c)" by (simp add: map_of_eq_None_iff)
  then have "distinct (map fst (evict (c_max_windows c) (c_windows c @ [(s, data)])))"
    using assms(1) by (intro distinct_evict) (auto simp: windows_ok_def)
  moreover have "Q w" if "w \<in> set (evict (c_max_windows c) (c_windows c @ [(s, data)]))" for w
    using subsetD [OF set_evict that] assms(1,2) by (auto simp: windows_ok_def)
  ultimately show ?thesis
    using None assms(3) by (auto simp: window_insert_def windows_ok_def same_config_def Let_def length_evict)
next
  case (Some d0)
  with assms show ?thesis
    by (auto simp: window_insert_def windows_ok_def same_config_def Let_def set_od_move_to_end
        distinct_od_move_to_end length_od_move_to_end)
qed

lemma windows_ok_lookup:
  assumes "windows_ok Q (c_max_windows c) (c_windows c)" and "window_lookup s c = (d, c1)"
  shows "windows_ok Q (c_max_windows c) (c_windows c1) \<and> same_config c c1 \<and> c_reader c1 = c_reader c"
  using assms
  by (auto simp: window_lookup_def windows_ok_def same_config_def set_od_move_to_end distinct_od_move_to_end
      length_od_move_to_end split: option.splits)

lemma window_want_length: "s < c_size c \<Longrightarrow> nat (window_want s c) = min (c_window_size c) (c_size c - s)"
  by (auto simp: window_want_def)

lemma held_read:
  assumes "thread_ok serial ws img pos (Sought s)" and "0 < ws"
  shows "held serial ws img (s, pslice pos (pos + min ws (length img - s)) img)"
proof (cases serial)
  case True
  with assms have "pos = s" "s mod ws = 0" by (simp_all add: thread_ok_def)
  moreover have "pslice s (s + min ws (length img - s)) img = pslice s (s + ws) img"
    by (simp add: pslice_def min_def)
  ultimately show ?thesis using True by (simp add: held_def)
next
  case False
  with assms show ?thesis by (auto simp: held_def thread_ok_def)
qed

lemma cache_step_threads_ok:
  assumes step: "cache_step serial (c, th) (c1, th1)" and ok: "threads_ok serial ws mw img (c, th)" and ws: "0 < ws"
  shows "threads_ok serial ws mw img (c1, th1)"
proof -
  have f: "fr_data (c_reader c) = img" "c_size c = length img" "c_window_size c = ws" "c_max_windows c = mw"
    "windows_ok (held serial ws img) mw (c_windows c)"
    and th: "\<And>t. thread_ok serial ws img (fr_pos (c_reader c)) (th t)"
    and one: "\<And>t u s s'. serial \<Longrightarrow> th t = Sought s \<Longrightarrow> th u = Sought s' \<Longrightarrow> t = u"
    using ok by (auto simp: threads_ok_def Let_def)
  from step show ?thesis
  proof (cases rule: cache_step.cases)
    case (hit t s d)
    with windows_ok_lookup [of "held serial ws img" c s "Some d" c1] f th one show ?thesis
      by (simp add: threads_ok_def same_config_def Let_def)
  next
    case (miss t s)
    then have "thread_ok serial ws img p (Missed s)" for p using f by (simp add: thread_ok_def)
    with miss windows_ok_lookup [of "held serial ws img" c s None c1] f th one show ?thesis
      by (simp add: threads_ok_def same_config_def Let_def) blast
  next
    case (seek t s)
    have a: "thread_ok serial ws img (fr_pos (c_reader c)) (Missed s)" using th [of t] seek(3) by simp
    have "thread_ok serial ws img s (th1 u)" for u
    proof (cases "u = t")
      case True
      with a seek show ?thesis by (simp add: thread_ok_def)
    next
      case False
      with seek th [of u] show ?thesis by (cases serial) (auto simp: thread_ok_def split: window_thread.splits)
    qed
    with seek f one show ?thesis by (auto simp: threads_ok_def Let_def file_seek_def)
  next
    case (read t s data r1)
    have a: "thread_ok serial ws img (fr_pos (c_reader c)) (Sought s)" using th [of t] read(3) by simp
    then have d: "thread_ok serial ws img p (Fetched s data)" for p
      using held_read [OF a ws] read(4) f by (simp add: thread_ok_def file_read_def Let_def window_want_length)
    have "thread_ok serial ws img (fr_pos r1) (th1 u)" for u
    proof (cases "u = t")
      case True
      with d read show ?thesis by simp
    next
      case False
      with read th [of u] one [of t s u] show ?thesis by (auto simp: thread_ok_def split: window_thread.splits)
    qed
    with read f one show ?thesis by (auto simp: threads_ok_def Let_def file_read_def)
  next
    case (insert t s data d)
    have "held serial ws img (s, data)" using th [of t] insert(2) by (simp add: thread_ok_def)
    with insert windows_ok_insert [of "held serial ws img" c s data d c1] f th one show ?thesis
      by (simp add: threads_ok_def same_config_def Let_def thread_ok_def) blast
  qed
qed

lemma cache_reachable_threads_ok:
  assumes "cache_reachable serial c0 x" and "threads_ok serial ws mw img (c0, \<lambda>_. Outside)" and "0 < ws"
  shows "threads_ok serial ws mw img x"
  using assms(1)
proof (induction rule: cache_reachable.induct)
  case start
  then show ?case by (rule assms(2))
next
  case (step x y)
  then show ?case using cache_step_threads_ok [OF _ _ assms(3)] by (cases x; cases y) blast
qed

section \<open>Invalidation\<close>

lemma invalidate_loop_spec:
  "0 < ws \<Longrightarrow> set (invalidate_loop ws w stop wins) =
     {p \<in> set wins. \<not> (\<exists>k. fst p = w + k * ws \<and> fst p < stop)}"
proof (induction ws w stop wins rule: invalidate_loop.induct)
  case (1 ws w stop wins)
  show ?case
  proof (cases "w < stop")
    case False
    then show ?thesis by (auto simp: invalidate_loop.simps [of ws w stop wins])
  next
    case True
    have split: "(\<exists>k. a = w + k * ws \<and> a < stop) \<longleftrightarrow> a = w \<or> (\<exists>k. a = w + ws + k * ws \<and> a < stop)" for a
    proof
      assume "\<exists>k. a = w + k * ws \<and> a < stop"
      then obtain k where k: "a = w + k * ws" "a < stop" by blast
      then show "a = w \<or> (\<exists>k. a = w + ws + k * ws \<and> a < stop)"
        by (cases k) auto
    next
      assume "a = w \<or> (\<exists>k. a = w + ws + k * ws \<and> a < stop)"
      then show "\<exists>k. a = w + k * ws \<and> a < stop"
        using True by (auto intro: exI [of _ 0] exI [of _ "Suc _"])
    qed
    have "set (invalidate_loop ws (w + ws) stop (od_pop w wins)) =
       {p \<in> set (od_pop w wins). \<not> (\<exists>k. fst p = w + ws + k * ws \<and> fst p < stop)}"
      using 1 True by blast
    then show ?thesis
      using True 1(2) by (simp only: invalidate_loop.simps [of ws w stop wins] set_od_pop split) auto
  qed
qed

lemma distinct_invalidate_loop:
  "distinct (map fst wins) \<Longrightarrow> distinct (map fst (invalidate_loop ws w stop wins))"
proof (induction ws w stop wins rule: invalidate_loop.induct)
  case (1 ws w stop wins)
  then show ?case by (auto simp: invalidate_loop.simps [of ws w stop wins] distinct_od_pop)
qed

lemma length_invalidate_loop: "length (invalidate_loop ws w stop wins) \<le> length wins"
proof (induction ws w stop wins rule: invalidate_loop.induct)
  case (1 ws w stop wins)
  then show ?case
    using length_od_pop_le [of w wins] by (auto simp: invalidate_loop.simps [of ws w stop wins])
qed

section \<open>Writing through the cache\<close>

text \<open>What \<open>write_at\<close> relies on: the writer stores the data into the medium the reader reads, inside
  its bounds, and keeps the reader usable.\<close>

definition writes_medium :: "('r \<Rightarrow> bytes) \<Rightarrow> ('r \<Rightarrow> bool) \<Rightarrow> ('r \<Rightarrow> bytes \<Rightarrow> nat \<Rightarrow> (exn + int) \<times> 'r) \<Rightarrow> bool" where
  "writes_medium cont I wr \<longleftrightarrow> (\<forall>r data off n r1. I r \<and> wr r data off = (Inr n, r1) \<longrightarrow>
     I r1 \<and> off + length data \<le> length (cont r) \<and> cont r1 = splice_at off (off + length data) data (cont r))"

lemma pslice_splice_at_outside:
  assumes "off + length data \<le> length m" and "s + k \<le> off \<or> off + length data \<le> s"
  shows "pslice s (s + k) (splice_at off (off + length data) data m) = pslice s (s + k) m"
proof (cases "s + k \<le> off")
  case True
  with assms(1) have "s + k \<le> length (take off m)" by simp
  then have "pslice s (s + k) (take off m @ data @ drop (max off (off + length data)) m) = pslice s (s + k) (take off m)"
    by (rule pslice_append_left)
  also have "\<dots> = pslice s (s + k) (take off m @ drop off m)"
    using \<open>s + k \<le> length (take off m)\<close> by (simp only: pslice_append_left)
  finally show ?thesis by (simp add: splice_at_def)
next
  case False
  with assms have "off + length data \<le> s" by simp
  with assms(1) show ?thesis by (simp add: pslice_def splice_at_def)
qed

lemma aligned_below: "0 < (ws :: nat) \<Longrightarrow> s mod ws = 0 \<Longrightarrow> s < off - off mod ws \<Longrightarrow> s + ws \<le> off"
proof -
  assume "0 < ws" and "s mod ws = 0" and "s < off - off mod ws"
  then obtain a where a: "s = ws * a" by auto
  have "off - off mod ws = ws * (off div ws)" by (simp add: minus_mod_eq_mult_div)
  with a \<open>s < off - off mod ws\<close> have "a < off div ws" by simp
  then have "ws * Suc a \<le> ws * (off div ws)" by (intro mult_le_mono2) simp
  with a \<open>off - off mod ws = ws * (off div ws)\<close> show ?thesis by simp
qed

lemma invalidated_outside:
  assumes "0 < ws" and "p \<in> set (invalidate_loop ws (off - off mod ws) stop wins)" and "fst p mod ws = 0"
  shows "p \<in> set wins \<and> (fst p + ws \<le> off \<or> stop \<le> fst p)"
proof -
  let ?w0 = "off - off mod ws"
  have p: "p \<in> set wins" "\<not> (\<exists>k. fst p = ?w0 + k * ws \<and> fst p < stop)"
    using assms(2) by (simp_all add: invalidate_loop_spec [OF assms(1)])
  have "fst p < ?w0 \<or> (\<exists>k. fst p = ?w0 + k * ws)"
  proof -
    obtain a where a: "fst p = ws * a" using assms(3) by auto
    have b: "?w0 = ws * (off div ws)" by (simp add: minus_mod_eq_mult_div)
    show ?thesis
    proof (cases "a < off div ws")
      case True
      then show ?thesis using a b assms(1) by simp
    next
      case False
      then have "ws * a = ws * (off div ws) + (a - off div ws) * ws" by (simp add: algebra_simps diff_mult_distrib2)
      with a b show ?thesis by auto
    qed
  qed
  with p aligned_below [OF assms(1,3)] show ?thesis by (meson not_le)
qed

lemma cache_write_invar:
  assumes "writes_medium cont I wr" and "cache_invar cont I c"
    and "cache_write_at (Some wr) c data off = (Inr n, c1)"
  shows "cache_invar cont I c1" and "cont (c_reader c1) = splice_at off (off + length data) data (cont (c_reader c))"
    and "same_config c c1"
proof -
  obtain r1 where w: "wr (c_reader c) data off = (Inr n, r1)"
    and inv: "invalidate off (length data) (c\<lparr>c_reader := r1\<rparr>) = Inr c1"
    using assms(3) by (auto simp: cache_write_at_def split: prod.splits sum.splits)
  have I: "I (c_reader c)" and ws: "0 < c_window_size c" using assms(2) by (simp_all add: cache_invar_def)
  have m: "I r1" "off + length data \<le> length (cont (c_reader c))"
    "cont r1 = splice_at off (off + length data) data (cont (c_reader c))"
    using assms(1) I w unfolding writes_medium_def by blast+
  have len: "length (cont r1) = length (cont (c_reader c))" using m by (simp add: length_splice_at)
  define wins where "wins = (if length data = 0 then c_windows c
    else invalidate_loop (c_window_size c) (off - off mod c_window_size c) (off + length data) (c_windows c))"
  have c1: "c1 = c\<lparr>c_reader := r1, c_windows := wins\<rparr>"
    using inv ws by (auto simp: invalidate_def wins_def split: if_splits)
  have ok: "window_ok (c_window_size c) (cont r1) p" if "p \<in> set wins" for p
  proof -
    have p: "p \<in> set (c_windows c)" using that by (auto simp: wins_def invalidate_loop_spec [OF ws] split: if_splits)
    then have wk: "window_ok (c_window_size c) (cont (c_reader c)) p" using assms(2) by (simp add: cache_invar_def)
    show ?thesis
    proof (cases "length data = 0")
      case True
      then show ?thesis using wk m(3) by (simp add: splice_at_def)
    next
      case False
      then have "fst p + c_window_size c \<le> off \<or> off + length data \<le> fst p"
        using invalidated_outside [OF ws, of p] that wk by (simp add: wins_def window_ok_def)
      then show ?thesis
        using wk m pslice_splice_at_outside [OF m(2)] by (simp add: window_ok_def)
    qed
  qed
  have "distinct (map fst wins)" "length wins \<le> length (c_windows c)"
    using assms(2) by (auto simp: wins_def cache_invar_def distinct_invalidate_loop length_invalidate_loop)
  then show "cache_invar cont I c1" using assms(2) m len ok by (auto simp: c1 cache_invar_def)
  show "cont (c_reader c1) = splice_at off (off + length data) data (cont (c_reader c))" by (simp add: c1 m)
  show "same_config c c1" by (simp add: c1 same_config_def)
qed

section \<open>Properties\<close>

text \<open>A client that issues a list of reads \<open>(n, offset)\<close>.\<close>

fun run_reads :: "'r read_op \<Rightarrow> (int \<times> int) list \<Rightarrow> 'r \<Rightarrow> (exn + bytes) list \<times> 'r" where
  "run_reads rd [] r = ([], r)"
| "run_reads rd ((n, off) # qs) r =
     (let (x, r1) = rd r n off; (xs, r2) = run_reads rd qs r1 in (x # xs, r2))"

lemma cached_run_reads:
  assumes "cache_invar fr_data file_invar c"
  shows "fst (run_reads (cache_read_at file_read_at) qs c) = map (\<lambda>(n, off).
      if off < 0 then Inl ValueError else Inr (pslice (nat off) (nat (off + n)) (fr_data (c_reader c)))) qs
    \<and> cache_invar fr_data file_invar (snd (run_reads (cache_read_at file_read_at) qs c))
    \<and> same_config c (snd (run_reads (cache_read_at file_read_at) qs c))"
  using assms
proof (induction qs arbitrary: c)
  case (Cons q qs)
  obtain n off where q: "q = (n, off)" by fastforce
  obtain x c1 where rd: "cache_read_at file_read_at c n off = (x, c1)" by fastforce
  have "x = (if off < 0 then Inl ValueError else Inr (pslice (nat off) (nat (off + n)) (fr_data (c_reader c))))
      \<and> cache_invar fr_data file_invar c1 \<and> fr_data (c_reader c1) = fr_data (c_reader c) \<and> same_config c c1"
  proof (cases "off < 0")
    case True
    with rd Cons.prems show ?thesis by (auto simp: cache_read_at_def)
  next
    case False
    with file_rd.cache_read_at_spec [OF Cons.prems, of off n] rd show ?thesis by simp
  qed
  with Cons.IH [of c1] rd show ?case
    by (auto simp: q split_def Let_def intro: same_config_trans)
qed simp

text \<open>C13. Caching is transparent: on an opened image, whatever the (positive) window size and the
  window limit, a sequence of reads through \<open>Cache\<close> returns, read by read, the bytes the image holds at
  those offsets (cut at its end; a negative offset raises \<open>ValueError\<close>), and never more than
  \<open>max_windows\<close> windows are resident.\<close>

theorem cache_transparent:
  assumes "file_reader_open fs path = Inr f" and "0 < ws"
    and "run_reads (cache_read_at file_read_at) qs (cache_init fr_size f ws mw) = (answers, c1)"
  shows "answers = map (\<lambda>(n, off). if off < 0 then Inl ValueError
      else Inr (pslice (nat off) (nat (off + n)) (fr_data f))) qs
    \<and> cached_window_count c1 \<le> mw"
proof -
  have inv: "cache_invar fr_data file_invar (cache_init fr_size f ws mw)"
    by (rule file_rd.cache_init_invar [OF file_reader_open_invar [OF assms(1)] assms(2)])
  have "fst (run_reads (cache_read_at file_read_at) qs (cache_init fr_size f ws mw)) = answers"
    and "snd (run_reads (cache_read_at file_read_at) qs (cache_init fr_size f ws mw)) = c1"
    using assms(3) by simp_all
  with cached_run_reads [OF inv, of qs] show ?thesis
    by (auto simp: cache_init_def cache_invar_def same_config_def cached_window_count_def)
qed

theorem cache_transparent_witness:
  "file_reader_open [''img'' \<mapsto> FileNode [1, 2, 3, 4, 5]] ''img''
     = Inr \<lparr>fr_data = [1, 2, 3, 4, 5], fr_size = 5, fr_pos = 0, fr_closed = False\<rparr>
   \<and> fst (run_reads (cache_read_at file_read_at) [(3, 1), (2, 4), (1, -1)]
       (cache_init fr_size \<lparr>fr_data = [1, 2, 3, 4, 5], fr_size = 5, fr_pos = 0, fr_closed = False\<rparr> 2 1))
     = [Inr [2, 3, 4], Inr [5], Inl ValueError]"
proof -
  let ?f = "\<lparr>fr_data = [1, 2, 3, 4, 5], fr_size = 5, fr_pos = 0, fr_closed = False\<rparr>"
  have o: "file_reader_open [''img'' \<mapsto> FileNode [1, 2, 3, 4, 5]] ''img'' = Inr ?f"
    by (simp add: file_reader_open_def)
  obtain answers c1 where r: "run_reads (cache_read_at file_read_at) [(3, 1), (2, 4), (1, -1)] (cache_init fr_size ?f 2 1)
      = (answers, c1)" by fastforce
  then have "answers = [Inr [2, 3, 4], Inr [5], Inl ValueError]"
    using cache_transparent [OF o _ r] by (simp add: pslice_def)
  then show ?thesis unfolding r using o by simp
qed

text \<open>C22. Threads: from an empty cache over an opened image, every interleaving of the two locked sections
  of \<open>_window\<close> and of the unlocked \<open>seek\<close> and \<open>read\<close> between them leads to a cache whose windows have distinct
  aligned starts, number at most \<open>max_windows\<close>, and hold bytes of the image, the right number of them. They
  are the bytes of that very window if no fetch starts while another is between its \<open>seek\<close> and its
  \<open>read\<close>, as when one thread serves; the same holds of the bytes a thread is about to insert.\<close>

theorem cache_threads_coherent:
  assumes "file_reader_open fs path = Inr f" and "0 < ws"
    and "cache_reachable serial (cache_init fr_size f ws mw) (c, th)"
  shows "length (c_windows c) \<le> mw \<and> distinct (map fst (c_windows c))
    \<and> (\<forall>s data. (s, data) \<in> set (c_windows c) \<or> (\<exists>t. th t = Fetched s data) \<longrightarrow> s mod ws = 0
         \<and> (\<exists>p. data = pslice p (p + min ws (length (fr_data f) - s)) (fr_data f))
         \<and> (serial \<longrightarrow> data = pslice s (s + ws) (fr_data f)))"
proof -
  have "threads_ok serial ws mw (fr_data f) (cache_init fr_size f ws mw, \<lambda>_. Outside)"
    using file_reader_open_invar [OF assms(1)]
    by (simp add: threads_ok_def thread_ok_def windows_ok_def cache_init_def file_invar_def Let_def)
  from cache_reachable_threads_ok [OF assms(3) this assms(2)] have ok: "threads_ok serial ws mw (fr_data f) (c, th)" .
  have "held serial ws (fr_data f) (s, data)" if "(s, data) \<in> set (c_windows c) \<or> (\<exists>t. th t = Fetched s data)" for s data
    using that
  proof
    assume "\<exists>t. th t = Fetched s data"
    then obtain t where "th t = Fetched s data" by blast
    moreover have "thread_ok serial ws (fr_data f) (fr_pos (c_reader c)) (th t)" using ok by (simp add: threads_ok_def)
    ultimately show ?thesis by (simp add: thread_ok_def)
  qed (use ok in \<open>simp add: threads_ok_def windows_ok_def Let_def\<close>)
  moreover have "s mod ws = 0 \<and> (\<exists>p. data = pslice p (p + min ws (length (fr_data f) - s)) (fr_data f))
      \<and> (serial \<longrightarrow> data = pslice s (s + ws) (fr_data f))" if "held serial ws (fr_data f) (s, data)" for s data
  proof -
    have "pslice s (s + ws) (fr_data f) = pslice s (s + min ws (length (fr_data f) - s)) (fr_data f)"
      by (simp add: pslice_def min_def)
    with that show ?thesis by (auto simp: held_def split: if_splits)
  qed
  ultimately show ?thesis using ok by (auto simp: threads_ok_def windows_ok_def Let_def)
qed

text \<open>Two threads, one window each: the second seeks between the first one's \<open>seek\<close> and \<open>read\<close>.\<close>

definition sample_image :: file_reader where
  "sample_image = \<lparr>fr_data = [1, 2, 3, 4], fr_size = 4, fr_pos = 0, fr_closed = False\<rparr>"

definition empty_cache :: "file_reader cache" where
  "empty_cache = cache_init fr_size sample_image 2 8"

lemma sample_image_opened: "file_reader_open [''img'' \<mapsto> FileNode [1, 2, 3, 4]] ''img'' = Inr sample_image"
  by (simp add: file_reader_open_def sample_image_def)

definition missed :: "nat \<Rightarrow> nat \<Rightarrow> file_reader cache" where
  "missed k p = (cache_init fr_size sample_image 2 8)\<lparr>c_misses := k, c_reader := sample_image\<lparr>fr_pos := p\<rparr>\<rparr>"

lemma reach_miss:
  "cache_reachable serial c0 (c, th) \<Longrightarrow> th t = Outside \<Longrightarrow> s mod c_window_size c = 0 \<Longrightarrow> s < c_size c \<Longrightarrow>
     window_lookup s c = (None, c1) \<Longrightarrow> cache_reachable serial c0 (c1, th(t := Missed s))"
  by (rule cache_reachable.step, assumption) (rule cache_step.miss)

lemma reach_seek:
  "cache_reachable serial c0 (c, th) \<Longrightarrow> th t = Missed s \<Longrightarrow> serial \<longrightarrow> (\<forall>u s'. th u \<noteq> Sought s') \<Longrightarrow>
     c1 = c\<lparr>c_reader := file_seek s (c_reader c)\<rparr> \<Longrightarrow> cache_reachable serial c0 (c1, th(t := Sought s))"
  by (rule cache_reachable.step, assumption) (simp add: cache_step.seek)

lemma reach_read:
  "cache_reachable serial c0 (c, th) \<Longrightarrow> th t = Sought s \<Longrightarrow> file_read (nat (window_want s c)) (c_reader c) = (data, r1) \<Longrightarrow>
     c1 = c\<lparr>c_reader := r1\<rparr> \<Longrightarrow> cache_reachable serial c0 (c1, th(t := Fetched s data))"
  by (rule cache_reachable.step, assumption) (simp add: cache_step.read)

lemma missed_simps [simp]:
  "c_window_size (missed k p) = 2" "c_size (missed k p) = 4" "c_windows (missed k p) = []" "c_max_windows (missed k p) = 8"
  "fr_data (c_reader (missed k p)) = [1, 2, 3, 4]" "fr_pos (c_reader (missed k p)) = p" "c_fetched (missed k p) = 0"
  "(missed k p)\<lparr>c_reader := file_seek q (c_reader (missed k p))\<rparr> = missed k q" "c_misses (missed k p) = k"
  "empty_cache = missed 0 0" "window_lookup s (missed k p) = (None, missed (Suc k) p)"
  by (simp_all add: missed_def empty_cache_def cache_init_def sample_image_def file_seek_def window_lookup_def)

lemma missed_read:
  "s \<in> {0, 2} \<Longrightarrow> p \<in> {0, 2} \<Longrightarrow> file_read (nat (window_want s (missed k p))) (c_reader (missed k p))
     = (if p = 0 then [1, 2] else [3, 4], c_reader (missed k (p + 2)))"
  by (auto simp: file_read_def window_want_def Let_def pslice_def missed_def cache_init_def sample_image_def)

theorem cache_threads_coherent_witness:
  "\<exists>c th. cache_reachable True empty_cache (c, th) \<and> th 0 = Fetched 0 [1, 2]"
proof -
  have "cache_reachable True empty_cache (missed 1 0, (\<lambda>_. Outside)(0 := Missed 0))"
    by (rule reach_miss [OF cache_reachable.start]) simp_all
  then have "cache_reachable True empty_cache (missed 1 0, (\<lambda>_. Outside)(0 := Missed 0, 0 := Sought 0))"
    by (rule reach_seek) simp_all
  from reach_read [OF this _ surjective_pairing refl, of 0 0] obtain c data
    where r: "cache_reachable True empty_cache (c, (\<lambda>_. Outside)(0 := Missed 0, 0 := Sought 0, 0 := Fetched 0 data))" by auto
  have t: "\<exists>t. ((\<lambda>_. Outside)(0 := Missed 0, 0 := Sought 0, 0 := Fetched 0 data)) t = Fetched 0 data" by (rule exI [of _ 0]) simp
  have "data = pslice 0 (0 + 2) (fr_data sample_image)"
    using cache_threads_coherent [OF sample_image_opened zero_less_numeral r [unfolded empty_cache_def]] t by blast
  then have "data = [1, 2]" by (simp add: sample_image_def pslice_def)
  with r show ?thesis by (intro exI conjI) (assumption | simp)+
qed

text \<open>Without that condition a window can be cached with the bytes of another one: the window at 0 of the
  image \<open>1, 2, 3, 4\<close> holds \<open>3, 4\<close>, and every later read is served from it.\<close>

theorem racing_seeks_cache_wrong_bytes:
  "\<exists>c th. cache_reachable False empty_cache (c, th) \<and> c_windows c = [(0, [3, 4])]
     \<and> fr_data (c_reader c) = [1, 2, 3, 4] \<and> fst (cache_read_at file_read_at c 2 0) = Inr [3, 4]"
proof -
  have "cache_reachable False empty_cache (missed 1 0, (\<lambda>_. Outside)(0 := Missed 0))"
    by (rule reach_miss [OF cache_reachable.start]) simp_all
  then have "cache_reachable False empty_cache (missed 2 0, (\<lambda>_. Outside)(0 := Missed 0, 1 := Missed 2))"
    by (rule reach_miss) (simp_all add: numeral_2_eq_2)
  then have "cache_reachable False empty_cache (missed 2 0, (\<lambda>_. Outside)(0 := Missed 0, 1 := Missed 2, 0 := Sought 0))"
    by (rule reach_seek) simp_all
  then have "cache_reachable False empty_cache (missed 2 2, (\<lambda>_. Outside)(0 := Missed 0, 1 := Missed 2, 0 := Sought 0, 1 := Sought 2))"
    by (rule reach_seek) simp_all
  moreover have rd: "file_read (nat (window_want 0 (missed 2 2))) (c_reader (missed 2 2)) = ([3, 4], c_reader (missed 2 4))"
    using missed_read [of 0 2 2] by simp
  ultimately have f: "cache_reachable False empty_cache (missed 2 4,
      (\<lambda>_. Outside)(0 := Missed 0, 1 := Missed 2, 0 := Sought 0, 1 := Sought 2, 0 := Fetched 0 [3, 4]))"
    by (intro reach_read [OF _ _ rd]) (simp_all add: missed_def)
  have ins: "window_insert 0 [3, 4] (missed 2 4) = ([3, 4], (missed 2 4)\<lparr>c_fetched := 2, c_windows := [(0, [3, 4])]\<rparr>)"
    by (simp add: window_insert_def Let_def evict.simps)
  have "cache_reachable False empty_cache ((missed 2 4)\<lparr>c_fetched := 2, c_windows := [(0, [3, 4])]\<rparr>,
      (\<lambda>_. Outside)(0 := Missed 0, 1 := Missed 2, 0 := Sought 0, 1 := Sought 2, 0 := Fetched 0 [3, 4], 0 := Outside))"
    by (rule cache_reachable.step [OF f cache_step.insert [OF _ ins]]) simp
  moreover have "fst (cache_read_at file_read_at ((missed 2 4)\<lparr>c_fetched := 2, c_windows := [(0, [3, 4])]\<rparr>) 2 0) = Inr [3, 4]"
    by (simp add: cache_read_at_def cache_read_loop.simps cache_window_def window_lookup_def
        od_move_to_end_def od_pop_def pslice_def)
  ultimately show ?thesis by (intro exI conjI) (assumption | simp)+
qed

text \<open>Writing through the cache: with a writer that stores into the medium the reader serves, a
  write leaves no stale window behind. Any read that follows returns the bytes of the medium as
  updated by the write.\<close>

theorem cache_write_through:
  assumes "writes_medium fr_data file_invar wr" and "cache_invar fr_data file_invar c"
    and "cache_write_at (Some wr) c data off = (Inr n, c1)" and "0 \<le> off'"
  shows "fst (cache_read_at file_read_at c1 m off')
    = Inr (pslice (nat off') (nat (off' + m)) (splice_at off (off + length data) data (fr_data (c_reader c))))"
  using file_rd.cache_read_at_spec(1) [OF cache_write_invar(1) [OF assms(1-3)] assms(4)]
    cache_write_invar(2) [OF assms(1-3)] by simp

text \<open>A writer for a file opened read-write.\<close>

definition file_write_at :: "file_reader \<Rightarrow> bytes \<Rightarrow> nat \<Rightarrow> (exn + int) \<times> file_reader" where
  "file_write_at f data off = (if off + length data \<le> length (fr_data f)
     then (Inr (int (length data)), f\<lparr>fr_data := splice_at off (off + length data) data (fr_data f)\<rparr>)
     else (Inl OSError, f))"

lemma file_write_at_medium: "writes_medium fr_data file_invar file_write_at"
  by (auto simp: writes_medium_def file_write_at_def file_invar_def length_splice_at split: if_splits)

theorem cache_write_through_witness:
  "\<exists>n c1. cache_write_at (Some file_write_at)
       ((cache_init fr_size \<lparr>fr_data = [1, 2, 3, 4], fr_size = 4, fr_pos = 0, fr_closed = False\<rparr> 2 8)
          \<lparr>c_windows := [(0, [1, 2]), (2, [3, 4])]\<rparr>) [9, 9] 1 = (Inr n, c1)
     \<and> fst (cache_read_at file_read_at c1 4 0) = Inr [1, 9, 9, 4]"
proof -
  let ?c = "(cache_init fr_size \<lparr>fr_data = [1, 2, 3, 4], fr_size = 4, fr_pos = 0, fr_closed = False\<rparr> 2 8)
      \<lparr>c_windows := [(0, [1, 2]), (2, [3, 4])]\<rparr>"
  have inv: "cache_invar fr_data file_invar ?c"
    by (simp add: cache_invar_def cache_init_def file_invar_def window_ok_def pslice_def)
  obtain n c1 where w: "cache_write_at (Some file_write_at) ?c [9, 9] 1 = (Inr n, c1)"
    by (simp add: cache_write_at_def file_write_at_def cache_init_def invalidate_def)
  from cache_write_through [OF file_write_at_medium inv w, of 0 4] w show ?thesis
    by (simp add: cache_init_def pslice_def splice_at_def)
qed

section \<open>A write between a miss and its insertion\<close>

text \<open>A thread that has read a window from the backing, but not yet inserted it, is not seen by
  \<open>_invalidate\<close>: the bytes from before the write are cached afterwards, and served to every later read.\<close>

theorem stale_window_after_write:
  "\<exists>c c1 old r1 n c2 c3.
     window_lookup 0 c = (None, c1)
     \<and> file_read_at (c_reader c1) (window_want 0 c1) 0 = (Inr old, r1)
     \<and> cache_write_at (Some file_write_at) (c1\<lparr>c_reader := r1\<rparr>) [9, 9] 0 = (Inr n, c2)
     \<and> window_insert 0 old c2 = (old, c3)
     \<and> fr_data (c_reader c3) = [9, 9] \<and> fst (cache_read_at file_read_at c3 2 0) = Inr [1, 2]"
proof -
  let ?c = "cache_init fr_size \<lparr>fr_data = [1, 2], fr_size = 2, fr_pos = 0, fr_closed = False\<rparr> 2 8"
  have "file_read_at (c_reader (?c\<lparr>c_misses := 1\<rparr>)) (window_want 0 (?c\<lparr>c_misses := 1\<rparr>)) 0
      = (Inr [1, 2], \<lparr>fr_data = [1, 2], fr_size = 2, fr_pos = 2, fr_closed = False\<rparr>)" by code_simp
  moreover have "window_lookup 0 ?c = (None, ?c\<lparr>c_misses := 1\<rparr>)" by (simp add: window_lookup_def cache_init_def)
  moreover have "cache_write_at (Some file_write_at)
      (?c\<lparr>c_misses := 1, c_reader := \<lparr>fr_data = [1, 2], fr_size = 2, fr_pos = 2, fr_closed = False\<rparr>\<rparr>) [9, 9] 0
      = (Inr 2, ?c\<lparr>c_misses := 1, c_reader := \<lparr>fr_data = [9, 9], fr_size = 2, fr_pos = 2, fr_closed = False\<rparr>\<rparr>)"
    by (simp add: cache_write_at_def file_write_at_def cache_init_def invalidate_def splice_at_def
        invalidate_loop.simps od_pop_def)
  moreover have "window_insert 0 [1, 2] (?c\<lparr>c_misses := 1, c_reader := \<lparr>fr_data = [9, 9], fr_size = 2, fr_pos = 2, fr_closed = False\<rparr>\<rparr>)
      = ([1, 2], ?c\<lparr>c_misses := 1, c_reader := \<lparr>fr_data = [9, 9], fr_size = 2, fr_pos = 2, fr_closed = False\<rparr>,
           c_fetched := 2, c_windows := [(0, [1, 2])]\<rparr>)"
    by (simp add: window_insert_def cache_init_def evict.simps)
  moreover have "fst (cache_read_at file_read_at (?c\<lparr>c_misses := 1, c_reader := \<lparr>fr_data = [9, 9], fr_size = 2, fr_pos = 2, fr_closed = False\<rparr>,
           c_fetched := 2, c_windows := [(0, [1, 2])]\<rparr>) 2 0) = Inr [1, 2]"
    by (simp add: cache_read_at_def cache_init_def cache_read_loop.simps cache_window_def window_lookup_def
        od_move_to_end_def od_pop_def pslice_def)
  ultimately show ?thesis
    by (intro exI conjI) (assumption | simp)+
qed

end
