(* ===== verification/Iusb_Cdrom.thy ===== *)
theory Iusb_Cdrom
  imports Iusb_Frame Iusb_Cache
begin

text \<open>
  \<open>plugins/module_utils/iusb.py\<close>, the read-only CD-ROM emulator \<open>CDROMDevice\<close> over any
  \<open>Reader\<close>, and \<open>process_frame\<close>. Counts and block addresses come from unsigned
  big-endian fields, so they are \<open>nat\<close>; \<open>int.to_bytes\<close> raises \<open>OverflowError\<close> when a
  value does not fit, and that exception is a branch of the model.
\<close>

section \<open>Constants\<close>

definition CD_BLOCK_SIZE :: nat where [simp]: "CD_BLOCK_SIZE = 2048"
definition SCSI_TEST_UNIT_READY :: byte where [simp]: "SCSI_TEST_UNIT_READY = 0x00"
definition SCSI_START_STOP_UNIT :: byte where [simp]: "SCSI_START_STOP_UNIT = 0x1B"
definition SCSI_READ_CAPACITY10 :: byte where [simp]: "SCSI_READ_CAPACITY10 = 0x25"
definition SCSI_READ10 :: byte where [simp]: "SCSI_READ10 = 0x28"
definition SCSI_READ_TOC :: byte where [simp]: "SCSI_READ_TOC = 0x43"
definition SCSI_READ12 :: byte where [simp]: "SCSI_READ12 = 0xA8"
definition AMI_CONTROL_OPCODE_MIN :: byte where [simp]: "AMI_CONTROL_OPCODE_MIN = 0xF0"

section \<open>Device\<close>

record 'r cdrom =
  dev_reader :: 'r
  last_lba :: nat
  n_bytes :: nat
  n_blocks :: nat

definition cdrom_init :: "('r \<Rightarrow> nat) \<Rightarrow> 'r \<Rightarrow> 'r cdrom" where
  "cdrom_init size_op r = (let n = size_op r div CD_BLOCK_SIZE in
     \<lparr>dev_reader = r, last_lba = (if n > 0 then n - 1 else 0), n_bytes = 0, n_blocks = 0\<rparr>)"

definition to_bytes_le :: "nat \<Rightarrow> nat \<Rightarrow> exn + bytes" where
  "to_bytes_le k x = (if x < 256 ^ k then Inr (le_bytes k x) else Inl OverflowError)"

definition to_bytes_be :: "nat \<Rightarrow> nat \<Rightarrow> exn + bytes" where
  "to_bytes_be k x = (if x < 256 ^ k then Inr (be_bytes k x) else Inl OverflowError)"

text \<open>\<open>out[i:i+4] = n.to_bytes(4, "little")\<close> when the buffer is long enough.\<close>

definition put_len :: "nat \<Rightarrow> nat \<Rightarrow> bytes \<Rightarrow> exn + bytes" where
  "put_len i n out = (if length out \<ge> i + 4
     then (case to_bytes_le 4 n of Inl e \<Rightarrow> Inl e | Inr b \<Rightarrow> Inr (splice_at i (i + 4) b out))
     else Inr out)"

definition build_response :: "packet \<Rightarrow> bytes \<Rightarrow> exn + bytes" where
  "build_response req data =
     (let out = payload req @ data; n = length data in
      case put_len ENV_OFF_DATA_LEN n out of
        Inl e \<Rightarrow> Inl e
      | Inr out1 \<Rightarrow> put_len ENV_OFF_RESP_LEN n out1)"

definition cd_read :: "'r read_op \<Rightarrow> nat \<Rightarrow> nat \<Rightarrow> 'r cdrom \<Rightarrow> (exn + bytes) \<times> 'r cdrom" where
  "cd_read rd lba blocks dev =
     (let n = blocks * CD_BLOCK_SIZE; off = lba * CD_BLOCK_SIZE in
      case rd (dev_reader dev) (int n) (int off) of
        (Inl e, r1) \<Rightarrow> (Inl e, dev\<lparr>dev_reader := r1\<rparr>)
      | (Inr data, r1) \<Rightarrow>
          (Inr (splice_at 0 (length data) data (replicate n 0)),
           dev\<lparr>dev_reader := r1, n_bytes := n_bytes dev + length data,
               n_blocks := n_blocks dev + blocks\<rparr>))"

definition read_capacity :: "'r cdrom \<Rightarrow> exn + bytes" where
  "read_capacity dev = (case to_bytes_be 4 (last_lba dev) of
      Inl e \<Rightarrow> Inl e
    | Inr a \<Rightarrow> (case to_bytes_be 4 CD_BLOCK_SIZE of Inl e \<Rightarrow> Inl e | Inr b \<Rightarrow> Inr (a @ b)))"

definition toc_track :: "byte \<Rightarrow> nat \<Rightarrow> exn + bytes" where
  "toc_track no lba = (case to_bytes_be 4 lba of
      Inl e \<Rightarrow> Inl e
    | Inr b \<Rightarrow> Inr (splice_at 4 8 b ((replicate 8 0)[1 := 0x14, 2 := no])))"

definition read_toc :: "'r cdrom \<Rightarrow> bytes \<Rightarrow> exn + bytes" where
  "read_toc dev c = (case toc_track 1 0 of Inl e \<Rightarrow> Inl e | Inr t1 \<Rightarrow>
     (case toc_track 0xAA (last_lba dev + 1) of Inl e \<Rightarrow> Inl e | Inr t2 \<Rightarrow>
       (let body = t1 @ t2 in
        case to_bytes_be 2 (length body + 2) of Inl e \<Rightarrow> Inl e | Inr len \<Rightarrow>
          (let out = len @ [1, 1] @ body;
               alloc = (if length c \<ge> 9 then be_nat (pslice 7 9 c) else 0)
           in if alloc \<noteq> 0 \<and> alloc < length out then Inr (take alloc out) else Inr out))))"

text \<open>\<open>self._build_response(req, x)\<close> for a body that was computed without touching the device.\<close>

definition respond :: "packet \<Rightarrow> exn + bytes \<Rightarrow> exn + bytes option" where
  "respond req x = (case x of Inl e \<Rightarrow> Inl e
     | Inr data \<Rightarrow> (case build_response req data of Inl e \<Rightarrow> Inl e | Inr out \<Rightarrow> Inr (Some out)))"

definition cd_handle :: "'r read_op \<Rightarrow> 'r cdrom \<Rightarrow> packet \<Rightarrow> (exn + bytes option) \<times> 'r cdrom" where
  "cd_handle rd dev req =
     (let c = cdb req in
      if c = [] then (Inr None, dev)
      else let op = hd c in
        if op = SCSI_TEST_UNIT_READY then (respond req (Inr []), dev)
        else if op = SCSI_START_STOP_UNIT then (respond req (Inr []), dev)
        else if op = SCSI_READ_CAPACITY10 then (respond req (read_capacity dev), dev)
        else if op = SCSI_READ10 then
          (let (x, dev1) = cd_read rd (be_nat (pslice 2 6 c)) (be_nat (pslice 7 9 c)) dev
           in (respond req x, dev1))
        else if op = SCSI_READ12 then
          (let (x, dev1) = cd_read rd (be_nat (pslice 2 6 c)) (be_nat (pslice 6 10 c)) dev
           in (respond req x, dev1))
        else if op = SCSI_READ_TOC then (respond req (read_toc dev c), dev)
        else if op \<ge> AMI_CONTROL_OPCODE_MIN then (respond req (Inr []), dev)
        else (respond req (Inr []), dev))"

definition process_frame ::
  "('h \<Rightarrow> packet \<Rightarrow> (exn + bytes option) \<times> 'h) \<Rightarrow> 'h \<Rightarrow> bytes \<Rightarrow> int \<Rightarrow> (exn + bytes option) \<times> 'h" where
  "process_frame handle h frame dev_type = (case parse_request_frame frame of
      Inl e \<Rightarrow> (Inl e, h)
    | Inr req \<Rightarrow>
        if is_kill req then (Inr None, h)
        else (case handle h req of
            (Inl e, h1) \<Rightarrow> (Inl e, h1)
          | (Inr None, h1) \<Rightarrow> (Inr None, h1)
          | (Inr (Some pl), h1) \<Rightarrow> (Inr (Some (build_response_frame (pkt_header req) pl dev_type)), h1)))"

section \<open>Facts about responses\<close>

text \<open>What the emulated drive is meant to return for a block range: the medium's bytes, zeros past
  its end.\<close>

definition cd_block_range :: "bytes \<Rightarrow> nat \<Rightarrow> nat \<Rightarrow> bytes" where
  "cd_block_range medium lba blocks =
     (let d = pslice (lba * 2048) ((lba + blocks) * 2048) medium
      in d @ replicate (blocks * 2048 - length d) 0)"

lemma length_cd_block_range [simp]: "length (cd_block_range medium lba blocks) = blocks * 2048"
  by (simp add: cd_block_range_def Let_def algebra_simps)

lemma nth_cd_block_range:
  "i < blocks * 2048 \<Longrightarrow> cd_block_range medium lba blocks ! i =
     (if lba * 2048 + i < length medium then medium ! (lba * 2048 + i) else 0)"
  by (auto simp: cd_block_range_def Let_def nth_append nth_pslice algebra_simps)

text \<open>The two length fields of the envelope, and every other byte of it echoed.\<close>

definition envelope_of :: "bytes \<Rightarrow> bytes \<Rightarrow> bytes \<Rightarrow> bool" where
  "envelope_of env data out \<longleftrightarrow> length out = length env + length data
     \<and> le_nat (pslice 0 4 out) = length data \<and> le_nat (pslice 25 29 out) = length data
     \<and> drop (length env) out = data
     \<and> (\<forall>i < length env. \<not> (i < 4 \<or> 25 \<le> i \<and> i < 29) \<longrightarrow> out ! i = env ! i)"

lemma put_len_Inr:
  assumes "n < 2 ^ 32" and "i + 4 \<le> length out"
  shows "put_len i n out = Inr (splice_at i (i + 4) (le_bytes 4 n) out)"
  using assms by (simp add: put_len_def to_bytes_le_def)

lemma build_response_envelope:
  assumes len: "29 \<le> length (payload req)" and n: "length data < 2 ^ 32"
  shows "\<exists>out. build_response req data = Inr out \<and> envelope_of (payload req) data out"
proof -
  let ?env = "payload req" and ?l = "le_bytes 4 (length data)"
  define a where "a = splice_at 0 4 ?l (?env @ data)"
  define out where "out = splice_at 25 29 ?l a"
  have la: "length a = length ?env + length data"
    using len by (simp add: a_def length_splice_at)
  have lo: "length out = length ?env + length data"
    using len la by (simp add: out_def length_splice_at)
  have val: "le_nat ?l = length data" using n by simp
  have "build_response req data = Inr out"
    using len n la by (simp add: build_response_def Let_def put_len_Inr a_def [symmetric]
        put_len_Inr [of "length data" 25 a, simplified] out_def)
  moreover have "pslice 25 29 out = ?l"
    using len la by (simp add: out_def pslice_splice_at_same)
  moreover have "pslice 0 4 out = ?l"
  proof -
    have "take 4 out = take 4 a" using len la by (simp add: out_def splice_at_def)
    moreover have "pslice 0 4 a = ?l" by (simp add: a_def pslice_splice_at_same)
    ultimately show ?thesis by (simp add: pslice_def)
  qed
  moreover have d: "out ! i = (?env @ data) ! i"
    if "\<not> (i < 4 \<or> 25 \<le> i \<and> i < 29)" "i < length ?env + length data" for i
  proof -
    have "out ! i = a ! i"
      using that len la nth_splice_at_before [of i 25 a 29 ?l] nth_splice_at_after [of 25 29 a ?l i]
      by (cases "i < 25") (auto simp: out_def)
    also have "\<dots> = (?env @ data) ! i"
      using that len by (auto simp: a_def nth_splice_at_after)
    finally show ?thesis .
  qed
  moreover have "drop (length ?env) out = data"
  proof (rule nth_equalityI)
    show "length (drop (length ?env) out) = length data" by (simp add: lo)
    fix i assume "i < length (drop (length ?env) out)"
    then have "i < length data" by (simp add: lo)
    with d [of "length ?env + i"] len lo show "drop (length ?env) out ! i = data ! i"
      by (simp add: nth_append)
  qed
  ultimately show ?thesis using lo val by (auto simp: envelope_of_def nth_append)
qed

lemma build_response_overflow:
  "2 ^ 32 \<le> length data \<Longrightarrow> build_response req data = Inl OverflowError"
  by (simp add: build_response_def Let_def put_len_def to_bytes_le_def)

lemma cdb_Cons: "9 < length (payload p) \<Longrightarrow> cdb p \<noteq> [] \<and> hd (cdb p) = payload p ! 9"
  by (simp add: cdb_def hd_drop_conv_nth)

context reader
begin

lemma cd_read_spec:
  assumes "invar (dev_reader dev)"
  shows "fst (cd_read read_at lba blocks dev)
      = Inr (cd_block_range (content (dev_reader dev)) lba blocks)"
    and "invar (dev_reader (snd (cd_read read_at lba blocks dev)))"
    and "content (dev_reader (snd (cd_read read_at lba blocks dev))) = content (dev_reader dev)"
    and "last_lba (snd (cd_read read_at lba blocks dev)) = last_lba dev"
    and "n_blocks (snd (cd_read read_at lba blocks dev)) = n_blocks dev + blocks"
proof -
  let ?m = "content (dev_reader dev)"
  let ?r = "read_at (dev_reader dev) (int (blocks * 2048)) (int (lba * 2048))"
  let ?d = "pslice (lba * 2048) ((lba + blocks) * 2048) ?m"
  have "nat (int (lba * 2048) + int (blocks * 2048)) = (lba + blocks) * 2048"
    by (simp add: algebra_simps)
  then have f: "fst ?r = Inr ?d"
    using read_at_slice [OF assms, of "int (lba * 2048)" "int (blocks * 2048)"]
    by (simp only: nat_int of_nat_0_le_iff simp_thms)
  have le: "length ?d \<le> blocks * 2048" by (simp add: algebra_simps)
  have buf: "splice_at 0 (length ?d) ?d (replicate (blocks * 2048) 0) = cd_block_range ?m lba blocks"
    by (simp add: splice_at_def cd_block_range_def Let_def)
  have rr: "?r = (Inr ?d, snd ?r)" using f by (metis prod.collapse)
  have e: "cd_read read_at lba blocks dev =
     (Inr (cd_block_range ?m lba blocks), dev\<lparr>dev_reader := snd ?r, n_bytes := n_bytes dev + length ?d,
        n_blocks := n_blocks dev + blocks\<rparr>)"
    by (subst cd_read_def, unfold Let_def CD_BLOCK_SIZE_def, subst rr, simp only: prod.case sum.case buf)
  show "fst (cd_read read_at lba blocks dev) = Inr (cd_block_range ?m lba blocks)"
    and "invar (dev_reader (snd (cd_read read_at lba blocks dev)))"
    and "content (dev_reader (snd (cd_read read_at lba blocks dev))) = ?m"
    and "last_lba (snd (cd_read read_at lba blocks dev)) = last_lba dev"
    and "n_blocks (snd (cd_read read_at lba blocks dev)) = n_blocks dev + blocks"
    unfolding e using assms by (simp_all add: read_at_invar read_at_content)
qed

lemma cd_handle_medium:
  assumes "invar (dev_reader dev)"
  shows "invar (dev_reader (snd (cd_handle read_at dev req)))"
    and "content (dev_reader (snd (cd_handle read_at dev req))) = content (dev_reader dev)"
    and "last_lba (snd (cd_handle read_at dev req)) = last_lba dev"
  using assms by (auto simp: cd_handle_def Let_def cd_read_spec split: prod.splits
      dest!: arg_cong [where f = snd])

end

section \<open>READ commands\<close>

text \<open>The command block of a packet, and the block range a READ(10) or READ(12) names.\<close>

definition read_range :: "packet \<Rightarrow> (nat \<times> nat) option" where
  "read_range req = (let c = cdb req in
     if length (payload req) \<le> 9 then None
     else if payload req ! 9 = SCSI_READ10 then Some (be_nat (pslice 2 6 c), be_nat (pslice 7 9 c))
     else if payload req ! 9 = SCSI_READ12 then Some (be_nat (pslice 2 6 c), be_nat (pslice 6 10 c))
     else None)"

lemma cd_handle_read:
  assumes "read_range req = Some (lba, blocks)"
  shows "cd_handle rd dev req = (let (x, dev1) = cd_read rd lba blocks dev in (respond req x, dev1))"
proof -
  have "9 < length (payload req)" using assms by (auto simp: read_range_def Let_def split: if_splits)
  from cdb_Cons [OF this] this assms show ?thesis
    by (auto simp: cd_handle_def read_range_def Let_def split: if_splits)
qed

context reader
begin

lemma cd_handle_read_ok:
  assumes "invar (dev_reader dev)" and "read_range req = Some (lba, blocks)" and "29 \<le> length (payload req)"
    and "blocks * 2048 < 2 ^ 32"
  shows "\<exists>out dev1. cd_handle read_at dev req = (Inr (Some out), dev1)
    \<and> envelope_of (payload req) (cd_block_range (content (dev_reader dev)) lba blocks) out
    \<and> n_blocks dev1 = n_blocks dev + blocks \<and> content (dev_reader dev1) = content (dev_reader dev)"
proof -
  obtain x dev1 where r: "cd_read read_at lba blocks dev = (x, dev1)" by fastforce
  then have x: "x = Inr (cd_block_range (content (dev_reader dev)) lba blocks)"
    and d: "n_blocks dev1 = n_blocks dev + blocks" "content (dev_reader dev1) = content (dev_reader dev)"
    using cd_read_spec [OF assms(1), of lba blocks] by simp_all
  obtain out where o: "build_response req (cd_block_range (content (dev_reader dev)) lba blocks) = Inr out"
    "envelope_of (payload req) (cd_block_range (content (dev_reader dev)) lba blocks) out"
    using build_response_envelope [OF assms(3), of "cd_block_range (content (dev_reader dev)) lba blocks"] assms(4)
    by auto
  show ?thesis using o d by (simp add: cd_handle_read [OF assms(2)] r x respond_def)
qed

lemma cd_handle_read_overflow:
  assumes "invar (dev_reader dev)" and "read_range req = Some (lba, blocks)" and "2 ^ 32 \<le> blocks * 2048"
  shows "fst (cd_handle read_at dev req) = Inl OverflowError"
proof -
  obtain x dev1 where r: "cd_read read_at lba blocks dev = (x, dev1)" by fastforce
  then have "x = Inr (cd_block_range (content (dev_reader dev)) lba blocks)"
    using cd_read_spec [OF assms(1), of lba blocks] by simp
  then show ?thesis
    using build_response_overflow [of "cd_block_range (content (dev_reader dev)) lba blocks" req] assms(3)
    by (simp add: cd_handle_read [OF assms(2)] r respond_def)
qed

end

section \<open>Properties\<close>

text \<open>C14. READ(10) and READ(12) through the window cache over an image file: the response is the
  request envelope, echoed except for its two length fields, followed by the requested blocks of the
  image with zeros past its end; both length fields hold the data length; the block counter grows by
  the blocks served and the medium is unchanged. This holds for every transfer below 4 GiB.\<close>

theorem read_returns_blocks:
  assumes "cache_invar fr_data file_invar (dev_reader dev)" and "read_range req = Some (lba, blocks)"
    and "29 \<le> length (payload req)" and "blocks * 2048 < 2 ^ 32"
  shows "\<exists>out dev1. cd_handle (cache_read_at file_read_at) dev req = (Inr (Some out), dev1)
    \<and> length out = length (payload req) + blocks * 2048
    \<and> le_nat (take 4 out) = blocks * 2048 \<and> le_nat (pslice 25 29 out) = blocks * 2048
    \<and> (\<forall>i < length (payload req). \<not> (i < 4 \<or> 25 \<le> i \<and> i < 29) \<longrightarrow> out ! i = payload req ! i)
    \<and> (\<forall>i < blocks * 2048. out ! (length (payload req) + i) =
         (if lba * 2048 + i < length (fr_data (c_reader (dev_reader dev)))
          then fr_data (c_reader (dev_reader dev)) ! (lba * 2048 + i) else 0))
    \<and> n_blocks dev1 = n_blocks dev + blocks
    \<and> fr_data (c_reader (dev_reader dev1)) = fr_data (c_reader (dev_reader dev))"
proof -
  let ?m = "fr_data (c_reader (dev_reader dev))"
  obtain out dev1 where h: "cd_handle (cache_read_at file_read_at) dev req = (Inr (Some out), dev1)"
    and e: "envelope_of (payload req) (cd_block_range ?m lba blocks) out"
    and d: "n_blocks dev1 = n_blocks dev + blocks" "fr_data (c_reader (dev_reader dev1)) = ?m"
    using cached_file.cd_handle_read_ok [OF assms] by blast
  have "out ! (length (payload req) + i) = (if lba * 2048 + i < length ?m then ?m ! (lba * 2048 + i) else 0)"
    if "i < blocks * 2048" for i
  proof -
    have "length (payload req) \<le> length out" and "drop (length (payload req)) out = cd_block_range ?m lba blocks"
      using e by (simp_all add: envelope_of_def)
    then show ?thesis using that nth_cd_block_range [of i blocks ?m lba] nth_drop [of "length (payload req)" out i] by simp
  qed
  with h e d show ?thesis by (auto simp: envelope_of_def pslice_def)
qed

definition sample_device :: "file_reader cache cdrom" where
  "sample_device = cdrom_init c_size (cache_init fr_size
     \<lparr>fr_data = replicate 3000 7, fr_size = 3000, fr_pos = 0, fr_closed = False\<rparr> 4096 2)"

lemma sample_device_invar: "cache_invar fr_data file_invar (dev_reader sample_device)"
  using file_rd.cache_init_invar [of _ 4096 2]
  by (simp add: sample_device_def cdrom_init_def Let_def file_invar_def)

definition sample_read :: "byte \<Rightarrow> bytes \<Rightarrow> packet" where
  "sample_read op params = \<lparr>pkt_header = default_header, payload = replicate 9 0 @ op # params @ replicate (30 - length params) 0\<rparr>"

theorem read_returns_blocks_witness:
  "\<exists>out dev1. cd_handle (cache_read_at file_read_at) sample_device (sample_read SCSI_READ10 [0, 0, 0, 0, 1, 0, 0, 1])
      = (Inr (Some out), dev1)
    \<and> length out = 40 + 2048 \<and> out ! 40 = 7 \<and> out ! (40 + 1000) = 0"
proof -
  let ?req = "sample_read SCSI_READ10 [0, 0, 0, 0, 1, 0, 0, 1]"
  have r: "read_range ?req = Some (1, 1)" and l: "length (payload ?req) = 40"
    by code_simp+
  have m: "fr_data (c_reader (dev_reader sample_device)) = replicate 3000 7"
    by (simp add: sample_device_def cdrom_init_def cache_init_def Let_def)
  have p: "29 \<le> length (payload ?req)" "1 * 2048 < (2 ^ 32 :: nat)" unfolding l by simp_all
  obtain out dev1 where h: "cd_handle (cache_read_at file_read_at) sample_device ?req = (Inr (Some out), dev1)"
    and n: "length out = 40 + 1 * 2048"
    and b: "\<And>i. i < 1 * 2048 \<Longrightarrow> out ! (40 + i) =
      (if 1 * 2048 + i < length (replicate 3000 (7::byte)) then replicate 3000 7 ! (1 * 2048 + i) else 0)"
    using read_returns_blocks [OF sample_device_invar r p] unfolding l m by blast
  have "out ! (40 + 0) = 7" and "out ! (40 + 1000) = 0" using b [of 0] b [of 1000] by simp_all
  with h n show ?thesis by auto
qed

text \<open>A READ whose transfer reaches 4 GiB (only READ(12)'s 32-bit block count can ask for one) is
  not answered and not reported as a protocol error: the length field's \<open>to_bytes\<close> raises
  \<open>OverflowError\<close>, after the whole buffer has been filled.\<close>

theorem read_overflow:
  assumes "cache_invar fr_data file_invar (dev_reader dev)" and "read_range req = Some (lba, blocks)"
    and "2 ^ 21 \<le> blocks"
  shows "fst (cd_handle (cache_read_at file_read_at) dev req) = Inl OverflowError \<and> payload req ! 9 = SCSI_READ12"
proof -
  have "payload req ! 9 = SCSI_READ12"
  proof (rule ccontr)
    assume "payload req ! 9 \<noteq> SCSI_READ12"
    then have "blocks = be_nat (pslice 7 9 (cdb req))"
      using assms(2) by (auto simp: read_range_def Let_def split: if_splits)
    moreover have "256 ^ length (pslice 7 9 (cdb req)) \<le> (256 :: nat) ^ 2"
      by (rule power_increasing) auto
    ultimately show False using be_nat_less [of "pslice 7 9 (cdb req)"] assms(3) by simp
  qed
  then show ?thesis using cached_file.cd_handle_read_overflow [OF assms(1,2)] assms(3) by simp
qed

theorem read_overflow_witness:
  "fst (cd_handle (cache_read_at file_read_at) sample_device (sample_read SCSI_READ12 [0, 0, 0, 0, 0, 0, 0x20, 0, 0]))
     = Inl OverflowError"
proof -
  have r: "read_range (sample_read SCSI_READ12 [0, 0, 0, 0, 0, 0, 0x20, 0, 0]) = Some (0, 2 ^ 21)"
    by (simp add: read_range_def sample_read_def cdb_def pslice_def be_nat_def Let_def nth_append)
  from read_overflow [OF sample_device_invar r] show ?thesis by simp
qed

text \<open>Geometry: for a medium of at least one and fewer than \<open>2 ^ 32\<close> blocks, READ CAPACITY reports
  the address of the last whole block and the block size 2048, the table of contents starts with its
  own length, its lead-out track starts one block after READ CAPACITY's last block, and a non-zero
  allocation length only truncates it.\<close>

theorem capacity_toc_agree:
  assumes "2048 \<le> size_op r" and "size_op r div 2048 < 2 ^ 32"
  shows "\<exists>cap toc. read_capacity (cdrom_init size_op r) = Inr cap \<and> length cap = 8 \<and> length toc = 20
    \<and> read_toc (cdrom_init size_op r) c = Inr (if length c \<ge> 9 \<and> be_nat (pslice 7 9 c) \<noteq> 0
         then take (be_nat (pslice 7 9 c)) toc else toc)
    \<and> be_nat (take 4 cap) = size_op r div 2048 - 1 \<and> be_nat (drop 4 cap) = 2048
    \<and> be_nat (take 2 toc) + 2 = length toc \<and> be_nat (pslice 16 20 toc) = be_nat (take 4 cap) + 1"
proof -
  let ?n = "size_op r div 2048"
  have n: "0 < ?n" "?n - 1 < 256 ^ 4" "?n < 256 ^ 4" using assms by (simp_all add: div_greater_zero_iff)
  let ?cap = "be_bytes 4 (?n - 1) @ be_bytes 4 2048"
  let ?t = "\<lambda>no lba. splice_at 4 8 (be_bytes 4 lba) ((replicate 8 (0::byte))[1 := 0x14, 2 := no])"
  let ?toc = "be_bytes 2 18 @ [1, 1] @ ?t 1 0 @ ?t 0xAA ?n"
  have len: "length (?t no lba) = 8" for no lba by (simp add: length_splice_at)
  have lba: "last_lba (cdrom_init size_op r) = ?n - 1" "Suc (?n - 1) = ?n"
    using n by (simp_all add: cdrom_init_def Let_def)
  have cap: "read_capacity (cdrom_init size_op r) = Inr ?cap"
    using n lba by (simp add: read_capacity_def to_bytes_be_def)
  have tr: "toc_track no l = Inr (?t no l)" if "l < 256 ^ 4" for no l
    using that by (simp add: toc_track_def to_bytes_be_def)
  have "length ?toc = 20" using len [of 0 1] len [of ?n "0xAA"] by (simp only: length_append length_be_bytes) simp
  moreover have "read_toc (cdrom_init size_op r) c = Inr (if length c \<ge> 9 \<and> be_nat (pslice 7 9 c) \<noteq> 0
         then take (be_nat (pslice 7 9 c)) ?toc else ?toc)"
    using n lba len tr [of 0 1] tr [of ?n "0xAA"] by (auto simp: read_toc_def Let_def to_bytes_be_def)
  moreover have "pslice 16 20 ?toc = be_bytes 4 ?n"
    by (simp add: pslice_def splice_at_def)
  ultimately show ?thesis using cap n by (intro exI [of _ ?cap] exI [of _ ?toc]) simp
qed

theorem capacity_toc_agree_witness:
  "\<exists>cap toc. read_capacity (cdrom_init (\<lambda>r. r) (10000 :: nat)) = Inr cap \<and> be_nat (take 4 cap) = 3
    \<and> read_toc (cdrom_init (\<lambda>r. r) (10000 :: nat)) [] = Inr toc \<and> be_nat (pslice 16 20 toc) = 4"
  using capacity_toc_agree [of "\<lambda>r. r" "10000 :: nat" "[]"] by auto

end
