(* ===== verification/Sock_Transport.thy ===== *)
theory Sock_Transport
  imports Ikvm_Errors
begin

text \<open>
  The byte-stream carrier under both wire protocols. \<open>sock\<close> is a connected, blocking TCP
  socket as the code sees it: the outcomes of the coming \<open>recv\<close> calls (a chunk of bytes, an
  elapsed timeout, an \<open>OSError\<close>; end of file once they are used up), the outcomes of the
  coming \<open>sendall\<close> calls, and \<open>wire\<close>, the bytes of the \<open>sendall\<close> calls that completed (a call that
  raises may have transmitted part of its data; the callers never resume after one). The list of coming
  outcomes is finite: a run is described up to any point of time, and what a peer that idles or talks
  for ever does to a loop is stated by quantifying over lists of every length, not by one of them. The \<open>Transport\<close> protocol of
  \<open>iusb.py\<close> and \<open>ivtp.py\<close> is the locale \<open>transport\<close>.
\<close>

datatype sock_event = Chunk bytes | RecvTimeout | RecvOSError

record sock =
  rx :: "sock_event list"
  sends :: "bool list"
  wire :: bytes
  sock_timeout :: "nat option"
  sock_closed :: bool

datatype recv_result = Got bytes | TimedOut | Failed

definition sock_recv :: "nat \<Rightarrow> sock \<Rightarrow> recv_result \<times> sock" where
  "sock_recv k s = (if sock_closed s then (Failed, s) else case rx s of
      [] \<Rightarrow> (Got [], s)
    | Chunk c # es \<Rightarrow>
        if c = [] then (Got [], s)
        else (Got (take k c), s\<lparr>rx := (if length c \<le> k then es else Chunk (drop k c) # es)\<rparr>)
    | RecvTimeout # es \<Rightarrow> (TimedOut, s\<lparr>rx := es\<rparr>)
    | RecvOSError # es \<Rightarrow> (Failed, s\<lparr>rx := es\<rparr>))"

text \<open>\<open>sendall\<close>: an exhausted outcome list means success.\<close>

definition sock_sendall :: "bytes \<Rightarrow> sock \<Rightarrow> bool \<times> sock" where
  "sock_sendall data s = (if sock_closed s then (False, s) else case sends s of
      [] \<Rightarrow> (True, s\<lparr>wire := wire s @ data\<rparr>)
    | ok # oks \<Rightarrow> if ok then (True, s\<lparr>wire := wire s @ data, sends := oks\<rparr>)
                    else (False, s\<lparr>sends := oks\<rparr>))"

definition sock_close :: "sock \<Rightarrow> sock" where
  "sock_close s = s\<lparr>sock_closed := True\<rparr>"

definition sock_settimeout :: "nat option \<Rightarrow> sock \<Rightarrow> sock" where
  "sock_settimeout t s = s\<lparr>sock_timeout := t\<rparr>"

section \<open>The \<open>recv_exact\<close> loop\<close>

text \<open>Both \<open>SocketTransport.recv_exact\<close> methods run the same loop and differ in the exception a
  timeout and a socket error become; \<open>on_timeout\<close> sees the bytes received so far.\<close>

function recv_exact_loop ::
  "(bytes \<Rightarrow> exn) \<Rightarrow> exn \<Rightarrow> nat \<Rightarrow> bytes \<Rightarrow> sock \<Rightarrow> (exn + bytes) \<times> sock" where
  "recv_exact_loop on_timeout on_error n chunks s =
     (if length chunks < n then
        (case sock_recv (n - length chunks) s of
           (TimedOut, s1) \<Rightarrow> (Inl (on_timeout chunks), s1)
         | (Failed, s1) \<Rightarrow> (Inl on_error, s1)
         | (Got chunk, s1) \<Rightarrow>
             if chunk = [] then (Inl EOFError, s1)
             else recv_exact_loop on_timeout on_error n (chunks @ chunk) s1)
      else (Inr chunks, s))"
  by pat_completeness auto
termination
  by (relation "measure (\<lambda>(a, b, n, chunks, s). n - length chunks)") (auto simp: neq_Nil_conv)

declare recv_exact_loop.simps [simp del]

definition recv_exact_with :: "(bytes \<Rightarrow> exn) \<Rightarrow> exn \<Rightarrow> sock \<Rightarrow> nat \<Rightarrow> (exn + bytes) \<times> sock" where
  "recv_exact_with on_timeout on_error s n =
     (if n = 0 then (Inr [], s) else recv_exact_loop on_timeout on_error n [] s)"

section \<open>The \<open>Transport\<close> protocol\<close>

type_synonym 't recv_op = "'t \<Rightarrow> nat \<Rightarrow> (exn + bytes) \<times> 't"
type_synonym 't send_op = "'t \<Rightarrow> bytes \<Rightarrow> (exn + unit) \<times> 't"

locale transport =
  fixes recv_exact :: "'t recv_op"
    and send_all :: "'t send_op"
    and pending :: "'t \<Rightarrow> bytes"
    and wired :: "'t \<Rightarrow> bytes"
  assumes recv_ok: "recv_exact t n = (Inr bs, t1) \<Longrightarrow>
      length bs = n \<and> pending t = bs @ pending t1 \<and> wired t1 = wired t"
    and recv_err: "recv_exact t n = (Inl e, t1) \<Longrightarrow> wired t1 = wired t"
    and send_ok: "send_all t bs = (Inr (), t1) \<Longrightarrow> wired t1 = wired t @ bs \<and> pending t1 = pending t"
    and send_err: "send_all t bs = (Inl e, t1) \<Longrightarrow> wired t1 = wired t \<and> pending t1 = pending t"

section \<open>Facts about the socket\<close>

fun event_bytes :: "sock_event \<Rightarrow> bytes" where
  "event_bytes (Chunk c) = c"
| "event_bytes RecvTimeout = []"
| "event_bytes RecvOSError = []"

definition stream :: "sock_event list \<Rightarrow> bytes" where
  "stream es = concat (map event_bytes es)"

lemma stream_simps [simp]:
  "stream [] = []" "stream (e # es) = event_bytes e @ stream es" "stream (a @ b) = stream a @ stream b"
  by (simp_all add: stream_def)

definition rx_weight :: "sock_event list \<Rightarrow> nat" where
  "rx_weight es = sum_list (map (\<lambda>e. Suc (length (event_bytes e))) es)"

lemma rx_weight_simps [simp]:
  "rx_weight [] = 0" "rx_weight (e # es) = Suc (length (event_bytes e)) + rx_weight es"
  "rx_weight (a @ b) = rx_weight a + rx_weight b"
  by (simp_all add: rx_weight_def)

lemma sock_recv_Got:
  assumes "sock_recv k s = (Got c, s1)" and "c \<noteq> []"
  shows "length c \<le> k" and "stream (rx s) = c @ stream (rx s1)" and "wire s1 = wire s"
    and "sends s1 = sends s" and "sock_closed s1 = sock_closed s" and "rx_weight (rx s1) < rx_weight (rx s)"
  using assms
  by (auto simp: sock_recv_def split: if_splits list.splits sock_event.splits)

lemma sock_recv_frame:
  assumes "sock_recv k s = (r, s1)"
  shows "wire s1 = wire s" and "sends s1 = sends s" and "sock_closed s1 = sock_closed s"
    and "rx_weight (rx s1) \<le> rx_weight (rx s)"
  using assms
  by (auto simp: sock_recv_def split: if_splits list.splits sock_event.splits)

lemma sock_recv_TimedOut:
  "sock_recv k s = (TimedOut, s1) \<Longrightarrow> \<exists>es. rx s = RecvTimeout # es \<and> s1 = s\<lparr>rx := es\<rparr>"
  by (auto simp: sock_recv_def split: if_splits list.splits sock_event.splits)

lemma recv_exact_loop_frame:
  assumes "recv_exact_loop ot oe n chunks s = (r, s1)"
  shows "wire s1 = wire s \<and> sends s1 = sends s \<and> sock_closed s1 = sock_closed s
    \<and> rx_weight (rx s1) \<le> rx_weight (rx s)"
  using assms
proof (induction ot oe n chunks s arbitrary: r s1 rule: recv_exact_loop.induct)
  case (1 ot oe n chunks s)
  obtain x s2 where r: "sock_recv (n - length chunks) s = (x, s2)" by fastforce
  note f = sock_recv_frame [OF r]
  show ?case
  proof (cases "length chunks < n \<and> (\<exists>c. x = Got c \<and> c \<noteq> [])")
    case False
    then show ?thesis using "1.prems" r f
      by (auto simp: recv_exact_loop.simps [of ot oe n chunks s] split: if_splits recv_result.splits)
  next
    case True
    then obtain c where c: "x = Got c" "c \<noteq> []" and lt: "length chunks < n" by blast
    then have "recv_exact_loop ot oe n (chunks @ c) s2 = (r, s1)"
      using "1.prems" r by (simp add: recv_exact_loop.simps [of ot oe n chunks s])
    from "1.IH" [OF lt r [symmetric] c(1) c(2) this] f show ?thesis by auto
  qed
qed

lemma recv_exact_loop_ok:
  assumes "recv_exact_loop ot oe n chunks s = (Inr bs, s1)" and "length chunks \<le> n"
  shows "\<exists>new. bs = chunks @ new \<and> length bs = n \<and> stream (rx s) = new @ stream (rx s1)
    \<and> (length chunks < n \<longrightarrow> rx_weight (rx s1) < rx_weight (rx s))"
  using assms
proof (induction ot oe n chunks s arbitrary: bs s1 rule: recv_exact_loop.induct)
  case (1 ot oe n chunks s)
  obtain x s2 where r: "sock_recv (n - length chunks) s = (x, s2)" by fastforce
  show ?case
  proof (cases "length chunks < n")
    case False
    then show ?thesis using "1.prems" by (simp add: recv_exact_loop.simps [of ot oe n chunks s])
  next
    case True
    with "1.prems" r obtain c where c: "x = Got c" "c \<noteq> []"
      and rec: "recv_exact_loop ot oe n (chunks @ c) s2 = (Inr bs, s1)"
      by (auto simp: recv_exact_loop.simps [of ot oe n chunks s] split: recv_result.splits if_splits)
    note g = sock_recv_Got [OF r [unfolded c(1)] c(2)]
    have "length (chunks @ c) \<le> n" using g(1) True by simp
    from "1.IH" [OF True r [symmetric] c(1,2) rec this]
    obtain new where "bs = (chunks @ c) @ new" "length bs = n" "stream (rx s2) = new @ stream (rx s1)"
      by blast
    moreover have "rx_weight (rx s1) \<le> rx_weight (rx s2)" using recv_exact_loop_frame [OF rec] by blast
    ultimately show ?thesis using g by (intro exI [of _ "c @ new"]) auto
  qed
qed

lemma recv_exact_loop_timeout:
  assumes "recv_exact_loop ot oe n chunks s = (Inl e, s1)" and "e \<noteq> oe" and "e \<noteq> EOFError"
  shows "rx_weight (rx s1) < rx_weight (rx s)"
  using assms
proof (induction ot oe n chunks s arbitrary: e s1 rule: recv_exact_loop.induct)
  case (1 ot oe n chunks s)
  obtain x s2 where r: "sock_recv (n - length chunks) s = (x, s2)" by fastforce
  have lt: "length chunks < n"
    using "1.prems"(1) by (auto simp: recv_exact_loop.simps [of ot oe n chunks s] split: if_splits)
  show ?case
  proof (cases x)
    case (Got c)
    with "1.prems" r lt have c: "c \<noteq> []" and rec: "recv_exact_loop ot oe n (chunks @ c) s2 = (Inl e, s1)"
      by (auto simp: recv_exact_loop.simps [of ot oe n chunks s] split: if_splits)
    from sock_recv_Got(6) [OF r [unfolded Got] c] "1.IH" [OF lt r [symmetric] Got c rec "1.prems"(2,3)]
    show ?thesis by simp
  next
    case TimedOut
    with "1.prems" r lt have "s1 = s2" by (simp add: recv_exact_loop.simps [of ot oe n chunks s])
    with sock_recv_TimedOut [OF r [unfolded TimedOut]] show ?thesis by auto
  next
    case Failed
    with "1.prems" r lt show ?thesis by (simp add: recv_exact_loop.simps [of ot oe n chunks s])
  qed
qed

lemma recv_exact_with_ok:
  assumes "recv_exact_with ot oe s n = (Inr bs, s1)"
  shows "length bs = n" and "stream (rx s) = bs @ stream (rx s1)"
    and "0 < n \<Longrightarrow> rx_weight (rx s1) < rx_weight (rx s)"
  using assms recv_exact_loop_ok [of ot oe n "[]" s bs s1]
  by (auto simp: recv_exact_with_def split: if_splits)

lemma recv_exact_with_frame:
  assumes "recv_exact_with ot oe s n = (r, s1)"
  shows "wire s1 = wire s" and "sends s1 = sends s" and "sock_closed s1 = sock_closed s"
    and "rx_weight (rx s1) \<le> rx_weight (rx s)"
  using assms recv_exact_loop_frame [of ot oe n "[]" s r s1]
  by (auto simp: recv_exact_with_def split: if_splits)

text \<open>The bytes of one message, delivered in any non-empty pieces with no pause inside.\<close>

definition pieces :: "bytes \<Rightarrow> sock_event list \<Rightarrow> bool" where
  "pieces bs es \<longleftrightarrow> (\<exists>cs. es = map Chunk cs \<and> [] \<notin> set cs \<and> concat cs = bs)"

lemma pieces_Nil [simp]: "pieces [] es \<longleftrightarrow> es = []"
proof
  assume "pieces [] es"
  then obtain cs where "es = map Chunk cs" "[] \<notin> set cs" "concat cs = []" by (auto simp: pieces_def)
  then show "es = []" by (cases cs) auto
qed (simp add: pieces_def)

lemma pieces_Cons_iff:
  "bs \<noteq> [] \<Longrightarrow> pieces bs es \<longleftrightarrow>
     (\<exists>c bs' es'. c \<noteq> [] \<and> bs = c @ bs' \<and> es = Chunk c # es' \<and> pieces bs' es')"
proof
  assume "pieces bs es" and "bs \<noteq> []"
  then obtain cs where cs: "es = map Chunk cs" "[] \<notin> set cs" "concat cs = bs" by (auto simp: pieces_def)
  with \<open>bs \<noteq> []\<close> obtain c cs' where "cs = c # cs'" by (cases cs) auto
  with cs show "\<exists>c bs' es'. c \<noteq> [] \<and> bs = c @ bs' \<and> es = Chunk c # es' \<and> pieces bs' es'"
    unfolding pieces_def by (intro exI [of _ c] exI [of _ "concat cs'"] exI [of _ "map Chunk cs'"]) auto
next
  assume "\<exists>c bs' es'. c \<noteq> [] \<and> bs = c @ bs' \<and> es = Chunk c # es' \<and> pieces bs' es'"
  then obtain c cs es' where "c \<noteq> []" "es = Chunk c # es'" "es' = map Chunk cs" "[] \<notin> set cs"
    "bs = c @ concat cs" by (auto simp: pieces_def)
  then show "pieces bs es" unfolding pieces_def by (intro exI [of _ "c # cs"]) auto
qed

lemma pieces_ConsI: "c \<noteq> [] \<Longrightarrow> pieces bs es \<Longrightarrow> pieces (c @ bs) (Chunk c # es)"
  unfolding pieces_def by (elim exE conjE, rule exI [of _ "c # _"]) auto

lemma recv_exact_loop_pieces:
  assumes "pieces (new @ rest) es" and "length chunks + length new = n" and "\<not> sock_closed s"
    and "rx s = es @ tl_es"
  shows "\<exists>es'. pieces rest es' \<and> recv_exact_loop ot oe n chunks s = (Inr (chunks @ new), s\<lparr>rx := es' @ tl_es\<rparr>)"
  using assms
proof (induction "length new" arbitrary: new es chunks s rule: less_induct)
  case less
  show ?case
  proof (cases "new = []")
    case True
    with less.prems show ?thesis
      by (intro exI [of _ es]) (simp add: recv_exact_loop.simps)
  next
    case False
    then have "new @ rest \<noteq> []" by simp
    with less.prems(1) obtain c bs' es' where c: "c \<noteq> []" "new @ rest = c @ bs'"
      "es = Chunk c # es'" "pieces bs' es'" by (auto simp: pieces_Cons_iff)
    let ?k = "n - length chunks"
    have k: "?k = length new" "0 < ?k" "length chunks < n" using less.prems(2) False by auto
    show ?thesis
    proof (cases "length c \<le> ?k")
      case True
      then obtain new' where n': "new = c @ new'" "bs' = new' @ rest"
        using c(2) k by (metis append_eq_append_conv_if append_take_drop_id)
      let ?s = "s\<lparr>rx := es' @ tl_es\<rparr>"
      have "recv_exact_loop ot oe n chunks s = recv_exact_loop ot oe n (chunks @ c) ?s"
        using True k c less.prems(3,4)
        by (simp add: recv_exact_loop.simps [of ot oe n chunks s] sock_recv_def)
      moreover have "\<exists>es''. pieces rest es'' \<and> recv_exact_loop ot oe n (chunks @ c) ?s
          = (Inr ((chunks @ c) @ new'), ?s\<lparr>rx := es'' @ tl_es\<rparr>)"
        using less.hyps [of new' es' "chunks @ c" ?s] c n' less.prems(2,3) by simp
      ultimately show ?thesis using n' by auto
    next
      case F: False
      then have split: "c = new @ drop (length new) c" "rest = drop (length new) c @ bs'"
        using c(2) k by (simp_all add: append_eq_append_conv_if) (metis append_eq_conv_conj nat_le_linear)
      let ?es = "Chunk (drop (length new) c) # es'"
      have nd: "drop (length new) c \<noteq> []" using F k by simp
      have "recv_exact_loop ot oe n chunks s
          = recv_exact_loop ot oe n (chunks @ new) (s\<lparr>rx := ?es @ tl_es\<rparr>)"
        using F k c less.prems(3,4) split(1) False
        by (simp add: recv_exact_loop.simps [of ot oe n chunks s] sock_recv_def) (metis append_eq_conv_conj)
      moreover have "recv_exact_loop ot oe n (chunks @ new) (s\<lparr>rx := ?es @ tl_es\<rparr>)
          = (Inr (chunks @ new), s\<lparr>rx := ?es @ tl_es\<rparr>)"
        using less.prems(2) by (subst recv_exact_loop.simps) simp
      moreover have "pieces rest ?es"
        by (subst split(2)) (rule pieces_ConsI [OF nd c(4)])
      ultimately show ?thesis by auto
    qed
  qed
qed

lemma recv_exact_with_pieces:
  assumes "pieces (new @ rest) es" and "\<not> sock_closed s" and "rx s = es @ tl_es"
  shows "\<exists>es'. pieces rest es'
    \<and> recv_exact_with ot oe s (length new) = (Inr new, s\<lparr>rx := es' @ tl_es\<rparr>)"
proof (cases "new = []")
  case True
  with assms show ?thesis by (intro exI [of _ es]) (simp add: recv_exact_with_def)
next
  case False
  with recv_exact_loop_pieces [OF assms(1) _ assms(2,3), of "[]" "length new" ot oe]
  show ?thesis by (auto simp: recv_exact_with_def)
qed

lemma pieces_single: "f \<noteq> [] \<Longrightarrow> pieces f [Chunk f]"
  using pieces_ConsI [of f "[]" "[]"] by simp

lemma pieces_split:
  assumes "0 < k" and "k < length f"
  shows "pieces f [Chunk (take k f), Chunk (drop k f)]"
proof -
  have "take k f \<noteq> []" and "drop k f \<noteq> []" using assms by auto
  from pieces_ConsI [OF this(1) pieces_single [OF this(2)]] show ?thesis by simp
qed

end
