(* ===== verification/Iusb_Session.thy ===== *)
theory Iusb_Session
  imports Iusb_Cdrom Sock_Transport
begin

text \<open>
  \<open>plugins/module_utils/iusb.py\<close>, the transport-driving half: \<open>SocketTransport\<close>,
  \<open>FrameRecorder\<close>, \<open>read_packet\<close>/\<open>write_frame\<close>, and \<open>Session\<close> (authentication and
  \<open>serve_forever\<close>). \<open>serve_iter\<close> is one round of the \<open>while True\<close> loop and
  \<open>serve_forever\<close> its unbounded repetition, so that not returning is \<open>None\<close>.
\<close>

definition MAX_PACKET_PAYLOAD :: nat where [simp]: "MAX_PACKET_PAYLOAD = 0x20000 + 4096"

section \<open>\<open>SocketTransport\<close>\<close>

definition iusb_recv_exact :: "sock recv_op" where
  "iusb_recv_exact s n = recv_exact_with
     (\<lambda>chunks. if chunks = [] then IdleTimeout else ConnectionErr ''iusb.read_packet'')
     (ConnectionErr ''iusb.read_packet'') s n"

definition iusb_send_all :: "sock send_op" where
  "iusb_send_all s data = (case sock_sendall data s of
      (True, s1) \<Rightarrow> (Inr (), s1)
    | (False, s1) \<Rightarrow> (Inl (ConnectionErr ''iusb.write_frame''), s1))"

text \<open>\<open>socket.create_connection\<close> succeeds with a fresh socket, times out, or fails.\<close>

datatype dial_result = Dialled sock | DialTimeout | DialOSError

definition endpoint_text :: "string \<Rightarrow> nat \<Rightarrow> string" where
  "endpoint_text host port = host @ '':'' @ str_nat port"

definition iusb_connect :: "dial_result \<Rightarrow> string \<Rightarrow> nat \<Rightarrow> exn + sock" where
  "iusb_connect dial host port = (case dial of
      Dialled s \<Rightarrow> Inr s
    | DialTimeout \<Rightarrow> Inl (raises CONNECTION ''iusb.connect'' (Some (endpoint_text host port)))
    | DialOSError \<Rightarrow> Inl (raises CONNECTION ''iusb.connect'' (Some (endpoint_text host port))))"

section \<open>Frames on a transport\<close>

datatype frame_dir = TX | RX

type_synonym frame_event = "frame_dir \<times> bytes"

text \<open>A transport with an optional \<open>FrameRecorder\<close> as its \<open>frame_hook\<close>.\<close>

record 't chan =
  ch_transport :: 't
  ch_recorder :: "frame_event list option"

definition record_frame :: "frame_dir \<Rightarrow> bytes \<Rightarrow> 't chan \<Rightarrow> 't chan" where
  "record_frame d data ch = (case ch_recorder ch of
      None \<Rightarrow> ch | Some evs \<Rightarrow> ch\<lparr>ch_recorder := Some (evs @ [(d, data)])\<rparr>)"

definition hex_digit :: "nat \<Rightarrow> char" where
  "hex_digit n = (if n < 10 then char_of (48 + n) else char_of (87 + n))"

definition hex_bytes :: "bytes \<Rightarrow> string" where
  "hex_bytes bs = concat (map (\<lambda>b. [hex_digit (unat b div 16), hex_digit (unat b mod 16)]) bs)"

definition to_hex_lines :: "frame_event list \<Rightarrow> string list" where
  "to_hex_lines evs = map (\<lambda>(d, data). (case d of TX \<Rightarrow> ''tx'' | RX \<Rightarrow> ''rx'') @ '' '' @ hex_bytes data) evs"

definition read_packet :: "'t recv_op \<Rightarrow> 't chan \<Rightarrow> (exn + packet) \<times> 't chan" where
  "read_packet recv ch = (case recv (ch_transport ch) HEADER_LEN of
      (Inl e, t1) \<Rightarrow> (Inl e, ch\<lparr>ch_transport := t1\<rparr>)
    | (Inr hdr_bytes, t1) \<Rightarrow>
        (case parse_header hdr_bytes of
           Inl e \<Rightarrow> (Inl e, ch\<lparr>ch_transport := t1\<rparr>)
         | Inr h \<Rightarrow>
             if data_packet_len h > int MAX_PACKET_PAYLOAD
             then (Inl (ProtocolError ''iusb.read_packet''), ch\<lparr>ch_transport := t1\<rparr>)
             else (case (if data_packet_len h \<noteq> 0 then recv t1 (nat (data_packet_len h)) else (Inr [], t1)) of
                 (Inl e, t2) \<Rightarrow> (Inl e, ch\<lparr>ch_transport := t2\<rparr>)
               | (Inr pl, t2) \<Rightarrow>
                   (Inr \<lparr>pkt_header = h, payload = pl\<rparr>,
                    record_frame RX (hdr_bytes @ pl) (ch\<lparr>ch_transport := t2\<rparr>)))))"

definition write_frame :: "'t send_op \<Rightarrow> 't chan \<Rightarrow> bytes \<Rightarrow> (exn + unit) \<times> 't chan" where
  "write_frame send ch frame = (case send (ch_transport ch) frame of
      (Inl e, t1) \<Rightarrow> (Inl e, ch\<lparr>ch_transport := t1\<rparr>)
    | (Inr _, t1) \<Rightarrow> (Inr (), record_frame TX frame (ch\<lparr>ch_transport := t1\<rparr>)))"

section \<open>\<open>Session\<close>: authentication\<close>

record 't session =
  s_chan :: "'t chan"
  s_device_type :: int
  s_instance :: int

definition authenticate ::
  "'t recv_op \<Rightarrow> 't send_op \<Rightarrow> 't chan \<Rightarrow> int \<Rightarrow> int \<Rightarrow> string \<Rightarrow> string option \<Rightarrow>
   (exn + 't session) \<times> 't chan" where
  "authenticate recv send ch dev inst token ep = (case build_auth dev inst token False of
      Inl e \<Rightarrow> (Inl e, ch)
    | Inr auth_pkt \<Rightarrow>
        (case write_frame send ch auth_pkt of
           (Inl e, ch1) \<Rightarrow> (Inl e, ch1)
         | (Inr _, ch1) \<Rightarrow>
             (case read_packet recv ch1 of
                (Inl e, ch2) \<Rightarrow>
                  (Inl (if e = IdleTimeout then raises CONNECTION ''iusb.authenticate'' ep else e), ch2)
              | (Inr ack, ch2) \<Rightarrow>
                  (case interpret_ack ack ep of
                     Inl e \<Rightarrow> (Inl e, ch2)
                   | Inr _ \<Rightarrow> (Inr \<lparr>s_chan = ch2, s_device_type = dev, s_instance = inst\<rparr>, ch2)))))"

definition session_connect ::
  "dial_result \<Rightarrow> frame_event list option \<Rightarrow> string \<Rightarrow> nat \<Rightarrow> string \<Rightarrow> int \<Rightarrow> int \<Rightarrow> exn + sock session" where
  "session_connect dial rec host port token dev inst = (case iusb_connect dial host port of
      Inl e \<Rightarrow> Inl e
    | Inr s \<Rightarrow> fst (authenticate iusb_recv_exact iusb_send_all \<lparr>ch_transport = s, ch_recorder = rec\<rparr>
                     dev inst token (Some (endpoint_text host port))))"

definition set_poll_timeout :: "nat \<Rightarrow> sock session \<Rightarrow> sock session" where
  "set_poll_timeout t ses = ses\<lparr>s_chan := (s_chan ses)\<lparr>ch_transport :=
     sock_settimeout (Some t) (ch_transport (s_chan ses))\<rparr>\<rparr>"

definition session_close :: "sock session \<Rightarrow> sock session" where
  "session_close ses = ses\<lparr>s_chan := (s_chan ses)\<lparr>ch_transport := sock_close (ch_transport (s_chan ses))\<rparr>\<rparr>"

section \<open>\<open>Session.serve_forever\<close>\<close>

datatype serve_outcome = SERVE_STOPPED | SERVE_PEER_CLOSED | SERVE_KILLED

text \<open>Everything \<open>serve_forever\<close> calls. The callbacks share a state \<open>'u\<close>; \<open>on_request\<close> may look
  at the handler (the daemon reads the device's counters there).\<close>

record ('t, 'h, 'u) serve_ops =
  op_recv :: "'t recv_op"
  op_send :: "'t send_op"
  op_handle :: "'h \<Rightarrow> packet \<Rightarrow> (exn + bytes option) \<times> 'h"
  op_should_stop :: "'u \<Rightarrow> bool \<times> 'u"
  op_on_idle :: "'u \<Rightarrow> (exn + unit) \<times> 'u"
  op_on_request :: "'h \<Rightarrow> packet \<Rightarrow> 'u \<Rightarrow> (exn + unit) \<times> 'u"

record ('t, 'h, 'u) serve_state =
  v_session :: "'t session"
  v_handler :: 'h
  v_user :: 'u

abbreviation v_chan :: "('t, 'h, 'u) serve_state \<Rightarrow> 't chan" where
  "v_chan w \<equiv> s_chan (v_session w)"

definition set_chan :: "'t chan \<Rightarrow> ('t, 'h, 'u) serve_state \<Rightarrow> ('t, 'h, 'u) serve_state" where
  "set_chan ch w = w\<lparr>v_session := (v_session w)\<lparr>s_chan := ch\<rparr>\<rparr>"

datatype iter_result = Continue | Return serve_outcome | Raise exn

definition serve_request ::
  "('t, 'h, 'u) serve_ops \<Rightarrow> packet \<Rightarrow> ('t, 'h, 'u) serve_state \<Rightarrow> iter_result \<times> ('t, 'h, 'u) serve_state" where
  "serve_request ops req w = (case op_on_request ops (v_handler w) req (v_user w) of
      (Inl e, u1) \<Rightarrow> (Raise e, w\<lparr>v_user := u1\<rparr>)
    | (Inr _, u1) \<Rightarrow>
        (case op_handle ops (v_handler w) req of
           (Inl e, h1) \<Rightarrow> (Raise e, w\<lparr>v_user := u1, v_handler := h1\<rparr>)
         | (Inr None, h1) \<Rightarrow> (Continue, w\<lparr>v_user := u1, v_handler := h1\<rparr>)
         | (Inr (Some pl), h1) \<Rightarrow>
             (let w1 = w\<lparr>v_user := u1, v_handler := h1\<rparr>;
                  frame = build_response_frame (pkt_header req) pl (s_device_type (v_session w))
              in case write_frame (op_send ops) (v_chan w1) frame of
                   (Inl e, ch1) \<Rightarrow> (Raise e, set_chan ch1 w1)
                 | (Inr _, ch1) \<Rightarrow> (Continue, set_chan ch1 w1))))"

definition serve_iter ::
  "('t, 'h, 'u) serve_ops \<Rightarrow> ('t, 'h, 'u) serve_state \<Rightarrow> iter_result \<times> ('t, 'h, 'u) serve_state" where
  "serve_iter ops w = (case op_should_stop ops (v_user w) of
      (True, u1) \<Rightarrow> (Return SERVE_STOPPED, w\<lparr>v_user := u1\<rparr>)
    | (False, u1) \<Rightarrow>
        (let w0 = w\<lparr>v_user := u1\<rparr> in
         case read_packet (op_recv ops) (v_chan w0) of
           (Inl e, ch1) \<Rightarrow>
             (let w1 = set_chan ch1 w0 in
              if e = IdleTimeout then
                (case op_on_idle ops (v_user w1) of
                   (Inl e1, u2) \<Rightarrow> (Raise e1, w1\<lparr>v_user := u2\<rparr>)
                 | (Inr _, u2) \<Rightarrow> (Continue, w1\<lparr>v_user := u2\<rparr>))
              else if e = EOFError then (Return SERVE_PEER_CLOSED, w1)
              else (Raise e, w1))
         | (Inr req, ch1) \<Rightarrow>
             (let w1 = set_chan ch1 w0 in
              if is_kill req then (Return SERVE_KILLED, w1) else serve_request ops req w1)))"

partial_function (option) serve_forever ::
  "('t, 'h, 'u) serve_ops \<Rightarrow> ('t, 'h, 'u) serve_state \<Rightarrow> ((exn + serve_outcome) \<times> ('t, 'h, 'u) serve_state) option" where
  "serve_forever ops w = (case serve_iter ops w of
      (Continue, w1) \<Rightarrow> serve_forever ops w1
    | (Return out, w1) \<Rightarrow> Some (Inr out, w1)
    | (Raise e, w1) \<Rightarrow> Some (Inl e, w1))"

section \<open>The socket is a transport\<close>

lemma iusb_send_all_frame:
  assumes "iusb_send_all s data = (r, s1)"
  shows "rx s1 = rx s" and "sock_closed s1 = sock_closed s"
    and "r = Inr () \<Longrightarrow> wire s1 = wire s @ data" and "r = Inl e \<Longrightarrow> wire s1 = wire s"
  using assms by (auto simp: iusb_send_all_def sock_sendall_def split: if_splits list.splits)

interpretation iusb_sock: transport iusb_recv_exact iusb_send_all "\<lambda>s. stream (rx s)" wire
proof unfold_locales
  fix s s1 :: sock and n bs e
  show "length bs = n \<and> stream (rx s) = bs @ stream (rx s1) \<and> wire s1 = wire s"
    if "iusb_recv_exact s n = (Inr bs, s1)"
    using that recv_exact_with_ok recv_exact_with_frame by (auto simp: iusb_recv_exact_def)
  show "wire s1 = wire s" if "iusb_recv_exact s n = (Inl e, s1)"
    using that recv_exact_with_frame by (auto simp: iusb_recv_exact_def)
  show "wire s1 = wire s @ bs \<and> stream (rx s1) = stream (rx s)" if "iusb_send_all s bs = (Inr (), s1)"
    using iusb_send_all_frame [OF that] by simp
  show "wire s1 = wire s \<and> stream (rx s1) = stream (rx s)" if "iusb_send_all s bs = (Inl e, s1)"
    using iusb_send_all_frame [OF that] by simp
qed

section \<open>Reading and writing packets over any transport\<close>

lemma record_frame_transport [simp]: "ch_transport (record_frame d data ch) = ch_transport ch"
  by (simp add: record_frame_def split: option.splits)

context transport
begin

lemma read_packet_ok:
  assumes "read_packet recv_exact ch = (Inr p, ch1)"
  shows "\<exists>hdr. length hdr = 32 \<and> parse_header hdr = Inr (pkt_header p)
    \<and> data_packet_len (pkt_header p) = int (length (payload p)) \<and> length (payload p) \<le> MAX_PACKET_PAYLOAD
    \<and> pending (ch_transport ch) = hdr @ payload p @ pending (ch_transport ch1)
    \<and> wired (ch_transport ch1) = wired (ch_transport ch)
    \<and> ch_recorder ch1 = map_option (\<lambda>evs. evs @ [(RX, hdr @ payload p)]) (ch_recorder ch)"
proof -
  obtain x t1 where r1: "recv_exact (ch_transport ch) 32 = (x, t1)" by fastforce
  then obtain hdr where x: "x = Inr hdr" using assms by (cases x) (auto simp: read_packet_def)
  note ok1 = recv_ok [OF r1 [unfolded x]]
  obtain h where h: "parse_header hdr = Inr h"
    using assms r1 x by (cases "parse_header hdr") (auto simp: read_packet_def)
  note rng = parse_header_ranges [OF h]
  have max: "data_packet_len h \<le> int MAX_PACKET_PAYLOAD"
    using assms r1 x h by (auto simp: read_packet_def split: if_splits)
  obtain y t2 where r2: "(if data_packet_len h \<noteq> 0 then recv_exact t1 (nat (data_packet_len h)) else (Inr [], t1)) = (y, t2)"
    by fastforce
  then obtain pl where y: "y = Inr pl" using assms r1 x h max by (cases y) (auto simp: read_packet_def)
  have p: "p = \<lparr>pkt_header = h, payload = pl\<rparr>"
    and ch1: "ch1 = record_frame RX (hdr @ pl) (ch\<lparr>ch_transport := t2\<rparr>)"
    using assms r1 x h max r2 y by (auto simp: read_packet_def)
  have ok2: "length pl = nat (data_packet_len h) \<and> pending t1 = pl @ pending t2 \<and> wired t2 = wired t1"
    using r2 y recv_ok [of t1 "nat (data_packet_len h)" pl t2] by (auto split: if_splits)
  from ok1 ok2 h rng max show ?thesis
    by (intro exI [of _ hdr]) (auto simp: p ch1 record_frame_def split: option.splits)
qed

lemma read_packet_err:
  assumes "read_packet recv_exact ch = (Inl e, ch1)"
  shows "wired (ch_transport ch1) = wired (ch_transport ch)"
  using assms recv_err recv_ok
  by (auto simp: read_packet_def split: prod.splits sum.splits if_splits)

lemma write_frame_ok:
  assumes "write_frame send_all ch frame = (Inr (), ch1)"
  shows "wired (ch_transport ch1) = wired (ch_transport ch) @ frame"
    and "pending (ch_transport ch1) = pending (ch_transport ch)"
    and "ch_recorder ch1 = map_option (\<lambda>evs. evs @ [(TX, frame)]) (ch_recorder ch)"
  using assms send_ok
  by (auto simp: write_frame_def record_frame_def split: prod.splits sum.splits option.splits)

end

section \<open>Packets on a socket\<close>

lemma iusb_recv_weight:
  assumes "iusb_recv_exact s n = (r, s1)"
  shows "rx_weight (rx s1) \<le> rx_weight (rx s)"
    and "r = Inl IdleTimeout \<Longrightarrow> rx_weight (rx s1) < rx_weight (rx s)"
    and "r = Inr bs \<Longrightarrow> 0 < n \<Longrightarrow> rx_weight (rx s1) < rx_weight (rx s)"
proof -
  show "rx_weight (rx s1) \<le> rx_weight (rx s)"
    using assms recv_exact_with_frame by (auto simp: iusb_recv_exact_def)
  show "rx_weight (rx s1) < rx_weight (rx s)" if "r = Inl IdleTimeout"
    using assms that
    by (auto simp: iusb_recv_exact_def recv_exact_with_def ConnectionErr_def raises_def split: if_splits
        dest!: recv_exact_loop_timeout)
  show "rx_weight (rx s1) < rx_weight (rx s)" if "r = Inr bs" "0 < n"
    using assms that recv_exact_with_ok(3) by (auto simp: iusb_recv_exact_def)
qed

lemma read_packet_weight:
  assumes "read_packet iusb_recv_exact ch = (r, ch1)" and "r = Inl IdleTimeout \<or> (\<exists>p. r = Inr p)"
  shows "rx_weight (rx (ch_transport ch1)) < rx_weight (rx (ch_transport ch))"
proof -
  obtain x t1 where r1: "iusb_recv_exact (ch_transport ch) 32 = (x, t1)" by fastforce
  show ?thesis
  proof (cases x)
    case (Inl e)
    with r1 assms show ?thesis using iusb_recv_weight(2) [OF r1] by (auto simp: read_packet_def)
  next
    case (Inr hdr)
    have w1: "rx_weight (rx t1) < rx_weight (rx (ch_transport ch))"
      using iusb_recv_weight(3) [OF r1 Inr] by simp
    have "rx_weight (rx (ch_transport ch1)) \<le> rx_weight (rx t1)"
      using assms(1) r1 Inr iusb_recv_weight(1)
      by (auto simp: read_packet_def split: sum.splits if_splits prod.splits)
    with w1 show ?thesis by simp
  qed
qed

lemma read_packet_pieces:
  assumes f: "parse_request_frame frame = Inr p" and max: "length (payload p) \<le> MAX_PACKET_PAYLOAD"
    and es: "pieces frame es" and opn: "\<not> sock_closed s" and rx: "rx s = es @ later"
  shows "read_packet iusb_recv_exact \<lparr>ch_transport = s, ch_recorder = rec\<rparr>
    = (Inr p, record_frame RX frame \<lparr>ch_transport = s\<lparr>rx := later\<rparr>, ch_recorder = rec\<rparr>)"
proof -
  let ?hdr = "take 32 frame" and ?pl = "drop 32 frame"
  have h: "parse_header ?hdr = Inr (pkt_header p)" and pl: "payload p = ?pl"
    and len: "data_packet_len (pkt_header p) = int (length ?pl)" and hl: "length ?hdr = 32"
    using f by (auto simp: parse_request_frame_def Let_def split: if_splits sum.splits)
  have p: "p = \<lparr>pkt_header = pkt_header p, payload = ?pl\<rparr>" using pl by (cases p) auto
  have "pieces (?hdr @ ?pl) es" using es by simp
  from recv_exact_with_pieces [OF this opn rx] hl obtain es1 where es1: "pieces ?pl es1"
    and r1: "iusb_recv_exact s 32 = (Inr ?hdr, s\<lparr>rx := es1 @ later\<rparr>)"
    by (auto simp: iusb_recv_exact_def)
  have "pieces (?pl @ []) es1" using es1 by simp
  from recv_exact_with_pieces [OF this, of "s\<lparr>rx := es1 @ later\<rparr>" later] opn
  have r2: "iusb_recv_exact (s\<lparr>rx := es1 @ later\<rparr>) (length ?pl) = (Inr ?pl, s\<lparr>rx := later\<rparr>)"
    by (auto simp: iusb_recv_exact_def)
  have z: "?pl = [] \<Longrightarrow> es1 = []" using es1 by simp
  have "data_packet_len (pkt_header p) \<noteq> 0 \<longleftrightarrow> ?pl \<noteq> []" using len by simp
  moreover have "nat (data_packet_len (pkt_header p)) = length ?pl" using len by simp
  moreover have "data_packet_len (pkt_header p) \<le> int MAX_PACKET_PAYLOAD" using len max pl by simp
  ultimately show ?thesis
    using r1 r2 h z by (subst p) (auto simp: read_packet_def simp del: length_drop)
qed

lemma read_packet_idle:
  assumes "rx s = RecvTimeout # es" and "\<not> sock_closed s"
  shows "read_packet iusb_recv_exact \<lparr>ch_transport = s, ch_recorder = rec\<rparr>
    = (Inl IdleTimeout, \<lparr>ch_transport = s\<lparr>rx := es\<rparr>, ch_recorder = rec\<rparr>)"
  using assms
  by (simp add: read_packet_def iusb_recv_exact_def recv_exact_with_def recv_exact_loop.simps sock_recv_def)

lemma read_packet_eof:
  assumes "rx s = []" and "\<not> sock_closed s"
  shows "read_packet iusb_recv_exact \<lparr>ch_transport = s, ch_recorder = rec\<rparr>
    = (Inl EOFError, \<lparr>ch_transport = s, ch_recorder = rec\<rparr>)"
  using assms
  by (simp add: read_packet_def iusb_recv_exact_def recv_exact_with_def recv_exact_loop.simps sock_recv_def)

section \<open>Properties\<close>

text \<open>Authentication, with the BMC's ACK frame split into arbitrary TCP segments: the wire carries
  exactly the authentication frame, exactly the ACK is consumed, and the session is established if and
  only if the ACK has the ACK opcode and status byte 1; any other status byte is the busy error and a
  malformed ACK a protocol error.\<close>

theorem authenticate_handshake:
  assumes "build_auth dev inst token False = Inr auth"
    and "parse_request_frame ack = Inr p" and "length (payload p) \<le> MAX_PACKET_PAYLOAD"
    and "pieces ack es" and "\<not> sock_closed s" and "rx s = es @ later" and "sends s = []"
  shows "\<exists>r ch. authenticate iusb_recv_exact iusb_send_all \<lparr>ch_transport = s, ch_recorder = rec\<rparr> dev inst token ep = (r, ch)
    \<and> wire (ch_transport ch) = wire s @ auth \<and> rx (ch_transport ch) = later
    \<and> (if opcode p \<noteq> OP_REDIRECT_ACK \<or> length (payload p) \<le> 30
       then r = Inl (raises PROTOCOL ''iusb.authenticate'' ep)
       else if payload p ! 30 \<noteq> 1 then r = Inl (raises BMC_BUSY ''iusb.authenticate'' ep)
       else r = Inr \<lparr>s_chan = ch, s_device_type = dev, s_instance = inst\<rparr>)"
proof -
  let ?s = "s\<lparr>wire := wire s @ auth\<rparr>" and ?rec = "map_option (\<lambda>evs. evs @ [(TX, auth)]) rec"
  have w: "write_frame iusb_send_all \<lparr>ch_transport = s, ch_recorder = rec\<rparr> auth
      = (Inr (), \<lparr>ch_transport = ?s, ch_recorder = ?rec\<rparr>)"
    using assms(5,7)
    by (cases rec) (simp_all add: write_frame_def iusb_send_all_def sock_sendall_def record_frame_def)
  have "read_packet iusb_recv_exact \<lparr>ch_transport = ?s, ch_recorder = ?rec\<rparr>
      = (Inr p, record_frame RX ack \<lparr>ch_transport = ?s\<lparr>rx := later\<rparr>, ch_recorder = ?rec\<rparr>)"
    by (rule read_packet_pieces [OF assms(2-4)]) (use assms(5,6) in simp_all)
  then show ?thesis
    by (simp add: authenticate_def assms(1) w interpret_ack_def)
qed

text \<open>The ACK a BMC sends when it accepts the redirection.\<close>

definition ok_ack :: bytes where
  "ok_ack = marshal (default_header\<lparr>data_packet_len := 31\<rparr>) @ (replicate 31 0)[9 := OP_REDIRECT_ACK, 30 := 1]"

theorem authenticate_handshake_witness:
  "\<exists>auth r ch. build_auth 5 0 ''t'' False = Inr auth
    \<and> authenticate iusb_recv_exact iusb_send_all
        \<lparr>ch_transport = \<lparr>rx = [Chunk (take 20 ok_ack), Chunk (drop 20 ok_ack)], sends = [], wire = [],
           sock_timeout = None, sock_closed = False\<rparr>, ch_recorder = None\<rparr> 5 0 ''t'' None = (r, ch)
    \<and> wire (ch_transport ch) = auth \<and> (\<exists>ses. r = Inr ses)"
proof -
  obtain auth where a: "build_auth 5 0 ''t'' False = Inr auth"
    by (cases "build_auth 5 0 ''t'' False") (auto simp: build_auth_def Let_def encode_ascii_def)
  have p: "parse_request_frame ok_ack = Inr \<lparr>pkt_header = wire_header (default_header\<lparr>data_packet_len := 31\<rparr>),
      payload = (replicate 31 0)[9 := OP_REDIRECT_ACK, 30 := 1]\<rparr>"
    unfolding ok_ack_def by (rule parse_request_frame_marshal) simp_all
  have es: "pieces ok_ack [Chunk (take 20 ok_ack), Chunk (drop 20 ok_ack)]"
    by (rule pieces_split) (simp_all add: ok_ack_def)
  show ?thesis
    using authenticate_handshake [OF a p _ es, of "\<lparr>rx = [Chunk (take 20 ok_ack), Chunk (drop 20 ok_ack)], sends = [],
        wire = [], sock_timeout = None, sock_closed = False\<rparr>" "[]" None None] a
    by (auto simp: opcode_def MAX_PACKET_PAYLOAD_def)
qed

end
