(* ===== verification/Iusb_Serve.thy ===== *)
theory Iusb_Serve
  imports Iusb_Session
begin

text \<open>
  What \<open>Session.serve_forever\<close> does. On a socket it returns for every finite script of socket
  events; over any transport it ends with the poll that sees the stop flag set, and a peer that idles for
  ever keeps it going for ever while the flag stays clear. Idle timeouts at a frame boundary change nothing but the callbacks' state, and on
  well-formed traffic it writes exactly what the pure \<open>process_frame\<close> answers. The \<open>Handler\<close>
  protocol is the locale \<open>handler\<close>, interpreted on \<open>CDROMDevice\<close> over a cached file.
\<close>

section \<open>The \<open>Handler\<close> protocol\<close>

locale handler =
  fixes handle :: "'h \<Rightarrow> packet \<Rightarrow> (exn + bytes option) \<times> 'h"
    and hinv :: "'h \<Rightarrow> bool"
  assumes handle_inv: "hinv h \<Longrightarrow> hinv (snd (handle h p))"
    and handle_echo: "hinv h \<Longrightarrow> fst (handle h p) = Inr (Some out) \<Longrightarrow> length (payload p) \<le> length out"

text \<open>The invariant of the daemon's device: a coherent cache over an open image file, and the
  last block address computed from its size.\<close>

definition cd_invar :: "file_reader cache cdrom \<Rightarrow> bool" where
  "cd_invar dev \<longleftrightarrow> cache_invar fr_data file_invar (dev_reader dev)
     \<and> last_lba dev = c_size (dev_reader dev) div 2048 - 1"

abbreviation cd_medium :: "file_reader cache cdrom \<Rightarrow> bytes" where
  "cd_medium dev \<equiv> fr_data (c_reader (dev_reader dev))"

abbreviation cached_read_at :: "file_reader cache read_op" where
  "cached_read_at \<equiv> cache_read_at file_read_at"

lemma put_len_length: "put_len i n out = Inr out1 \<Longrightarrow> length out1 = length out"
  by (auto simp: put_len_def to_bytes_le_def length_splice_at split: if_splits)

lemma build_response_length:
  "build_response req data = Inr out \<Longrightarrow> length out = length (payload req) + length data"
  by (auto simp: build_response_def Let_def dest!: put_len_length split: sum.splits)

lemma respond_length: "respond req x = Inr (Some out) \<Longrightarrow> length (payload req) \<le> length out"
  by (auto simp: respond_def dest!: build_response_length split: sum.splits)

lemma cd_handle_reply_length:
  "fst (cd_handle rd dev req) = Inr (Some out) \<Longrightarrow> length (payload req) \<le> length out"
  by (auto simp: cd_handle_def Let_def split: if_splits prod.splits dest!: respond_length)

lemma cd_handle_config:
  assumes "cd_invar dev"
  shows "c_size (dev_reader (snd (cd_handle cached_read_at dev req))) = c_size (dev_reader dev)"
proof -
  have "cache_invar fr_data file_invar (dev_reader (snd (cd_handle cached_read_at dev req)))"
    and "cd_medium (snd (cd_handle cached_read_at dev req)) = cd_medium dev"
    using assms cached_file.cd_handle_medium [of dev req] by (auto simp: cd_invar_def)
  then show ?thesis using assms by (auto simp: cd_invar_def cache_invar_def)
qed

interpretation cd: handler "cd_handle cached_read_at" cd_invar
proof unfold_locales
  fix dev :: "file_reader cache cdrom" and p out
  assume dev: "cd_invar dev"
  show "cd_invar (snd (cd_handle cached_read_at dev p))"
    using dev cached_file.cd_handle_medium [of dev p] cd_handle_config [OF dev, of p]
    by (simp add: cd_invar_def)
  show "length (payload p) \<le> length out" if "fst (cd_handle cached_read_at dev p) = Inr (Some out)"
    using that by (rule cd_handle_reply_length)
qed

text \<open>What every round keeps holds when the loop returns.\<close>

lemma serve_forever_inv:
  assumes ret: "serve_forever ops w = Some (r, w1)" and start: "P w"
    and step: "\<And>w it w1. P w \<Longrightarrow> serve_iter ops w = (it, w1) \<Longrightarrow> P w1"
  shows "P w1"
proof -
  have "ops' = ops \<longrightarrow> P w \<longrightarrow> P (snd (r, w1))" if "serve_forever ops' w = Some (r, w1)" for ops'
  proof (rule serve_forever.raw_induct [where P = "\<lambda>ops' w x. ops' = ops \<longrightarrow> P w \<longrightarrow> P (snd x)", OF _ that])
    fix loop :: "('a, 'b, 'c) serve_ops \<Rightarrow> ('a, 'b, 'c) serve_state \<Rightarrow>
        ((exn + serve_outcome) \<times> ('a, 'b, 'c) serve_state) option"
      and ops' :: "('a, 'b, 'c) serve_ops" and w x
    assume IH: "\<And>ops' w x. loop ops' w = Some x \<Longrightarrow> ops' = ops \<longrightarrow> P w \<longrightarrow> P (snd x)"
      and eq: "(case serve_iter ops' w of (Continue, w1) \<Rightarrow> loop ops' w1
          | (Return out, w1) \<Rightarrow> Some (Inr out, w1) | (Raise e, w1) \<Rightarrow> Some (Inl e, w1)) = Some x"
    obtain it w2 where it: "serve_iter ops' w = (it, w2)" by fastforce
    show "ops' = ops \<longrightarrow> P w \<longrightarrow> P (snd x)"
      using eq it step [of w it w2] IH [of ops' w2 x] by (cases it) auto
  qed
  with ret start show ?thesis by simp
qed

context handler
begin

lemma serve_iter_hinv:
  assumes "op_handle ops = handle" and "hinv (v_handler w)" and "serve_iter ops w = (r, w1)"
  shows "hinv (v_handler w1)"
proof -
  have req: "hinv (v_handler w1)"
    if "serve_request ops p w = (r, w1)" "hinv (v_handler w)" for p w r w1
    using that assms(1) handle_inv [of "v_handler w" p]
    by (auto simp: serve_request_def Let_def set_chan_def split: prod.splits sum.splits option.splits
        dest!: arg_cong [where f = snd])
  show ?thesis
    using assms(2,3) req
    by (auto simp: serve_iter_def Let_def set_chan_def split: prod.splits sum.splits bool.splits if_splits)
qed

lemma serve_forever_hinv:
  assumes "serve_forever ops w = Some (r, w1)" and "op_handle ops = handle" and "hinv (v_handler w)"
  shows "hinv (v_handler w1)"
  by (rule serve_forever_inv [OF assms(1), where P = "\<lambda>w. hinv (v_handler w)", OF assms(3)])
    (rule serve_iter_hinv [OF assms(2)])

end

section \<open>Termination\<close>

lemma set_chan_simps [simp]:
  "v_chan (set_chan ch w) = ch" "v_handler (set_chan ch w) = v_handler w"
  "v_user (set_chan ch w) = v_user w"
  "s_device_type (v_session (set_chan ch w)) = s_device_type (v_session w)"
  by (simp_all add: set_chan_def)

lemma write_frame_rx:
  assumes "write_frame iusb_send_all ch f = (r, ch1)"
  shows "rx (ch_transport ch1) = rx (ch_transport ch)"
  using assms iusb_send_all_frame(1) by (auto simp: write_frame_def split: prod.splits sum.splits)

lemma serve_request_rx:
  assumes "serve_request ops req w = (r, w1)" and "op_send ops = iusb_send_all"
  shows "rx (ch_transport (v_chan w1)) = rx (ch_transport (v_chan w))"
  using assms write_frame_rx
  by (fastforce simp: serve_request_def Let_def split: prod.splits sum.splits option.splits)

lemma serve_iter_weight:
  assumes "serve_iter ops w = (Continue, w1)"
    and "op_recv ops = iusb_recv_exact" and "op_send ops = iusb_send_all"
  shows "rx_weight (rx (ch_transport (v_chan w1))) < rx_weight (rx (ch_transport (v_chan w)))"
proof -
  obtain b u1 where st: "op_should_stop ops (v_user w) = (b, u1)" by fastforce
  obtain r ch1 where rp: "read_packet iusb_recv_exact (v_chan w) = (r, ch1)" by fastforce
  have nb: "\<not> b" using assms(1) st by (cases b) (auto simp: serve_iter_def)
  show ?thesis
  proof (cases r)
    case (Inl e)
    with assms(1,2) st nb rp have "e = IdleTimeout" and "v_chan w1 = ch1"
      by (auto simp: serve_iter_def Let_def split: if_splits sum.splits prod.splits)
    with read_packet_weight [OF rp] Inl show ?thesis by simp
  next
    case (Inr req)
    with assms(1,2) st nb rp have "serve_request ops req (set_chan ch1 (w\<lparr>v_user := u1\<rparr>)) = (Continue, w1)"
      by (auto simp: serve_iter_def Let_def split: if_splits)
    from serve_request_rx [OF this assms(3)] read_packet_weight [OF rp] Inr show ?thesis by simp
  qed
qed

lemma serve_forever_returns:
  assumes "op_recv ops = iusb_recv_exact" and "op_send ops = iusb_send_all"
  shows "\<exists>r w1. serve_forever ops w = Some (r, w1)"
proof (induction "rx_weight (rx (ch_transport (v_chan w)))" arbitrary: w rule: less_induct)
  case less
  obtain it w1 where it: "serve_iter ops w = (it, w1)" by fastforce
  show ?case
  proof (cases it)
    case Continue
    with it less.hyps [OF serve_iter_weight [OF _ assms]] show ?thesis
      by (simp add: serve_forever.simps [of ops w])
  qed (simp_all add: serve_forever.simps [of ops w] it)
qed

section \<open>The callbacks\<close>

text \<open>The contract of the three callbacks: they keep an invariant of the state they share.\<close>

locale callbacks =
  fixes stop :: "'u \<Rightarrow> bool \<times> 'u"
    and on_idle :: "'u \<Rightarrow> (exn + unit) \<times> 'u"
    and on_request :: "'h \<Rightarrow> packet \<Rightarrow> 'u \<Rightarrow> (exn + unit) \<times> 'u"
    and uinv :: "'u \<Rightarrow> bool"
  assumes stop_inv: "uinv u \<Longrightarrow> stop u = (b, u1) \<Longrightarrow> uinv u1"
    and idle_inv: "uinv u \<Longrightarrow> on_idle u = (r, u1) \<Longrightarrow> uinv u1"
    and request_inv: "uinv u \<Longrightarrow> on_request h p u = (r, u1) \<Longrightarrow> uinv u1"
begin

lemma serve_request_uinv:
  assumes "op_on_request ops = on_request" and "uinv (v_user w)" and "serve_request ops p w = (it, w1)"
  shows "uinv (v_user w1)"
  using assms(1,3) request_inv [OF assms(2)]
  by (auto simp: serve_request_def Let_def split: prod.splits sum.splits option.splits)

lemma serve_iter_uinv:
  assumes "op_should_stop ops = stop" and "op_on_idle ops = on_idle" and "op_on_request ops = on_request"
    and "uinv (v_user w)" and "serve_iter ops w = (it, w1)"
  shows "uinv (v_user w1)"
proof -
  obtain b u1 where st: "stop (v_user w) = (b, u1)" by fastforce
  have u1: "uinv u1" by (rule stop_inv [OF assms(4) st])
  have req: "uinv (v_user w1)" if "serve_request ops p (set_chan ch (w\<lparr>v_user := u1\<rparr>)) = (it, w1)" for p ch
    by (rule serve_request_uinv [OF assms(3) _ that]) (simp add: u1)
  show ?thesis
    using assms(1,2,5) st u1 idle_inv [OF u1] req
    by (auto simp: serve_iter_def Let_def split: prod.splits sum.splits bool.splits if_splits)
qed

lemma serve_forever_uinv:
  assumes "serve_forever ops w = Some (r, w1)" and "op_should_stop ops = stop"
    and "op_on_idle ops = on_idle" and "op_on_request ops = on_request" and "uinv (v_user w)"
  shows "uinv (v_user w1)"
  by (rule serve_forever_inv [OF assms(1), where P = "\<lambda>w. uinv (v_user w)", OF assms(5)])
    (rule serve_iter_uinv [OF assms(2-4)])

end

section \<open>The stop flag\<close>

text \<open>The loop polls the stop flag once per round and the other callbacks leave it alone: \<open>flags\<close> is
  what the coming polls will see. Nothing is assumed of the transport or of the handler.\<close>

locale stop_polls =
  fixes stop :: "'u \<Rightarrow> bool \<times> 'u"
    and on_idle :: "'u \<Rightarrow> (exn + unit) \<times> 'u"
    and on_request :: "'h \<Rightarrow> packet \<Rightarrow> 'u \<Rightarrow> (exn + unit) \<times> 'u"
    and flags :: "'u \<Rightarrow> bool list"
  assumes stop_sees: "flags u = b # bs \<Longrightarrow> \<exists>u1. stop u = (b, u1) \<and> flags u1 = bs"
    and idle_flags: "on_idle u = (r, u1) \<Longrightarrow> flags u1 = flags u"
    and request_flags: "on_request h p u = (r, u1) \<Longrightarrow> flags u1 = flags u"
begin

lemma serve_request_flags:
  assumes "op_on_request ops = on_request" and "serve_request ops p w = (it, w1)"
  shows "flags (v_user w1) = flags (v_user w) \<and> it \<noteq> Return SERVE_STOPPED"
  using assms request_flags
  by (fastforce simp: serve_request_def Let_def split: prod.splits sum.splits option.splits)

lemma serve_iter_flags:
  assumes "op_should_stop ops = stop" and "op_on_idle ops = on_idle" and "op_on_request ops = on_request"
    and "flags (v_user w) = b # bs" and "serve_iter ops w = (it, w1)"
  shows "flags (v_user w1) = bs \<and> (it = Return SERVE_STOPPED \<longleftrightarrow> b)"
proof -
  obtain u1 where st: "stop (v_user w) = (b, u1)" and u1: "flags u1 = bs" using stop_sees [OF assms(4)] by blast
  have req: "flags (v_user w1) = bs \<and> it \<noteq> Return SERVE_STOPPED"
    if "serve_request ops p (set_chan ch (w\<lparr>v_user := u1\<rparr>)) = (it, w1)" for p ch
    using serve_request_flags [OF assms(3) that] u1 by simp
  show ?thesis
    using assms(1,2,5) st u1 idle_flags [of u1] req
    by (auto simp: serve_iter_def Let_def split: prod.splits sum.splits bool.splits if_splits)
qed

lemma serve_forever_stops:
  assumes "op_should_stop ops = stop" and "op_on_idle ops = on_idle" and "op_on_request ops = on_request"
    and "flags (v_user w) = replicate k False @ True # rest"
  shows "\<exists>r w1 n. serve_forever ops w = Some (r, w1) \<and> n \<le> k
    \<and> flags (v_user w1) = drop (Suc n) (flags (v_user w)) \<and> (r = Inr SERVE_STOPPED \<longleftrightarrow> n = k)"
  using assms(4)
proof (induction k arbitrary: w)
  case 0
  obtain it w1 where it: "serve_iter ops w = (it, w1)" by fastforce
  have "flags (v_user w1) = rest \<and> it = Return SERVE_STOPPED"
    using serve_iter_flags [OF assms(1-3) _ it, of True rest] "0.prems" by simp
  with it "0.prems" show ?case by (simp add: serve_forever.simps [of ops w])
next
  case (Suc k)
  obtain it w1 where it: "serve_iter ops w = (it, w1)" by fastforce
  have w1: "flags (v_user w1) = replicate k False @ True # rest" and ns: "it \<noteq> Return SERVE_STOPPED"
    using serve_iter_flags [OF assms(1-3) _ it, of False "replicate k False @ True # rest"] Suc.prems by auto
  show ?case
  proof (cases it)
    case Continue
    obtain r w2 n where "serve_forever ops w1 = Some (r, w2)" "n \<le> k"
      "flags (v_user w2) = drop (Suc n) (flags (v_user w1))" "r = Inr SERVE_STOPPED \<longleftrightarrow> n = k"
      using Suc.IH [OF w1] by blast
    with it Continue w1 Suc.prems show ?thesis
      by (intro exI [of _ r] exI [of _ w2] exI [of _ "Suc n"]) (simp add: serve_forever.simps [of ops w])
  next
    case (Return out)
    with it w1 ns Suc.prems show ?thesis
      by (intro exI [of _ "Inr out"] exI [of _ w1] exI [of _ 0]) (simp add: serve_forever.simps [of ops w])
  next
    case (Raise e)
    with it w1 Suc.prems show ?thesis
      by (intro exI [of _ "Inl e"] exI [of _ w1] exI [of _ 0]) (simp add: serve_forever.simps [of ops w])
  qed
qed

end

text \<open>A loop whose every round goes on does not return: \<open>None\<close> is the value of \<open>while True\<close> without an
  exit.\<close>

lemma serve_forever_diverges:
  assumes "P w" and "\<And>w. P w \<Longrightarrow> \<exists>w1. serve_iter ops w = (Continue, w1) \<and> P w1"
  shows "serve_forever ops w = None"
proof (rule ccontr)
  assume "serve_forever ops w \<noteq> None"
  then obtain y where y: "serve_forever ops w = Some y" by blast
  have "ops' = ops \<longrightarrow> P w \<longrightarrow> False" if "serve_forever ops' w = Some y" for ops'
  proof (rule serve_forever.raw_induct [where P = "\<lambda>ops' w x. ops' = ops \<longrightarrow> P w \<longrightarrow> False", OF _ that])
    fix loop :: "('a, 'b, 'c) serve_ops \<Rightarrow> ('a, 'b, 'c) serve_state \<Rightarrow>
        ((exn + serve_outcome) \<times> ('a, 'b, 'c) serve_state) option"
      and ops' :: "('a, 'b, 'c) serve_ops" and w x
    assume IH: "\<And>ops' w x. loop ops' w = Some x \<Longrightarrow> ops' = ops \<longrightarrow> P w \<longrightarrow> False"
      and eq: "(case serve_iter ops' w of (Continue, w1) \<Rightarrow> loop ops' w1
          | (Return out, w1) \<Rightarrow> Some (Inr out, w1) | (Raise e, w1) \<Rightarrow> Some (Inl e, w1)) = Some x"
    show "ops' = ops \<longrightarrow> P w \<longrightarrow> False"
    proof (intro impI)
      assume o: "ops' = ops" and "P w"
      with assms(2) [of w] obtain w1 where "serve_iter ops w = (Continue, w1)" "P w1" by blast
      with eq o IH [of ops w1 x] show False by simp
    qed
  qed
  with y assms(1) show False by blast
qed

section \<open>Traffic\<close>

text \<open>Callbacks that never ask to stop and never raise.\<close>

definition quiet :: "('t, 'h, 'u) serve_ops \<Rightarrow> bool" where
  "quiet ops \<longleftrightarrow> (\<forall>u. \<not> fst (op_should_stop ops u) \<and> fst (op_on_idle ops u) = Inr ()
     \<and> (\<forall>h p. fst (op_on_request ops h p u) = Inr ()))"

text \<open>A script of socket events that delivers the given frames, each in arbitrary non-empty
  pieces, with any number of idle timeouts before, between and after them, and then closes.\<close>

inductive script :: "bytes list \<Rightarrow> sock_event list \<Rightarrow> bool" where
  closed: "script [] []"
| idle: "script fs es \<Longrightarrow> script fs (RecvTimeout # es)"
| frame: "script fs es \<Longrightarrow> pieces f ps \<Longrightarrow> script (f # fs) (ps @ es)"

text \<open>The reference behaviour: answer the frames one after the other.\<close>

fun answer_all ::
  "('h \<Rightarrow> packet \<Rightarrow> (exn + bytes option) \<times> 'h) \<Rightarrow> int \<Rightarrow> 'h \<Rightarrow> bytes list \<Rightarrow> (bytes \<times> 'h) option" where
  "answer_all handle dev h [] = Some ([], h)"
| "answer_all handle dev h (f # fs) = (case process_frame handle h f dev of
      (Inl e, h1) \<Rightarrow> None
    | (Inr None, h1) \<Rightarrow> answer_all handle dev h1 fs
    | (Inr (Some r), h1) \<Rightarrow> map_option (\<lambda>(out, h2). (r @ out, h2)) (answer_all handle dev h1 fs))"

definition servable :: "bytes \<Rightarrow> bool" where
  "servable f = (case parse_request_frame f of Inl _ \<Rightarrow> False
     | Inr p \<Rightarrow> \<not> is_kill p \<and> length (payload p) \<le> MAX_PACKET_PAYLOAD)"

text \<open>A state of the loop over an open socket with no recorder and no send failures ahead.\<close>

definition on_socket :: "(sock, 'h, 'u) serve_state \<Rightarrow> sock_event list \<Rightarrow> bool" where
  "on_socket w es \<longleftrightarrow> rx (ch_transport (v_chan w)) = es \<and> sends (ch_transport (v_chan w)) = []
     \<and> \<not> sock_closed (ch_transport (v_chan w))"

lemma chan_collapse [simp]: "\<lparr>ch_transport = ch_transport ch, ch_recorder = ch_recorder ch\<rparr> = ch"
  by simp

lemma quietD:
  assumes "quiet ops"
  obtains u1 u2 where "op_should_stop ops u = (False, u1)" and "op_on_idle ops u1 = (Inr (), u2)"
  using assms that unfolding quiet_def by (metis (full_types) prod.collapse)

lemma quiet_request:
  assumes "quiet ops"
  obtains u1 where "op_on_request ops h p u = (Inr (), u1)"
  using assms that unfolding quiet_def by (metis prod.collapse)

lemma serve_iter_idle:
  assumes "quiet ops" and "op_recv ops = iusb_recv_exact" and "on_socket w (RecvTimeout # es)"
  shows "\<exists>w1. serve_iter ops w = (Continue, w1) \<and> on_socket w1 es
    \<and> wire (ch_transport (v_chan w1)) = wire (ch_transport (v_chan w)) \<and> v_handler w1 = v_handler w
    \<and> s_device_type (v_session w1) = s_device_type (v_session w)"
proof -
  obtain u1 u2 where st: "op_should_stop ops (v_user w) = (False, u1)"
    and oi: "op_on_idle ops u1 = (Inr (), u2)" using quietD [OF assms(1)] by metis
  have "read_packet iusb_recv_exact (v_chan w) = (Inl IdleTimeout,
      \<lparr>ch_transport = (ch_transport (v_chan w))\<lparr>rx := es\<rparr>, ch_recorder = ch_recorder (v_chan w)\<rparr>)"
    using read_packet_idle [of "ch_transport (v_chan w)" es "ch_recorder (v_chan w)"] assms(3)
    by (simp add: on_socket_def)
  with st oi assms(2,3) show ?thesis by (simp add: serve_iter_def Let_def on_socket_def set_chan_def)
qed

lemma serve_iter_closed:
  assumes "quiet ops" and "op_recv ops = iusb_recv_exact" and "on_socket w []"
  shows "\<exists>w1. serve_iter ops w = (Return SERVE_PEER_CLOSED, w1)
    \<and> wire (ch_transport (v_chan w1)) = wire (ch_transport (v_chan w)) \<and> v_handler w1 = v_handler w"
proof -
  obtain u1 where st: "op_should_stop ops (v_user w) = (False, u1)" using quietD [OF assms(1)] by metis
  have "read_packet iusb_recv_exact (v_chan w) = (Inl EOFError, v_chan w)"
    using read_packet_eof [of "ch_transport (v_chan w)" "ch_recorder (v_chan w)"] assms(3)
    by (simp add: on_socket_def)
  with st assms(2,3) show ?thesis by (simp add: serve_iter_def Let_def on_socket_def set_chan_def)
qed

text \<open>The state after one frame has been read off the socket.\<close>

lemma serve_iter_read:
  assumes "quiet ops" and "op_recv ops = iusb_recv_exact" and "on_socket w (ps @ es)"
    and "parse_request_frame f = Inr p" and "length (payload p) \<le> MAX_PACKET_PAYLOAD" and "pieces f ps"
  shows "\<exists>w1. serve_iter ops w = (if is_kill p then (Return SERVE_KILLED, w1) else serve_request ops p w1)
    \<and> on_socket w1 es \<and> wire (ch_transport (v_chan w1)) = wire (ch_transport (v_chan w))
    \<and> v_handler w1 = v_handler w \<and> s_device_type (v_session w1) = s_device_type (v_session w)"
proof -
  obtain u1 where st: "op_should_stop ops (v_user w) = (False, u1)" using quietD [OF assms(1)] by metis
  let ?s = "ch_transport (v_chan w)"
  let ?ch = "record_frame RX f \<lparr>ch_transport = ?s\<lparr>rx := es\<rparr>, ch_recorder = ch_recorder (v_chan w)\<rparr>"
  have "read_packet iusb_recv_exact (v_chan w) = (Inr p, ?ch)"
    using read_packet_pieces [OF assms(4-6), of ?s es "ch_recorder (v_chan w)"] assms(3)
    by (simp add: on_socket_def)
  with st assms(2,3) show ?thesis
    by (intro exI [of _ "set_chan ?ch (w\<lparr>v_user := u1\<rparr>)"]) (simp add: serve_iter_def Let_def on_socket_def)
qed

lemma serve_request_on_socket:
  assumes "quiet ops" and "op_send ops = iusb_send_all" and "on_socket w es"
    and "op_handle ops (v_handler w) p = (Inr reply, h1)"
  shows "\<exists>w1. serve_request ops p w = (Continue, w1) \<and> on_socket w1 es \<and> v_handler w1 = h1
    \<and> wire (ch_transport (v_chan w1)) = wire (ch_transport (v_chan w)) @ (case reply of None \<Rightarrow> []
         | Some pl \<Rightarrow> build_response_frame (pkt_header p) pl (s_device_type (v_session w)))
    \<and> s_device_type (v_session w1) = s_device_type (v_session w)"
proof -
  obtain u1 where rq: "op_on_request ops (v_handler w) p (v_user w) = (Inr (), u1)"
    by (rule quiet_request [OF assms(1)])
  show ?thesis
  proof (cases reply)
    case None
    with rq assms show ?thesis by (simp add: serve_request_def on_socket_def)
  next
    case (Some pl)
    let ?f = "build_response_frame (pkt_header p) pl (s_device_type (v_session w))"
    let ?s = "ch_transport (v_chan w)"
    have "iusb_send_all ?s ?f = (Inr (), ?s\<lparr>wire := wire ?s @ ?f\<rparr>)"
      using assms(3) by (simp add: iusb_send_all_def sock_sendall_def on_socket_def)
    with Some rq assms show ?thesis by (simp add: serve_request_def Let_def write_frame_def on_socket_def)
  qed
qed

lemma serve_iter_frame:
  assumes q: "quiet ops" and recv: "op_recv ops = iusb_recv_exact" and send: "op_send ops = iusb_send_all"
    and on: "on_socket w (ps @ es)" and sv: "servable f" and pc: "pieces f ps"
    and pf: "process_frame (op_handle ops) (v_handler w) f (s_device_type (v_session w)) = (Inr reply, h1)"
  shows "\<exists>w1. serve_iter ops w = (Continue, w1) \<and> on_socket w1 es \<and> v_handler w1 = h1
    \<and> wire (ch_transport (v_chan w1)) = wire (ch_transport (v_chan w)) @ (case reply of None \<Rightarrow> [] | Some r \<Rightarrow> r)
    \<and> s_device_type (v_session w1) = s_device_type (v_session w)"
proof -
  obtain p where p: "parse_request_frame f = Inr p" and nk: "\<not> is_kill p"
    and max: "length (payload p) \<le> MAX_PACKET_PAYLOAD"
    using sv by (auto simp: servable_def split: sum.splits)
  obtain w0 where it: "serve_iter ops w = serve_request ops p w0" and on0: "on_socket w0 es"
    and w0: "wire (ch_transport (v_chan w0)) = wire (ch_transport (v_chan w))" "v_handler w0 = v_handler w"
      "s_device_type (v_session w0) = s_device_type (v_session w)"
    using serve_iter_read [OF q recv on p max pc] nk by auto
  obtain rep where h: "op_handle ops (v_handler w0) p = (Inr rep, h1)"
    and rep: "reply = map_option (\<lambda>pl. build_response_frame (pkt_header p) pl (s_device_type (v_session w0))) rep"
    using pf p nk w0 by (auto simp: process_frame_def split: prod.splits sum.splits option.splits)
  from serve_request_on_socket [OF q send on0 h] it w0 rep show ?thesis
    by (auto split: option.splits)
qed

lemma serve_answers_prefix:
  assumes "script fs es" and q: "quiet ops" and recv: "op_recv ops = iusb_recv_exact"
    and send: "op_send ops = iusb_send_all" and "on_socket w (es @ rest)" and "list_all servable fs"
    and "answer_all (op_handle ops) (s_device_type (v_session w)) (v_handler w) fs = Some (out, h1)"
  shows "\<exists>w1. serve_forever ops w = serve_forever ops w1 \<and> on_socket w1 rest
    \<and> wire (ch_transport (v_chan w1)) = wire (ch_transport (v_chan w)) @ out \<and> v_handler w1 = h1"
  using assms(1,5-)
proof (induction arbitrary: w out rule: script.induct)
  case closed
  then show ?case by auto
next
  case (idle fs es)
  obtain w1 where "serve_iter ops w = (Continue, w1)" and "on_socket w1 (es @ rest)"
    and "wire (ch_transport (v_chan w1)) = wire (ch_transport (v_chan w))" and "v_handler w1 = v_handler w"
    and "s_device_type (v_session w1) = s_device_type (v_session w)"
    using serve_iter_idle [OF q recv idle.prems(1) [simplified]] by blast
  with idle.IH [of w1 out] idle.prems show ?case by (simp add: serve_forever.simps [of ops w])
next
  case (frame fs es f ps)
  let ?d = "s_device_type (v_session w)"
  obtain reply h2 where pf: "process_frame (op_handle ops) (v_handler w) f ?d = (Inr reply, h2)"
    using frame.prems(3) by (auto split: prod.splits sum.splits)
  obtain out2 where an: "answer_all (op_handle ops) ?d h2 fs = Some (out2, h1)"
    and out: "out = (case reply of None \<Rightarrow> [] | Some r \<Rightarrow> r) @ out2"
    using frame.prems(3) pf by (auto split: option.splits)
  have "servable f" using frame.prems(2) by simp
  from serve_iter_frame [OF q recv send frame.prems(1) [simplified] this frame.hyps(2) pf]
  obtain w1 where "serve_iter ops w = (Continue, w1)" and "on_socket w1 (es @ rest)" and "v_handler w1 = h2"
    and "wire (ch_transport (v_chan w1)) = wire (ch_transport (v_chan w)) @ (case reply of None \<Rightarrow> [] | Some r \<Rightarrow> r)"
    and "s_device_type (v_session w1) = ?d" by blast
  with frame.IH [of w1 out2] frame.prems(2) an out show ?case
    by (simp add: serve_forever.simps [of ops w])
qed

lemma serve_answers_script:
  assumes "script fs es" and "quiet ops" and "op_recv ops = iusb_recv_exact"
    and "op_send ops = iusb_send_all" and "on_socket w es" and "list_all servable fs"
    and "answer_all (op_handle ops) (s_device_type (v_session w)) (v_handler w) fs = Some (out, h1)"
  shows "\<exists>w1. serve_forever ops w = Some (Inr SERVE_PEER_CLOSED, w1)
    \<and> wire (ch_transport (v_chan w1)) = wire (ch_transport (v_chan w)) @ out \<and> v_handler w1 = h1"
proof -
  obtain w1 where w1: "serve_forever ops w = serve_forever ops w1" "on_socket w1 []"
    "wire (ch_transport (v_chan w1)) = wire (ch_transport (v_chan w)) @ out" "v_handler w1 = h1"
    using serve_answers_prefix [of fs es ops w "[]"] assms by auto
  from serve_iter_closed [OF assms(2,3) w1(2)] w1 show ?thesis
    by (auto simp: serve_forever.simps [of ops w1])
qed

lemma serve_killed_script:
  assumes "script fs es" and "quiet ops" and "op_recv ops = iusb_recv_exact"
    and "op_send ops = iusb_send_all" and "on_socket w (es @ ps @ later)" and "list_all servable fs"
    and "answer_all (op_handle ops) (s_device_type (v_session w)) (v_handler w) fs = Some (out, h1)"
    and "parse_request_frame k = Inr p" and "is_kill p" and "length (payload p) \<le> MAX_PACKET_PAYLOAD" and "pieces k ps"
  shows "\<exists>w1. serve_forever ops w = Some (Inr SERVE_KILLED, w1) \<and> on_socket w1 later
    \<and> wire (ch_transport (v_chan w1)) = wire (ch_transport (v_chan w)) @ out \<and> v_handler w1 = h1"
proof -
  obtain w1 where w1: "serve_forever ops w = serve_forever ops w1" "on_socket w1 (ps @ later)"
    "wire (ch_transport (v_chan w1)) = wire (ch_transport (v_chan w)) @ out" "v_handler w1 = h1"
    using serve_answers_prefix [OF assms(1-4) _ assms(6,7), of "ps @ later"] assms(5) by auto
  from serve_iter_read [OF assms(2,3) w1(2) assms(8,10,11)] w1 assms(9) show ?thesis
    by (auto simp: serve_forever.simps [of ops w1])
qed

section \<open>The CD-ROM answers every well-formed command\<close>

definition small_read :: "bytes \<Rightarrow> bool" where
  "small_read f = (case parse_request_frame f of Inl _ \<Rightarrow> False
     | Inr p \<Rightarrow> (case read_range p of None \<Rightarrow> True | Some (lba, blocks) \<Rightarrow> blocks < 2 ^ 21))"

lemma put_len_total: "n < 2 ^ 32 \<Longrightarrow> \<exists>out1. put_len i n out = Inr out1"
  by (simp add: put_len_def to_bytes_le_def)

lemma respond_total:
  assumes "length data < 2 ^ 32"
  shows "\<exists>out. respond req (Inr data) = Inr (Some out)"
proof -
  obtain o1 where "put_len 0 (length data) (payload req @ data) = Inr o1" using put_len_total [OF assms] by blast
  moreover obtain o2 where "put_len 25 (length data) o1 = Inr o2" using put_len_total [OF assms] by blast
  ultimately show ?thesis by (simp add: respond_def build_response_def Let_def)
qed

lemma read_capacity_total: "last_lba dev < 2 ^ 32 \<Longrightarrow> \<exists>cap. read_capacity dev = Inr cap \<and> length cap = 8"
  by (simp add: read_capacity_def to_bytes_be_def)

lemma read_toc_total: "Suc (last_lba dev) < 2 ^ 32 \<Longrightarrow> \<exists>toc. read_toc dev c = Inr toc \<and> length toc < 2 ^ 32"
  by (auto simp: read_toc_def toc_track_def to_bytes_be_def Let_def length_splice_at)

lemma cd_handle_total:
  assumes "cd_invar dev" and "Suc (last_lba dev) < 2 ^ 32"
    and "case read_range req of None \<Rightarrow> True | Some (lba, blocks) \<Rightarrow> blocks < 2 ^ 21"
  shows "\<exists>reply dev1. cd_handle cached_read_at dev req = (Inr reply, dev1)"
proof (cases "read_range req")
  case (Some r)
  obtain lba blocks where r: "r = (lba, blocks)" by fastforce
  obtain x dev1 where rd: "cd_read cached_read_at lba blocks dev = (x, dev1)" by fastforce
  then have "x = Inr (cd_block_range (cd_medium dev) lba blocks)"
    using cached_file.cd_read_spec(1) [of dev lba blocks] assms(1) by (simp add: cd_invar_def)
  moreover have "length (cd_block_range (cd_medium dev) lba blocks) < 2 ^ 32" using assms(3) Some r by simp
  moreover have "cd_handle cached_read_at dev req = (respond req x, dev1)"
    using cd_handle_read [of req lba blocks cached_read_at dev] Some r rd by simp
  ultimately show ?thesis
    using respond_total [of "cd_block_range (cd_medium dev) lba blocks" req] by auto
next
  case None
  obtain cap where cap: "read_capacity dev = Inr cap" "length cap = 8" using read_capacity_total [of dev] assms(2) by auto
  obtain toc where toc: "read_toc dev (cdb req) = Inr toc" "length toc < 2 ^ 32" using read_toc_total assms(2) by blast
  have nonread: "cdb req = [] \<or> hd (cdb req) \<noteq> SCSI_READ10 \<and> hd (cdb req) \<noteq> SCSI_READ12"
    using None cdb_Cons [of req] by (auto simp: read_range_def Let_def cdb_def split: if_splits)
  have "\<exists>out. respond req (Inr []) = Inr (Some out)" "\<exists>out. respond req (Inr cap) = Inr (Some out)"
    "\<exists>out. respond req (Inr toc) = Inr (Some out)"
    using respond_total cap(2) toc(2) by simp_all
  with nonread cap(1) toc(1) show ?thesis by (auto simp: cd_handle_def Let_def)
qed

lemma answer_all_cd:
  assumes "cd_invar dev" and "Suc (last_lba dev) < 2 ^ 32" and "list_all servable fs" and "list_all small_read fs"
  shows "\<exists>out dev1. answer_all (cd_handle cached_read_at) d dev fs = Some (out, dev1) \<and> cd_medium dev1 = cd_medium dev"
  using assms
proof (induction fs arbitrary: dev)
  case (Cons f fs)
  obtain p where p: "parse_request_frame f = Inr p" "\<not> is_kill p"
    "case read_range p of None \<Rightarrow> True | Some (lba, blocks) \<Rightarrow> blocks < 2 ^ 21"
    using Cons.prems(3,4) by (auto simp: servable_def small_read_def split: sum.splits)
  obtain reply dev1 where h: "cd_handle cached_read_at dev p = (Inr reply, dev1)"
    using cd_handle_total [OF Cons.prems(1,2) p(3)] by blast
  have "cd_invar dev1" "cd_medium dev1 = cd_medium dev" "last_lba dev1 = last_lba dev"
    using cd.handle_inv [OF Cons.prems(1), of p] cached_file.cd_handle_medium [of dev p] Cons.prems(1) h
    by (simp_all add: cd_invar_def)
  with Cons.IH [of dev1] Cons.prems obtain out dev2
    where "answer_all (cd_handle cached_read_at) d dev1 fs = Some (out, dev2)" "cd_medium dev2 = cd_medium dev"
    by auto
  then show ?case using p h by (auto simp: process_frame_def split: option.splits)
qed simp

section \<open>Properties\<close>

text \<open>The CD-ROM served with callbacks that never interfere.\<close>

definition plain_cd_ops :: "(sock, file_reader cache cdrom, unit) serve_ops" where
  "plain_cd_ops = \<lparr>op_recv = iusb_recv_exact, op_send = iusb_send_all, op_handle = cd_handle cached_read_at,
     op_should_stop = (\<lambda>u. (False, u)), op_on_idle = (\<lambda>u. (Inr (), u)), op_on_request = (\<lambda>h p u. (Inr (), u))\<rparr>"

definition sample_state :: "sock_event list \<Rightarrow> (sock, file_reader cache cdrom, unit) serve_state" where
  "sample_state es = \<lparr>v_session = \<lparr>s_chan = \<lparr>ch_transport = \<lparr>rx = es, sends = [], wire = [], sock_timeout = None,
     sock_closed = False\<rparr>, ch_recorder = None\<rparr>, s_device_type = 5, s_instance = 0\<rparr>, v_handler = sample_device, v_user = ()\<rparr>"

lemma plain_cd_ops_simps [simp]:
  "op_recv plain_cd_ops = iusb_recv_exact" "op_send plain_cd_ops = iusb_send_all"
  "op_handle plain_cd_ops = cd_handle cached_read_at" "quiet plain_cd_ops"
  by (simp_all add: plain_cd_ops_def quiet_def)

lemma sample_state_simps [simp]:
  "on_socket (sample_state es) es" "v_handler (sample_state es) = sample_device"
  "wire (ch_transport (v_chan (sample_state es))) = []" "cd_invar sample_device" "last_lba sample_device = 0"
  using sample_device_invar
  by (simp_all add: sample_state_def on_socket_def cd_invar_def sample_device_def cdrom_init_def cache_init_def Let_def)

text \<open>C8. The serve loop implements frame-by-frame processing. The BMC sends well-formed frames
  that are not the kill command and read less than 4 GiB each, in arbitrary TCP segments, with idle
  timeouts anywhere between frames, and then closes: the loop returns \<open>SERVE_PEER_CLOSED\<close>, having sent
  exactly the responses of \<open>process_frame\<close> to each frame in order, and the image is unchanged.\<close>

theorem serve_answers_frames:
  assumes "script fs es" and "quiet ops" and "op_recv ops = iusb_recv_exact"
    and "op_send ops = iusb_send_all" and "op_handle ops = cd_handle cached_read_at" and "on_socket w es"
    and "list_all servable fs" and "list_all small_read fs" and "cd_invar (v_handler w)"
    and "Suc (last_lba (v_handler w)) < 2 ^ 32"
  shows "\<exists>w1 out. serve_forever ops w = Some (Inr SERVE_PEER_CLOSED, w1)
    \<and> answer_all (cd_handle cached_read_at) (s_device_type (v_session w)) (v_handler w) fs = Some (out, v_handler w1)
    \<and> wire (ch_transport (v_chan w1)) = wire (ch_transport (v_chan w)) @ out
    \<and> cd_medium (v_handler w1) = cd_medium (v_handler w)"
proof -
  obtain out h1 where "answer_all (cd_handle cached_read_at) (s_device_type (v_session w)) (v_handler w) fs = Some (out, h1)"
    and "cd_medium h1 = cd_medium (v_handler w)"
    using answer_all_cd [OF assms(9,10,7,8)] by blast
  with serve_answers_script [OF assms(1-4,6,7), of out h1] assms(5) show ?thesis by auto
qed

text \<open>A frame carrying the given payload.\<close>

definition sample_frame :: "packet \<Rightarrow> bytes" where
  "sample_frame p = marshal (default_header\<lparr>data_packet_len := int (length (payload p))\<rparr>) @ payload p"

lemma parse_sample_frame:
  assumes "length (payload p) < 2 ^ 32"
  shows "\<exists>h. parse_request_frame (sample_frame p) = Inr \<lparr>pkt_header = h, payload = payload p\<rparr>"
  unfolding sample_frame_def by (rule exI, rule parse_request_frame_marshal) (use assms in simp_all)

lemma payload_determines:
  "payload p = payload q \<Longrightarrow> read_range p = read_range q \<and> is_kill p = is_kill q"
  by (simp add: read_range_def cdb_def is_kill_def opcode_def Let_def)

lemma sample_frame_servable:
  assumes "length (payload p) \<le> MAX_PACKET_PAYLOAD" and "\<not> is_kill p" and "read_range p = Some (lba, blocks)" and "blocks < 2 ^ 21"
  shows "servable (sample_frame p)" and "small_read (sample_frame p)"
proof -
  obtain h where "parse_request_frame (sample_frame p) = Inr \<lparr>pkt_header = h, payload = payload p\<rparr>"
    using parse_sample_frame [of p] assms(1) by (auto simp: MAX_PACKET_PAYLOAD_def)
  with assms payload_determines [of "\<lparr>pkt_header = h, payload = payload p\<rparr>" p]
  show "servable (sample_frame p)" "small_read (sample_frame p)" by (simp_all add: servable_def small_read_def)
qed

definition sample_frames :: "bytes list" where
  "sample_frames = [sample_frame (sample_read SCSI_READ10 [0, 0, 0, 0, 1, 0, 0, 1])]"

definition sample_events :: "sock_event list" where
  "sample_events = RecvTimeout # [Chunk (take 40 (hd sample_frames)), Chunk (drop 40 (hd sample_frames))] @ [RecvTimeout]"

lemma sample_frames_ok:
  "script sample_frames sample_events" "list_all servable sample_frames" "list_all small_read sample_frames"
proof -
  have l: "length (hd sample_frames) = 72" by (simp add: sample_frames_def sample_frame_def sample_read_def)
  have "script [] [RecvTimeout]" by (intro script.idle script.closed)
  from script.idle [OF script.frame [OF this pieces_split [of 40 "hd sample_frames"]]] l
  show "script sample_frames sample_events" by (simp add: sample_frames_def sample_events_def)
  have "read_range (sample_read SCSI_READ10 [0, 0, 0, 0, 1, 0, 0, 1]) = Some (1, 1)"
    "\<not> is_kill (sample_read SCSI_READ10 [0, 0, 0, 0, 1, 0, 0, 1])"
    "length (payload (sample_read SCSI_READ10 [0, 0, 0, 0, 1, 0, 0, 1])) \<le> MAX_PACKET_PAYLOAD"
    by (simp_all add: read_range_def sample_read_def cdb_def pslice_def be_nat_def Let_def nth_append is_kill_def
        opcode_def MAX_PACKET_PAYLOAD_def)
  with sample_frame_servable show "list_all servable sample_frames" "list_all small_read sample_frames"
    by (simp_all add: sample_frames_def)
qed

theorem serve_answers_frames_witness:
  "\<exists>w1 out. serve_forever plain_cd_ops (sample_state sample_events) = Some (Inr SERVE_PEER_CLOSED, w1)
    \<and> answer_all (cd_handle cached_read_at) 5 sample_device sample_frames = Some (out, v_handler w1)
    \<and> wire (ch_transport (v_chan w1)) = out"
proof -
  have "s_device_type (v_session (sample_state sample_events)) = 5" by (simp add: sample_state_def)
  with serve_answers_frames [OF sample_frames_ok(1), of plain_cd_ops "sample_state sample_events"] sample_frames_ok(2,3)
  show ?thesis by auto
qed

text \<open>The kill command ends the service at once: after answering the frames before it, the loop
  returns \<open>SERVE_KILLED\<close> without answering the kill frame, without touching the device and without
  reading anything behind it.\<close>

theorem serve_killed:
  assumes "script fs es" and "quiet ops" and "op_recv ops = iusb_recv_exact"
    and "op_send ops = iusb_send_all" and "op_handle ops = cd_handle cached_read_at"
    and "on_socket w (es @ ps @ later)" and "list_all servable fs" and "list_all small_read fs"
    and "cd_invar (v_handler w)" and "Suc (last_lba (v_handler w)) < 2 ^ 32"
    and "parse_request_frame k = Inr p" and "is_kill p" and "length (payload p) \<le> MAX_PACKET_PAYLOAD" and "pieces k ps"
  shows "\<exists>w1 out. serve_forever ops w = Some (Inr SERVE_KILLED, w1) \<and> rx (ch_transport (v_chan w1)) = later
    \<and> answer_all (cd_handle cached_read_at) (s_device_type (v_session w)) (v_handler w) fs = Some (out, v_handler w1)
    \<and> wire (ch_transport (v_chan w1)) = wire (ch_transport (v_chan w)) @ out"
proof -
  obtain out h1 where "answer_all (cd_handle cached_read_at) (s_device_type (v_session w)) (v_handler w) fs = Some (out, h1)"
    using answer_all_cd [OF assms(9,10,7,8)] by blast
  with serve_killed_script [OF assms(1-4,6,7) _ assms(11-14), of out h1] assms(5) show ?thesis
    by (auto simp: on_socket_def)
qed

theorem serve_killed_witness:
  "\<exists>w1 out k. serve_forever plain_cd_ops (sample_state (sample_events @ [Chunk k] @ [Chunk [1, 2, 3]]))
      = Some (Inr SERVE_KILLED, w1) \<and> rx (ch_transport (v_chan w1)) = [Chunk [1, 2, 3]]
    \<and> answer_all (cd_handle cached_read_at) 5 sample_device sample_frames = Some (out, v_handler w1)
    \<and> wire (ch_transport (v_chan w1)) = out"
proof -
  let ?q = "\<lparr>pkt_header = default_header, payload = replicate 9 0 @ [OP_KILL_REDIR]\<rparr>"
  let ?k = "sample_frame ?q"
  obtain h where p: "parse_request_frame ?k = Inr \<lparr>pkt_header = h, payload = payload ?q\<rparr>"
    using parse_sample_frame [of ?q] by auto
  have kill: "is_kill \<lparr>pkt_header = h, payload = payload ?q\<rparr>" by (simp add: is_kill_def opcode_def nth_append)
  have ps: "pieces ?k [Chunk ?k]" by (rule pieces_single) (simp add: sample_frame_def)
  have st: "s_device_type (v_session (sample_state es)) = 5" for es by (simp add: sample_state_def)
  have "\<exists>w1 out. serve_forever plain_cd_ops (sample_state (sample_events @ [Chunk ?k] @ [Chunk [1, 2, 3]]))
      = Some (Inr SERVE_KILLED, w1) \<and> rx (ch_transport (v_chan w1)) = [Chunk [1, 2, 3]]
    \<and> answer_all (cd_handle cached_read_at) (s_device_type (v_session (sample_state (sample_events @ [Chunk ?k] @ [Chunk [1, 2, 3]]))))
        (v_handler (sample_state (sample_events @ [Chunk ?k] @ [Chunk [1, 2, 3]]))) sample_frames = Some (out, v_handler w1)
    \<and> wire (ch_transport (v_chan w1)) = wire (ch_transport (v_chan (sample_state (sample_events @ [Chunk ?k] @ [Chunk [1, 2, 3]])))) @ out"
    by (rule serve_killed [OF sample_frames_ok(1) _ _ _ _ _ sample_frames_ok(2,3) _ _ p kill _ ps])
      (simp_all del: append.simps append_assoc)
  then show ?thesis unfolding st by auto
qed

section \<open>A timeout between header and payload\<close>

lemma read_packet_split:
  assumes "parse_request_frame f = Inr p" and "payload p \<noteq> []" and "length (payload p) \<le> MAX_PACKET_PAYLOAD"
    and "\<not> sock_closed s" and "rx s = Chunk (take 32 f) # RecvTimeout # later"
  shows "read_packet iusb_recv_exact \<lparr>ch_transport = s, ch_recorder = rec\<rparr>
    = (Inl IdleTimeout, \<lparr>ch_transport = s\<lparr>rx := later\<rparr>, ch_recorder = rec\<rparr>)"
proof -
  have f: "32 \<le> length f" "parse_header (take 32 f) = Inr (pkt_header p)" "data_packet_len (pkt_header p) = int (length (payload p))"
    using assms(1) by (auto simp: parse_request_frame_def Let_def split: if_splits sum.splits)
  then have "pieces (take 32 f @ []) [Chunk (take 32 f)]" using pieces_single [of "take 32 f"] by (cases f) auto
  from recv_exact_with_pieces [OF this assms(4), of "RecvTimeout # later"] assms(5) f(1)
  have "iusb_recv_exact s 32 = (Inr (take 32 f), s\<lparr>rx := RecvTimeout # later\<rparr>)"
    by (simp add: iusb_recv_exact_def)
  moreover have "iusb_recv_exact (s\<lparr>rx := RecvTimeout # later\<rparr>) (length (payload p)) = (Inl IdleTimeout, s\<lparr>rx := later\<rparr>)"
    using assms(2,4) by (simp add: iusb_recv_exact_def recv_exact_with_def recv_exact_loop.simps sock_recv_def)
  ultimately show ?thesis using f assms(2,3) by (simp add: read_packet_def)
qed

lemma read_packet_garbage:
  assumes "32 \<le> length g" and "take 8 g \<noteq> SIGNATURE" and "\<not> sock_closed s" and "rx s = [Chunk g]"
  shows "\<exists>s1. read_packet iusb_recv_exact \<lparr>ch_transport = s, ch_recorder = rec\<rparr>
    = (Inl (ProtocolError ''iusb.parse_header''), \<lparr>ch_transport = s1, ch_recorder = rec\<rparr>) \<and> wire s1 = wire s"
proof -
  have "pieces (take 32 g @ drop 32 g) [Chunk g]" using pieces_single [of g] assms(1) by (cases g) auto
  from recv_exact_with_pieces [OF this assms(3), of "[]"] assms(1,4)
  obtain es where r: "iusb_recv_exact s 32 = (Inr (take 32 g), s\<lparr>rx := es\<rparr>)"
    unfolding iusb_recv_exact_def by fastforce
  have "parse_header (take 32 g) = Inl (ProtocolError ''iusb.parse_header'')"
    using assms(1,2) by (simp add: parse_header_def pslice_def)
  with r show ?thesis by (simp add: read_packet_def)
qed

text \<open>C39. When the poll timeout falls between the header and the payload of a request, the loop takes
  it for an idle pause, forgets the header it has already consumed, and reads the payload as the next
  header: the session ends with a protocol error and the request is never answered.\<close>

theorem timeout_mid_frame_desynchronises:
  assumes "parse_request_frame f = Inr p" and "32 \<le> length (payload p)" and "length (payload p) \<le> MAX_PACKET_PAYLOAD"
    and "take 8 (payload p) \<noteq> SIGNATURE" and "quiet ops" and "op_recv ops = iusb_recv_exact"
    and "on_socket w [Chunk (take 32 f), RecvTimeout, Chunk (drop 32 f)]"
  shows "\<exists>w1. serve_forever ops w = Some (Inl (ProtocolError ''iusb.parse_header''), w1)
    \<and> wire (ch_transport (v_chan w1)) = wire (ch_transport (v_chan w))"
proof -
  obtain u1 u2 where u: "op_should_stop ops (v_user w) = (False, u1)" "op_on_idle ops u1 = (Inr (), u2)"
    using quietD [OF assms(5)] .
  obtain u3 u4 where u3: "op_should_stop ops u2 = (False, u3)" "op_on_idle ops u3 = (Inr (), u4)"
    using quietD [OF assms(5)] .
  let ?s = "ch_transport (v_chan w)" and ?rec = "ch_recorder (v_chan w)"
  have s: "\<not> sock_closed ?s" "rx ?s = [Chunk (take 32 f), RecvTimeout, Chunk (drop 32 f)]"
    using assms(7) by (simp_all add: on_socket_def)
  have "payload p \<noteq> []" using assms(2) by auto
  from read_packet_split [OF assms(1) this assms(3) s, of ?rec]
  have r1: "read_packet iusb_recv_exact (v_chan w) = (Inl IdleTimeout, \<lparr>ch_transport = ?s\<lparr>rx := [Chunk (drop 32 f)]\<rparr>, ch_recorder = ?rec\<rparr>)"
    by simp
  have pl: "drop 32 f = payload p"
    using assms(1) by (auto simp: parse_request_frame_def Let_def split: if_splits sum.splits)
  obtain s1 where r2: "read_packet iusb_recv_exact \<lparr>ch_transport = ?s\<lparr>rx := [Chunk (drop 32 f)]\<rparr>, ch_recorder = ?rec\<rparr>
      = (Inl (ProtocolError ''iusb.parse_header''), \<lparr>ch_transport = s1, ch_recorder = ?rec\<rparr>)" and w1: "wire s1 = wire ?s"
    using read_packet_garbage [of "payload p" "?s\<lparr>rx := [Chunk (drop 32 f)]\<rparr>" ?rec] assms(2,4) s(1) pl by auto
  have ne: "ProtocolError op \<noteq> IdleTimeout" "ProtocolError op \<noteq> EOFError" for op
    by (simp_all add: ProtocolError_def raises_def)
  show ?thesis
    using assms(6) u u3 w1
    by (simp add: serve_forever.simps [of ops w] serve_iter_def r1 serve_forever.simps [of ops "_\<lparr>v_user := u2\<rparr>"] r2 ne Let_def)
qed

theorem timeout_mid_frame_desynchronises_witness:
  "\<exists>w1. serve_forever plain_cd_ops (sample_state [Chunk (take 32 (hd sample_frames)), RecvTimeout, Chunk (drop 32 (hd sample_frames))])
      = Some (Inl (ProtocolError ''iusb.parse_header''), w1) \<and> wire (ch_transport (v_chan w1)) = []"
proof -
  let ?q = "sample_read SCSI_READ10 [0, 0, 0, 0, 1, 0, 0, 1]"
  have q: "length (payload ?q) = 40" "take 8 (payload ?q) = replicate 8 0" by (simp_all add: sample_read_def)
  have ne: "replicate 8 (0::byte) \<noteq> SIGNATURE" by code_simp
  obtain h where p: "parse_request_frame (hd sample_frames) = Inr \<lparr>pkt_header = h, payload = payload ?q\<rparr>"
    using parse_sample_frame [of ?q] q(1) by (auto simp: sample_frames_def)
  let ?w = "sample_state [Chunk (take 32 (hd sample_frames)), RecvTimeout, Chunk (drop 32 (hd sample_frames))]"
  have "\<exists>w1. serve_forever plain_cd_ops ?w = Some (Inl (ProtocolError ''iusb.parse_header''), w1)
      \<and> wire (ch_transport (v_chan w1)) = wire (ch_transport (v_chan ?w))"
    by (rule timeout_mid_frame_desynchronises [OF p]) (use q ne in simp_all)
  then show ?thesis by simp
qed

end
