(* ===== verification/Daemon_Runtime.thy ===== *)
theory Daemon_Runtime
  imports Ikvm_Errors
begin

text \<open>
  \<open>plugins/module_utils/daemon_runtime.py\<close>: the state-file plumbing shared by the two daemons.
  The runtime directory is a small POSIX file system with names, inodes and open-file writes, so
  that the atomic replace, the create-only write and their race can be told apart. The state
  record is a type parameter, as the source keeps its shape out of this module. Processes are
  what \<open>os.kill(pid, 0)\<close> reports; polling loops run over a sequence of observations.
\<close>

section \<open>The runtime directory\<close>

text \<open>What a file holds, as its readers see it: a JSON object, other JSON, or text that does not
  parse (an empty or torn file), and line-oriented logs.\<close>

datatype 's file_content = JsonDict 's | JsonOther | Unparsable | TextLines "string list"

text \<open>\<open>names\<close> lists the directory entries in the order the operating system returns them.\<close>

record 's rt_fs =
  names :: "(string \<times> nat) list"
  inodes :: "nat \<Rightarrow> 's file_content"
  next_ino :: nat

definition fs_lookup :: "string \<Rightarrow> 's rt_fs \<Rightarrow> nat option" where
  "fs_lookup n fs = map_of (names fs) n"

definition fs_read :: "string \<Rightarrow> 's rt_fs \<Rightarrow> 's file_content option" where
  "fs_read n fs = map_option (inodes fs) (fs_lookup n fs)"

text \<open>\<open>os.open\<close> with \<open>O_CREAT | O_TRUNC\<close>, with \<open>O_CREAT | O_EXCL\<close>, with
  \<open>O_CREAT | O_APPEND\<close>, one appended line, a write through an open descriptor, \<open>os.replace\<close> and \<open>unlink\<close>.\<close>

definition fs_new :: "string \<Rightarrow> 's rt_fs \<Rightarrow> nat \<times> 's rt_fs" where
  "fs_new n fs = (next_ino fs, fs\<lparr>names := names fs @ [(n, next_ino fs)],
     inodes := (inodes fs)(next_ino fs := Unparsable), next_ino := next_ino fs + 1\<rparr>)"

definition fs_open_trunc :: "string \<Rightarrow> 's rt_fs \<Rightarrow> nat \<times> 's rt_fs" where
  "fs_open_trunc n fs = (case fs_lookup n fs of
      Some i \<Rightarrow> (i, fs\<lparr>inodes := (inodes fs)(i := Unparsable)\<rparr>)
    | None \<Rightarrow> fs_new n fs)"

definition fs_open_excl :: "string \<Rightarrow> 's rt_fs \<Rightarrow> nat option \<times> 's rt_fs" where
  "fs_open_excl n fs = (case fs_lookup n fs of
      Some i \<Rightarrow> (None, fs)
    | None \<Rightarrow> (let (i, fs1) = fs_new n fs in (Some i, fs1)))"

definition fs_open_append :: "string \<Rightarrow> 's rt_fs \<Rightarrow> nat \<times> 's rt_fs" where
  "fs_open_append n fs = (case fs_lookup n fs of
      Some i \<Rightarrow> (i, fs)
    | None \<Rightarrow> (let (i, fs1) = fs_new n fs in (i, fs1\<lparr>inodes := (inodes fs1)(i := TextLines [])\<rparr>)))"

definition fs_append :: "nat \<Rightarrow> string \<Rightarrow> 's rt_fs \<Rightarrow> 's rt_fs" where
  "fs_append i line fs = fs\<lparr>inodes := (inodes fs)(i := (case inodes fs i of
      TextLines ls \<Rightarrow> TextLines (ls @ [line]) | _ \<Rightarrow> Unparsable))\<rparr>"

definition fs_write :: "nat \<Rightarrow> 's file_content \<Rightarrow> 's rt_fs \<Rightarrow> 's rt_fs" where
  "fs_write i c fs = fs\<lparr>inodes := (inodes fs)(i := c)\<rparr>"

definition fs_unlink :: "string \<Rightarrow> 's rt_fs \<Rightarrow> 's rt_fs" where
  "fs_unlink n fs = fs\<lparr>names := od_pop n (names fs)\<rparr>"

definition fs_replace :: "string \<Rightarrow> string \<Rightarrow> 's rt_fs \<Rightarrow> 's rt_fs" where
  "fs_replace src dst fs = (case fs_lookup src fs of
      None \<Rightarrow> fs
    | Some i \<Rightarrow> fs\<lparr>names := od_pop dst (od_pop src (names fs)) @ [(dst, i)]\<rparr>)"

section \<open>State files\<close>

definition state_file_path :: "string \<Rightarrow> string" where
  "state_file_path sid = sid @ ''.json''"

definition log_file_path :: "string \<Rightarrow> string" where
  "log_file_path sid = sid @ ''.log''"

definition read_state :: "'s rt_fs \<Rightarrow> string \<Rightarrow> 's option" where
  "read_state fs sid = (case fs_read (state_file_path sid) fs of
      None \<Rightarrow> None
    | Some (JsonDict s) \<Rightarrow> Some s
    | Some _ \<Rightarrow> None)"

text \<open>\<open>Path.glob("*.json")\<close> and \<open>Path.stem\<close>; a bare \<open>.json\<close> has no suffix.\<close>

definition has_json_suffix :: "string \<Rightarrow> bool" where
  "has_json_suffix n \<longleftrightarrow> length n \<ge> 5 \<and> drop (length n - 5) n = ''.json''"

definition json_stem :: "string \<Rightarrow> string" where
  "json_stem n = (if n = ''.json'' then n else take (length n - 5) n)"

definition list_session_ids :: "'s rt_fs \<Rightarrow> string list" where
  "list_session_ids fs = map json_stem (filter has_json_suffix (map fst (names fs)))"

definition tmp_path :: "string \<Rightarrow> nat \<Rightarrow> string" where
  "tmp_path sid pid = state_file_path sid @ ''.'' @ str_nat pid @ ''.tmp''"

text \<open>The system calls of \<open>_write_state_atomic\<close> one by one. Each is a step other processes can
  interleave with; the number of the open inode is the writer's local.\<close>

definition atomic_open :: "string \<Rightarrow> nat \<Rightarrow> 's rt_fs \<Rightarrow> nat \<times> 's rt_fs" where
  "atomic_open sid pid fs = fs_open_trunc (tmp_path sid pid) fs"

definition write_state_atomic :: "string \<Rightarrow> nat \<Rightarrow> 's \<Rightarrow> 's rt_fs \<Rightarrow> 's rt_fs" where
  "write_state_atomic sid pid data fs =
     (let (i, fs1) = atomic_open sid pid fs; fs2 = fs_write i (JsonDict data) fs1
      in fs_replace (tmp_path sid pid) (state_file_path sid) fs2)"

text \<open>\<open>json.dump\<close> failing half way: the temporary file is removed and the exception re-raised.\<close>

definition write_state_atomic_failed :: "string \<Rightarrow> nat \<Rightarrow> 's rt_fs \<Rightarrow> 's rt_fs" where
  "write_state_atomic_failed sid pid fs =
     (let (i, fs1) = atomic_open sid pid fs in fs_unlink (tmp_path sid pid) (fs_write i Unparsable fs1))"

definition write_state_if_absent :: "string \<Rightarrow> 's \<Rightarrow> 's rt_fs \<Rightarrow> bool \<times> 's rt_fs" where
  "write_state_if_absent sid data fs = (case fs_open_excl (state_file_path sid) fs of
      (None, fs1) \<Rightarrow> (False, fs1)
    | (Some i, fs1) \<Rightarrow> (True, fs_write i (JsonDict data) fs1))"

definition remove_paths :: "string list \<Rightarrow> 's rt_fs \<Rightarrow> 's rt_fs" where
  "remove_paths paths fs = fold fs_unlink paths fs"

section \<open>Processes and polling\<close>

datatype probe = ProcExists | NoSuchProcess | PermissionDenied

definition is_pid_alive :: "(int \<Rightarrow> probe) \<Rightarrow> int option \<Rightarrow> bool" where
  "is_pid_alive kill0 pid = (case pid of None \<Rightarrow> False
     | Some p \<Rightarrow> if p \<le> 0 then False else (case kill0 p of
           NoSuchProcess \<Rightarrow> False | PermissionDenied \<Rightarrow> True | ProcExists \<Rightarrow> True))"

text \<open>\<open>request_stop\<close> sends \<open>SIGTERM\<close>: the pids signalled, in order. A vanished process is
  silent; a permission error propagates.\<close>

definition request_stop :: "(int \<Rightarrow> probe) \<Rightarrow> int option \<Rightarrow> exn + int list" where
  "request_stop kill0 pid = (case pid of None \<Rightarrow> Inr []
     | Some p \<Rightarrow> if p \<le> 0 then Inr [] else (case kill0 p of
           NoSuchProcess \<Rightarrow> Inr [] | PermissionDenied \<Rightarrow> Inl OSError | ProcExists \<Rightarrow> Inr [p]))"

text \<open>The two polling loops. \<open>clock k\<close> and the observation at poll \<open>k\<close> are what the loop sees
  in its \<open>k\<close>-th round; \<open>None\<close> is a loop that never ends.\<close>

partial_function (option) wait_for_exit_loop ::
  "(nat \<Rightarrow> bool) \<Rightarrow> (nat \<Rightarrow> nat) \<Rightarrow> nat \<Rightarrow> nat \<Rightarrow> bool option" where
  "wait_for_exit_loop alive clock deadline k =
     (if \<not> alive k then Some True
      else if clock k \<ge> deadline then Some False
      else wait_for_exit_loop alive clock deadline (Suc k))"

definition wait_for_exit :: "(nat \<Rightarrow> int \<Rightarrow> probe) \<Rightarrow> (nat \<Rightarrow> nat) \<Rightarrow> int option \<Rightarrow> nat \<Rightarrow> bool option" where
  "wait_for_exit kill0 clock pid timeout =
     wait_for_exit_loop (\<lambda>k. is_pid_alive (kill0 k) pid) (\<lambda>k. clock (Suc k)) (clock 0 + timeout) 0"

partial_function (option) wait_for_state_loop ::
  "(nat \<Rightarrow> 's option) \<Rightarrow> ('s \<Rightarrow> bool) \<Rightarrow> (nat \<Rightarrow> nat) \<Rightarrow> nat \<Rightarrow> nat \<Rightarrow> 's option option" where
  "wait_for_state_loop observe until clock deadline k =
     (let observed = observe k in
      if (case observed of None \<Rightarrow> False | Some s \<Rightarrow> until s) then Some observed
      else if clock k \<ge> deadline then Some observed
      else wait_for_state_loop observe until clock deadline (Suc k))"

definition wait_for_state ::
  "(nat \<Rightarrow> 's rt_fs) \<Rightarrow> string \<Rightarrow> ('s \<Rightarrow> bool) \<Rightarrow> (nat \<Rightarrow> nat) \<Rightarrow> nat \<Rightarrow> 's option option" where
  "wait_for_state fs_at sid until clock timeout =
     wait_for_state_loop (\<lambda>k. read_state (fs_at k) sid) until (\<lambda>k. clock (Suc k)) (clock 0 + timeout) 0"

section \<open>Facts about the directory\<close>

text \<open>Distinct names, and inode numbers below the allocator.\<close>

definition fs_ok :: "'s rt_fs \<Rightarrow> bool" where
  "fs_ok fs \<longleftrightarrow> distinct (map fst (names fs)) \<and> (\<forall>(n, i) \<in> set (names fs). i < next_ino fs)
     \<and> inj_on snd (set (names fs))"

named_theorems fs_defs \<open>the file-system operations unfolded\<close>

lemmas [fs_defs] = fs_lookup_def fs_read_def fs_new_def fs_open_trunc_def fs_open_excl_def fs_open_append_def
  fs_append_def fs_write_def
  fs_unlink_def fs_replace_def

lemma tmp_path_not_state: "tmp_path sid pid \<noteq> state_file_path sid'"
proof
  assume "tmp_path sid pid = state_file_path sid'"
  then have "last (tmp_path sid pid) = last (state_file_path sid')" by simp
  then show False by (simp add: tmp_path_def state_file_path_def)
qed

lemma state_file_path_inj: "state_file_path a = state_file_path b \<longleftrightarrow> a = b"
  by (simp add: state_file_path_def)

lemma fs_lookup_inode_less: "fs_ok fs \<Longrightarrow> fs_lookup n fs = Some i \<Longrightarrow> i < next_ino fs"
  by (auto simp: fs_ok_def fs_lookup_def dest!: map_of_SomeD)

lemma fs_lookup_inj: "fs_ok fs \<Longrightarrow> fs_lookup n fs = Some i \<Longrightarrow> fs_lookup m fs = Some i \<Longrightarrow> n = m"
  unfolding fs_ok_def fs_lookup_def by (metis Pair_inject inj_onD map_of_SomeD snd_conv)

lemma inodes_new [simp]: "inodes (snd (fs_new n fs)) = (inodes fs)(next_ino fs := Unparsable)"
  by (simp add: fs_new_def)

lemma fs_lookup_new: "fs_lookup m (snd (fs_new n fs)) =
    (case fs_lookup m fs of None \<Rightarrow> if m = n then Some (next_ino fs) else None | Some i \<Rightarrow> Some i)"
  by (auto simp: fs_defs map_add_def split: option.splits)

lemma fs_lookup_replace:
  "fs_lookup src fs = Some i \<Longrightarrow> fs_lookup m (fs_replace src dst fs) =
     (if m = dst then Some i else if m = src then None else fs_lookup m fs)"
  by (auto simp: fs_defs map_of_od_pop map_add_def split: option.splits)

lemma fs_lookup_unlink: "fs_lookup m (fs_unlink n fs) = (if m = n then None else fs_lookup m fs)"
  by (simp add: fs_defs map_of_od_pop)

lemma fs_lookup_open_trunc:
  assumes "fs_open_trunc n fs = (i, fs1)"
  shows "fs_lookup n fs1 = Some i" and "m \<noteq> n \<Longrightarrow> fs_lookup m fs1 = fs_lookup m fs"
    and "inodes fs1 = (inodes fs)(i := Unparsable)"
proof -
  have n: "fs_lookup n fs1 = Some i \<and> (m \<noteq> n \<longrightarrow> fs_lookup m fs1 = fs_lookup m fs)
      \<and> inodes fs1 = (inodes fs)(i := Unparsable)"
  proof (cases "fs_lookup n fs")
    case None
    with assms have "fs1 = snd (fs_new n fs)" "i = next_ino fs"
      by (auto simp: fs_open_trunc_def fs_new_def)
    with None fs_lookup_new [of n n fs] fs_lookup_new [of m n fs] show ?thesis
      by (auto split: option.splits)
  next
    case (Some j)
    with assms show ?thesis by (auto simp: fs_open_trunc_def fs_lookup_def)
  qed
  then show "fs_lookup n fs1 = Some i" and "m \<noteq> n \<Longrightarrow> fs_lookup m fs1 = fs_lookup m fs"
    and "inodes fs1 = (inodes fs)(i := Unparsable)" by simp_all
qed

lemma fs_open_trunc_other:
  assumes "fs_ok fs" and "fs_open_trunc n fs = (i, fs1)" and "fs_lookup m fs = Some j" and "m \<noteq> n"
  shows "j \<noteq> i"
proof (cases "fs_lookup n fs")
  case None
  with assms(2) have "i = next_ino fs" by (simp add: fs_open_trunc_def fs_new_def)
  with fs_lookup_inode_less [OF assms(1,3)] show ?thesis by simp
next
  case (Some k)
  with assms(2) have "i = k" by (simp add: fs_open_trunc_def)
  with Some fs_lookup_inj [OF assms(1,3)] assms(4) show ?thesis by metis
qed

lemma has_json_suffix_state [simp]: "has_json_suffix (state_file_path sid)"
  by (simp add: has_json_suffix_def state_file_path_def)

lemma json_stem_state: "sid \<noteq> [] \<Longrightarrow> json_stem (state_file_path sid) = sid"
  by (cases sid) (auto simp: json_stem_def state_file_path_def)

lemma list_session_ids_complete:
  assumes "read_state fs sid = Some s" and "sid \<noteq> []"
  shows "sid \<in> set (list_session_ids fs)"
proof -
  obtain i where "fs_lookup (state_file_path sid) fs = Some i"
    using assms(1) by (auto simp: read_state_def fs_read_def split: option.splits)
  then have "state_file_path sid \<in> fst ` set (names fs)"
    by (auto simp: fs_lookup_def dest!: map_of_SomeD intro: rev_image_eqI)
  then have "json_stem (state_file_path sid) \<in> set (list_session_ids fs)"
    by (auto simp: list_session_ids_def intro!: imageI)
  with json_stem_state [OF assms(2)] show ?thesis by simp
qed

lemma read_state_unlink:
  "read_state (fs_unlink n fs) sid = (if n = state_file_path sid then None else read_state fs sid)"
proof -
  have "inodes (fs_unlink n fs) = inodes fs" by (simp add: fs_unlink_def)
  then show ?thesis by (simp add: read_state_def fs_read_def fs_lookup_unlink)
qed

section \<open>Every operation keeps the directory well formed\<close>

lemma fs_ok_new: "fs_ok fs \<Longrightarrow> fs_lookup n fs = None \<Longrightarrow> fs_ok (snd (fs_new n fs))"
  by (fastforce simp: fs_ok_def fs_new_def fs_lookup_def map_of_eq_None_iff inj_on_def)

lemma fs_ok_inodes [simp]: "fs_ok (fs\<lparr>inodes := f\<rparr>) = fs_ok fs"
  by (simp add: fs_ok_def)

lemma fs_ok_write [simp]: "fs_ok (fs_write i c fs) = fs_ok fs"
  by (simp add: fs_write_def)

lemma fs_ok_append [simp]: "fs_ok (fs_append i l fs) = fs_ok fs"
  by (simp add: fs_append_def)

lemma fs_ok_unlink: "fs_ok fs \<Longrightarrow> fs_ok (fs_unlink n fs)"
  by (auto simp: fs_ok_def fs_unlink_def set_od_pop distinct_od_pop inj_on_def)

lemma fs_ok_open_trunc: "fs_ok fs \<Longrightarrow> fs_open_trunc n fs = (i, fs1) \<Longrightarrow> fs_ok fs1"
  using fs_ok_new [of fs n] by (auto simp: fs_open_trunc_def split: option.splits)

lemma fs_ok_open_append: "fs_ok fs \<Longrightarrow> fs_open_append n fs = (i, fs1) \<Longrightarrow> fs_ok fs1"
  using fs_ok_new [of fs n] by (auto simp: fs_open_append_def split: option.splits prod.splits)

lemma fs_ok_replace:
  assumes "fs_ok fs"
  shows "fs_ok (fs_replace src dst fs)"
proof (cases "fs_lookup src fs")
  case (Some i)
  define ns where "ns = od_pop dst (od_pop src (names fs))"
  have i: "i < next_ino fs" by (rule fs_lookup_inode_less [OF assms Some])
  have mem: "(src, i) \<in> set (names fs)" using Some by (simp add: fs_lookup_def map_of_SomeD)
  have d: "distinct (map fst ns)" using assms by (simp add: ns_def fs_ok_def distinct_od_pop)
  have sub: "set ns \<subseteq> set (names fs)" by (auto simp: ns_def set_od_pop)
  have f: "dst \<notin> fst ` set ns" by (auto simp: ns_def set_od_pop)
  have "i \<notin> snd ` set ns"
    using assms mem by (fastforce simp: ns_def fs_ok_def set_od_pop inj_on_def)
  moreover have "inj_on snd (set ns)" using assms sub by (auto simp: fs_ok_def intro: inj_on_subset)
  ultimately have "inj_on snd (set (ns @ [(dst, i)]))" by auto
  moreover have "\<forall>(n, j) \<in> set (ns @ [(dst, i)]). j < next_ino fs"
    using assms sub i by (auto simp: fs_ok_def)
  moreover have "distinct (map fst (ns @ [(dst, i)]))" using d f by auto
  ultimately show ?thesis
    using Some by (simp only: fs_ok_def fs_replace_def ns_def [symmetric] option.case) simp
qed (simp add: fs_replace_def assms)

lemma fs_ok_write_state_atomic:
  assumes "fs_ok fs"
  shows "fs_ok (write_state_atomic sid pid d fs)" and "fs_ok (write_state_atomic_failed sid pid fs)"
  using fs_ok_open_trunc [OF assms, of "tmp_path sid pid"]
  by (auto simp: write_state_atomic_def write_state_atomic_failed_def atomic_open_def
      intro!: fs_ok_replace fs_ok_unlink split: prod.splits)

section \<open>Atomicity of the state writes\<close>

lemma read_state_open_trunc:
  assumes "fs_ok fs" and "atomic_open sid pid fs = (i, fs1)"
  shows "read_state fs1 sid' = read_state fs sid'" and "read_state (fs_write i c fs1) sid' = read_state fs sid'"
    and "fs_lookup (tmp_path sid pid) (fs_write i c fs1) = Some i"
proof -
  note o = assms(2) [unfolded atomic_open_def]
  have ne: "state_file_path sid' \<noteq> tmp_path sid pid" using tmp_path_not_state by metis
  have l: "fs_lookup (state_file_path sid') fs1 = fs_lookup (state_file_path sid') fs"
    by (rule fs_lookup_open_trunc(2) [OF o ne])
  have k: "j \<noteq> i" if "fs_lookup (state_file_path sid') fs = Some j" for j
    by (rule fs_open_trunc_other [OF assms(1) o that ne])
  have lw: "fs_lookup n (fs_write i c fs1) = fs_lookup n fs1" for n
    by (simp add: fs_write_def fs_lookup_def)
  show "read_state fs1 sid' = read_state fs sid'"
    using k by (auto simp: read_state_def fs_read_def l fs_lookup_open_trunc(3) [OF o] split: option.splits)
  have iw: "inodes (fs_write i c fs1) = (inodes fs)(i := c)"
    by (simp add: fs_write_def fs_lookup_open_trunc(3) [OF o])
  show "read_state (fs_write i c fs1) sid' = read_state fs sid'"
    using k by (auto simp: read_state_def fs_read_def l lw iw split: option.splits)
  show "fs_lookup (tmp_path sid pid) (fs_write i c fs1) = Some i"
    using fs_lookup_open_trunc(1) [OF o] by (simp add: lw)
qed

lemma read_state_write_atomic:
  assumes "fs_ok fs"
  shows "read_state (write_state_atomic sid pid d fs) sid' = (if sid' = sid then Some d else read_state fs sid')"
proof -
  obtain i fs1 where o: "atomic_open sid pid fs = (i, fs1)" by fastforce
  let ?fs2 = "fs_write i (JsonDict d) fs1"
  note r = read_state_open_trunc [OF assms o]
  have lk: "fs_lookup (tmp_path sid pid) ?fs2 = Some i" by (rule r(3))
  have ino: "inodes (fs_replace a b fs) = inodes fs" for a b and fs :: "'a rt_fs"
    by (simp add: fs_replace_def split: option.splits)
  have w: "write_state_atomic sid pid d fs = fs_replace (tmp_path sid pid) (state_file_path sid) ?fs2"
    by (simp add: write_state_atomic_def o)
  have ne: "state_file_path sid' \<noteq> tmp_path sid pid" using tmp_path_not_state by metis
  show ?thesis
  proof (cases "sid' = sid")
    case True
    then show ?thesis
      by (simp add: w read_state_def fs_read_def fs_lookup_replace [OF lk] ino) (simp add: fs_write_def)
  next
    case False
    then have "read_state (write_state_atomic sid pid d fs) sid' = read_state ?fs2 sid'"
      using ne by (simp add: w read_state_def fs_read_def fs_lookup_replace [OF lk] ino state_file_path_inj)
    with False r(2) show ?thesis by simp
  qed
qed

lemma read_state_write_if_absent:
  "fst (write_state_if_absent sid d fs) \<longleftrightarrow> fs_lookup (state_file_path sid) fs = None"
  "fs_lookup (state_file_path sid) fs = Some i \<Longrightarrow> snd (write_state_if_absent sid d fs) = fs"
  "fs_lookup (state_file_path sid) fs = None \<Longrightarrow> read_state (snd (write_state_if_absent sid d fs)) sid = Some d"
proof -
  show "fst (write_state_if_absent sid d fs) \<longleftrightarrow> fs_lookup (state_file_path sid) fs = None"
    by (simp add: write_state_if_absent_def fs_open_excl_def split: option.splits prod.splits)
  show "snd (write_state_if_absent sid d fs) = fs" if "fs_lookup (state_file_path sid) fs = Some i"
    using that by (simp add: write_state_if_absent_def fs_open_excl_def)
  assume n: "fs_lookup (state_file_path sid) fs = None"
  obtain i fs1 where nw: "fs_new (state_file_path sid) fs = (i, fs1)" by fastforce
  have "fs_lookup (state_file_path sid) fs1 = Some i"
    using fs_lookup_new [of "state_file_path sid" "state_file_path sid" fs] n nw
    by (auto simp: fs_new_def)
  then have "fs_lookup (state_file_path sid) (fs_write i (JsonDict d) fs1) = Some i"
    by (simp add: fs_lookup_def fs_write_def)
  then show "read_state (snd (write_state_if_absent sid d fs)) sid = Some d"
    using n nw by (simp add: write_state_if_absent_def fs_open_excl_def read_state_def fs_read_def)
      (simp add: fs_write_def)
qed

lemma read_state_write_atomic_failed:
  assumes "fs_ok fs"
  shows "read_state (write_state_atomic_failed sid pid fs) sid' = read_state fs sid'"
proof -
  obtain i fs1 where o: "atomic_open sid pid fs = (i, fs1)" by fastforce
  have "tmp_path sid pid \<noteq> state_file_path sid'" by (rule tmp_path_not_state)
  with read_state_open_trunc(2) [OF assms o] show ?thesis
    by (simp add: write_state_atomic_failed_def o read_state_unlink)
qed

section \<open>Two writers of the first record\<close>

text \<open>The parent's create-only write and the daemon's atomic write, one system call at a time; each
  process keeps its own descriptor.\<close>

datatype write_call = ParentOpen | ParentWrite | DaemonOpen | DaemonWrite | DaemonReplace

record 's race =
  r_fs :: "'s rt_fs"
  r_parent :: "nat option"
  r_daemon :: nat

fun race_step :: "string \<Rightarrow> nat \<Rightarrow> 's \<Rightarrow> 's \<Rightarrow> write_call \<Rightarrow> 's race \<Rightarrow> 's race" where
  "race_step sid pid pd dd ParentOpen w =
     (let (i, fs) = fs_open_excl (state_file_path sid) (r_fs w) in w\<lparr>r_parent := i, r_fs := fs\<rparr>)"
| "race_step sid pid pd dd ParentWrite w = (case r_parent w of
      None \<Rightarrow> w
    | Some i \<Rightarrow> w\<lparr>r_fs := fs_write i (JsonDict pd) (r_fs w)\<rparr>)"
| "race_step sid pid pd dd DaemonOpen w =
     (let (i, fs) = atomic_open sid pid (r_fs w) in w\<lparr>r_daemon := i, r_fs := fs\<rparr>)"
| "race_step sid pid pd dd DaemonWrite w = w\<lparr>r_fs := fs_write (r_daemon w) (JsonDict dd) (r_fs w)\<rparr>"
| "race_step sid pid pd dd DaemonReplace w =
     w\<lparr>r_fs := fs_replace (tmp_path sid pid) (state_file_path sid) (r_fs w)\<rparr>"

definition race_run :: "string \<Rightarrow> nat \<Rightarrow> 's \<Rightarrow> 's \<Rightarrow> write_call list \<Rightarrow> 's rt_fs \<Rightarrow> 's rt_fs" where
  "race_run sid pid pd dd calls fs =
     r_fs (fold (race_step sid pid pd dd) calls \<lparr>r_fs = fs, r_parent = None, r_daemon = 0\<rparr>)"

definition parent_calls :: "write_call list" where
  "parent_calls = [ParentOpen, ParentWrite]"

definition daemon_calls :: "write_call list" where
  "daemon_calls = [DaemonOpen, DaemonWrite, DaemonReplace]"

lemma race_run_parent: "race_run sid pid pd dd parent_calls fs = snd (write_state_if_absent sid pd fs)"
  by (auto simp: race_run_def parent_calls_def write_state_if_absent_def split: prod.splits option.splits)

lemma race_run_daemon: "race_run sid pid pd dd daemon_calls fs = write_state_atomic sid pid dd fs"
  by (simp add: race_run_def daemon_calls_def write_state_atomic_def split: prod.splits)

text \<open>How far the daemon has come, whatever the parent does in between.\<close>

fun race_inv :: "string \<Rightarrow> nat \<Rightarrow> 's \<Rightarrow> nat \<Rightarrow> 's race \<Rightarrow> bool" where
  "race_inv sid pid dd k w \<longleftrightarrow> fs_ok (r_fs w)
     \<and> (case r_parent w of None \<Rightarrow> True
        | Some i \<Rightarrow> if k < 3 then fs_lookup (state_file_path sid) (r_fs w) = Some i else i \<noteq> r_daemon w)
     \<and> (k = 1 \<or> k = 2 \<longrightarrow> fs_lookup (tmp_path sid pid) (r_fs w) = Some (r_daemon w))
     \<and> (k \<ge> 2 \<longrightarrow> inodes (r_fs w) (r_daemon w) = JsonDict dd)
     \<and> (k \<ge> 3 \<longrightarrow> fs_lookup (state_file_path sid) (r_fs w) = Some (r_daemon w))"

lemma fs_lookup_write [simp]: "fs_lookup n (fs_write i c fs) = fs_lookup n fs"
  by (simp add: fs_defs)

lemma race_parent_open:
  assumes "race_inv sid pid dd k w"
  shows "race_inv sid pid dd k (race_step sid pid pd dd ParentOpen w)"
proof (cases "fs_lookup (state_file_path sid) (r_fs w)")
  case (Some i)
  with assms show ?thesis by (simp add: fs_open_excl_def)
next
  case None
  let ?fs = "snd (fs_new (state_file_path sid) (r_fs w))"
  have k: "k < 3" using assms None by (cases "k < 3") auto
  have ok: "fs_ok ?fs" using assms None by (simp add: fs_ok_new)
  have tmp: "fs_lookup (tmp_path sid pid) ?fs = fs_lookup (tmp_path sid pid) (r_fs w)"
    using tmp_path_not_state by (simp add: fs_lookup_new split: option.splits)
  have st: "fs_lookup (state_file_path sid) ?fs = Some (next_ino (r_fs w))"
    using None by (simp add: fs_lookup_new)
  have "inodes ?fs (r_daemon w) = JsonDict dd" if "k = 2"
    using assms that fs_lookup_inode_less [of "r_fs w" "tmp_path sid pid" "r_daemon w"] by auto
  with k ok tmp st assms None show ?thesis
    by (auto simp: fs_open_excl_def split: prod.splits) (auto simp: fs_new_def)
qed

lemma race_parent_write:
  assumes "race_inv sid pid dd k w"
  shows "race_inv sid pid dd k (race_step sid pid pd dd ParentWrite w)"
proof (cases "r_parent w")
  case (Some i)
  have "i \<noteq> r_daemon w" if "k \<ge> 2"
  proof (cases "k < 3")
    case True
    with assms Some that fs_lookup_inj [of "r_fs w" "state_file_path sid" i "tmp_path sid pid"]
      tmp_path_not_state [of sid pid sid] show ?thesis by auto
  next
    case False
    with assms Some show ?thesis by simp
  qed
  then have "inodes (fs_write i (JsonDict pd) (r_fs w)) (r_daemon w) = JsonDict dd" if "k \<ge> 2"
    using that assms by (simp add: fs_write_def)
  with assms Some show ?thesis by simp
qed (use assms in simp)

lemma race_daemon_open:
  assumes "race_inv sid pid dd 0 w"
  shows "race_inv sid pid dd 1 (race_step sid pid pd dd DaemonOpen w)"
proof -
  obtain i fs1 where o: "fs_open_trunc (tmp_path sid pid) (r_fs w) = (i, fs1)" by fastforce
  have ne: "state_file_path sid \<noteq> tmp_path sid pid" using tmp_path_not_state by metis
  have "fs_ok fs1" using assms fs_ok_open_trunc [OF _ o] by simp
  with assms fs_lookup_open_trunc(1) [OF o] fs_lookup_open_trunc(2) [OF o ne] show ?thesis
    by (simp add: atomic_open_def o split: option.splits)
qed

lemma race_daemon_replace:
  assumes "race_inv sid pid dd 2 w"
  shows "race_inv sid pid dd 3 (race_step sid pid pd dd DaemonReplace w)"
proof -
  have l: "fs_lookup (tmp_path sid pid) (r_fs w) = Some (r_daemon w)" using assms by simp
  have "i \<noteq> r_daemon w" if "r_parent w = Some i" for i
    using assms that l fs_lookup_inj [of "r_fs w" "state_file_path sid" i "tmp_path sid pid"]
      tmp_path_not_state [of sid pid sid] by auto
  moreover have "inodes (fs_replace a b fs) = inodes fs" for a b and fs :: "'a rt_fs"
    by (simp add: fs_replace_def split: option.splits)
  ultimately show ?thesis
    using assms by (simp add: fs_lookup_replace [OF l] fs_ok_replace split: option.splits)
qed

lemma race_daemon_step:
  assumes "race_inv sid pid dd k w" and "k < 3"
  shows "race_inv sid pid dd (Suc k) (race_step sid pid pd dd (daemon_calls ! k) w)"
proof -
  consider "k = 0" | "k = 1" | "k = 2" using assms(2) by linarith
  then show ?thesis
  proof cases
    case 1
    then show ?thesis using race_daemon_open assms(1) by (simp add: daemon_calls_def del: race_inv.simps)
  next
    case 2
    then show ?thesis using assms(1) by (simp add: daemon_calls_def fs_write_def fs_lookup_def split: option.splits)
  next
    case 3
    then show ?thesis using race_daemon_replace assms(1) by (simp add: daemon_calls_def eval_nat_numeral del: race_inv.simps)
  qed
qed

definition is_daemon_call :: "write_call \<Rightarrow> bool" where
  "is_daemon_call c \<longleftrightarrow> c \<in> set daemon_calls"

lemma race_fold:
  assumes "filter is_daemon_call calls = drop k daemon_calls" and "race_inv sid pid dd k w" and "k \<le> 3"
  shows "race_inv sid pid dd 3 (fold (race_step sid pid pd dd) calls w)"
  using assms
proof (induction calls arbitrary: k w)
  case Nil
  then show ?case by (cases "k = 3") (auto simp: daemon_calls_def)
next
  case (Cons c cs)
  show ?case
  proof (cases "is_daemon_call c")
    case True
    with Cons.prems have k: "k < 3" by (cases "k = 3") (auto simp: daemon_calls_def)
    then have "drop k daemon_calls = daemon_calls ! k # drop (Suc k) daemon_calls"
      by (intro Cons_nth_drop_Suc [symmetric]) (simp add: daemon_calls_def)
    with Cons.prems(1) True have "c = daemon_calls ! k" "filter is_daemon_call cs = drop (Suc k) daemon_calls"
      by simp_all
    with Cons.IH [OF this(2)] race_daemon_step [OF Cons.prems(2) k] k show ?thesis by simp
  next
    case False
    then have "c = ParentOpen \<or> c = ParentWrite" by (cases c) (auto simp: is_daemon_call_def daemon_calls_def)
    then have "race_inv sid pid dd k (race_step sid pid pd dd c w)"
      using race_parent_open race_parent_write Cons.prems(2) by metis
    with Cons.IH [of k] Cons.prems False show ?thesis by (simp del: race_inv.simps)
  qed
qed

lemma race_daemon_wins:
  assumes "fs_ok fs" and "calls \<in> shuffles parent_calls daemon_calls"
  shows "read_state (race_run sid pid pd dd calls fs) sid = Some dd"
proof -
  have "filter is_daemon_call calls \<in> filter is_daemon_call ` shuffles parent_calls daemon_calls"
    using assms(2) by (rule imageI)
  then have "filter is_daemon_call calls = drop 0 daemon_calls"
    by (simp add: filter_shuffles is_daemon_call_def parent_calls_def daemon_calls_def)
  from race_fold [OF this, of sid pid dd "\<lparr>r_fs = fs, r_parent = None, r_daemon = 0\<rparr>" pd] assms(1)
  show ?thesis by (simp add: race_run_def read_state_def fs_read_def)
qed

section \<open>Polling loops end\<close>

lemma wait_for_exit_loop_spec:
  assumes "\<exists>m \<ge> k. \<not> alive m \<or> deadline \<le> clock m"
  shows "\<exists>n \<ge> k. wait_for_exit_loop alive clock deadline k = Some (\<not> alive n)
    \<and> (\<not> alive n \<or> deadline \<le> clock n) \<and> (\<forall>j. k \<le> j \<and> j < n \<longrightarrow> alive j \<and> clock j < deadline)"
proof -
  have "wait_for_exit_loop alive clock deadline k = (if \<not> alive k \<or> deadline \<le> clock k then Some (\<not> alive k)
      else wait_for_exit_loop alive clock deadline (Suc k))" for k
    by (subst wait_for_exit_loop.simps) auto
  from poll_loop [of "wait_for_exit_loop alive clock deadline", OF this assms] show ?thesis
    by (auto simp: not_le)
qed

lemma wait_for_state_loop_spec:
  assumes "\<exists>m \<ge> k. (\<exists>s. observe m = Some s \<and> until s) \<or> deadline \<le> clock m"
  shows "\<exists>n \<ge> k. wait_for_state_loop observe until clock deadline k = Some (observe n)
    \<and> ((\<exists>s. observe n = Some s \<and> until s) \<or> deadline \<le> clock n)
    \<and> (\<forall>j. k \<le> j \<and> j < n \<longrightarrow> \<not> (\<exists>s. observe j = Some s \<and> until s) \<and> clock j < deadline)"
proof -
  have "wait_for_state_loop observe until clock deadline k =
      (if (\<exists>s. observe k = Some s \<and> until s) \<or> deadline \<le> clock k then Some (observe k)
       else wait_for_state_loop observe until clock deadline (Suc k))" for k
    by (subst wait_for_state_loop.simps) (auto simp: Let_def split: option.splits)
  from poll_loop [of "wait_for_state_loop observe until clock deadline", OF this assms] show ?thesis
    by (auto simp: not_le)
qed

section \<open>What a daemon's client relies on\<close>

lemma waits_return:
  assumes "\<exists>m. clock 0 + timeout \<le> clock (Suc m)"
  shows "\<exists>o1. wait_for_state fs_at sid until clock timeout = Some o1"
    and "\<exists>b. wait_for_exit kill0 clock pid timeout = Some b"
proof -
  have "\<exists>m \<ge> 0. \<not> is_pid_alive (kill0 m) pid \<or> clock 0 + timeout \<le> clock (Suc m)"
    "\<exists>m \<ge> 0. (\<exists>s. read_state (fs_at m) sid = Some s \<and> until s) \<or> clock 0 + timeout \<le> clock (Suc m)"
    using assms by auto
  from wait_for_exit_loop_spec [OF this(1)] wait_for_state_loop_spec [OF this(2)]
  show "\<exists>o1. wait_for_state fs_at sid until clock timeout = Some o1" and "\<exists>b. wait_for_exit kill0 clock pid timeout = Some b"
    by (auto simp: wait_for_exit_def wait_for_state_def)
qed

lemma wait_for_state_reads:
  assumes "\<exists>m. clock 0 + timeout \<le> clock (Suc m)"
  shows "\<exists>n. wait_for_state fs_at sid until clock timeout = Some (read_state (fs_at n) sid)
    \<and> ((\<exists>s. read_state (fs_at n) sid = Some s \<and> until s) \<or> clock 0 + timeout \<le> clock (Suc n))
    \<and> (\<forall>j < n. \<not> (\<exists>s. read_state (fs_at j) sid = Some s \<and> until s) \<and> clock (Suc j) < clock 0 + timeout)"
proof -
  have "\<exists>m \<ge> 0. (\<exists>s. read_state (fs_at m) sid = Some s \<and> until s) \<or> clock 0 + timeout \<le> clock (Suc m)"
    using assms by auto
  from wait_for_state_loop_spec [OF this] show ?thesis by (auto simp: wait_for_state_def)
qed

lemma read_state_remove_paths:
  fixes fs :: "'s rt_fs"
  assumes "\<And>p s. p \<in> set paths \<Longrightarrow> p \<noteq> state_file_path s"
  shows "read_state (remove_paths (state_file_path sid # paths) fs) s = (if s = sid then None else read_state fs s)"
proof -
  have "read_state (fold fs_unlink paths d) s = read_state d s" for d :: "'s rt_fs"
    using assms by (induction paths arbitrary: d) (auto simp: read_state_unlink)
  then show ?thesis by (auto simp: remove_paths_def read_state_unlink state_file_path_inj)
qed

text \<open>The records of one kind of daemon: removing a session's files takes away its own record and no other.\<close>

locale session_files =
  fixes remove :: "string \<Rightarrow> 's rt_fs \<Rightarrow> 's rt_fs" and id_of :: "'s \<Rightarrow> string" and pid_of :: "'s \<Rightarrow> int"
  assumes read_remove: "read_state (remove sid fs) s = (if s = sid then None else read_state fs s)"
begin

definition stoppable :: "(int \<Rightarrow> probe) \<Rightarrow> 's \<Rightarrow> bool" where
  "stoppable kill0 st \<longleftrightarrow> 0 < pid_of st \<and> kill0 (pid_of st) = ProcExists"

lemma read_remove_all:
  "read_state (fold (\<lambda>st. remove (id_of st)) sts fs) s = (if s \<in> id_of ` set sts then None else read_state fs s)"
  by (induction sts arbitrary: fs) (auto simp: read_remove)

lemma alive_iff_stoppable:
  assumes "\<And>p. kill0 p \<noteq> PermissionDenied"
  shows "is_pid_alive kill0 (Some (pid_of st)) = stoppable kill0 st"
  using assms [of "pid_of st"] by (auto simp: is_pid_alive_def stoppable_def split: probe.splits)

lemma stop_recorded:
  assumes "stoppable kill0 st"
  shows "request_stop kill0 (Some (pid_of st)) = Inr [pid_of st]"
  using assms by (simp add: request_stop_def stoppable_def)

end

section \<open>Properties\<close>

text \<open>C21. State files are replaced atomically: a reader of any session sees the old record at every
  moment of \<open>_write_state_atomic\<close> before the final rename (whatever part of the new record has been
  written), the new record of this session and unchanged records of all others after it, and the old
  record again when the write fails.\<close>

theorem state_write_atomic:
  assumes "fs_ok fs" and "atomic_open sid pid fs = (i, fs1)"
  shows "read_state fs1 sid' = read_state fs sid'
    \<and> read_state (fs_write i partial_content fs1) sid' = read_state fs sid'
    \<and> read_state (write_state_atomic sid pid d fs) sid' = (if sid' = sid then Some d else read_state fs sid')
    \<and> read_state (write_state_atomic_failed sid pid fs) sid' = read_state fs sid'
    \<and> fs_ok (write_state_atomic sid pid d fs) \<and> fs_ok (write_state_atomic_failed sid pid fs)"
  using read_state_open_trunc(1,2) [OF assms] read_state_write_atomic [OF assms(1)]
    read_state_write_atomic_failed [OF assms(1)] fs_ok_write_state_atomic [OF assms(1)] by simp

definition sample_fs :: "nat rt_fs" where
  "sample_fs = \<lparr>names = [(''a.json'', 0), (''a.json.7.tmp'', 1)], inodes = (\<lambda>i. if i = 0 then JsonDict 10 else Unparsable), next_ino = 2\<rparr>"

lemma sample_fs_ok: "fs_ok sample_fs"
  by (simp add: fs_ok_def sample_fs_def)

theorem state_write_atomic_witness:
  "\<exists>i fs1. atomic_open ''a'' 7 sample_fs = (i, fs1) \<and> read_state sample_fs ''a'' = Some 10
    \<and> read_state (fs_write i Unparsable fs1) ''a'' = Some 10
    \<and> read_state (write_state_atomic ''a'' 7 11 sample_fs) ''a'' = Some 11"
proof -
  obtain i fs1 where o: "atomic_open ''a'' 7 sample_fs = (i, fs1)" by fastforce
  have "read_state sample_fs ''a'' = Some 10"
    by (simp add: read_state_def fs_read_def fs_lookup_def sample_fs_def state_file_path_def)
  with state_write_atomic [OF sample_fs_ok o, of "''a''" Unparsable 11] o show ?thesis by auto
qed

text \<open>C20. The start-up race of \<open>spawn_session\<close>: the parent's fallback record (created only if no
  state file exists) and the daemon's own first record are written by two processes. In every
  interleaving of their system calls the daemon's record is the one that remains; the calls of each
  side alone are \<open>_write_state_if_absent\<close> and \<open>_write_state_atomic\<close>.\<close>

theorem spawn_race:
  assumes "fs_ok fs" and "calls \<in> shuffles parent_calls daemon_calls"
  shows "read_state (race_run sid pid pd dd calls fs) sid = Some dd
    \<and> race_run sid pid pd dd parent_calls fs = snd (write_state_if_absent sid pd fs)
    \<and> race_run sid pid pd dd daemon_calls fs = write_state_atomic sid pid dd fs"
  using race_daemon_wins [OF assms] by (simp add: race_run_parent race_run_daemon)

theorem spawn_race_witness:
  "read_state (race_run ''b'' 7 20 21 [ParentOpen, DaemonOpen, DaemonWrite, DaemonReplace, ParentWrite] sample_fs) ''b'' = Some 21"
proof -
  have "[ParentOpen, DaemonOpen, DaemonWrite, DaemonReplace, ParentWrite] \<in> shuffles parent_calls daemon_calls"
    by (simp add: parent_calls_def daemon_calls_def Cons_in_shuffles_iff)
  from spawn_race [OF sample_fs_ok this] show ?thesis by blast
qed

text \<open>\<open>wait_for_exit\<close> and \<open>wait_for_state\<close> return as soon as the process is gone (the record
  satisfies the condition) or the deadline has passed, never later, and return what the last poll saw:
  whether the process is gone, and the record itself.\<close>

theorem waits_end:
  assumes "\<exists>m. clock 0 + timeout \<le> clock (Suc m)"
  shows "(\<exists>n. wait_for_exit kill0 clock pid timeout = Some (\<not> is_pid_alive (kill0 n) pid)
      \<and> (is_pid_alive (kill0 n) pid \<longrightarrow> clock 0 + timeout \<le> clock (Suc n))
      \<and> (\<forall>j < n. is_pid_alive (kill0 j) pid \<and> clock (Suc j) < clock 0 + timeout))
    \<and> (\<exists>n. wait_for_state fs_at sid until clock timeout = Some (read_state (fs_at n) sid)
      \<and> ((\<exists>s. read_state (fs_at n) sid = Some s \<and> until s) \<or> clock 0 + timeout \<le> clock (Suc n))
      \<and> (\<forall>j < n. \<not> (\<exists>s. read_state (fs_at j) sid = Some s \<and> until s) \<and> clock (Suc j) < clock 0 + timeout))"
proof (rule conjI [OF _ wait_for_state_reads [OF assms]])
  have "\<exists>m \<ge> 0. \<not> is_pid_alive (kill0 m) pid \<or> clock 0 + timeout \<le> clock (Suc m)" using assms by auto
  from wait_for_exit_loop_spec [OF this]
  show "\<exists>n. wait_for_exit kill0 clock pid timeout = Some (\<not> is_pid_alive (kill0 n) pid)
      \<and> (is_pid_alive (kill0 n) pid \<longrightarrow> clock 0 + timeout \<le> clock (Suc n))
      \<and> (\<forall>j < n. is_pid_alive (kill0 j) pid \<and> clock (Suc j) < clock 0 + timeout)"
    by (auto simp: wait_for_exit_def)
qed

theorem waits_end_witness:
  "wait_for_exit (\<lambda>k p. if k < 3 then ProcExists else NoSuchProcess) (\<lambda>k. k) (Some 42) 10 = Some True"
proof -
  let ?kill0 = "\<lambda>k p. if k < (3 :: nat) then ProcExists else NoSuchProcess"
  have "\<exists>m. (\<lambda>k. k) 0 + 10 \<le> (\<lambda>k. k) (Suc m)" by (rule exI [of _ 10]) simp
  from waits_end [OF this, of ?kill0 "Some 42" "\<lambda>_. sample_fs" "''a''" "\<lambda>_. True"] obtain n
    where n: "wait_for_exit ?kill0 (\<lambda>k. k) (Some 42) 10 = Some (\<not> is_pid_alive (?kill0 n) (Some 42))"
      "is_pid_alive (?kill0 n) (Some 42) \<longrightarrow> 10 \<le> Suc n" by auto
  have "is_pid_alive (?kill0 n) (Some 42) \<longleftrightarrow> n < 3" by (simp add: is_pid_alive_def)
  with n show ?thesis by simp
qed

end
