(* ===== verification/Media_Session.thy ===== *)
theory Media_Session
  imports Iusb_Serve Daemon_Runtime
begin

text \<open>
  \<open>plugins/module_utils/media_session.py\<close>: the detached media daemon. Its state record and the
  callbacks that maintain it, the read trace and its two-ended summary, reclamation of other
  sessions on the same endpoint, the create-or-keep first record of \<open>spawn_session\<close>, and the
  whole lifetime \<open>_run_daemon\<close>. The web login and the token allocation it performs
  (\<open>asp.py\<close>) are an argument, as are the outcome of dialling the media port, the clock, the
  outcomes of its disk writes and the moments at which \<open>_stop_flag\<close> is seen set.
\<close>

section \<open>The state record\<close>

datatype lifecycle = STATE_STARTING | STATE_CONNECTING | STATE_ATTACHED | STATE_DETACHED | STATE_ERROR

definition TERMINAL_STATES :: "lifecycle set" where
  "TERMINAL_STATES = {STATE_DETACHED, STATE_ERROR}"

definition RECV_POLL_TIMEOUT :: nat where [simp]: "RECV_POLL_TIMEOUT = 2"

text \<open>The texts the daemon stores in \<open>error\<close>: two fixed ones, an \<open>IkvmError\<close>'s own message, and
  \<open>unexpected error: ...\<close> for anything else.\<close>

datatype error_text = PeerClosedText | KillText | ExnText exn | UnexpectedText exn

datatype stop_reason = Stop_signal | Stop_peer_closed | Stop_bmc_terminate

record idle_streak =
  started_at :: string
  polls :: nat
  seconds :: nat
  ended_at :: "string option"

record media_state =
  ms_session_id :: string
  ms_pid :: int
  ms_endpoint :: string
  ms_state :: lifecycle
  ms_error :: "error_text option"
  ms_error_class :: "error_class option"
  ms_image :: string
  bytes_read :: nat
  sectors_served :: nat
  last_request_at :: "string option"
  ms_started_at :: string
  updated_at :: string
  idle_polls :: nat
  idle_poll_interval_seconds :: nat
  current_idle_streak :: "idle_streak option"
  last_idle_streak :: "idle_streak option"
  ms_stop_reason :: "stop_reason option"

record session_config =
  cfg_session_id :: string
  cfg_host :: string
  cfg_port :: nat
  cfg_use_tls :: bool
  cfg_allow_insecure_transport :: bool
  cfg_validate_certs :: bool
  cfg_ca_path :: "string option"
  cfg_tls_fingerprint :: "string option"
  cfg_timeout :: nat
  cfg_connect_timeout :: nat
  cfg_cd_port :: nat
  cfg_instance :: int
  cfg_image :: string
  cfg_runtime_dir :: string

definition initial_state :: "string \<Rightarrow> string \<Rightarrow> string \<Rightarrow> int \<Rightarrow> string \<Rightarrow> media_state" where
  "initial_state now sid ep pid img = \<lparr>ms_session_id = sid, ms_pid = pid, ms_endpoint = ep,
     ms_state = STATE_STARTING, ms_error = None, ms_error_class = None, ms_image = img, bytes_read = 0,
     sectors_served = 0, last_request_at = None, ms_started_at = now, updated_at = now, idle_polls = 0,
     idle_poll_interval_seconds = RECV_POLL_TIMEOUT, current_idle_streak = None, last_idle_streak = None,
     ms_stop_reason = None\<rparr>"

definition close_idle_streak :: "string \<Rightarrow> media_state \<Rightarrow> media_state" where
  "close_idle_streak now st = (case current_idle_streak st of
      None \<Rightarrow> st
    | Some streak \<Rightarrow> st\<lparr>last_idle_streak := Some (streak\<lparr>ended_at := Some now\<rparr>),
                        current_idle_streak := None\<rparr>)"

section \<open>The read trace\<close>

definition READ_TRACE_HEAD_LIMIT :: nat where "READ_TRACE_HEAD_LIMIT = 128"
definition READ_TRACE_TAIL_LIMIT :: nat where "READ_TRACE_TAIL_LIMIT = 128"

definition read_trace_log_path :: "string \<Rightarrow> string" where
  "read_trace_log_path sid = sid @ ''.reads.jsonl''"

text \<open>\<open>collections.deque(maxlen=m).append\<close>.\<close>

definition deque_append :: "nat \<Rightarrow> 'a \<Rightarrow> 'a list \<Rightarrow> 'a list" where
  "deque_append m x q = (let q1 = q @ [x] in drop (length q1 - m) q1)"

text \<open>The loop of \<open>read_trace_summary\<close>; \<open>loads\<close> is \<open>json.loads\<close>, \<open>None\<close> for a
  \<open>ValueError\<close>.\<close>

fun trace_loop ::
  "(string \<Rightarrow> pyval option) \<Rightarrow> nat \<Rightarrow> nat \<Rightarrow> string list \<Rightarrow> nat \<times> pyval list \<times> pyval list
   \<Rightarrow> nat \<times> pyval list \<times> pyval list" where
  "trace_loop loads hlim tlim [] acc = acc"
| "trace_loop loads hlim tlim (raw # rest) (n, head, tail) =
     (let line = strip raw in
      if line = [] then trace_loop loads hlim tlim rest (n, head, tail)
      else case loads line of
          Some (PDict d) \<Rightarrow>
            (let n1 = n + 1 in
             if n1 \<le> hlim then trace_loop loads hlim tlim rest (n1, head @ [PDict d], tail)
             else trace_loop loads hlim tlim rest (n1, head, deque_append tlim (PDict d) tail))
        | _ \<Rightarrow> trace_loop loads hlim tlim rest (n, head, tail))"

definition read_trace_summary ::
  "(string \<Rightarrow> pyval option) \<Rightarrow> 's rt_fs \<Rightarrow> string \<Rightarrow> nat \<Rightarrow> nat \<Rightarrow> pyval list \<times> pyval list \<times> nat" where
  "read_trace_summary loads fs sid hlim tlim = (case fs_read (read_trace_log_path sid) fs of
      Some (TextLines ls) \<Rightarrow>
        (let (n, head, tail) = trace_loop loads hlim tlim ls (0, [], []) in (head, tail, n - hlim - tlim))
    | _ \<Rightarrow> ([], [], 0))"

text \<open>One trace line: \<open>json.dumps\<close> of the opcode, block address and block count of a read.\<close>

definition trace_line :: "bytes \<Rightarrow> string" where
  "trace_line c = (let op = hd c;
       blocks_slice = (if op = SCSI_READ10 then pslice 7 9 c else pslice 6 10 c)
     in ''{\"opcode\": \"0x'' @ hex_bytes [op] @ ''\", \"lba\": '' @ str_nat (be_nat (pslice 2 6 c))
        @ '', \"blocks\": '' @ str_nat (be_nat blocks_slice) @ ''}'')"

definition remove_state :: "string \<Rightarrow> 's rt_fs \<Rightarrow> 's rt_fs" where
  "remove_state sid fs = remove_paths [state_file_path sid, log_file_path sid, read_trace_log_path sid] fs"

section \<open>Reclamation\<close>

definition find_conflicting_sessions ::
  "media_state rt_fs \<Rightarrow> string \<Rightarrow> string option \<Rightarrow> media_state list" where
  "find_conflicting_sessions fs ep exclude =
     List.map_filter (\<lambda>sid. if Some sid = exclude then None
        else (case read_state fs sid of
            None \<Rightarrow> None
          | Some st \<Rightarrow> if ms_endpoint st \<noteq> ep then None else Some st)) (list_session_ids fs)"

text \<open>One conflicting session: stop it if it is alive and drop its record. The process table is what
  the probes report. The bounded \<open>wait_for_exit\<close> between the two is left out: it only probes and sleeps, and
  the source ignores its result.\<close>

fun reclaim_loop ::
  "(int \<Rightarrow> probe) \<Rightarrow> media_state list \<Rightarrow> media_state rt_fs \<Rightarrow> int list \<Rightarrow> string list
   \<Rightarrow> (exn + string list) \<times> int list \<times> media_state rt_fs" where
  "reclaim_loop kill0 [] fs sigs ids = (Inr ids, sigs, fs)"
| "reclaim_loop kill0 (st # rest) fs sigs ids =
     (case (if is_pid_alive kill0 (Some (ms_pid st)) then request_stop kill0 (Some (ms_pid st)) else Inr []) of
        Inl e \<Rightarrow> (Inl e, sigs, fs)
      | Inr sent \<Rightarrow>
          (let sid = ms_session_id st in
           if sid \<noteq> [] then reclaim_loop kill0 rest (remove_state sid fs) (sigs @ sent) (ids @ [sid])
           else reclaim_loop kill0 rest fs (sigs @ sent) ids))"

definition reclaim_conflicting_sessions ::
  "(int \<Rightarrow> probe) \<Rightarrow> media_state rt_fs \<Rightarrow> string \<Rightarrow> string option
   \<Rightarrow> (exn + string list) \<times> int list \<times> media_state rt_fs" where
  "reclaim_conflicting_sessions kill0 fs ep exclude =
     reclaim_loop kill0 (find_conflicting_sessions fs ep exclude) fs [] []"

definition validate_image :: "(string \<rightharpoonup> fs_node) \<Rightarrow> string \<Rightarrow> exn + unit" where
  "validate_image fs path = (case file_reader_open fs path of
      Inl e \<Rightarrow> Inl (ProtocolError ''asmb8_media.validate_image'')
    | Inr f \<Rightarrow> (let closed = file_close f in Inr ()))"

section \<open>The daemon\<close>

type_synonym device = "file_reader cache cdrom"

record daemon =
  d_state :: media_state
  d_fs :: "media_state rt_fs"
  d_pid :: nat
  d_trace :: nat
  d_now :: "nat \<Rightarrow> string"
  d_tick :: nat
  d_stop :: "bool list"
  d_disk :: "bool list"

definition now_iso :: "daemon \<Rightarrow> string \<times> daemon" where
  "now_iso u = (d_now u (d_tick u), u\<lparr>d_tick := d_tick u + 1\<rparr>)"

text \<open>The next disk write succeeds unless the environment says otherwise.\<close>

definition disk_write :: "daemon \<Rightarrow> bool \<times> daemon" where
  "disk_write u = (case d_disk u of [] \<Rightarrow> (True, u) | ok # oks \<Rightarrow> (ok, u\<lparr>d_disk := oks\<rparr>))"

definition persist_at :: "string \<Rightarrow> daemon \<Rightarrow> (exn + unit) \<times> daemon" where
  "persist_at now u =
     (let st = (d_state u)\<lparr>updated_at := now\<rparr>; u1 = u\<lparr>d_state := st\<rparr>; (ok, u2) = disk_write u1
      in if ok then (Inr (), u2\<lparr>d_fs := write_state_atomic (ms_session_id st) (d_pid u) st (d_fs u2)\<rparr>)
         else (Inl OSError, u2\<lparr>d_fs := write_state_atomic_failed (ms_session_id st) (d_pid u) (d_fs u2)\<rparr>))"

definition persist_now :: "daemon \<Rightarrow> (exn + unit) \<times> daemon" where
  "persist_now u = (let (now, u1) = now_iso u in persist_at now u1)"

definition upd :: "(media_state \<Rightarrow> media_state) \<Rightarrow> daemon \<Rightarrow> daemon" where
  "upd f u = u\<lparr>d_state := f (d_state u)\<rparr>"

definition on_idle :: "daemon \<Rightarrow> (exn + unit) \<times> daemon" where
  "on_idle u =
     (let (now, u1) = now_iso u;
          streak = (case current_idle_streak (d_state u1) of
              None \<Rightarrow> \<lparr>started_at = now, polls = 1, seconds = RECV_POLL_TIMEOUT, ended_at = None\<rparr>
            | Some k \<Rightarrow> k\<lparr>polls := polls k + 1, seconds := (polls k + 1) * RECV_POLL_TIMEOUT\<rparr>);
          u2 = upd (\<lambda>st. st\<lparr>current_idle_streak := Some streak, idle_polls := idle_polls st + 1\<rparr>) u1
      in persist_at now u2)"

definition on_request :: "device \<Rightarrow> packet \<Rightarrow> daemon \<Rightarrow> (exn + unit) \<times> daemon" where
  "on_request dev req u =
     (let (now, u1) = now_iso u;
          u2 = upd (\<lambda>st. (close_idle_streak now st)\<lparr>bytes_read := n_bytes dev, sectors_served := n_blocks dev\<rparr>) u1;
          c = cdb req;
          (ok, u3) = (if c \<noteq> [] \<and> (hd c = SCSI_READ10 \<or> hd c = SCSI_READ12)
            then (let (w, v) = disk_write u2 in
                  if w then (True, v\<lparr>d_fs := fs_append (d_trace v) (trace_line c) (d_fs v)\<rparr>) else (False, v))
            else (True, u2))
      in if ok then persist_at now (upd (\<lambda>st. st\<lparr>last_request_at := Some now\<rparr>) u3)
         else (Inl OSError, u3))"

definition should_stop :: "daemon \<Rightarrow> bool \<times> daemon" where
  "should_stop u = (case d_stop u of [] \<Rightarrow> (False, u) | b # bs \<Rightarrow> (b, u\<lparr>d_stop := bs\<rparr>))"

definition daemon_ops :: "(sock, device, daemon) serve_ops" where
  "daemon_ops = \<lparr>op_recv = iusb_recv_exact, op_send = iusb_send_all,
     op_handle = cd_handle cached_read_at, op_should_stop = should_stop, op_on_idle = on_idle,
     op_on_request = on_request\<rparr>"

text \<open>The normal end of the serve loop.\<close>

definition finish :: "serve_outcome \<Rightarrow> device \<Rightarrow> daemon \<Rightarrow> (exn + unit) \<times> daemon" where
  "finish out dev u =
     (let (now, u1) = now_iso u;
          u2 = upd (\<lambda>st. (close_idle_streak now st)\<lparr>bytes_read := n_bytes dev, sectors_served := n_blocks dev\<rparr>) u1;
          u3 = (case out of
              SERVE_STOPPED \<Rightarrow> upd (\<lambda>st. st\<lparr>ms_state := STATE_DETACHED, ms_error := None,
                                  ms_stop_reason := Some Stop_signal\<rparr>) u2
            | SERVE_PEER_CLOSED \<Rightarrow> upd (\<lambda>st. st\<lparr>ms_state := STATE_DETACHED, ms_error := Some PeerClosedText,
                                  ms_stop_reason := Some Stop_peer_closed\<rparr>) u2
            | SERVE_KILLED \<Rightarrow> upd (\<lambda>st. st\<lparr>ms_state := STATE_DETACHED, ms_error := Some KillText,
                                  ms_stop_reason := Some Stop_bmc_terminate\<rparr>) u2)
      in persist_at now u3)"

text \<open>\<open>except IkvmError\<close> keeps the class; \<open>except Exception\<close> is recorded as \<open>protocol\<close>.\<close>

definition fail_daemon :: "exn \<Rightarrow> daemon \<Rightarrow> (exn + unit) \<times> daemon" where
  "fail_daemon e u = persist_now (upd (\<lambda>st. st\<lparr>ms_state := STATE_ERROR,
      ms_error := Some (case e of Ikvm x \<Rightarrow> ExnText e | _ \<Rightarrow> UnexpectedText e),
      ms_error_class := Some (case e of Ikvm x \<Rightarrow> error_class x | _ \<Rightarrow> PROTOCOL)\<rparr>) u)"

record daemon_env =
  e_images :: "string \<rightharpoonup> fs_node"
  e_alloc :: "exn + string option"
  e_dial :: dial_result

text \<open>The sidecar is opened once, for appending, and stays open.\<close>

definition open_trace :: "session_config \<Rightarrow> daemon \<Rightarrow> daemon" where
  "open_trace cfg u = (let (i, fs) = fs_open_append (read_trace_log_path (cfg_session_id cfg)) (d_fs u)
     in u\<lparr>d_trace := i, d_fs := fs\<rparr>)"

text \<open>What the \<open>try\<close> block leaves behind: its exception, the daemon, the session and the open image.\<close>

type_synonym body_result = "(exn + unit) \<times> daemon \<times> sock session option \<times> file_reader option"

definition serve_body :: "sock session \<Rightarrow> device \<Rightarrow> daemon \<Rightarrow> body_result option" where
  "serve_body ses dev u =
     (case serve_forever daemon_ops \<lparr>v_session = ses, v_handler = dev, v_user = u\<rparr> of
        None \<Rightarrow> None
      | Some (r, w) \<Rightarrow>
          (let rest = (Some (v_session w), Some (c_reader (dev_reader (v_handler w)))) in
           case r of
             Inl e \<Rightarrow> Some (Inl e, v_user w, rest)
           | Inr out \<Rightarrow> (let (x, u1) = finish out (v_handler w) (v_user w) in Some (x, u1, rest))))"

definition attach_body :: "session_config \<Rightarrow> daemon_env \<Rightarrow> file_reader \<Rightarrow> daemon \<Rightarrow> body_result option" where
  "attach_body cfg env f u =
     (let dev = cdrom_init c_size (cache_init fr_size f WINDOW_SIZE DEFAULT_MAX_WINDOWS);
          ep = endpoint_text (cfg_host cfg) (cfg_cd_port cfg)
      in case disk_write u of
          (False, u1) \<Rightarrow> Some (Inl OSError, u1, None, Some f)
        | (True, u1) \<Rightarrow>
            (let u1t = open_trace cfg u1 in
             case persist_now (upd (\<lambda>st. st\<lparr>ms_state := STATE_CONNECTING\<rparr>) u1t) of
               (Inl e, u2) \<Rightarrow> Some (Inl e, u2, None, Some f)
             | (Inr _, u2) \<Rightarrow>
                 (case e_alloc env of
                    Inl e \<Rightarrow> Some (Inl e, u2, None, Some f)
                  | Inr None \<Rightarrow> Some (Inl (raises PROTOCOL ''asmb8_media.attach'' (Some ep)), u2, None, Some f)
                  | Inr (Some token) \<Rightarrow>
                      (case session_connect (e_dial env) None (cfg_host cfg) (cfg_cd_port cfg) token
                              DEVICE_CDROM (cfg_instance cfg) of
                         Inl e \<Rightarrow> Some (Inl e, u2, None, Some f)
                       | Inr ses \<Rightarrow>
                           (let ses1 = set_poll_timeout RECV_POLL_TIMEOUT ses in
                            case persist_now (upd (\<lambda>st. st\<lparr>ms_state := STATE_ATTACHED\<rparr>) u2) of
                              (Inl e, u3) \<Rightarrow> Some (Inl e, u3, Some ses1, Some f)
                            | (Inr _, u3) \<Rightarrow> serve_body ses1 dev u3)))))"

definition try_body :: "session_config \<Rightarrow> daemon_env \<Rightarrow> daemon \<Rightarrow> body_result option" where
  "try_body cfg env u = (case file_reader_open (e_images env) (cfg_image cfg) of
      Inl e \<Rightarrow> Some (Inl e, u, None, None)
    | Inr f \<Rightarrow> attach_body cfg env f u)"

text \<open>\<open>_run_daemon\<close> from its first record on. The two calls before it, \<open>_redirect_std_fds\<close> and
  \<open>signal.signal\<close>, may fail too and then end the process with no record of its own; to the parent that is a
  daemon that fails before it persists (\<open>daemon_fails\<close> of \<open>Daemon_Spawn\<close>), and the record on disk is the
  parent's \<open>starting\<close> one.\<close>

definition run_daemon ::
  "session_config \<Rightarrow> daemon_env \<Rightarrow> daemon \<Rightarrow> body_result option" where
  "run_daemon cfg env u =
     (let (now, u0) = now_iso u;
          st = initial_state now (cfg_session_id cfg) (endpoint_text (cfg_host cfg) (cfg_cd_port cfg))
                 (int (d_pid u)) (cfg_image cfg)
      in case persist_now (u0\<lparr>d_state := st\<rparr>) of
           (Inl e, u1) \<Rightarrow> Some (Inl e, u1, None, None)
         | (Inr _, u1) \<Rightarrow>
             (case try_body cfg env u1 of
                None \<Rightarrow> None
              | Some (r, u2, ses, f) \<Rightarrow>
                  (let (r1, u3) = (case r of Inr _ \<Rightarrow> (Inr (), u2) | Inl e \<Rightarrow> fail_daemon e u2)
                   in Some (r1, u3, map_option session_close ses, map_option file_close f))))"

text \<open>\<open>spawn_session\<close>, the parent's side after the double fork: the pid the first child reported
  over the pipe, if any, and the create-only first record.\<close>

definition spawn_session ::
  "bool \<Rightarrow> session_config \<Rightarrow> string option \<Rightarrow> string \<Rightarrow> media_state rt_fs \<Rightarrow> (exn + int) \<times> media_state rt_fs" where
  "spawn_session has_fork cfg reported now fs =
     (if \<not> has_fork then (Inl (raises UNSUPPORTED_CAPABILITY ''asmb8_media.spawn_session'' None), fs)
      else case reported of
          None \<Rightarrow> (Inl (ProtocolError ''asmb8_media.spawn_session''), fs)
        | Some text \<Rightarrow>
            (case py_int text of
               None \<Rightarrow> (Inl ValueError, fs)
             | Some pid \<Rightarrow>
                 (Inr pid, snd (write_state_if_absent (cfg_session_id cfg)
                    (initial_state now (cfg_session_id cfg) (endpoint_text (cfg_host cfg) (cfg_cd_port cfg))
                       pid (cfg_image cfg)) fs))))"

section \<open>The trace summary against its reference\<close>

definition trace_entry :: "(string \<Rightarrow> pyval option) \<Rightarrow> string \<Rightarrow> pyval option" where
  "trace_entry loads raw = (let line = strip raw in if line = [] then None
     else case loads line of Some (PDict d) \<Rightarrow> Some (PDict d) | _ \<Rightarrow> None)"

definition trace_entries :: "(string \<Rightarrow> pyval option) \<Rightarrow> string list \<Rightarrow> pyval list" where
  "trace_entries loads ls = List.map_filter (trace_entry loads) ls"

definition two_ended :: "nat \<Rightarrow> nat \<Rightarrow> 'a list \<Rightarrow> 'a list \<times> 'a list" where
  "two_ended h t es = (take h es, drop (max h (length es - t)) es)"

lemma two_ended_head: "length es < h \<Longrightarrow> two_ended h t (es @ [x]) = (fst (two_ended h t es) @ [x], snd (two_ended h t es))"
  by (auto simp: two_ended_def max_def)

lemma two_ended_tail:
  assumes "h \<le> length es"
  shows "two_ended h t (es @ [x]) = (fst (two_ended h t es), deque_append t x (snd (two_ended h t es)))"
proof -
  let ?n = "length es" and ?a = "max h (length es - t)"
  have "?a \<le> ?n" using assms by simp
  then have q: "drop ?a es @ [x] = drop ?a (es @ [x])" by simp
  have "?n + 1 - ?a - t + ?a = max h (?n + 1 - t)" using assms by (auto simp: max_def)
  then show ?thesis using assms by (simp add: two_ended_def deque_append_def q del: drop_append)
qed

lemma trace_loop_spec:
  assumes "two_ended h t es = (hd0, tl0)"
  shows "trace_loop loads h t ls (length es, hd0, tl0) =
    (let all = es @ trace_entries loads ls in (length all, two_ended h t all))"
  using assms
proof (induction ls arbitrary: es hd0 tl0)
  case Nil
  then show ?case by (simp add: trace_entries_def map_filter_def)
next
  case (Cons l ls)
  note skip = Cons.IH [OF Cons.prems]
  show ?case
  proof (cases "trace_entry loads l")
    case None
    with skip show ?thesis
      by (auto simp: trace_entries_def map_filter_def trace_entry_def Let_def split: if_splits option.splits pyval.splits)
  next
    case (Some d)
    have es: "trace_entries loads (l # ls) = d # trace_entries loads ls"
      using Some by (simp add: trace_entries_def map_filter_def)
    obtain v where v: "strip l \<noteq> []" "loads (strip l) = Some (PDict v)" "d = PDict v"
      using Some by (auto simp: trace_entry_def Let_def split: if_splits option.splits pyval.splits)
    show ?thesis
    proof (cases "length es < h")
      case True
      with Cons.IH [of "es @ [d]" "hd0 @ [d]" tl0] Cons.prems v es two_ended_head [OF True, of t d]
      show ?thesis by (simp add: Let_def)
    next
      case False
      then have "h \<le> length es" by simp
      with Cons.IH [of "es @ [d]" hd0 "deque_append t d tl0"] Cons.prems v es two_ended_tail [of h es t d]
      show ?thesis by (simp add: Let_def)
    qed
  qed
qed

lemma two_ended_parts:
  assumes "two_ended h t es = (a, b)"
  shows "\<exists>mid. es = a @ mid @ b \<and> length mid = length es - h - t"
proof (intro exI conjI)
  let ?k = "max h (length es - t)"
  show "es = a @ drop h (take ?k es) @ b"
    using assms by (simp add: two_ended_def) (metis append_assoc append_take_drop_id max.cobounded1 min.absorb1 take_take)
  show "length (drop h (take ?k es)) = length es - h - t" by (auto simp: max_def min_def)
qed

section \<open>The state record stays consistent\<close>

definition streak_polls :: "idle_streak option \<Rightarrow> nat" where
  "streak_polls k = (case k of None \<Rightarrow> 0 | Some k \<Rightarrow> polls k)"

definition streak_shape :: "bool \<Rightarrow> idle_streak option \<Rightarrow> bool" where
  "streak_shape ended k = (case k of None \<Rightarrow> True
     | Some k \<Rightarrow> 1 \<le> polls k \<and> seconds k = polls k * RECV_POLL_TIMEOUT \<and> (ended_at k \<noteq> None \<longleftrightarrow> ended))"

text \<open>Idle bookkeeping: an open streak has no end, a closed one has, both measure what they
  counted, and together they count no more polls than the session has seen.\<close>

definition streaks_ok :: "media_state \<Rightarrow> bool" where
  "streaks_ok st \<longleftrightarrow> streak_shape False (current_idle_streak st) \<and> streak_shape True (last_idle_streak st)
     \<and> streak_polls (current_idle_streak st) + streak_polls (last_idle_streak st) \<le> idle_polls st"

text \<open>No verdict recorded yet.\<close>

definition running :: "media_state \<Rightarrow> bool" where
  "running st \<longleftrightarrow> ms_state st \<notin> TERMINAL_STATES \<and> ms_error st = None \<and> ms_error_class st = None
     \<and> ms_stop_reason st = None"

definition daemon_ok :: "string \<Rightarrow> daemon \<Rightarrow> bool" where
  "daemon_ok sid u \<longleftrightarrow> fs_ok (d_fs u) \<and> ms_session_id (d_state u) = sid \<and> streaks_ok (d_state u)"

lemma now_iso_simps [simp]:
  "d_state (snd (now_iso u)) = d_state u" "d_fs (snd (now_iso u)) = d_fs u"
  "d_trace (snd (now_iso u)) = d_trace u" "d_pid (snd (now_iso u)) = d_pid u"
  by (simp_all add: now_iso_def)

lemma disk_write_frame:
  "disk_write u = (ok, u1) \<Longrightarrow> d_state u1 = d_state u \<and> d_fs u1 = d_fs u \<and> d_trace u1 = d_trace u \<and> d_pid u1 = d_pid u"
  by (auto simp: disk_write_def split: list.splits)

lemma upd_simps [simp]:
  "d_state (upd f u) = f (d_state u)" "d_fs (upd f u) = d_fs u" "d_trace (upd f u) = d_trace u"
  "d_pid (upd f u) = d_pid u" "d_disk (upd f u) = d_disk u"
  by (simp_all add: upd_def)

lemma streaks_ok_simps [simp]:
  "streaks_ok (st\<lparr>updated_at := a\<rparr>) = streaks_ok st" "streaks_ok (st\<lparr>ms_state := s\<rparr>) = streaks_ok st"
  "streaks_ok (st\<lparr>ms_error := e\<rparr>) = streaks_ok st" "streaks_ok (st\<lparr>ms_error_class := c\<rparr>) = streaks_ok st"
  "streaks_ok (st\<lparr>ms_stop_reason := r\<rparr>) = streaks_ok st" "streaks_ok (st\<lparr>bytes_read := n\<rparr>) = streaks_ok st"
  "streaks_ok (st\<lparr>sectors_served := n\<rparr>) = streaks_ok st" "streaks_ok (st\<lparr>last_request_at := l\<rparr>) = streaks_ok st"
  by (simp_all add: streaks_ok_def)

lemma running_simps [simp]:
  "running (st\<lparr>updated_at := a\<rparr>) = running st" "running (st\<lparr>bytes_read := n\<rparr>) = running st"
  "running (st\<lparr>sectors_served := n\<rparr>) = running st" "running (st\<lparr>last_request_at := l\<rparr>) = running st"
  "running (close_idle_streak now st) = running st"
  by (simp_all add: running_def close_idle_streak_def split: option.splits)

lemma close_idle_streak_id [simp]: "ms_session_id (close_idle_streak now st) = ms_session_id st"
  by (simp add: close_idle_streak_def split: option.splits)

lemma streaks_ok_close [simp]: "streaks_ok st \<Longrightarrow> streaks_ok (close_idle_streak now st)"
  by (auto simp: streaks_ok_def close_idle_streak_def streak_shape_def streak_polls_def split: option.splits)

lemma streaks_ok_initial: "streaks_ok (initial_state now sid ep pid img)"
  by (simp add: streaks_ok_def initial_state_def streak_shape_def streak_polls_def)

lemma running_initial: "running (initial_state now sid ep pid img)"
  by (simp add: running_def initial_state_def TERMINAL_STATES_def)

lemma persist_at_state:
  assumes "persist_at now u = (r, u1)"
  shows "d_state u1 = (d_state u)\<lparr>updated_at := now\<rparr>" and "fs_ok (d_fs u) \<Longrightarrow> fs_ok (d_fs u1)"
    and "d_trace u1 = d_trace u" and "r \<noteq> Inr () \<Longrightarrow> r = Inl OSError" and "d_pid u1 = d_pid u"
  using assms disk_write_frame fs_ok_write_state_atomic
  by (fastforce simp: persist_at_def Let_def split: prod.splits if_splits)+

lemma persist_at_disk:
  assumes "persist_at now u = (r, u1)" and "fs_ok (d_fs u)"
  shows "read_state (d_fs u1) sid = (if r = Inr () \<and> sid = ms_session_id (d_state u) then Some (d_state u1)
    else read_state (d_fs u) sid)"
proof -
  let ?v = "u\<lparr>d_state := (d_state u)\<lparr>updated_at := now\<rparr>\<rparr>"
  obtain ok u2 where dw: "disk_write ?v = (ok, u2)" by fastforce
  have "d_fs u2 = d_fs u" "d_state u2 = d_state ?v" using disk_write_frame [OF dw] by simp_all
  with assms dw show ?thesis
    by (auto simp: persist_at_def Let_def read_state_write_atomic read_state_write_atomic_failed split: if_splits)
qed

lemma persist_now_at: "\<exists>now u1. d_state u1 = d_state u \<and> d_fs u1 = d_fs u \<and> d_trace u1 = d_trace u
    \<and> persist_now u = persist_at now u1"
  by (rule exI [of _ "fst (now_iso u)"], rule exI [of _ "snd (now_iso u)"])
    (simp add: persist_now_def split: prod.splits)

lemma daemon_ok_persist_at: "daemon_ok sid u \<Longrightarrow> persist_at now u = (r, u1) \<Longrightarrow> daemon_ok sid u1"
  using persist_at_state by (auto simp: daemon_ok_def)

lemma daemon_ok_persist_now: "daemon_ok sid u \<Longrightarrow> persist_now u = (r, u1) \<Longrightarrow> daemon_ok sid u1"
  using persist_now_at [of u] daemon_ok_persist_at by (metis daemon_ok_def)

text \<open>What holds of the daemon while it serves.\<close>

definition serving :: "string \<Rightarrow> daemon \<Rightarrow> bool" where
  "serving sid u \<longleftrightarrow> daemon_ok sid u \<and> running (d_state u)"

lemma serving_persist_at: "serving sid u \<Longrightarrow> persist_at now u = (r, u1) \<Longrightarrow> serving sid u1"
  using persist_at_state(1) daemon_ok_persist_at by (fastforce simp: serving_def)

lemma serving_persist_now: "serving sid u \<Longrightarrow> persist_now u = (r, u1) \<Longrightarrow> serving sid u1"
  using persist_now_at [of u] serving_persist_at by (metis serving_def daemon_ok_def)

lemma on_idle_serving:
  assumes "serving sid u" and "on_idle u = (r, u1)"
  shows "serving sid u1"
proof -
  obtain now v where n: "now_iso u = (now, v)" and v: "d_state v = d_state u" "d_fs v = d_fs u"
    using now_iso_simps by (metis prod.collapse)
  obtain streak where "persist_at now (upd (\<lambda>st. st\<lparr>current_idle_streak := Some streak,
      idle_polls := idle_polls st + 1\<rparr>) v) = (r, u1)" and "streak_shape False (Some streak)"
    and "polls streak = streak_polls (current_idle_streak (d_state u)) + 1"
    using assms n v
    by (auto simp: on_idle_def Let_def serving_def daemon_ok_def streaks_ok_def streak_shape_def streak_polls_def
        split: option.splits)
  moreover have "serving sid (upd (\<lambda>st. st\<lparr>current_idle_streak := Some streak, idle_polls := idle_polls st + 1\<rparr>) v)"
    using assms(1) calculation(2,3) v
    by (auto simp: serving_def daemon_ok_def streaks_ok_def running_def streak_polls_def)
  ultimately show ?thesis using serving_persist_at by blast
qed

text \<open>\<open>on_request\<close> up to its last write.\<close>

definition note_request :: "device \<Rightarrow> string \<Rightarrow> media_state \<Rightarrow> media_state" where
  "note_request dev now st =
     (close_idle_streak now st)\<lparr>bytes_read := n_bytes dev, sectors_served := n_blocks dev\<rparr>"

definition is_read_cdb :: "bytes \<Rightarrow> bool" where
  "is_read_cdb c \<longleftrightarrow> c \<noteq> [] \<and> (hd c = SCSI_READ10 \<or> hd c = SCSI_READ12)"

lemma on_request_cases:
  assumes "on_request dev req u = (r, u1)"
  obtains (traced) now v where "d_state v = note_request dev now (d_state u)"
      and "d_fs v = (if is_read_cdb (cdb req) then fs_append (d_trace u) (trace_line (cdb req)) (d_fs u) else d_fs u)"
      and "d_trace v = d_trace u"
      and "persist_at now (upd (\<lambda>st. st\<lparr>last_request_at := Some now\<rparr>) v) = (r, u1)"
      and "d_pid v = d_pid u"
    | (failed) now where "r = Inl OSError" and "d_state u1 = note_request dev now (d_state u)"
      and "d_fs u1 = d_fs u" and "d_trace u1 = d_trace u" and "d_pid u1 = d_pid u"
proof -
  obtain now v where n: "now_iso u = (now, v)" and v: "d_state v = d_state u" "d_fs v = d_fs u" "d_trace v = d_trace u"
      "d_pid v = d_pid u"
    using now_iso_simps by (metis prod.collapse)
  let ?v = "upd (note_request dev now) v"
  obtain w x where dw: "disk_write ?v = (w, x)" by fastforce
  have x: "d_state x = note_request dev now (d_state u)" "d_fs x = d_fs u" "d_trace x = d_trace u" "d_pid x = d_pid u"
    using disk_write_frame [OF dw] v by simp_all
  have eq: "on_request dev req u = (let (ok, u3) = (if is_read_cdb (cdb req)
      then (if w then (True, x\<lparr>d_fs := fs_append (d_trace x) (trace_line (cdb req)) (d_fs x)\<rparr>) else (False, x))
      else (True, ?v)) in if ok then persist_at now (upd (\<lambda>st. st\<lparr>last_request_at := Some now\<rparr>) u3)
      else (Inl OSError, u3))"
    by (simp add: on_request_def n Let_def note_request_def [symmetric] is_read_cdb_def dw)
  show ?thesis
  proof (cases "is_read_cdb (cdb req)")
    case True
    with assms eq x traced [of "x\<lparr>d_fs := fs_append (d_trace x) (trace_line (cdb req)) (d_fs x)\<rparr>" now] failed [of now]
    show ?thesis by (auto split: if_splits)
  next
    case False
    with assms eq v traced [of ?v now] show ?thesis by simp
  qed
qed

lemma note_request_ok [simp]:
  "streaks_ok st \<Longrightarrow> streaks_ok (note_request dev now st)" "running (note_request dev now st) = running st"
  "ms_session_id (note_request dev now st) = ms_session_id st"
  by (simp_all add: note_request_def)

lemma on_request_serving:
  assumes "serving sid u" and "on_request dev req u = (r, u1)"
  shows "serving sid u1"
  using assms(2)
proof (cases rule: on_request_cases)
  case (traced now v)
  have "serving sid (upd (\<lambda>st. st\<lparr>last_request_at := Some now\<rparr>) v)"
    using assms(1) traced(1,2) by (simp add: serving_def daemon_ok_def)
  then show ?thesis using traced(4) by (rule serving_persist_at)
next
  case (failed now)
  with assms(1) show ?thesis by (simp add: serving_def daemon_ok_def)
qed

interpretation media_cb: callbacks should_stop on_idle "on_request :: device \<Rightarrow> _" "serving sid"
proof unfold_locales
  show "serving sid u1" if "serving sid u" "should_stop u = (b, u1)" for u b u1
    using that by (auto simp: should_stop_def serving_def daemon_ok_def split: list.splits)
qed (fact on_idle_serving, fact on_request_serving)

text \<open>The outcomes of the disk writes are consumed in order; a failed write is the last one consumed.\<close>

lemma disk_write_suffix:
  "disk_write u = (ok, u1) \<Longrightarrow> suffix (d_disk u1) (d_disk u) \<and> (\<not> ok \<longrightarrow> d_disk u = False # d_disk u1)"
  by (auto simp: disk_write_def suffix_Cons split: list.splits)

lemma persist_at_suffix:
  assumes "persist_at now u = (r, u1)"
  shows "suffix (d_disk u1) (d_disk u) \<and> (r \<noteq> Inr () \<longrightarrow> d_disk u = False # d_disk u1)"
proof -
  obtain ok u2 where "disk_write (u\<lparr>d_state := (d_state u)\<lparr>updated_at := now\<rparr>\<rparr>) = (ok, u2)" by fastforce
  with disk_write_suffix [OF this] assms show ?thesis by (auto simp: persist_at_def Let_def split: if_splits)
qed

lemma persist_now_suffix:
  assumes "persist_now u = (r, u1)"
  shows "suffix (d_disk u1) (d_disk u) \<and> (r \<noteq> Inr () \<longrightarrow> d_disk u = False # d_disk u1)"
  using assms persist_at_suffix by (fastforce simp: persist_now_def now_iso_def Let_def)

lemma on_idle_suffix: "on_idle u = (r, u1) \<Longrightarrow> suffix (d_disk u1) (d_disk u)"
  using persist_at_suffix by (fastforce simp: on_idle_def now_iso_def upd_def Let_def)

lemma on_request_suffix:
  assumes "on_request dev req u = (r, u1)"
  shows "suffix (d_disk u1) (d_disk u)"
proof -
  obtain now v where n: "now_iso u = (now, v)" and v: "d_disk v = d_disk u" by (simp add: now_iso_def)
  let ?v = "upd (note_request dev now) v"
  obtain w x where dw: "disk_write ?v = (w, x)" by fastforce
  have x: "suffix (d_disk x) (d_disk u)" using disk_write_suffix [OF dw] v by (simp add: upd_def)
  have p: "suffix (d_disk u1) (d_disk u)"
    if "persist_at now (upd f y) = (r, u1)" "suffix (d_disk y) (d_disk u)" for now f y
    using persist_at_suffix [OF that(1)] that(2) by (simp add: upd_def) (meson suffix_order.trans)
  show ?thesis
    using assms x v p [of _ _ "x\<lparr>d_fs := fs_append (d_trace x) (trace_line (cdb req)) (d_fs x)\<rparr>"] p [of _ _ ?v]
    by (auto simp: on_request_def Let_def n note_request_def [symmetric] dw split: if_splits)
qed

interpretation media_disk: callbacks should_stop on_idle "on_request :: device \<Rightarrow> _" "\<lambda>u. suffix (d_disk u) ds"
proof unfold_locales
  show "suffix (d_disk u1) ds" if "suffix (d_disk u) ds" "should_stop u = (b, u1)" for u b u1
    using that by (auto simp: should_stop_def split: list.splits)
qed (meson on_idle_suffix on_request_suffix suffix_order.trans)+

text \<open>Only the poll of the loop consumes the stop flag.\<close>

lemma persist_at_stop: "persist_at now u = (r, u1) \<Longrightarrow> d_stop u1 = d_stop u"
  by (auto simp: persist_at_def disk_write_def Let_def split: list.splits if_splits)

interpretation media_stop: stop_polls should_stop on_idle "on_request :: device \<Rightarrow> _" d_stop
proof unfold_locales
  show "d_stop u1 = d_stop u" if "on_idle u = (r, u1)" for u r u1
    using that by (auto simp: on_idle_def now_iso_def upd_def Let_def dest!: persist_at_stop)
  show "d_stop u1 = d_stop u" if "on_request h p u = (r, u1)" for h :: device and p u r u1
    using that by (auto simp: on_request_def now_iso_def upd_def disk_write_def Let_def dest!: persist_at_stop
        split: if_splits list.splits)
qed (simp add: should_stop_def)

section \<open>The lifetime of the daemon\<close>

text \<open>A recorded verdict: a clean stop with its reason, or an error with its class.\<close>

definition verdict :: "media_state \<Rightarrow> bool" where
  "verdict st \<longleftrightarrow>
     ms_state st = STATE_DETACHED \<and> ms_error_class st = None \<and> ms_stop_reason st \<noteq> None
       \<and> (ms_error st = None \<longleftrightarrow> ms_stop_reason st = Some Stop_signal)
   \<or> ms_state st = STATE_ERROR \<and> ms_error st \<noteq> None \<and> ms_error_class st \<noteq> None"

definition on_disk :: "string \<Rightarrow> daemon \<Rightarrow> bool" where
  "on_disk sid u \<longleftrightarrow> read_state (d_fs u) sid = Some (d_state u)"

lemma verdict_updated [simp]: "verdict (st\<lparr>updated_at := now\<rparr>) = verdict st"
  by (simp add: verdict_def)

lemma persist_at_verdict:
  assumes "daemon_ok sid u" and "verdict (d_state u)" and "persist_at now u = (r, u1)"
  shows "daemon_ok sid u1 \<and> verdict (d_state u1) \<and> (r = Inr () \<and> on_disk sid u1 \<or> r = Inl OSError)"
proof -
  have "on_disk sid u1" if "r = Inr ()"
    using persist_at_disk [OF assms(3), of sid] assms(1) that by (simp add: daemon_ok_def on_disk_def)
  moreover have "r \<noteq> Inr () \<Longrightarrow> r = Inl OSError" by (rule persist_at_state(4) [OF assms(3)])
  ultimately show ?thesis
    using daemon_ok_persist_at [OF assms(1,3)] persist_at_state(1) [OF assms(3)] assms(2) by auto
qed

lemma finish_verdict:
  assumes "serving sid u" and "finish out dev u = (r, u1)"
  shows "daemon_ok sid u1 \<and> verdict (d_state u1) \<and> (r = Inr () \<and> on_disk sid u1 \<or> r = Inl OSError)"
proof -
  obtain now v where n: "now_iso u = (now, v)" and v: "d_state v = d_state u" "d_fs v = d_fs u"
    using now_iso_simps by (metis prod.collapse)
  let ?mark = "\<lambda>e k st. st\<lparr>ms_state := STATE_DETACHED, ms_error := e, ms_stop_reason := Some k\<rparr>"
  obtain e k where p: "persist_at now (upd (?mark e k) (upd (note_request dev now) v)) = (r, u1)"
    and ek: "e = None \<longleftrightarrow> k = Stop_signal"
    using assms(2) n by (cases out) (auto simp: finish_def Let_def note_request_def [symmetric])
  have "running (note_request dev now (d_state u))" using assms(1) by (simp add: serving_def)
  then have "verdict (d_state (upd (?mark e k) (upd (note_request dev now) v)))"
    using v ek by (simp add: verdict_def running_def)
  moreover have "daemon_ok sid (upd (?mark e k) (upd (note_request dev now) v))"
    using assms(1) v by (simp add: serving_def daemon_ok_def)
  ultimately show ?thesis using persist_at_verdict p by blast
qed

lemma fail_daemon_verdict:
  assumes "daemon_ok sid u" and "fail_daemon e u = (r, u1)"
  shows "daemon_ok sid u1 \<and> verdict (d_state u1) \<and> ms_state (d_state u1) = STATE_ERROR
    \<and> ms_error_class (d_state u1) = Some (case e of Ikvm x \<Rightarrow> error_class x | _ \<Rightarrow> PROTOCOL)
    \<and> (r = Inr () \<and> on_disk sid u1 \<or> r = Inl OSError)"
proof -
  let ?mark = "\<lambda>st. st\<lparr>ms_state := STATE_ERROR,
      ms_error := Some (case e of Ikvm x \<Rightarrow> ExnText e | _ \<Rightarrow> UnexpectedText e),
      ms_error_class := Some (case e of Ikvm x \<Rightarrow> error_class x | _ \<Rightarrow> PROTOCOL)\<rparr>"
  obtain now v where v: "d_state v = ?mark (d_state u)" "d_fs v = d_fs u"
    and p: "persist_at now v = (r, u1)"
    using persist_now_at [of "upd ?mark u"] assms(2) by (auto simp: fail_daemon_def)
  have "daemon_ok sid v" and "verdict (d_state v)" using assms(1) v by (simp_all add: daemon_ok_def verdict_def)
  from persist_at_verdict [OF this p] persist_at_state(1) [OF p] v show ?thesis by simp
qed

lemma serve_body_ok:
  assumes "serving sid u"
  shows "\<exists>r u1 ses f. serve_body ses0 dev u = Some (r, u1, ses, f) \<and> daemon_ok sid u1
    \<and> (r = Inr () \<longrightarrow> verdict (d_state u1) \<and> on_disk sid u1)"
proof -
  let ?w = "\<lparr>v_session = ses0, v_handler = dev, v_user = u\<rparr>"
  obtain r w where sf: "serve_forever daemon_ops ?w = Some (r, w)"
    using serve_forever_returns [of daemon_ops ?w] by (auto simp: daemon_ops_def)
  have u: "serving sid (v_user w)"
    using media_cb.serve_forever_uinv [OF sf] assms by (simp add: daemon_ops_def)
  show ?thesis
  proof (cases r)
    case (Inl e)
    with sf u show ?thesis by (simp add: serve_body_def serving_def)
  next
    case (Inr out)
    obtain x u1 where "finish out (v_handler w) (v_user w) = (x, u1)" by fastforce
    with finish_verdict [OF u this] sf Inr show ?thesis by (auto simp: serve_body_def)
  qed
qed

lemma serving_set_state:
  "serving sid u \<Longrightarrow> s \<notin> TERMINAL_STATES \<Longrightarrow> serving sid (upd (\<lambda>st. st\<lparr>ms_state := s\<rparr>) u)"
  by (simp add: serving_def daemon_ok_def running_def)

lemma serving_open_trace: "serving sid u \<Longrightarrow> serving sid (open_trace cfg u)"
  using fs_ok_open_append by (auto simp: open_trace_def serving_def daemon_ok_def split: prod.splits)

lemma attach_body_ok:
  assumes "serving sid u"
  shows "\<exists>r u1 ses f1. attach_body cfg env f u = Some (r, u1, ses, f1) \<and> daemon_ok sid u1
    \<and> (r = Inr () \<longrightarrow> verdict (d_state u1) \<and> on_disk sid u1)"
proof -
  obtain ok u1 where dw: "disk_write u = (ok, u1)" by fastforce
  have u1: "serving sid u1" using disk_write_frame [OF dw] assms by (simp add: serving_def daemon_ok_def)
  let ?c = "upd (\<lambda>st. st\<lparr>ms_state := STATE_CONNECTING\<rparr>) (open_trace cfg u1)"
  obtain r2 u2 where p2: "persist_now ?c = (r2, u2)" by fastforce
  have u2: "serving sid u2"
    by (rule serving_persist_now [OF serving_set_state [OF serving_open_trace [OF u1]] p2]) (simp add: TERMINAL_STATES_def)
  let ?a = "upd (\<lambda>st. st\<lparr>ms_state := STATE_ATTACHED\<rparr>) u2"
  obtain r3 u3 where p3: "persist_now ?a = (r3, u3)" by fastforce
  have u3: "serving sid u3"
    by (rule serving_persist_now [OF serving_set_state [OF u2] p3]) (simp add: TERMINAL_STATES_def)
  from u1 u2 u3 have ok: "daemon_ok sid u1" "daemon_ok sid u2" "daemon_ok sid u3" by (simp_all add: serving_def)
  show ?thesis
    using ok serve_body_ok [OF u3]
    by (auto simp: attach_body_def Let_def dw p2 p3 split: bool.splits sum.splits option.splits)
qed

lemma try_body_ok:
  assumes "serving sid u"
  shows "\<exists>r u1 ses f. try_body cfg env u = Some (r, u1, ses, f) \<and> daemon_ok sid u1
    \<and> (r = Inr () \<longrightarrow> verdict (d_state u1) \<and> on_disk sid u1)"
  using attach_body_ok [OF assms] assms by (auto simp: try_body_def serving_def split: sum.splits)

lemma run_daemon_ok:
  assumes "fs_ok (d_fs u)"
  shows "\<exists>r u1 ses f. run_daemon cfg env u = Some (r, u1, ses, f)
    \<and> (\<forall>s. ses = Some s \<longrightarrow> sock_closed (ch_transport (s_chan s))) \<and> (\<forall>x. f = Some x \<longrightarrow> fr_closed x)
    \<and> streaks_ok (d_state u1)
    \<and> (r = Inr () \<and> verdict (d_state u1) \<and> on_disk (cfg_session_id cfg) u1 \<or> r = Inl OSError)"
proof -
  obtain now u0 where n: "now_iso u = (now, u0)" and u0: "d_fs u0 = d_fs u"
    using now_iso_simps by (metis prod.collapse)
  let ?st = "initial_state now (cfg_session_id cfg) (endpoint_text (cfg_host cfg) (cfg_cd_port cfg))
                 (int (d_pid u)) (cfg_image cfg)"
  have s0: "serving (cfg_session_id cfg) (u0\<lparr>d_state := ?st\<rparr>)"
    using assms u0 running_initial streaks_ok_initial
    by (simp add: serving_def daemon_ok_def) (simp add: initial_state_def)
  obtain r1 u1 where p: "persist_now (u0\<lparr>d_state := ?st\<rparr>) = (r1, u1)" by fastforce
  have s1: "serving (cfg_session_id cfg) u1" by (rule serving_persist_now [OF s0 p])
  show ?thesis
  proof (cases r1)
    case (Inl e)
    have "r1 = Inl OSError"
      using persist_now_at [of "u0\<lparr>d_state := ?st\<rparr>"] persist_at_state(4) p Inl by (metis Inl_Inr_False)
    with s1 show ?thesis by (simp add: run_daemon_def n p serving_def daemon_ok_def)
  next
    case (Inr x)
    obtain r u2 ses f where t: "try_body cfg env u1 = Some (r, u2, ses, f)"
      and u2: "daemon_ok (cfg_session_id cfg) u2"
      and r: "r = Inr () \<Longrightarrow> verdict (d_state u2) \<and> on_disk (cfg_session_id cfg) u2"
      using try_body_ok [OF s1] by blast
    obtain r3 u3 where f3: "(case r of Inr _ \<Rightarrow> (Inr (), u2) | Inl e \<Rightarrow> fail_daemon e u2) = (r3, u3)" by fastforce
    have "daemon_ok (cfg_session_id cfg) u3
        \<and> (r3 = Inr () \<and> verdict (d_state u3) \<and> on_disk (cfg_session_id cfg) u3 \<or> r3 = Inl OSError)"
      using f3 u2 r fail_daemon_verdict [OF u2] by (cases r) auto
    moreover have "run_daemon cfg env u = Some (r3, u3, map_option session_close ses, map_option file_close f)"
      by (simp add: run_daemon_def n p Inr t f3)
    ultimately show ?thesis
      by (auto simp: session_close_def sock_close_def file_close_def daemon_ok_def)
  qed
qed

text \<open>The outcomes consumed by a whole run.\<close>

lemma serve_body_suffix:
  assumes "serve_body ses0 dev u = Some (r, u1, rest)"
  shows "suffix (d_disk u1) (d_disk u)"
proof -
  let ?w = "\<lparr>v_session = ses0, v_handler = dev, v_user = u\<rparr>"
  obtain x w where sf: "serve_forever daemon_ops ?w = Some (x, w)"
    using serve_forever_returns [of daemon_ops ?w] by (auto simp: daemon_ops_def)
  have w: "suffix (d_disk (v_user w)) (d_disk u)"
    using media_disk.serve_forever_uinv [OF sf, of "d_disk u"] by (simp add: daemon_ops_def)
  have fin: "suffix (d_disk v) (d_disk (v_user w))" if "finish out (v_handler w) (v_user w) = (y, v)" for out y v
    using that by (cases out) (auto simp: finish_def now_iso_def upd_def Let_def dest!: persist_at_suffix)
  show ?thesis
    using assms sf w fin
    by (cases x) (auto simp: serve_body_def Let_def split: prod.splits intro: suffix_order.trans)
qed

lemma try_body_suffix:
  assumes "try_body cfg env u = Some (r, u1, rest)"
  shows "suffix (d_disk u1) (d_disk u)"
proof -
  obtain ok v where dw: "disk_write u = (ok, v)" by fastforce
  let ?c = "upd (\<lambda>st. st\<lparr>ms_state := STATE_CONNECTING\<rparr>) (open_trace cfg v)"
  obtain r2 u2 where p2: "persist_now ?c = (r2, u2)" by fastforce
  let ?a = "upd (\<lambda>st. st\<lparr>ms_state := STATE_ATTACHED\<rparr>) u2"
  obtain r3 u3 where p3: "persist_now ?a = (r3, u3)" by fastforce
  have d: "d_disk ?c = d_disk v" "d_disk ?a = d_disk u2" by (simp_all add: upd_def open_trace_def split: prod.splits)
  have v: "suffix (d_disk v) (d_disk u)" using disk_write_suffix [OF dw] by blast
  have u2: "suffix (d_disk u2) (d_disk u)" using persist_now_suffix [OF p2] d(1) v suffix_order.trans by metis
  have u3: "suffix (d_disk u3) (d_disk u)" using persist_now_suffix [OF p3] d(2) u2 suffix_order.trans by metis
  show ?thesis
    using assms v u2 u3 suffix_order.trans [OF serve_body_suffix [of _ _ u3] u3]
    by (cases rest) (auto simp: try_body_def attach_body_def Let_def dw p2 p3 split: bool.splits sum.splits option.splits)
qed

lemma run_daemon_error:
  assumes "fs_ok (d_fs u)" and "run_daemon cfg env u = Some (Inl e, u1, ses, f)"
  shows "d_disk u = False # d_disk u1 \<and> running (d_state u1)
    \<or> (\<exists>pre. d_disk u = pre @ False # d_disk u1) \<and> verdict (d_state u1) \<and> ms_state (d_state u1) = STATE_ERROR"
proof -
  obtain now u0 where n: "now_iso u = (now, u0)" and u0: "d_fs u0 = d_fs u" "d_disk u0 = d_disk u"
    by (simp add: now_iso_def)
  let ?st = "initial_state now (cfg_session_id cfg) (endpoint_text (cfg_host cfg) (cfg_cd_port cfg))
                 (int (d_pid u)) (cfg_image cfg)"
  have s0: "serving (cfg_session_id cfg) (u0\<lparr>d_state := ?st\<rparr>)"
    using assms(1) u0 running_initial streaks_ok_initial
    by (simp add: serving_def daemon_ok_def) (simp add: initial_state_def)
  obtain r0 v where p: "persist_now (u0\<lparr>d_state := ?st\<rparr>) = (r0, v)" by fastforce
  have s1: "serving (cfg_session_id cfg) v" by (rule serving_persist_now [OF s0 p])
  note d0 = persist_now_suffix [OF p, simplified, unfolded u0]
  show ?thesis
  proof (cases r0)
    case (Inl x)
    with assms(2) n p have "v = u1" by (simp add: run_daemon_def)
    with s1 d0 Inl show ?thesis by (simp add: serving_def)
  next
    case (Inr x)
    with assms(2) n p obtain y w ses1 f1 where t: "try_body cfg env v = Some (Inl y, w, ses1, f1)"
      and fd: "fail_daemon y w = (Inl e, u1)"
      by (auto simp: run_daemon_def split: option.splits prod.splits sum.splits)
    have "daemon_ok (cfg_session_id cfg) w" using try_body_ok [OF s1, of cfg env] t by auto
    note fv = fail_daemon_verdict [OF this fd]
    have "d_disk w = False # d_disk u1"
      using persist_now_suffix [OF fd [unfolded fail_daemon_def]] by simp
    moreover have "suffix (d_disk w) (d_disk u)" using try_body_suffix [OF t] d0 suffix_order.trans by blast
    ultimately show ?thesis using fv by (auto simp: suffix_def)
  qed
qed

section \<open>Reclamation frees the endpoint\<close>

lemma state_path_not_log: "log_file_path a \<noteq> state_file_path b" "read_trace_log_path a \<noteq> state_file_path b"
proof -
  have "last (log_file_path a) \<noteq> last (state_file_path b)" "last (read_trace_log_path a) \<noteq> last (state_file_path b)"
    by (simp_all add: log_file_path_def read_trace_log_path_def state_file_path_def)
  then show "log_file_path a \<noteq> state_file_path b" "read_trace_log_path a \<noteq> state_file_path b" by metis+
qed

interpretation media_files: session_files remove_state ms_session_id ms_pid
  by unfold_locales (unfold remove_state_def, rule read_state_remove_paths, auto dest: sym simp: state_path_not_log state_path_not_log [symmetric])

lemma reclaim_loop_spec:
  assumes "\<And>st. st \<in> set sts \<Longrightarrow> ms_session_id st \<noteq> []" and "\<And>p. kill0 p \<noteq> PermissionDenied"
  shows "reclaim_loop kill0 sts fs sigs ids =
    (Inr (ids @ map ms_session_id sts), sigs @ map ms_pid (filter (media_files.stoppable kill0) sts),
     fold (\<lambda>st. remove_state (ms_session_id st)) sts fs)"
  using assms(1)
proof (induction sts arbitrary: fs sigs ids)
  case (Cons st sts)
  have "(if is_pid_alive kill0 (Some (ms_pid st)) then request_stop kill0 (Some (ms_pid st)) else Inr [])
      = Inr (if media_files.stoppable kill0 st then [ms_pid st] else [])"
    by (simp add: media_files.alive_iff_stoppable [OF assms(2)] media_files.stop_recorded)
  with Cons show ?case by (simp add: Let_def)
qed simp

lemma find_conflicting_set:
  assumes "\<And>sid st. read_state fs sid = Some st \<Longrightarrow> sid \<noteq> []"
  shows "set (find_conflicting_sessions fs ep exclude) =
    {st. \<exists>sid. read_state fs sid = Some st \<and> ms_endpoint st = ep \<and> Some sid \<noteq> exclude}"
proof -
  let ?f = "\<lambda>sid. if Some sid = exclude then None else (case read_state fs sid of None \<Rightarrow> None
      | Some st \<Rightarrow> if ms_endpoint st \<noteq> ep then None else Some st)"
  have f: "?f sid = Some st \<longleftrightarrow> read_state fs sid = Some st \<and> ms_endpoint st = ep \<and> Some sid \<noteq> exclude" for sid st
    by (auto split: option.splits)
  have "set (List.map_filter ?f xs) = {st. \<exists>sid \<in> set xs. ?f sid = Some st}" for xs
    by (induction xs) (auto simp: map_filter_simps split: option.splits)
  then have "set (find_conflicting_sessions fs ep exclude) =
      {st. \<exists>sid \<in> set (list_session_ids fs). ?f sid = Some st}"
    by (simp only: find_conflicting_sessions_def)
  then show ?thesis unfolding f using list_session_ids_complete [of fs] assms by blast
qed

lemma reclaim_frees_endpoint:
  assumes named: "\<And>sid st. read_state fs sid = Some st \<Longrightarrow> ms_session_id st = sid \<and> sid \<noteq> []"
    and kill0: "\<And>p. kill0 p \<noteq> PermissionDenied"
  shows "\<exists>ids sigs fs1. reclaim_conflicting_sessions kill0 fs ep exclude = (Inr ids, sigs, fs1)
    \<and> set ids = {sid. \<exists>st. read_state fs sid = Some st \<and> ms_endpoint st = ep \<and> Some sid \<noteq> exclude}
    \<and> set sigs = {ms_pid st | sid st. sid \<in> set ids \<and> read_state fs sid = Some st \<and> media_files.stoppable kill0 st}
    \<and> (\<forall>sid. read_state fs1 sid = (if sid \<in> set ids then None else read_state fs sid))"
proof -
  let ?sts = "find_conflicting_sessions fs ep exclude"
  have st: "set ?sts = {st. \<exists>sid. read_state fs sid = Some st \<and> ms_endpoint st = ep \<and> Some sid \<noteq> exclude}"
    by (rule find_conflicting_set) (use named in blast)
  then have ne: "ms_session_id st \<noteq> []" if "st \<in> set ?sts" for st using that named by auto
  have ids: "ms_session_id ` set ?sts =
      {sid. \<exists>st. read_state fs sid = Some st \<and> ms_endpoint st = ep \<and> Some sid \<noteq> exclude}"
    (is "_ = ?ids")
  proof (rule set_eqI)
    fix sid
    have "sid \<in> ms_session_id ` set ?sts \<longleftrightarrow> (\<exists>st \<in> set ?sts. sid = ms_session_id st)" by blast
    also have "\<dots> \<longleftrightarrow> sid \<in> ?ids" unfolding st using named by blast
    finally show "sid \<in> ms_session_id ` set ?sts \<longleftrightarrow> sid \<in> ?ids" .
  qed
  have "st \<in> set ?sts \<longleftrightarrow> (\<exists>sid. sid \<in> ms_session_id ` set ?sts \<and> read_state fs sid = Some st)" for st
    unfolding ids unfolding st by auto
  then have "ms_pid ` {st \<in> set ?sts. media_files.stoppable kill0 st} =
      {ms_pid st | sid st. sid \<in> ms_session_id ` set ?sts \<and> read_state fs sid = Some st \<and> media_files.stoppable kill0 st}"
    by (simp only: image_def) blast
  moreover have "reclaim_conflicting_sessions kill0 fs ep exclude = (Inr (map ms_session_id ?sts),
      map ms_pid (filter (media_files.stoppable kill0) ?sts), fold (\<lambda>st. remove_state (ms_session_id st)) ?sts fs)"
    unfolding reclaim_conflicting_sessions_def by (subst reclaim_loop_spec) (use ne kill0 in auto)
  ultimately show ?thesis using ids by (simp add: media_files.read_remove_all)
qed

section \<open>Idle streaks\<close>

fun idle_run :: "nat \<Rightarrow> daemon \<Rightarrow> daemon" where
  "idle_run 0 u = u"
| "idle_run (Suc n) u = snd (on_idle (idle_run n u))"

lemma idle_run_streak:
  assumes "d_disk u = []" and "current_idle_streak (d_state u) = None" and "0 < n"
  shows "d_disk (idle_run n u) = [] \<and> idle_polls (d_state (idle_run n u)) = idle_polls (d_state u) + n
    \<and> d_trace (idle_run n u) = d_trace u \<and> d_now (idle_run n u) = d_now u \<and> d_tick (idle_run n u) = d_tick u + n
    \<and> current_idle_streak (d_state (idle_run n u)) = Some \<lparr>started_at = d_now u (d_tick u), polls = n,
        seconds = n * RECV_POLL_TIMEOUT, ended_at = None\<rparr>"
  using assms(3)
proof (induction n)
  case (Suc n)
  then show ?case
    using assms(1,2)
    by (cases "n = 0") (auto simp: on_idle_def now_iso_def upd_def persist_at_def disk_write_def Let_def)
qed simp

lemma on_request_clear:
  assumes "d_disk u = []"
  shows "fst (on_request dev req u) = Inr ()
    \<and> d_state (snd (on_request dev req u)) = (close_idle_streak (d_now u (d_tick u)) (d_state u))
        \<lparr>bytes_read := n_bytes dev, sectors_served := n_blocks dev, last_request_at := Some (d_now u (d_tick u)),
         updated_at := d_now u (d_tick u)\<rparr>"
  using assms by (auto simp: on_request_def now_iso_def upd_def persist_at_def disk_write_def Let_def)

section \<open>Properties\<close>

text \<open>C2. The daemon's lifetime, from its first record on: from any well-formed runtime directory and for
  every image, outcome of the token allocation, outcome of dialling, sequence of socket events and
  sequence of disk outcomes, \<open>_run_daemon\<close> ends with the media session and the image file closed if they
  were opened and the idle bookkeeping consistent. It ends normally exactly with a verdict recorded
  (\<open>detached\<close> with a stop reason and no error class, or \<open>error\<close> with a text and a class) and that record on
  disk. An exception leaves it only as the \<open>OSError\<close> of its last disk write: either the very first
  write, of the \<open>starting\<close> record, or the write of the \<open>error\<close> record itself. In particular a daemon whose
  writes succeed never ends without its verdict on disk. The traffic is a finite sequence of events that
  ends with the peer closing: a peer that idles for ever keeps the daemon up until its stop flag is set.\<close>

theorem media_daemon_lifetime:
  assumes "fs_ok (d_fs u)"
  shows "\<exists>r u1 ses f. run_daemon cfg env u = Some (r, u1, ses, f)
    \<and> (\<forall>s. ses = Some s \<longrightarrow> sock_closed (ch_transport (s_chan s))) \<and> (\<forall>x. f = Some x \<longrightarrow> fr_closed x)
    \<and> streaks_ok (d_state u1)
    \<and> (r = Inr () \<and> verdict (d_state u1) \<and> read_state (d_fs u1) (cfg_session_id cfg) = Some (d_state u1)
       \<or> r = Inl OSError \<and> d_disk u = False # d_disk u1 \<and> running (d_state u1)
       \<or> r = Inl OSError \<and> (\<exists>pre. d_disk u = pre @ False # d_disk u1)
           \<and> verdict (d_state u1) \<and> ms_state (d_state u1) = STATE_ERROR)
    \<and> (False \<notin> set (d_disk u) \<longrightarrow> r = Inr ())"
proof -
  obtain r u1 ses f where run: "run_daemon cfg env u = Some (r, u1, ses, f)"
    and closed: "\<forall>s. ses = Some s \<longrightarrow> sock_closed (ch_transport (s_chan s))" "\<forall>x. f = Some x \<longrightarrow> fr_closed x"
      "streaks_ok (d_state u1)"
    and r: "r = Inr () \<and> verdict (d_state u1) \<and> on_disk (cfg_session_id cfg) u1 \<or> r = Inl OSError"
    using run_daemon_ok [OF assms, of cfg env] by blast
  have "d_disk u = False # d_disk u1 \<and> running (d_state u1) \<or> (\<exists>pre. d_disk u = pre @ False # d_disk u1)
      \<and> verdict (d_state u1) \<and> ms_state (d_state u1) = STATE_ERROR" if "r = Inl OSError"
    using run_daemon_error [OF assms] run that by blast
  with run closed r show ?thesis by (auto simp: on_disk_def)
qed

definition sample_daemon :: daemon where
  "sample_daemon = \<lparr>d_state = initial_state ''t'' ''s'' ''h:1'' 9 ''img'',
     d_fs = \<lparr>names = [], inodes = (\<lambda>_. Unparsable), next_ino = 0\<rparr>, d_pid = 9, d_trace = 0, d_now = (\<lambda>k. ''t''),
     d_tick = 0, d_stop = [], d_disk = []\<rparr>"

definition sample_config :: session_config where
  "sample_config = \<lparr>cfg_session_id = ''s'', cfg_host = ''h'', cfg_port = 80, cfg_use_tls = False,
     cfg_allow_insecure_transport = True, cfg_validate_certs = True, cfg_ca_path = None, cfg_tls_fingerprint = None,
     cfg_timeout = 10, cfg_connect_timeout = 10, cfg_cd_port = 5120, cfg_instance = 0, cfg_image = ''img'', cfg_runtime_dir = ''run''\<rparr>"

definition sample_env :: daemon_env where
  "sample_env = \<lparr>e_images = [''img'' \<mapsto> FileNode [1, 2, 3]], e_alloc = Inr (Some ''tok''), e_dial = DialTimeout\<rparr>"

lemma sample_daemon_simps [simp]: "fs_ok (d_fs sample_daemon)" "d_disk sample_daemon = []"
  "current_idle_streak (d_state sample_daemon) = None" "idle_polls (d_state sample_daemon) = 0"
  by (simp_all add: fs_ok_def sample_daemon_def initial_state_def)

theorem media_daemon_lifetime_witness:
  "\<exists>u1 ses f. run_daemon sample_config sample_env sample_daemon = Some (Inr (), u1, ses, f)
    \<and> verdict (d_state u1) \<and> read_state (d_fs u1) ''s'' = Some (d_state u1)"
proof -
  have "cfg_session_id sample_config = ''s''" by (simp add: sample_config_def)
  with media_daemon_lifetime [of sample_daemon sample_config sample_env] show ?thesis by auto
qed

text \<open>C28. The stop flag ends the serve loop, whatever the peer does: over any transport and with any
  handler, not only the socket's finite script, when the poll number \<open>k\<close> (from 0) is the first to see the
  flag set, the daemon's loop returns after at most \<open>k + 1\<close> polls, one per round, and it reports
  \<open>stopped\<close> exactly when it got to that poll; otherwise it ended earlier, for a reason of its own.\<close>

theorem stop_flag_ends_serving:
  fixes ops :: "('t, device, daemon) serve_ops"
  assumes "op_should_stop ops = should_stop" and "op_on_idle ops = on_idle" and "op_on_request ops = on_request"
    and "d_stop (v_user w) = replicate k False @ True # rest"
  shows "\<exists>r w1 n. serve_forever ops w = Some (r, w1) \<and> n \<le> k
    \<and> d_stop (v_user w1) = drop (Suc n) (d_stop (v_user w)) \<and> (r = Inr SERVE_STOPPED \<longleftrightarrow> n = k)"
  by (rule media_stop.serve_forever_stops [OF assms])

text \<open>A peer that never sends anything: every poll of the socket times out.\<close>

definition idle_ops :: "(unit, device, daemon) serve_ops" where
  "idle_ops = \<lparr>op_recv = (\<lambda>t n. (Inl IdleTimeout, t)), op_send = (\<lambda>t d. (Inr (), t)),
     op_handle = cd_handle cached_read_at, op_should_stop = should_stop, op_on_idle = on_idle,
     op_on_request = on_request\<rparr>"

definition idle_state :: "bool list \<Rightarrow> (unit, device, daemon) serve_state" where
  "idle_state bs = \<lparr>v_session = \<lparr>s_chan = \<lparr>ch_transport = (), ch_recorder = None\<rparr>, s_device_type = 5, s_instance = 0\<rparr>,
     v_handler = sample_device, v_user = sample_daemon\<lparr>d_stop := bs\<rparr>\<rparr>"

lemma idle_round:
  assumes "d_disk (v_user w) = []"
  shows "\<exists>w1. serve_iter idle_ops w = (if fst (should_stop (v_user w)) then Return SERVE_STOPPED else Continue, w1)
    \<and> d_disk (v_user w1) = [] \<and> d_stop (v_user w1) = drop 1 (d_stop (v_user w))"
  using assms
  by (auto simp: serve_iter_def idle_ops_def should_stop_def read_packet_def on_idle_def now_iso_def upd_def persist_at_def
      disk_write_def Let_def split: list.splits)

theorem stop_flag_ends_serving_witness:
  "\<exists>w1. serve_forever idle_ops (idle_state [False, False, True]) = Some (Inr SERVE_STOPPED, w1)
    \<and> d_stop (v_user w1) = []"
proof -
  let ?w = "idle_state [False, False, True]"
  have w: "d_disk (v_user ?w) = []" "d_stop (v_user ?w) = [False, False, True]" by (simp_all add: idle_state_def)
  obtain w1 where w1: "serve_iter idle_ops ?w = (Continue, w1)" "d_disk (v_user w1) = []" "d_stop (v_user w1) = [False, True]"
    using idle_round [OF w(1)] w(2) by (auto simp: should_stop_def)
  obtain w2 where w2: "serve_iter idle_ops w1 = (Continue, w2)" "d_disk (v_user w2) = []" "d_stop (v_user w2) = [True]"
    using idle_round [OF w1(2)] w1(3) by (auto simp: should_stop_def)
  obtain w3 where w3: "serve_iter idle_ops w2 = (Return SERVE_STOPPED, w3)"
    using idle_round [OF w2(2)] w2(3) by (auto simp: should_stop_def)
  have run: "serve_forever idle_ops ?w = Some (Inr SERVE_STOPPED, w3)"
    by (simp add: serve_forever.simps [of idle_ops ?w] serve_forever.simps [of idle_ops w1]
        serve_forever.simps [of idle_ops w2] w1(1) w2(1) w3)
  moreover have "d_stop (v_user w3) = []"
    using stop_flag_ends_serving [of idle_ops ?w 2 "[]"] run w(2) by (auto simp: idle_ops_def numeral_2_eq_2)
  ultimately show ?thesis by blast
qed

text \<open>And nothing else bounds the idling: with the flag never set and that peer, the loop does not return.\<close>

theorem idling_has_no_bound:
  "serve_forever idle_ops (idle_state []) = None"
proof (rule serve_forever_diverges [where P = "\<lambda>w. d_disk (v_user w) = [] \<and> d_stop (v_user w) = []"])
  show "\<exists>w1. serve_iter idle_ops w = (Continue, w1) \<and> d_disk (v_user w1) = [] \<and> d_stop (v_user w1) = []"
    if "d_disk (v_user w) = [] \<and> d_stop (v_user w) = []" for w
    using idle_round [of w] that by (auto simp: should_stop_def)
qed (simp add: idle_state_def sample_daemon_def)

text \<open>\<open>read_trace_summary\<close> keeps both ends of the trace: the head holds the first \<open>head_limit\<close>
  entries, the tail the last \<open>tail_limit\<close> of the others, and the omitted count is exactly the number of
  entries between them, so that head, that many entries and tail make up the whole log. Blank lines,
  lines that do not parse and lines that are not objects are not entries.\<close>

theorem trace_summary_two_ends:
  assumes "fs_read (read_trace_log_path sid) fs = Some (TextLines ls)"
    and "read_trace_summary loads fs sid hlim tlim = (head, tail, omitted)"
  shows "\<exists>mid. trace_entries loads ls = head @ mid @ tail \<and> length mid = omitted
    \<and> length head = min hlim (length (trace_entries loads ls))
    \<and> length tail = min tlim (length (trace_entries loads ls) - hlim)"
proof -
  let ?es = "trace_entries loads ls"
  have "trace_loop loads hlim tlim ls (0, [], []) = (length ?es, two_ended hlim tlim ?es)"
    using trace_loop_spec [of hlim tlim "[]" "[]" "[]" loads ls] by (simp add: two_ended_def Let_def)
  then have two: "two_ended hlim tlim ?es = (head, tail)" and om: "omitted = length ?es - hlim - tlim"
    using assms by (auto simp: read_trace_summary_def split: prod.splits)
  then have "length head = min hlim (length ?es)" "length tail = min tlim (length ?es - hlim)"
    by (auto simp: two_ended_def min_def max_def)
  with two_ended_parts [OF two] om show ?thesis by auto
qed

theorem trace_summary_two_ends_witness:
  "\<exists>mid. trace_entries (\<lambda>s. if s = ''bad'' then None else Some (PDict [(s, PNone)])) [''a'', '''', ''bad'', ''b'', ''c'']
      = [PDict [(''a'', PNone)]] @ mid @ [PDict [(''c'', PNone)]] \<and> length mid = 1"
proof -
  let ?loads = "\<lambda>s. if s = ''bad'' then None else Some (PDict [(s, PNone)])"
  let ?ls = "[''a'', '''', ''bad'', ''b'', ''c'']"
  let ?fs = "\<lparr>names = [(''s.reads.jsonl'', 0)], inodes = (\<lambda>_. TextLines ?ls), next_ino = 1\<rparr> :: nat rt_fs"
  have f: "fs_read (read_trace_log_path ''s'') ?fs = Some (TextLines ?ls)"
    by (simp add: fs_read_def fs_lookup_def read_trace_log_path_def)
  have r: "read_trace_summary ?loads ?fs ''s'' 1 1 = ([PDict [(''a'', PNone)]], [PDict [(''c'', PNone)]], 1)"
    unfolding read_trace_summary_def f by code_simp
  from trace_summary_two_ends [OF f r] show ?thesis by blast
qed

text \<open>Idle accounting: after \<open>n\<close> idle polls in a row and then a request, the streak recorded as
  the last one counts \<open>n\<close> polls and twice as many seconds, starts at the first of them and has an end,
  no streak is open, the poll total has grown by \<open>n\<close>, and the counters are the device's.\<close>

theorem idle_streak_recorded:
  assumes "d_disk u = []" and "current_idle_streak (d_state u) = None" and "0 < n"
    and "on_request dev req (idle_run n u) = (r, u1)"
  shows "r = Inr () \<and> current_idle_streak (d_state u1) = None
    \<and> last_idle_streak (d_state u1) = Some \<lparr>started_at = d_now u (d_tick u), polls = n, seconds = 2 * n,
        ended_at = Some (d_now u (d_tick u + n))\<rparr>
    \<and> idle_polls (d_state u1) = idle_polls (d_state u) + n
    \<and> bytes_read (d_state u1) = n_bytes dev \<and> sectors_served (d_state u1) = n_blocks dev
    \<and> last_request_at (d_state u1) = Some (d_now u (d_tick u + n))"
proof -
  note i = idle_run_streak [OF assms(1-3)]
  then show ?thesis
    using on_request_clear [of "idle_run n u" dev req] assms(4) by (auto simp: close_idle_streak_def)
qed

theorem idle_streak_recorded_witness:
  "\<exists>r u1. on_request sample_device (sample_read SCSI_READ10 []) (idle_run 3 sample_daemon) = (r, u1)
    \<and> last_idle_streak (d_state u1) = Some \<lparr>started_at = ''t'', polls = 3, seconds = 6, ended_at = Some ''t''\<rparr>"
proof -
  obtain r u1 where o: "on_request sample_device (sample_read SCSI_READ10 []) (idle_run 3 sample_daemon) = (r, u1)" by fastforce
  have "d_now sample_daemon = (\<lambda>k. ''t'')" by (simp add: sample_daemon_def)
  with idle_streak_recorded [OF _ _ _ o] o show ?thesis by auto
qed

text \<open>C38. Reclaiming an endpoint: with a runtime directory whose records are filed under their own
  ids, and no process that may not be signalled, \<open>reclaim_conflicting_sessions\<close> removes exactly the
  records of the sessions on that endpoint (other than the excluded one), returns exactly their ids,
  signals exactly those of their processes that are alive, and leaves every other record as it was.\<close>

theorem reclaim_exactly_conflicting:
  assumes "\<And>sid st. read_state fs sid = Some st \<Longrightarrow> ms_session_id st = sid \<and> sid \<noteq> []"
    and "\<And>p. kill0 p \<noteq> PermissionDenied"
  shows "\<exists>ids sigs fs1. reclaim_conflicting_sessions kill0 fs ep exclude = (Inr ids, sigs, fs1)
    \<and> set ids = {sid. \<exists>st. read_state fs sid = Some st \<and> ms_endpoint st = ep \<and> Some sid \<noteq> exclude}
    \<and> set sigs = {ms_pid st | sid st. sid \<in> set ids \<and> read_state fs sid = Some st
         \<and> 0 < ms_pid st \<and> kill0 (ms_pid st) = ProcExists}
    \<and> (\<forall>sid. read_state fs1 sid = (if sid \<in> set ids then None else read_state fs sid))"
  unfolding media_files.stoppable_def [symmetric] by (rule reclaim_frees_endpoint) (use assms in blast)+

definition sample_records :: "media_state rt_fs" where
  "sample_records = \<lparr>names = [(''s.json'', 0)], inodes = (\<lambda>_. JsonDict (initial_state ''t'' ''s'' ''h:1'' 9 ''img'')), next_ino = 1\<rparr>"

theorem reclaim_exactly_conflicting_witness:
  "\<exists>ids sigs fs1. reclaim_conflicting_sessions (\<lambda>p. ProcExists) sample_records ''h:1'' None = (Inr ids, sigs, fs1)
    \<and> set ids = {''s''} \<and> read_state fs1 ''s'' = None"
proof -
  have r: "read_state sample_records sid = (if sid = ''s'' then Some (initial_state ''t'' ''s'' ''h:1'' 9 ''img'') else None)" for sid
    by (simp add: read_state_def fs_read_def fs_lookup_def sample_records_def state_file_path_def)
  have e: "ms_endpoint (initial_state ''t'' ''s'' ''h:1'' 9 ''img'') = ''h:1''"
    "ms_session_id (initial_state ''t'' ''s'' ''h:1'' 9 ''img'') = ''s''" by (simp_all add: initial_state_def)
  have named: "ms_session_id st = sid \<and> sid \<noteq> []" if "read_state sample_records sid = Some st" for sid st
    using that e(2) by (simp add: r split: if_splits)
  have sig: "(\<lambda>p :: int. ProcExists) p \<noteq> PermissionDenied" for p by simp
  have "\<exists>ids sigs fs1. reclaim_conflicting_sessions (\<lambda>p. ProcExists) sample_records ''h:1'' None = (Inr ids, sigs, fs1)
    \<and> set ids = {sid. \<exists>st. read_state sample_records sid = Some st \<and> ms_endpoint st = ''h:1'' \<and> Some sid \<noteq> None}
    \<and> set sigs = {ms_pid st | sid st. sid \<in> set ids \<and> read_state sample_records sid = Some st
         \<and> 0 < ms_pid st \<and> (\<lambda>p. ProcExists) (ms_pid st) = ProcExists}
    \<and> (\<forall>sid. read_state fs1 sid = (if sid \<in> set ids then None else read_state sample_records sid))"
    by (rule reclaim_exactly_conflicting) (rule named, assumption, rule sig)
  then obtain ids sigs fs1 where x: "reclaim_conflicting_sessions (\<lambda>p. ProcExists) sample_records ''h:1'' None = (Inr ids, sigs, fs1)"
    "set ids = {sid. \<exists>st. read_state sample_records sid = Some st \<and> ms_endpoint st = ''h:1'' \<and> Some sid \<noteq> None}"
    "read_state fs1 ''s'' = (if ''s'' \<in> set ids then None else read_state sample_records ''s'')" by blast
  have "{sid. \<exists>st. read_state sample_records sid = Some st \<and> ms_endpoint st = ''h:1'' \<and> Some sid \<noteq> None} = {''s''}"
    using e(1) by (simp add: r)
  with x(2) have ids: "set ids = {''s''}" by (simp only:)
  have "read_state fs1 ''s'' = None" using x(3) by (simp add: ids)
  with x(1) ids show ?thesis by blast
qed

section \<open>An error record with a stop reason\<close>

text \<open>When the last write of a normal end fails, the exception handler records \<open>error\<close> over a record
  that already has its stop reason.\<close>

theorem error_record_with_stop_reason:
  "let (r, u1) = finish SERVE_STOPPED sample_device (sample_daemon\<lparr>d_disk := [False]\<rparr>);
       (r2, u2) = fail_daemon OSError u1
   in r = Inl OSError \<and> r2 = Inr () \<and> ms_state (d_state u2) = STATE_ERROR
      \<and> ms_stop_reason (d_state u2) = Some Stop_signal"
  by (simp add: finish_def fail_daemon_def persist_now_def persist_at_def now_iso_def disk_write_def upd_def
      sample_daemon_def initial_state_def close_idle_streak_def Let_def)

end
