(* ===== verification/Webvar.thy ===== *)
theory Webvar
  imports Ikvm_Errors
begin

text \<open>
  \<open>plugins/module_utils/webvar.py\<close>: the parser of AMI's \<open>.asp\<close> responses. The three regular
  expressions are deterministic (their classes are pairwise disjoint), so each is a matcher at a
  position and \<open>re.search\<close> the leftmost position where it succeeds. \<open>ast.literal_eval\<close> is an
  argument: the value of a text, or \<open>None\<close> when it raises one of the caught exceptions.
\<close>

section \<open>The regular expressions\<close>

type_synonym matcher = "string \<Rightarrow> (string \<times> nat) option"

text \<open>\<open>lit(\w+)\s*sep\<close>: the group and the length of the match.\<close>

definition match_decl :: "string \<Rightarrow> char \<Rightarrow> matcher" where
  "match_decl lit sep s = (if \<not> starts_with s lit then None
     else let s1 = drop (length lit) s; name = takeWhile is_word s1;
              s2 = drop (length name) s1; sp = takeWhile is_space s2; s3 = drop (length sp) s2
          in if name \<noteq> [] \<and> s3 \<noteq> [] \<and> hd s3 = sep
             then Some (name, length lit + length name + length sp + 1) else None)"

definition JSONVAR_RE :: matcher where
  "JSONVAR_RE = match_decl ''WEBVAR_JSONVAR_'' (CHR ''='')"

definition STRUCTNAME_RE :: matcher where
  "STRUCTNAME_RE = match_decl ''WEBVAR_STRUCTNAME_'' (CHR '':'')"

text \<open>\<open>-?\d+\<close>, then \<open>HAPI_STATUS\s*:\s*(-?\d+)\<close>.\<close>

definition signed_digits :: "string \<Rightarrow> string option" where
  "signed_digits s = (let sign = (if s \<noteq> [] \<and> hd s = CHR ''-'' then ''-'' else []);
                          digits = takeWhile is_digit (drop (length sign) s)
                      in if digits = [] then None else Some (sign @ digits))"

definition HAPI_STATUS_RE :: matcher where
  "HAPI_STATUS_RE s = (if \<not> starts_with s ''HAPI_STATUS'' then None
     else let s1 = drop 11 s; sp1 = takeWhile is_space s1; s2 = drop (length sp1) s1
          in if s2 = [] \<or> hd s2 \<noteq> CHR '':'' then None
             else let s3 = drop 1 s2; sp2 = takeWhile is_space s3
                  in case signed_digits (drop (length sp2) s3) of
                       None \<Rightarrow> None
                     | Some grp \<Rightarrow> Some (grp, 11 + length sp1 + 1 + length sp2 + length grp))"

text \<open>\<open>pattern.search(text, pos)\<close>: the group and the end of the leftmost match.\<close>

function re_search :: "matcher \<Rightarrow> string \<Rightarrow> nat \<Rightarrow> (string \<times> nat) option" where
  "re_search m text pos = (if pos > length text then None
     else case m (drop pos text) of
         Some (grp, n) \<Rightarrow> Some (grp, pos + n)
       | None \<Rightarrow> re_search m text (Suc pos))"
  by pat_completeness auto
termination
  by (relation "measure (\<lambda>(m, text, pos). Suc (length text) - pos)") auto

declare re_search.simps [simp del]

section \<open>The scanner\<close>

function skip_whitespace :: "string \<Rightarrow> nat \<Rightarrow> nat" where
  "skip_whitespace text pos =
     (if pos < length text \<and> is_space (text ! pos) then skip_whitespace text (pos + 1) else pos)"
  by pat_completeness auto
termination
  by (relation "measure (\<lambda>(text, pos). length text - pos)") auto

declare skip_whitespace.simps [simp del]

function scan_loop :: "string \<Rightarrow> char \<Rightarrow> char \<Rightarrow> int \<Rightarrow> char option \<Rightarrow> nat \<Rightarrow> nat option" where
  "scan_loop text open_char close_char depth in_string i =
     (if i < length text then
        let ch = text ! i in
        case in_string of
          Some q \<Rightarrow>
            if ch = CHR 0x5C then scan_loop text open_char close_char depth in_string (i + 2)
            else if ch = q then scan_loop text open_char close_char depth None (i + 1)
            else scan_loop text open_char close_char depth in_string (i + 1)
        | None \<Rightarrow>
            if ch = CHR 0x27 \<or> ch = CHR 0x22 then scan_loop text open_char close_char depth (Some ch) (i + 1)
            else if ch = open_char then scan_loop text open_char close_char (depth + 1) None (i + 1)
            else if ch = close_char then
              (if depth - 1 = 0 then Some (i + 1)
               else scan_loop text open_char close_char (depth - 1) None (i + 1))
            else scan_loop text open_char close_char depth None (i + 1)
      else None)"
  by pat_completeness auto
termination
  by (relation "measure (\<lambda>(text, a, b, d, q, i). length text - i)") auto

declare scan_loop.simps [simp del]

text \<open>\<open>Inl\<close> is the \<open>ValueError\<close>; \<open>text[open_pos]\<close> past the end would be an \<open>IndexError\<close>, which
  the only caller rules out first.\<close>

definition scan_matching_bracket :: "string \<Rightarrow> nat \<Rightarrow> char \<Rightarrow> char \<Rightarrow> exn + nat" where
  "scan_matching_bracket text open_pos open_char close_char =
     (if open_pos < length text \<and> text ! open_pos \<noteq> open_char then Inl ValueError
      else case scan_loop text open_char close_char 0 None open_pos of
          None \<Rightarrow> Inl ValueError | Some e \<Rightarrow> Inr e)"

section \<open>\<open>parse_webvar\<close>\<close>

text \<open>What \<open>ast.literal_eval\<close> can construct. \<open>LitOther\<close> is any object of another type (a tuple, a set, a byte
  string, a number that is no integer), by its truth value and its \<open>str()\<close>.\<close>

datatype py_literal =
    LitNone
  | LitBool bool
  | LitInt int
  | LitStr string
  | LitList "py_literal list"
  | LitDict "(py_literal \<times> py_literal) list"
  | LitOther bool string

type_synonym webvar_record = "(py_literal \<times> py_literal) list"

record webvar_response =
  variable_name :: string
  struct_name :: string
  records :: "webvar_record list"
  hapi_status :: int

fun as_record :: "py_literal \<Rightarrow> webvar_record option" where
  "as_record (LitDict kvs) = Some kvs"
| "as_record _ = None"

fun as_records :: "py_literal list \<Rightarrow> webvar_record list option" where
  "as_records [] = Some []"
| "as_records (x # xs) = (case (as_record x, as_records xs) of
      (Some r, Some rs) \<Rightarrow> Some (r # rs) | _ \<Rightarrow> None)"

fun list_of_dicts :: "py_literal \<Rightarrow> webvar_record list option" where
  "list_of_dicts (LitList xs) = as_records xs"
| "list_of_dicts _ = None"

definition drop_sentinel :: "webvar_record list \<Rightarrow> webvar_record list" where
  "drop_sentinel rs = (if rs \<noteq> [] \<and> last rs = [] then butlast rs else rs)"

definition webvar_error :: "string option \<Rightarrow> string option \<Rightarrow> exn" where
  "webvar_error ep op = Ikvm \<lparr>error_class = PROTOCOL, endpoint = ep, operation = op,
     indeterminate = False, return_value = None\<rparr>"

definition parse_webvar ::
  "(string \<Rightarrow> py_literal option) \<Rightarrow> string \<Rightarrow> string option \<Rightarrow> string option \<Rightarrow> exn + webvar_response" where
  "parse_webvar literal_eval body ep op =
     (let fail = Inl (webvar_error ep op) in
      if strip body = [] then fail
      else case re_search JSONVAR_RE body 0 of
          None \<Rightarrow> fail
        | Some (name, name_end) \<Rightarrow>
      (case re_search STRUCTNAME_RE body name_end of
          None \<Rightarrow> fail
        | Some (struct, struct_end) \<Rightarrow>
      (let array_start = skip_whitespace body struct_end in
       if array_start \<ge> length body \<or> body ! array_start \<noteq> CHR ''['' then fail
       else case scan_matching_bracket body array_start (CHR ''['') (CHR '']'') of
          Inl _ \<Rightarrow> fail
        | Inr array_end \<Rightarrow>
      (case literal_eval (pslice array_start array_end body) of
          None \<Rightarrow> fail
        | Some v \<Rightarrow>
      (case list_of_dicts v of
          None \<Rightarrow> fail
        | Some raw \<Rightarrow>
      (case re_search HAPI_STATUS_RE body array_end of
          None \<Rightarrow> fail
        | Some (status, _) \<Rightarrow>
      (case py_int status of
          None \<Rightarrow> Inl ValueError
        | Some n \<Rightarrow> Inr \<lparr>variable_name = name, struct_name = struct,
                          records = drop_sentinel raw, hapi_status = n\<rparr>)))))))"

section \<open>Balanced text\<close>

inductive quoted_body :: "char \<Rightarrow> string \<Rightarrow> bool" for q where
  empty: "quoted_body q []"
| char: "quoted_body q s \<Longrightarrow> c \<noteq> q \<Longrightarrow> c \<noteq> CHR 0x5C \<Longrightarrow> quoted_body q (c # s)"
| escape: "quoted_body q s \<Longrightarrow> quoted_body q (CHR 0x5C # c # s)"

inductive balanced :: "string \<Rightarrow> bool" where
  empty: "balanced []"
| char: "balanced s \<Longrightarrow> c \<notin> {CHR 0x27, CHR 0x22, CHR ''['', CHR '']''} \<Longrightarrow> balanced (c # s)"
| quoted: "balanced s \<Longrightarrow> q \<in> {CHR 0x27, CHR 0x22} \<Longrightarrow> quoted_body q b \<Longrightarrow> balanced (q # b @ q # s)"
| nested: "balanced s \<Longrightarrow> balanced t \<Longrightarrow> balanced (CHR ''['' # s @ CHR '']'' # t)"

abbreviation scan :: "string \<Rightarrow> int \<Rightarrow> char option \<Rightarrow> nat \<Rightarrow> nat option" where
  "scan text \<equiv> scan_loop text (CHR ''['') (CHR '']'')"

lemma nth_at: "i = length pre \<Longrightarrow> (pre @ c # post) ! i = c" by simp

lemma scan_quoted:
  assumes "quoted_body q b" and "q \<in> {CHR 0x27, CHR 0x22}"
  shows "scan (pre @ b @ q # post) d (Some q) (length pre) = scan (pre @ b @ q # post) d None (length pre + length b + 1)"
  using assms(1)
proof (induction arbitrary: pre)
  case empty
  then show ?case using assms(2) by (subst scan_loop.simps) auto
next
  case (char s c)
  have "scan (pre @ (c # s) @ q # post) d (Some q) (length pre) = scan (pre @ (c # s) @ q # post) d (Some q) (length pre + 1)"
    using char.hyps by (subst scan_loop.simps) simp
  with char.IH [of "pre @ [c]"] show ?case by simp
next
  case (escape s c)
  have "scan (pre @ (CHR 0x5C # c # s) @ q # post) d (Some q) (length pre)
      = scan (pre @ (CHR 0x5C # c # s) @ q # post) d (Some q) (length pre + 2)"
    by (subst scan_loop.simps) simp
  with escape.IH [of "pre @ [CHR 0x5C, c]"] show ?case by simp
qed

lemma scan_balanced:
  assumes "balanced s" and "1 \<le> d"
  shows "scan (pre @ s @ post) d None (length pre) = scan (pre @ s @ post) d None (length pre + length s)"
  using assms
proof (induction arbitrary: pre post d)
  case (char s c)
  have "scan (pre @ (c # s) @ post) d None (length pre) = scan (pre @ (c # s) @ post) d None (length pre + 1)"
    using char.hyps by (subst scan_loop.simps) simp
  with char.IH [of d "pre @ [c]" post] char.prems show ?case by simp
next
  case (quoted s q b)
  let ?t = "pre @ (q # b @ q # s) @ post"
  have "scan ?t d None (length pre) = scan ?t d (Some q) (length pre + 1)"
    using quoted.hyps(2) by (subst scan_loop.simps) auto
  also have "\<dots> = scan ?t d None (length pre + length b + 2)"
    using scan_quoted [OF quoted.hyps(3,2), of "pre @ [q]" "s @ post" d] by simp
  also have "\<dots> = scan ?t d None (length pre + length b + 2 + length s)"
    using quoted.IH [OF quoted.prems, of "pre @ q # b @ [q]" post] by simp
  finally show ?case by (simp add: ac_simps)
next
  case (nested s t)
  let ?t = "pre @ (CHR ''['' # s @ CHR '']'' # t) @ post"
  have "scan ?t d None (length pre) = scan ?t (d + 1) None (length pre + 1)"
    by (subst scan_loop.simps) (simp add: Let_def)
  also have "\<dots> = scan ?t (d + 1) None (length pre + 1 + length s)"
    using nested.IH(1) [of "d + 1" "pre @ ''[''" "CHR '']'' # t @ post"] nested.prems by simp
  also have "\<dots> = scan ?t d None (length pre + 1 + length s + 1)"
    using nested.prems by (subst scan_loop.simps) (simp add: nth_append Let_def)
  also have "\<dots> = scan ?t d None (length pre + 1 + length s + 1 + length t)"
    using nested.IH(2) [OF nested.prems, of "pre @ ''['' @ s @ '']''" post] by simp
  finally show ?case by (simp add: ac_simps)
qed simp

lemma scan_matching_bracket_balanced:
  assumes "balanced s"
  shows "scan_matching_bracket (pre @ ''['' @ s @ '']'' @ post) (length pre) (CHR ''['') (CHR '']'')
    = Inr (length pre + length s + 2)"
proof -
  let ?t = "pre @ ''['' @ s @ '']'' @ post"
  have "scan ?t 0 None (length pre) = scan ?t 1 None (length pre + 1)"
    by (subst scan_loop.simps) (simp add: Let_def)
  also have "\<dots> = scan ?t 1 None (length pre + 1 + length s)"
    using scan_balanced [OF assms, of 1 "pre @ ''[''" "'']'' @ post"] by simp
  also have "\<dots> = Some (length pre + length s + 2)"
    by (subst scan_loop.simps) (simp add: nth_append)
  finally show ?thesis by (simp add: scan_matching_bracket_def)
qed

section \<open>Searching\<close>

lemma re_search_hit: "pos \<le> length text \<Longrightarrow> m (drop pos text) = Some (g, n) \<Longrightarrow> re_search m text pos = Some (g, pos + n)"
  by (subst re_search.simps) simp

lemma re_search_skip:
  assumes "\<And>c s. c \<in> set pre \<Longrightarrow> m (c # s) = None"
  shows "re_search m (a @ pre @ s) (length a) = re_search m (a @ pre @ s) (length a + length pre)"
  using assms
proof (induction pre arbitrary: a)
  case (Cons c pre)
  have "re_search m (a @ (c # pre) @ s) (length a) = re_search m ((a @ [c]) @ pre @ s) (length (a @ [c]))"
    using Cons.prems by (subst re_search.simps) simp
  also have "\<dots> = re_search m ((a @ [c]) @ pre @ s) (length (a @ [c]) + length pre)"
    by (rule Cons.IH) (simp add: Cons.prems)
  finally show ?case by simp
qed simp

lemma match_decl_first: "lit \<noteq> [] \<Longrightarrow> c \<noteq> hd lit \<Longrightarrow> match_decl lit sep (c # s) = None"
  by (cases lit) (auto simp: match_decl_def)

lemma takeWhile_stop: "\<forall>c \<in> set w. P c \<Longrightarrow> \<not> P d \<Longrightarrow> takeWhile P (w @ d # s) = w"
  by (induction w) auto

lemma match_decl_hit:
  assumes "name \<noteq> []" and "\<forall>c \<in> set name. is_word c"
  shows "match_decl lit (CHR ''='') (lit @ name @ '' ='' @ s) = Some (name, length lit + length name + 2)"
    and "match_decl lit (CHR '':'') (lit @ name @ '' :'' @ s) = Some (name, length lit + length name + 2)"
proof -
  have "takeWhile is_word (name @ CHR '' '' # t) = name" for t
    by (rule takeWhile_stop [OF assms(2)]) (simp add: is_word_def)
  then show "match_decl lit (CHR ''='') (lit @ name @ '' ='' @ s) = Some (name, length lit + length name + 2)"
    and "match_decl lit (CHR '':'') (lit @ name @ '' :'' @ s) = Some (name, length lit + length name + 2)"
    using assms(1) by (simp_all add: match_decl_def Let_def is_space_def)
qed

lemma HAPI_STATUS_first: "c \<noteq> CHR ''H'' \<Longrightarrow> HAPI_STATUS_RE (c # s) = None"
  by (simp add: HAPI_STATUS_RE_def)

lemma HAPI_STATUS_hit:
  "\<exists>n. HAPI_STATUS_RE (''HAPI_STATUS:'' @ str_int i @ '' '' @ s) = Some (str_int i, n)"
proof -
  have dg: "takeWhile is_digit (str_nat k @ CHR '' '' # s) = str_nat k" for k
    by (rule takeWhile_stop) (use str_nat_digits in \<open>auto simp: is_digit_def\<close>)
  have first: "\<not> is_space (hd (str_nat k)) \<and> hd (str_nat k) \<noteq> CHR ''-''" for k
    using str_nat_digits [of "hd (str_nat k)" k] by simp
  have sp: "takeWhile is_space (str_nat k @ CHR '' '' # s) = []" for k
    using first [of k] by (cases "str_nat k") auto
  show ?thesis
  proof (cases "i < 0")
    case True
    then show ?thesis
      using dg [of "nat (- i)"] by (simp add: HAPI_STATUS_RE_def signed_digits_def Let_def str_int_def is_space_def)
  next
    case False
    then show ?thesis
      using dg [of "nat i"] sp [of "nat i"] first [of "nat i"]
      by (simp add: HAPI_STATUS_RE_def signed_digits_def Let_def str_int_def is_space_def hd_append)
  qed
qed

section \<open>A rendered response\<close>

definition LF :: string where "LF = [CHR 0x0A]"

text \<open>The shape of the corpus, with an arbitrary banner and arbitrary array text.\<close>

definition render_webvar :: "string \<Rightarrow> string \<Rightarrow> string \<Rightarrow> string \<Rightarrow> int \<Rightarrow> string \<Rightarrow> string" where
  "render_webvar banner name struct arr status rest =
     banner @ ''WEBVAR_JSONVAR_'' @ name @ '' ='' @ LF @ '' {'' @ LF @ '' WEBVAR_STRUCTNAME_'' @ struct @ '' :'' @ LF
     @ '' ['' @ arr @ ''],'' @ LF @ '' HAPI_STATUS:'' @ str_int status @ '' '' @ rest"

lemma skip_whitespace_past:
  "\<forall>c \<in> set w. is_space c \<Longrightarrow> \<not> is_space d \<Longrightarrow> skip_whitespace (a @ w @ d # s) (length a) = length a + length w"
proof (induction w arbitrary: a)
  case Nil
  then show ?case by (subst skip_whitespace.simps) simp
next
  case (Cons c w)
  from Cons.IH [of "a @ [c]"] Cons.prems show ?case by (subst skip_whitespace.simps) simp
qed

lemma as_records_map [simp]: "as_records (map LitDict rs) = Some rs"
  by (induction rs) auto

lemma dropWhile_keeps: "c \<in> set s \<Longrightarrow> \<not> P c \<Longrightarrow> c \<in> set (dropWhile P s)"
  by (induction s) auto

lemma strip_keeps: "c \<in> set s \<Longrightarrow> \<not> is_space c \<Longrightarrow> c \<in> set (strip s)"
  using dropWhile_keeps [of c s is_space] dropWhile_keeps [of c "rev (lstrip s)" is_space]
  by (simp add: strip_def lstrip_def)

lemma re_search_decl:
  assumes "lit \<noteq> []" and "hd lit \<notin> set pre" and "name \<noteq> []" and "\<forall>c \<in> set name. is_word c"
    and "sep \<in> {CHR ''='', CHR '':''}"
  shows "re_search (match_decl lit sep) (a @ pre @ lit @ name @ CHR '' '' # sep # s) (length a)
    = Some (name, length (a @ pre @ lit @ name) + 2)"
proof -
  let ?t = "a @ pre @ lit @ name @ CHR '' '' # sep # s"
  have "re_search (match_decl lit sep) ?t (length a) = re_search (match_decl lit sep) ?t (length a + length pre)"
    by (rule re_search_skip) (use assms(1,2) in \<open>auto intro!: match_decl_first\<close>)
  also have "\<dots> = Some (name, length a + length pre + (length lit + length name + 2))"
    by (rule re_search_hit) (use match_decl_hit [OF assms(3,4), of lit s] assms(5) in auto)
  finally show ?thesis by (simp add: ac_simps)
qed

lemma re_search_status:
  assumes "CHR ''H'' \<notin> set pre"
  shows "\<exists>n. re_search HAPI_STATUS_RE (a @ pre @ ''HAPI_STATUS:'' @ str_int i @ '' '' @ s) (length a) = Some (str_int i, n)"
proof -
  let ?t = "a @ pre @ ''HAPI_STATUS:'' @ str_int i @ '' '' @ s"
  obtain n where n: "HAPI_STATUS_RE (''HAPI_STATUS:'' @ str_int i @ '' '' @ s) = Some (str_int i, n)"
    using HAPI_STATUS_hit by blast
  have "re_search HAPI_STATUS_RE ?t (length a) = re_search HAPI_STATUS_RE ?t (length a + length pre)"
    by (rule re_search_skip) (use assms in \<open>auto intro!: HAPI_STATUS_first\<close>)
  also have "\<dots> = Some (str_int i, length a + length pre + n)"
    by (rule re_search_hit) (use n in simp_all)
  finally show ?thesis by blast
qed

lemma parse_render_webvar:
  assumes banner: "CHR ''W'' \<notin> set banner" and arr: "balanced arr"
    and name: "name \<noteq> []" "\<forall>c \<in> set name. is_word c" and struct: "struct \<noteq> []" "\<forall>c \<in> set struct. is_word c"
    and le: "literal_eval (''['' @ arr @ '']'') = Some (LitList (map LitDict rs))"
  shows "parse_webvar literal_eval (render_webvar banner name struct arr status rest) ep op =
    Inr \<lparr>variable_name = name, struct_name = struct, records = drop_sentinel rs, hapi_status = status\<rparr>"
proof -
  define body where "body = render_webvar banner name struct arr status rest"
  define p1 where "p1 = banner @ ''WEBVAR_JSONVAR_'' @ name @ '' =''"
  define p2 where "p2 = p1 @ (LF @ '' {'' @ LF @ '' '') @ ''WEBVAR_STRUCTNAME_'' @ struct @ '' :''"
  define p3 where "p3 = p2 @ LF @ '' ''"
  define p4 where "p4 = p3 @ ''['' @ arr @ '']''"
  define fin where "fin = ('','' @ LF @ '' '') @ ''HAPI_STATUS:'' @ str_int status @ '' '' @ rest"
  have b4: "body = p4 @ fin" by (simp add: body_def render_webvar_def fin_def p4_def p3_def p2_def p1_def)
  have b3: "body = p3 @ ''['' @ arr @ '']'' @ fin" by (simp add: b4 p4_def)
  obtain r2 where b2: "body = p2 @ (LF @ '' '') @ CHR ''['' # r2" by (simp add: b3 p3_def)
  obtain r1 where b1: "body = p1 @ (LF @ '' {'' @ LF @ '' '') @ ''WEBVAR_STRUCTNAME_'' @ struct @ CHR '' '' # CHR '':'' # r1"
    by (simp add: b2 p2_def)
  obtain r0 where b0: "body = [] @ banner @ ''WEBVAR_JSONVAR_'' @ name @ CHR '' '' # CHR ''='' # r0"
    by (simp add: b1 p1_def)
  have s0: "strip body \<noteq> []"
    using strip_keeps [of "CHR ''W''" body] by (auto simp: b0 is_space_def)
  have s1: "re_search JSONVAR_RE body 0 = Some (name, length p1)"
    unfolding b0 JSONVAR_RE_def using re_search_decl [OF _ _ name, of "''WEBVAR_JSONVAR_''" banner "CHR ''=''" "[]" r0] banner
    by (simp add: p1_def)
  have s2: "re_search STRUCTNAME_RE body (length p1) = Some (struct, length p2)"
    unfolding b1 STRUCTNAME_RE_def
    using re_search_decl [OF _ _ struct, of "''WEBVAR_STRUCTNAME_''" "LF @ '' {'' @ LF @ '' ''" "CHR '':''" p1 r1]
    by (simp add: p2_def LF_def)
  have s3: "skip_whitespace body (length p2) = length p3"
    unfolding b2 using skip_whitespace_past [of "LF @ '' ''" "CHR ''[''" p2 r2]
    by (simp add: p3_def LF_def is_space_def)
  have s4: "scan_matching_bracket body (length p3) (CHR ''['') (CHR '']'') = Inr (length p4)"
    unfolding b3 using scan_matching_bracket_balanced [OF arr, of p3 fin] by (simp add: p4_def)
  have s5: "pslice (length p3) (length p4) body = ''['' @ arr @ '']''"
    by (simp add: b3 p4_def pslice_def)
  obtain n where s6: "re_search HAPI_STATUS_RE body (length p4) = Some (str_int status, n)"
    unfolding b4 fin_def using re_search_status [of "'','' @ LF @ '' ''" p4 status rest] by (auto simp: LF_def)
  have s7: "length p3 < length body" "body ! length p3 = CHR ''[''" by (simp_all add: b3 nth_append)
  show ?thesis
    unfolding body_def [symmetric] parse_webvar_def Let_def
    using le by (simp add: s0 s1 s2 s3 s4 s5 s6 s7 not_le)
qed

section \<open>Nothing but a protocol error, nothing half parsed\<close>

lemma HAPI_STATUS_group_int:
  assumes "HAPI_STATUS_RE s = Some (g, n)"
  shows "py_int g \<noteq> None"
proof -
  obtain t where "signed_digits t = Some g"
    using assms by (auto simp: HAPI_STATUS_RE_def Let_def split: if_splits option.splits)
  moreover define sign where "sign = (if t \<noteq> [] \<and> hd t = CHR ''-'' then ''-'' else [])"
  moreover define digits where "digits = takeWhile is_digit (drop (length sign) t)"
  ultimately have g: "g = sign @ digits" and d: "digits = takeWhile is_digit (drop (length sign) t)" "digits \<noteq> []"
    and sign: "sign = [] \<or> sign = ''-''"
    by (auto simp: signed_digits_def Let_def split: if_splits)
  have dg: "\<forall>c \<in> set digits. is_digit c" using d(1) by (auto dest: set_takeWhileD)
  have ns: "is_digit c \<Longrightarrow> \<not> is_space c \<and> c \<noteq> CHR ''-'' \<and> c \<noteq> CHR ''+''" for c
    by (auto simp: is_digit_def is_space_def)
  have dv: "digits_val acc ds \<noteq> None" if "\<forall>c \<in> set ds. is_digit c" for acc ds
    using that by (induction ds arbitrary: acc) auto
  have u: "unsigned_val digits \<noteq> None"
    using d(2) dg dv [of digits 0] by (cases digits) (auto simp: unsigned_val_def)
  have "\<not> is_space (CHR ''-'')" by (simp add: is_space_def)
  with g sign dg ns have st: "strip g = g" by (intro strip_nonspace) fastforce
  obtain c cs where c: "digits = c # cs" using d(2) by (cases digits) auto
  then have "c \<noteq> CHR ''-'' \<and> c \<noteq> CHR ''+''" using ns dg by simp
  with st u sign g c show ?thesis by (auto simp: py_int_def Let_def)
qed

lemma re_search_group: "re_search m s pos = Some (g, e) \<Longrightarrow> \<exists>t n. m t = Some (g, n)"
proof (induction m s pos rule: re_search.induct)
  case (1 m s pos)
  show ?case
  proof (cases "m (drop pos s)")
    case None
    with 1 show ?thesis by (auto simp: re_search.simps [of m s pos] split: if_splits)
  next
    case (Some a)
    with 1 show ?thesis by (cases a) (auto simp: re_search.simps [of m s pos] split: if_splits)
  qed
qed

lemma parse_webvar_error:
  assumes "parse_webvar literal_eval body ep op = Inl e"
  shows "e = webvar_error ep op"
proof -
  have "py_int g \<noteq> None" if "re_search HAPI_STATUS_RE body k = Some (g, n)" for g k n
    using re_search_group [OF that] HAPI_STATUS_group_int by blast
  then have "re_search HAPI_STATUS_RE body k = Some (g, n) \<Longrightarrow> py_int g = None \<Longrightarrow> False" for g k n by blast
  with assms show ?thesis
    by (fastforce simp: parse_webvar_def Let_def split: if_splits option.splits sum.splits)
qed

section \<open>Properties\<close>

text \<open>C37. Parsing inverts rendering: a \<open>WEBVAR_JSONVAR\<close> body as the BMC prints it, with any banner that
  has no capital W, word-character names, any balanced array text, a signed status and anything after
  it, parses to those names, the records \<open>ast.literal_eval\<close> reads from the array less the trailing
  empty sentinel, and that status.\<close>

theorem webvar_roundtrip:
  assumes "CHR ''W'' \<notin> set banner" and "balanced arr"
    and "name \<noteq> []" and "\<forall>c \<in> set name. is_word c" and "struct \<noteq> []" and "\<forall>c \<in> set struct. is_word c"
    and "literal_eval (''['' @ arr @ '']'') = Some (LitList (map LitDict rs))"
  shows "parse_webvar literal_eval (render_webvar banner name struct arr status rest) ep op =
    Inr \<lparr>variable_name = name, struct_name = struct, records = drop_sentinel rs, hapi_status = status\<rparr>"
  by (rule parse_render_webvar) fact+

text \<open>An array text with a bracket inside a string, and the records it stands for.\<close>

definition sample_array :: string where
  "sample_array = CHR ''{'' # CHR 0x27 # ''a]'' @ CHR 0x27 # '':1},{}''"

definition sample_rows :: "webvar_record list" where
  "sample_rows = [[(LitStr ''a]'', LitInt 1)], []]"

lemma sample_array_balanced: "balanced sample_array"
proof -
  have "quoted_body (CHR 0x27) ''a]''" by (intro quoted_body.intros) simp_all
  moreover have "balanced '':1},{}''" by (intro balanced.char balanced.empty) simp_all
  ultimately have "balanced (CHR 0x27 # ''a]'' @ CHR 0x27 # '':1},{}'')" by (intro balanced.quoted) simp_all
  then show ?thesis unfolding sample_array_def by (rule balanced.char) simp
qed

theorem webvar_roundtrip_witness:
  "parse_webvar (\<lambda>s. if s = ''['' @ sample_array @ '']'' then Some (LitList (map LitDict sample_rows)) else None)
      (render_webvar ''//x'' ''HLGETALL'' ''HLGETALL'' sample_array 0 ''};'') None None
    = Inr \<lparr>variable_name = ''HLGETALL'', struct_name = ''HLGETALL'', records = [[(LitStr ''a]'', LitInt 1)]], hapi_status = 0\<rparr>"
proof -
  have "drop_sentinel sample_rows = [[(LitStr ''a]'', LitInt 1)]]" by (simp add: drop_sentinel_def sample_rows_def)
  moreover have "\<forall>c \<in> set ''HLGETALL''. is_word c" by code_simp
  ultimately show ?thesis
    using webvar_roundtrip [of "''//x''" sample_array "''HLGETALL''" "''HLGETALL''"
        "\<lambda>s. if s = ''['' @ sample_array @ '']'' then Some (LitList (map LitDict sample_rows)) else None" sample_rows 0 "''};''" None None]
      sample_array_balanced by simp
qed

text \<open>The parser never lets a Python error of its own out: whatever the body and whatever
  \<open>literal_eval\<close> makes of its array, the outcome is a response or the protocol error of the calling
  operation.\<close>

theorem webvar_errors:
  "parse_webvar literal_eval body ep op = Inl (webvar_error ep op)
   \<or> (\<exists>r. parse_webvar literal_eval body ep op = Inr r)"
  using parse_webvar_error [of literal_eval body ep op] by (cases "parse_webvar literal_eval body ep op") auto

end
