(* ===== verification/Asp_Parse.thy ===== *)
theory Asp_Parse
  imports Ikvm_Models Webvar
begin

text \<open>
  The parts of \<open>plugins/module_utils/asp.py\<close> that do not talk to the BMC: fingerprint normalisation, the
  transport and trust policies, the recognition of failed logins and of the session-expired page, and
  the JNLP argument parser. \<open>urllib3\<close>'s context constructor and the loading of a CA file are arguments.
\<close>

section \<open>Trust policy\<close>

definition tls_error :: exn where
  "tls_error = Ikvm \<lparr>error_class = TLS_VALIDATION, endpoint = None, operation = None,
     indeterminate = False, return_value = None\<rparr>"

definition BMC_CIPHERS :: string where
  "BMC_CIPHERS = ''AES256-GCM-SHA384:AES128-GCM-SHA256:AES256-SHA256:AES128-SHA256:AES256-SHA:AES128-SHA''"

definition FINGERPRINT_HEX_LENGTH :: nat where
  "FINGERPRINT_HEX_LENGTH = 64"

definition HEX_DIGITS :: string where
  "HEX_DIGITS = ''0123456789abcdef''"

definition HEX_RE :: regex where
  "HEX_RE = rx_seq [RxStart, rx_plus (rx_in HEX_DIGITS), RxEnd]"

definition normalize_fingerprint :: "string \<Rightarrow> exn + string" where
  "normalize_fingerprint raw =
     (if strip raw = [] then Inl tls_error
      else let lowered = py_lower (strip raw);
               bare = (if starts_with lowered ''sha256:'' then drop 7 lowered else lowered);
               candidate = replace '' '' [] (replace '':'' [] bare)
           in if length candidate \<noteq> FINGERPRINT_HEX_LENGTH \<or> rx_match HEX_RE candidate = None then Inl tls_error
              else Inr candidate)"

definition enforce_transport_policy :: "bool \<Rightarrow> bool \<Rightarrow> exn + unit" where
  "enforce_transport_policy use_tls allow_insecure_transport =
     (if use_tls \<or> allow_insecure_transport then Inr () else Inl tls_error)"

record tls_trust_policy =
  validate_certs :: bool
  ca_path :: "string option"
  fingerprint :: "string option"

text \<open>Python truth of an optional string.\<close>

definition given :: "string option \<Rightarrow> bool" where
  "given s = (case s of None \<Rightarrow> False | Some t \<Rightarrow> t \<noteq> [])"

definition policy_create :: "bool \<Rightarrow> string option \<Rightarrow> string option \<Rightarrow> exn + tls_trust_policy" where
  "policy_create validate ca tls_fingerprint =
     (if given ca \<and> given tls_fingerprint then Inl tls_error
      else if given tls_fingerprint then
        (case normalize_fingerprint (the tls_fingerprint) of
           Inl e \<Rightarrow> Inl e
         | Inr f \<Rightarrow> Inr \<lparr>validate_certs = validate, ca_path = ca, fingerprint = Some f\<rparr>)
      else Inr \<lparr>validate_certs = validate, ca_path = ca, fingerprint = None\<rparr>)"

definition pinned :: "tls_trust_policy \<Rightarrow> bool" where
  "pinned p \<longleftrightarrow> fingerprint p \<noteq> None"

datatype verify_mode = CERT_NONE | CERT_OPTIONAL | CERT_REQUIRED
datatype tls_version = TLSv1 | TLSv1_1 | TLSv1_2 | TLSv1_3

record ssl_context =
  minimum_version :: tls_version
  check_hostname :: bool
  verify_mode :: verify_mode
  verify_locations :: "string list"

text \<open>\<open>make_context\<close> is \<open>create_urllib3_context(ciphers=...)\<close>; \<open>load_ca\<close> is what
  \<open>load_verify_locations\<close> raises for a path, if anything.\<close>

definition build_ssl_context ::
  "(string \<Rightarrow> ssl_context) \<Rightarrow> (string \<Rightarrow> exn option) \<Rightarrow> tls_trust_policy \<Rightarrow> exn + ssl_context" where
  "build_ssl_context make_context load_ca p =
     (let context = (make_context BMC_CIPHERS)\<lparr>minimum_version := TLSv1_2\<rparr> in
      if pinned p \<or> \<not> validate_certs p then
        Inr (context\<lparr>check_hostname := False, verify_mode := CERT_NONE\<rparr>)
      else let context1 = context\<lparr>check_hostname := True, verify_mode := CERT_REQUIRED\<rparr> in
        if given (ca_path p) then
          (case load_ca (the (ca_path p)) of Some e \<Rightarrow> Inl e
           | None \<Rightarrow> Inr (context1\<lparr>verify_locations := verify_locations context1 @ [the (ca_path p)]\<rparr>))
        else Inr context1)"

text \<open>What \<open>AmiLegacyTlsAdapter\<close> hands to \<open>urllib3\<close>'s pool and proxy managers.\<close>

record pool_options =
  po_ssl_context :: ssl_context
  po_assert_fingerprint :: "string option"

definition init_poolmanager ::
  "(string \<Rightarrow> ssl_context) \<Rightarrow> (string \<Rightarrow> exn option) \<Rightarrow> tls_trust_policy \<Rightarrow> exn + pool_options" where
  "init_poolmanager make_context load_ca p = (case build_ssl_context make_context load_ca p of
       Inl e \<Rightarrow> Inl e
     | Inr ctx \<Rightarrow> Inr \<lparr>po_ssl_context = ctx, po_assert_fingerprint = (if pinned p then fingerprint p else None)\<rparr>)"

datatype verify_arg = VerifyFalse | VerifyTrue | VerifyPath string

definition effective_verify :: "tls_trust_policy \<Rightarrow> verify_arg \<Rightarrow> verify_arg" where
  "effective_verify p verify =
     (if pinned p \<or> \<not> validate_certs p then VerifyFalse
      else if given (ca_path p) then VerifyPath (the (ca_path p))
      else verify)"

section \<open>Failed logins and the session-expired page\<close>

definition FAILURE_LOGIN_PREFIX :: string where
  "FAILURE_LOGIN_PREFIX = ''Failure_Login''"

definition quote_chr :: char where "quote_chr = CHR 0x27"

text \<open>\<open>'NAME'\s*:\s*'([^']*)'\<close>.\<close>

definition field_re :: "string \<Rightarrow> regex" where
  "field_re name = rx_seq [rx_lit (quote_chr # name @ [quote_chr]), rx_ws, rx_chr (CHR '':''), rx_ws, rx_chr quote_chr,
     RxGroup 1 (RxStar (RxCls (\<lambda>c. c \<noteq> quote_chr))), rx_chr quote_chr]"

definition SESSION_COOKIE_RE :: regex where "SESSION_COOKIE_RE = field_re ''SESSION_COOKIE''"
definition STOKEN_RE :: regex where "STOKEN_RE = field_re ''STOKEN''"
definition CSRFTOKEN_RE :: regex where "CSRFTOKEN_RE = field_re ''CSRFTOKEN''"

definition looks_like_failed_login :: "string \<Rightarrow> bool" where
  "looks_like_failed_login session_cookie = starts_with session_cookie FAILURE_LOGIN_PREFIX"

definition SESSION_EXPIRED_HTML_TAG_RE :: regex where
  "SESSION_EXPIRED_HTML_TAG_RE = RxAlt (RxSeq (rx_ilit ''<html'') RxWordB)
     (rx_seq [rx_ilit ''<!doctype'', rx_plus (RxCls is_space), rx_ilit ''html''])"

definition SESSION_EXPIRED_LOGIN_MARKER_RE :: regex where
  "SESSION_EXPIRED_LOGIN_MARKER_RE = RxAlt (rx_seq [RxWordB, rx_ilit ''login'', RxWordB])
     (rx_seq [RxWordB, rx_ilit ''session'', RxWordB])"

definition WEBVAR_JSONVAR_MARKER :: string where
  "WEBVAR_JSONVAR_MARKER = ''WEBVAR_JSONVAR_''"

definition looks_like_session_expired_html :: "string \<Rightarrow> bool" where
  "looks_like_session_expired_html body \<longleftrightarrow> body \<noteq> [] \<and> \<not> sublist WEBVAR_JSONVAR_MARKER body
     \<and> rx_search SESSION_EXPIRED_HTML_TAG_RE body \<noteq> None
     \<and> rx_search SESSION_EXPIRED_LOGIN_MARKER_RE body \<noteq> None"

section \<open>JNLP arguments\<close>

definition ARGUMENT_RE :: regex where
  "ARGUMENT_RE = rx_seq [rx_lit ''<argument>'', rx_ws, RxGroup 1 (RxLazy (RxCls (\<lambda>c. True))), rx_ws, rx_lit ''</argument>'']"

definition unescape_entities :: "string \<Rightarrow> string" where
  "unescape_entities text = replace ''&apos;'' [quote_chr] (replace ''&quot;'' [CHR 0x22]
     (replace ''&gt;'' ''>'' (replace ''&lt;'' ''<'' (replace ''&amp;'' ''&'' text))))"

text \<open>The loop over the extracted values.\<close>

fun pair_arguments :: "string list \<Rightarrow> arguments \<Rightarrow> arguments" where
  "pair_arguments (name # v # rest) args =
     (if starts_with name ''-'' then pair_arguments rest (dict_set (py_lower (drop 1 name)) v args)
      else pair_arguments (v # rest) args)"
| "pair_arguments _ args = args"

definition parse_jnlp_arguments :: "string \<Rightarrow> arguments" where
  "parse_jnlp_arguments document =
     pair_arguments (map (\<lambda>m. unescape_entities (rx_group 1 m)) (rx_finditer ARGUMENT_RE document)) []"

section \<open>Facts\<close>

lemma replace_single: "replace [c] [] t = filter (\<lambda>x. x \<noteq> c) t"
proof (induction t)
  case (Cons d t)
  show ?case
  proof (cases "d = c")
    case True
    then show ?thesis using Cons by (simp add: replace_match)
  next
    case False
    then show ?thesis using Cons by (simp add: replace_step)
  qed
qed simp

lemma py_lower_filter:
  "(\<And>x. P (to_lower x) = P x) \<Longrightarrow> py_lower (filter P s) = filter P (py_lower s)"
  by (induction s) simp_all

lemma to_lower_separators: "(to_lower x \<noteq> CHR '':'') = (x \<noteq> CHR '':'')" "(to_lower x \<noteq> CHR '' '') = (x \<noteq> CHR '' '')"
proof -
  have "to_lower x = c \<longleftrightarrow> x = c" if "(of_char c :: nat) < 65" for c using to_lower_below [OF that, of x] by simp
  then show "(to_lower x \<noteq> CHR '':'') = (x \<noteq> CHR '':'')" "(to_lower x \<noteq> CHR '' '') = (x \<noteq> CHR '' '')"
    by simp_all
qed

lemma hex_run:
  assumes "set h \<subseteq> set HEX_DIGITS" and "h \<noteq> []"
  shows "rx_match HEX_RE h \<noteq> None"
proof -
  obtain c t where h: "h = c # t" using assms(2) by (cases h) auto
  let ?st = "\<lparr>rx_before = Some c, rx_rest = t, rx_groups = []\<rparr>"
  have "rx_star_iter (rx_all (rx_in HEX_DIGITS)) (length t) ?st = map (\<lambda>i. rx_skip i ?st) (rev [0..<Suc (length t)])"
    by (rule rx_star_iter_cls(1) [where w = "[]"]) (use assms(1) h in auto)
  then have "rx_all (RxStar (rx_in HEX_DIGITS)) ?st = rx_skip (length t) ?st # map (\<lambda>i. rx_skip i ?st) (rev [0..<length t])"
    by (simp del: rx_all.simps(2))
  then show ?thesis
    using assms(1) h by (simp add: rx_match_def rx_exec_def HEX_RE_def rx_plus_def)
qed

lemma hex_match:
  assumes "rx_match HEX_RE s \<noteq> None"
  shows "\<exists>h. set h \<subseteq> set HEX_DIGITS \<and> (s = h \<or> s = h @ [CHR 0x0A])"
proof -
  from assms obtain x where "x \<in> set (rx_all HEX_RE \<lparr>rx_before = None, rx_rest = s, rx_groups = []\<rparr>)"
    using rx_exec_mem by (fastforce simp: rx_match_def)
  then obtain st0 st1 where st: "st0 \<in> set (rx_all (rx_in HEX_DIGITS) \<lparr>rx_before = None, rx_rest = s, rx_groups = []\<rparr>)"
      "st1 \<in> set (rx_all (RxStar (rx_in HEX_DIGITS)) st0)" "rx_rest st1 = [] \<or> rx_rest st1 = [CHR 0x0A]"
    unfolding HEX_RE_def rx_plus_def rx_seq.simps rx_all.simps(3)
    by (auto simp del: rx_all.simps(2,5) split: if_splits)
  from rx_cls_step [OF st(1)] rx_star_cls_run [OF st(2)] obtain c h
    where "s = c # h @ rx_rest st1" "c \<in> set HEX_DIGITS" "\<forall>d \<in> set h. d \<in> set HEX_DIGITS" by auto
  with st(3) show ?thesis by (auto intro!: exI [of _ "c # h"])
qed

lemma normalize_result:
  assumes "normalize_fingerprint raw = Inr f"
  shows "length f = 64" and "\<exists>h. set h \<subseteq> set HEX_DIGITS \<and> (f = h \<or> f = h @ [CHR 0x0A])"
  using assms hex_match [of f]
  by (auto simp: normalize_fingerprint_def Let_def FINGERPRINT_HEX_LENGTH_def split: if_splits)

lemma field_goes:
  assumes "\<forall>c \<in> set w1. is_space c" and "\<forall>c \<in> set w2. is_space c" and "quote_chr \<notin> set v"
  shows "rx_goes (field_re name)
    ((quote_chr # name @ [quote_chr]) @ w1 @ CHR '':'' # w2 @ quote_chr # v @ quote_chr # s) [] s [(1, v)]"
proof -
  have ns: "\<not> is_space (CHR '':'')" "\<not> is_space quote_chr" by (simp_all add: is_space_def quote_chr_def)
  have grp: "rx_goes (RxGroup 1 (RxStar (RxCls (\<lambda>c. c \<noteq> quote_chr)))) (v @ quote_chr # s) [] (quote_chr # s) [(1, v)]"
    by (rule rx_goes_group, rule rx_goes_star) (use assms(3) in auto)
  show ?thesis
    unfolding field_re_def rx_seq.simps
    by (rule rx_goes_seq [OF rx_goes_lit], rule rx_goes_seq [OF rx_goes_star],
        use assms(1) ns in \<open>simp_all\<close>, rule rx_goes_seq [OF rx_goes_cls], simp,
        rule rx_goes_seq [OF rx_goes_star], use assms(2) ns in \<open>simp_all\<close>,
        rule rx_goes_seq [OF rx_goes_cls], simp, rule rx_goes_seq, rule grp [unfolded One_nat_def],
        rule rx_goes_cls, simp)
qed

lemma starts_with_in: "starts_with s l \<Longrightarrow> l \<noteq> [] \<Longrightarrow> s \<noteq> [] \<and> hd s = hd l"
  by (cases s; cases l) auto

text \<open>No match of a pattern led by a literal starts inside a text where the literal does not.\<close>

lemma lit_absent:
  assumes "\<not> sublist l (pre @ butlast l)" and "i < length pre"
  shows "\<not> starts_with (drop i (pre @ l @ s)) l"
proof
  assume "starts_with (drop i (pre @ l @ s)) l"
  then obtain t where t: "drop i (pre @ l @ s) = l @ t" by (auto simp: starts_with_iff)
  have "l \<noteq> []" using assms(1) by auto
  then have whole: "pre @ l @ s = (pre @ butlast l) @ last l # s" by simp
  have "i + length l \<le> length (pre @ butlast l)" using assms(2) \<open>l \<noteq> []\<close> by (cases l) auto
  then have "l = take (length l) (drop i (pre @ butlast l))"
    using t unfolding whole by (metis append_eq_conv_conj drop_append take_append take_all length_drop
        add_le_imp_le_diff add.commute diff_is_0_eq take0 append_Nil2)
  then have "sublist l (pre @ butlast l)"
    by (metis sublist_drop sublist_order.order_trans sublist_take)
  with assms(1) show False by simp
qed

lemma field_search:
  assumes "\<not> sublist (quote_chr # name @ [quote_chr]) (pre @ quote_chr # name)"
    and "\<forall>c \<in> set w1. is_space c" and "\<forall>c \<in> set w2. is_space c" and "quote_chr \<notin> set v"
  shows "\<exists>x. rx_search (field_re name)
      (pre @ (quote_chr # name @ [quote_chr]) @ w1 @ CHR '':'' # w2 @ quote_chr # v @ quote_chr # s) = Some x
    \<and> rx_group 1 x = v"
proof -
  let ?l = "quote_chr # name @ [quote_chr]"
  have "\<not> sublist ?l (pre @ butlast ?l)" using assms(1) by (simp add: butlast_append)
  then have "rx_fails (field_re name) (drop i (pre @ ?l @ w1 @ CHR '':'' # w2 @ quote_chr # v @ quote_chr # s)) []"
    if "i < length pre" for i
    unfolding field_re_def rx_seq.simps by (intro rx_fails_seq rx_fails_lit lit_absent that)
  from rx_search_skip [OF this field_goes [OF assms(2,3,4)], of None] show ?thesis
    unfolding rx_search_def by (auto simp: rx_group_def)
qed

lemma fails_ws_lit:
  assumes "t \<noteq> []" and "\<not> is_space (last t)" and "c \<notin> set t" and "\<not> is_space c"
  shows "rx_fails (RxSeq rx_ws (rx_lit (c # l))) (t @ s) g"
  unfolding rx_fails_def
proof (intro allI impI)
  fix st :: rx_state assume st: "rx_rest st = t @ s"
  have "rx_all (rx_lit (c # l)) st1 = []" if st1: "st1 \<in> set (rx_all rx_ws st)" for st1
  proof -
    obtain h where h: "t @ s = h @ rx_rest st1" "\<forall>d \<in> set h. is_space d"
      using rx_star_cls_run [OF st1] st by auto
    have "length h < length t"
    proof (rule ccontr)
      assume "\<not> length h < length t"
      with h(1) have "t = take (length t) h" by (metis append_eq_conv_conj linorder_not_less take_all_iff take_append take_take min.absorb1 append_Nil2 diff_is_0_eq take0)
      with assms(1) have "last t \<in> set h" by (metis in_set_takeD last_in_set)
      with h(2) assms(2) show False by blast
    qed
    then have "rx_rest st1 = drop (length h) t @ s" "drop (length h) t \<noteq> []"
      using arg_cong [OF h(1), of "drop (length h)"] by simp_all
    moreover have "c \<notin> set (drop (length h) t)" using assms(3) in_set_dropD by fast
    ultimately show ?thesis by (cases "drop (length h) t") (auto simp: rx_all_lit)
  qed
  then show "rx_all (RxSeq rx_ws (rx_lit (c # l))) st = []" by (auto simp del: rx_lit.simps)
qed

definition plain_text :: "string \<Rightarrow> bool" where
  "plain_text t \<longleftrightarrow> CHR ''<'' \<notin> set t \<and> strip t = t"

text \<open>One argument element with its surrounding whitespace.\<close>

definition argument_element :: "string \<Rightarrow> string \<Rightarrow> string \<Rightarrow> string" where
  "argument_element w1 t w2 = ''<argument>'' @ w1 @ t @ w2 @ ''</argument>''"

lemma argument_goes:
  assumes "\<forall>c \<in> set w1. is_space c" and "\<forall>c \<in> set w2. is_space c" and "plain_text t"
  shows "rx_goes ARGUMENT_RE (argument_element w1 t w2 @ s) [] s [(1, t)]"
proof -
  let ?close = "''</argument>''"
  have lt: "\<not> is_space (CHR ''<'')" by (simp add: is_space_def)
  have tail: "rx_goes (RxSeq rx_ws (rx_lit ?close)) (w @ ?close @ s) g s g"
    if "\<forall>c \<in> set w. is_space c" for w g
    by (rule rx_goes_seq, rule rx_goes_star [OF that], use lt in simp, rule rx_goes_lit)
  have body: "rx_goes (RxSeq (RxGroup 1 (RxLazy (RxCls (\<lambda>c. True)))) (RxSeq rx_ws (rx_lit ?close))) (t @ w @ ?close @ s) [] s [(1, t)]"
    if w: "\<forall>c \<in> set w. is_space c" for w
  proof -
    have "rx_goes (RxSeq (RxGroup 1 (RxLazy (RxCls (\<lambda>c. True)))) (RxSeq rx_ws (rx_lit ?close))) ((t @ w @ ?close @ s) @ []) [] s [(1, t)]"
    proof (rule rx_goes_lazy [where k = "length t"])
      fix i assume i: "i < length t"
      have "rx_fails (RxSeq rx_ws (rx_lit ?close)) (drop i t @ w @ ?close @ s) g" for g
      proof (rule fails_ws_lit)
        show "\<not> is_space (last (drop i t))" using assms(3) i strip_idem_iff [of t] by (auto simp: plain_text_def)
        show "CHR ''<'' \<notin> set (drop i t)" using assms(3) in_set_dropD by (fastforce simp: plain_text_def)
      qed (use i lt in auto)
      then show "rx_fails (RxSeq rx_ws (rx_lit ?close)) (drop i ((t @ w @ ?close @ s) @ []))
          ((1, take i (t @ w @ ?close @ s)) # [])" using i by simp
    qed (use tail [OF w, of "[(1, t)]"] in simp_all)
    then show ?thesis by simp
  qed
  show ?thesis
  proof (cases "t = []")
    case True
    with body [of "[]"] have "rx_goes (RxSeq rx_ws (RxSeq (RxGroup 1 (RxLazy (RxCls (\<lambda>c. True)))) (RxSeq rx_ws (rx_lit ?close))))
        ((w1 @ w2) @ ?close @ s) [] s [(1, t)]"
      by (intro rx_goes_seq [OF rx_goes_star]) (use assms lt in auto)
    with True show ?thesis unfolding ARGUMENT_RE_def rx_seq.simps argument_element_def append_assoc
      by (intro rx_goes_seq [OF rx_goes_lit]) simp
  next
    case False
    have "rx_goes (RxSeq rx_ws (RxSeq (RxGroup 1 (RxLazy (RxCls (\<lambda>c. True)))) (RxSeq rx_ws (rx_lit ?close))))
        (w1 @ t @ w2 @ ?close @ s) [] s [(1, t)]"
      by (rule rx_goes_seq [OF rx_goes_star body])
        (use assms False strip_idem_iff [of t] in \<open>auto simp: plain_text_def\<close>)
    then show ?thesis unfolding ARGUMENT_RE_def rx_seq.simps argument_element_def append_assoc
      by (rule rx_goes_seq [OF rx_goes_lit])
  qed
qed

text \<open>A run of argument elements, each with its whitespace, its text and the text up to the next one.\<close>

type_synonym element = "string \<times> string \<times> string \<times> string"

fun render_elements :: "element list \<Rightarrow> string" where
  "render_elements [] = []"
| "render_elements ((w1, t, w2, gap) # es) = argument_element w1 t w2 @ gap @ render_elements es"

definition no_argument :: "string \<Rightarrow> bool" where
  "no_argument gap \<longleftrightarrow> \<not> sublist ''<argument>'' (gap @ ''<argument'')"

fun good_element :: "element \<Rightarrow> bool" where
  "good_element (w1, t, w2, gap) \<longleftrightarrow> (\<forall>c \<in> set w1. is_space c) \<and> (\<forall>c \<in> set w2. is_space c) \<and> plain_text t \<and> no_argument gap"

abbreviation element_text :: "element \<Rightarrow> string" where
  "element_text \<equiv> \<lambda>(w1, t, w2, gap). t"

lemma render_cases: "render_elements es = [] \<or> (\<exists>s. render_elements es = ''<argument>'' @ s)"
  by (cases es rule: render_elements.cases) (simp_all add: argument_element_def)

lemma skip_gap:
  assumes "no_argument gap"
  shows "\<exists>b'. rx_finditer_at ARGUMENT_RE b (gap @ render_elements es) = rx_finditer_at ARGUMENT_RE b' (render_elements es)"
proof (rule rx_finditer_skip)
  fix i assume i: "i < length gap"
  have abs: "\<not> starts_with (drop i (gap @ ''<argument>'' @ s)) ''<argument>''" for s
    by (rule lit_absent [OF _ i]) (use assms in \<open>simp add: no_argument_def\<close>)
  have "\<not> starts_with (drop i (gap @ render_elements es)) ''<argument>''"
  proof (cases "render_elements es = []")
    case True
    show ?thesis
    proof
      assume "starts_with (drop i (gap @ render_elements es)) ''<argument>''"
      then obtain t where "drop i gap = ''<argument>'' @ t" using True by (auto simp: starts_with_iff)
      then have "drop i (gap @ ''<argument>'') = ''<argument>'' @ t @ ''<argument>''" using i by simp
      then have "starts_with (drop i (gap @ ''<argument>'' @ [])) ''<argument>''" unfolding append_Nil2 starts_with_iff by blast
      with abs show False by blast
    qed
  next
    case False
    with render_cases [of es] abs show ?thesis by (metis (no_types))
  qed
  then show "rx_fails ARGUMENT_RE (drop i (gap @ render_elements es)) []"
    unfolding ARGUMENT_RE_def rx_seq.simps by (intro rx_fails_seq rx_fails_lit)
qed

lemma finditer_elements:
  "\<forall>e \<in> set es. good_element e \<Longrightarrow> map (rx_group 1) (rx_finditer_at ARGUMENT_RE b (render_elements es)) = map element_text es"
proof (induction es arbitrary: b rule: render_elements.induct)
  case 1
  then show ?case by (simp add: rx_finditer_at.simps)
next
  case (2 w1 t w2 gap es)
  then have good: "\<forall>c \<in> set w1. is_space c" "\<forall>c \<in> set w2. is_space c" "plain_text t" "no_argument gap" by auto
  have "length (gap @ render_elements es) < length (argument_element w1 t w2 @ gap @ render_elements es)"
    by (simp add: argument_element_def)
  then obtain x b1 where x: "rx_finditer_at ARGUMENT_RE b (argument_element w1 t w2 @ gap @ render_elements es)
      = x # rx_finditer_at ARGUMENT_RE b1 (gap @ render_elements es)" "rx_groups x = [(1, t)]"
    using rx_finditer_hit [OF argument_goes [OF good(1,2,3)]] by blast
  obtain b2 where "rx_finditer_at ARGUMENT_RE b1 (gap @ render_elements es) = rx_finditer_at ARGUMENT_RE b2 (render_elements es)"
    using skip_gap [OF good(4)] by blast
  with x 2 show ?case by (simp add: rx_group_def)
qed

lemma replace_head:
  assumes "old \<noteq> []" and "hd old \<noteq> c"
  shows "replace old new (c # t) = c # replace old new t"
  using assms by (cases old) (auto simp: replace_step)

lemma unescape_dash: "unescape_entities (CHR ''-'' # t) = CHR ''-'' # unescape_entities t"
  by (simp add: unescape_entities_def replace_head)

lemma replace_no_dash:
  assumes "\<not> starts_with t ''-''" and "old \<noteq> []" and "new \<noteq> []" and "hd new \<noteq> CHR ''-''"
  shows "\<not> starts_with (replace old new t) ''-''"
proof (cases t)
  case (Cons c s)
  with assms show ?thesis
    by (cases "starts_with t old"; cases new) (auto simp: replace_match replace_step)
qed simp

lemma unescape_no_dash: "\<not> starts_with t ''-'' \<Longrightarrow> \<not> starts_with (unescape_entities t) ''-''"
  unfolding unescape_entities_def by (intro replace_no_dash) (simp_all add: quote_chr_def)

lemma pair_positional:
  "\<forall>p \<in> set ps. \<not> starts_with p ''-'' \<Longrightarrow> pair_arguments (ps @ vs) args = pair_arguments vs args"
proof (induction ps)
  case (Cons p ps)
  then show ?case by (cases "ps @ vs") auto
qed simp

lemma pair_pairs:
  "pair_arguments (concat (map (\<lambda>(n, v). [CHR ''-'' # n, v]) kvs)) args
     = fold (\<lambda>(n, v). dict_set (py_lower n) v) kvs args"
  by (induction kvs arbitrary: args) auto

lemma parse_rendered_jnlp:
  assumes "no_argument pre" and "\<forall>e \<in> set es. good_element e"
    and "map element_text es = positional @ concat (map (\<lambda>(n, v). [CHR ''-'' # n, v]) pairs)"
    and "\<forall>p \<in> set positional. \<not> starts_with p ''-''"
  shows "parse_jnlp_arguments (pre @ render_elements es)
     = fold (\<lambda>(n, v). dict_set (py_lower (unescape_entities n)) (unescape_entities v)) pairs []"
proof -
  let ?kvs = "map (\<lambda>(n, v). (unescape_entities n, unescape_entities v)) pairs"
  obtain b where "rx_finditer ARGUMENT_RE (pre @ render_elements es) = rx_finditer_at ARGUMENT_RE b (render_elements es)"
    using skip_gap [OF assms(1)] unfolding rx_finditer_def by blast
  then have "map (rx_group 1) (rx_finditer ARGUMENT_RE (pre @ render_elements es)) = map element_text es"
    using finditer_elements [OF assms(2)] by metis
  then have "map unescape_entities (map (rx_group 1) (rx_finditer ARGUMENT_RE (pre @ render_elements es)))
      = map unescape_entities (positional @ concat (map (\<lambda>(n, v). [CHR ''-'' # n, v]) pairs))"
    using assms(3) by (simp only:)
  also have "\<dots> = map unescape_entities positional @ concat (map (\<lambda>(n, v). [CHR ''-'' # n, v]) ?kvs)"
    by (simp add: map_concat comp_def split_def unescape_dash)
  finally show ?thesis
    using pair_positional [of "map unescape_entities positional"] assms(4) unescape_no_dash pair_pairs [of ?kvs]
    by (simp add: parse_jnlp_arguments_def fold_map comp_def split_def One_nat_def [symmetric] del: One_nat_def)
qed

section \<open>Properties\<close>

text \<open>The JNLP argument scan reads back what the document says: from any text whose argument
  elements hold some positional arguments followed by flag/value pairs, with any whitespace inside the
  elements and any other text around them, \<open>parse_jnlp_arguments\<close> returns exactly the pairs, names
  lower-cased without their dash, entities decoded, later pairs overriding earlier ones.\<close>

theorem jnlp_document_parsed:
  assumes "no_argument pre" and "\<forall>e \<in> set es. good_element e"
    and "map element_text es = positional @ concat (map (\<lambda>(n, v). [CHR ''-'' # n, v]) pairs)"
    and "\<forall>p \<in> set positional. \<not> starts_with p ''-''"
  shows "parse_jnlp_arguments (pre @ render_elements es)
     = fold (\<lambda>(n, v). dict_set (py_lower (unescape_entities n)) (unescape_entities v)) pairs []"
  by (rule parse_rendered_jnlp [OF assms])

theorem jnlp_document_parsed_witness:
  "parse_jnlp_arguments (''<jnlp>'' @ render_elements [('' '', ''10.0.0.1'', [], ''; ''), ([], ''-kvmToken'', '' '', [CHR 0x0A]), ([], ''a&amp;b'', [], ''</jnlp>'')])
     = [(''kvmtoken'', ''a&b'')]"
proof -
  have "parse_jnlp_arguments (''<jnlp>'' @ render_elements [('' '', ''10.0.0.1'', [], ''; ''), ([], ''-kvmToken'', '' '', [CHR 0x0A]), ([], ''a&amp;b'', [], ''</jnlp>'')])
     = fold (\<lambda>(n, v). dict_set (py_lower (unescape_entities n)) (unescape_entities v)) [(''kvmToken'', ''a&amp;b'')] []"
    by (rule jnlp_document_parsed [where positional = "[''10.0.0.1'']"])
      (simp_all add: no_argument_def plain_text_def strip_def lstrip_def is_space_def sublist_code)
  also have "\<dots> = [(''kvmtoken'', ''a&b'')]"
    by code_simp
  finally show ?thesis .
qed

text \<open>The order of the replacements decodes an escaped entity twice.\<close>

lemma unescape_decodes_twice: "unescape_entities ''&amp;lt;'' = ''<''"
  by (simp add: unescape_entities_def replace.simps)

lemma candidate_filter: "replace '' '' [] (replace '':'' [] s) = filter (\<lambda>c. c \<noteq> CHR '':'' \<and> c \<noteq> CHR '' '') s"
  by (simp add: replace_single conj_commute)

text \<open>A pinned fingerprint means the same in every format a person may paste: upper or lower case,
  with or without colons and spaces, with or without the \<open>SHA256:\<close> prefix, it normalises to the bare
  lower-case digest; and whatever is accepted has 64 characters, all hexadecimal except that a
  newline may be the last.\<close>

theorem fingerprint_formats:
  assumes "py_lower (filter (\<lambda>c. c \<noteq> CHR '':'' \<and> c \<noteq> CHR '' '') body) = h"
    and "length h = FINGERPRINT_HEX_LENGTH" and "set h \<subseteq> set HEX_DIGITS" and "strip body = body"
  shows "normalize_fingerprint body = Inr h \<and> normalize_fingerprint (''SHA256:'' @ body) = Inr h
    \<and> (\<forall>raw f. normalize_fingerprint raw = Inr f \<longrightarrow> length f = FINGERPRINT_HEX_LENGTH
         \<and> (\<exists>digits. set digits \<subseteq> set HEX_DIGITS \<and> (f = digits \<or> f = digits @ [CHR 0x0A])))"
proof (intro conjI allI impI)
  have h: "filter (\<lambda>c. c \<noteq> CHR '':'' \<and> c \<noteq> CHR '' '') (py_lower body) = h"
    using assms(1) by (simp add: py_lower_filter [symmetric] to_lower_separators)
  have "h \<noteq> []" using assms(2) by (auto simp: FINGERPRINT_HEX_LENGTH_def)
  then have match: "rx_match HEX_RE h \<noteq> None" using hex_run [OF assms(3)] by blast
  have "body \<noteq> []" using \<open>h \<noteq> []\<close> h by auto
  have "CHR ''s'' \<notin> set h" using assms(3) by (auto simp: HEX_DIGITS_def)
  then have "CHR ''s'' \<notin> set (py_lower body)" using h by auto
  then have pre: "\<not> starts_with (py_lower body) ''sha256:''" by (auto simp: starts_with_iff)
  show "normalize_fingerprint body = Inr h"
    using assms(2,4) h match pre \<open>body \<noteq> []\<close>
    by (simp add: normalize_fingerprint_def Let_def candidate_filter)
  have strip: "strip (''SHA256:'' @ body) = ''SHA256:'' @ body"
    using assms(4) \<open>body \<noteq> []\<close> strip_idem_iff [of body] strip_idem_iff [of "''SHA256:'' @ body"]
    by (auto simp: is_space_def)
  have low: "py_lower (''SHA256:'' @ body) = ''sha256:'' @ py_lower body"
    unfolding py_lower_simps(3) by (rule arg_cong [where f = "\<lambda>x. x @ _"]) code_simp
  show "normalize_fingerprint (''SHA256:'' @ body) = Inr h"
    unfolding normalize_fingerprint_def strip low Let_def candidate_filter starts_with_append
    using assms(2) h match by simp
  fix raw f assume "normalize_fingerprint raw = Inr f"
  from normalize_result [OF this] show "length f = FINGERPRINT_HEX_LENGTH"
    "\<exists>digits. set digits \<subseteq> set HEX_DIGITS \<and> (f = digits \<or> f = digits @ [CHR 0x0A])"
    by (simp_all add: FINGERPRINT_HEX_LENGTH_def)
qed

theorem fingerprint_formats_witness:
  "normalize_fingerprint (''SHA256:'' @ ''AB:'' @ replicate 62 (CHR ''0'')) = Inr (''ab'' @ replicate 62 (CHR ''0''))"
proof -
  have "normalize_fingerprint (''AB:'' @ replicate 62 (CHR ''0'')) = Inr (''ab'' @ replicate 62 (CHR ''0''))
    \<and> normalize_fingerprint (''SHA256:'' @ ''AB:'' @ replicate 62 (CHR ''0'')) = Inr (''ab'' @ replicate 62 (CHR ''0''))
    \<and> (\<forall>raw f. normalize_fingerprint raw = Inr f \<longrightarrow> length f = FINGERPRINT_HEX_LENGTH
         \<and> (\<exists>digits. set digits \<subseteq> set HEX_DIGITS \<and> (f = digits \<or> f = digits @ [CHR 0x0A])))"
  proof (rule fingerprint_formats)
    show "py_lower (filter (\<lambda>c. c \<noteq> CHR '':'' \<and> c \<noteq> CHR '' '') (''AB:'' @ replicate 62 (CHR ''0''))) = ''ab'' @ replicate 62 (CHR ''0'')"
      by code_simp
    show "strip (''AB:'' @ replicate 62 (CHR ''0'')) = ''AB:'' @ replicate 62 (CHR ''0'')"
      by (simp add: strip_idem_iff is_space_def)
  qed (auto simp: FINGERPRINT_HEX_LENGTH_def HEX_DIGITS_def)
  then show ?thesis by blast
qed

text \<open>Sixty-three digits are enough when the text ends in a newline that \<open>strip\<close> does not reach.\<close>

lemma fingerprint_of_63_digits:
  "normalize_fingerprint (replicate 63 (CHR ''a'') @ [CHR 0x0A, CHR '':'']) = Inr (replicate 63 (CHR ''a'') @ [CHR 0x0A])"
  by code_simp

text \<open>C25. No TLS connection is made without a trust decision: for every policy the constructor accepts
  and every pool it sets up, the peer is authenticated by the pinned digest when a fingerprint was
  given, else not at all only when the caller turned validation off, else by chain and host name
  against the given CA file, and \<open>cert_verify\<close> never weakens or overrides that choice. Protocols below
  TLS 1.2 are off in every case.\<close>

theorem tls_trust_enforced:
  assumes "policy_create validate ca tls_fingerprint = Inr p"
    and "init_poolmanager make_context load_ca p = Inr pool"
  shows "minimum_version (po_ssl_context pool) = TLSv1_2 \<and>
    (if given tls_fingerprint then
       \<not> given ca \<and> (\<exists>f. po_assert_fingerprint pool = Some f \<and> normalize_fingerprint (the tls_fingerprint) = Inr f)
     else po_assert_fingerprint pool = None \<and>
       (if validate then verify_mode (po_ssl_context pool) = CERT_REQUIRED \<and> check_hostname (po_ssl_context pool)
            \<and> effective_verify p VerifyTrue \<noteq> VerifyFalse
            \<and> (given ca \<longrightarrow> the ca \<in> set (verify_locations (po_ssl_context pool))
                 \<and> effective_verify p VerifyFalse = VerifyPath (the ca))
        else verify_mode (po_ssl_context pool) = CERT_NONE \<and> effective_verify p VerifyTrue = VerifyFalse))"
  using assms
  by (auto simp: policy_create_def init_poolmanager_def build_ssl_context_def pinned_def effective_verify_def Let_def
      split: if_splits sum.splits option.splits)

theorem tls_trust_enforced_witness:
  "verify_mode (po_ssl_context (projr (init_poolmanager
     (\<lambda>ciphers. \<lparr>minimum_version = TLSv1, check_hostname = False, verify_mode = CERT_OPTIONAL, verify_locations = []\<rparr>)
     (\<lambda>path. None) (projr (policy_create True (Some ''/ca.pem'') None))))) = CERT_REQUIRED"
  using tls_trust_enforced [of True "Some ''/ca.pem''" None
      "projr (policy_create True (Some ''/ca.pem'') None)"
      "\<lambda>ciphers. \<lparr>minimum_version = TLSv1, check_hostname = False, verify_mode = CERT_OPTIONAL, verify_locations = []\<rparr>"
      "\<lambda>path. None" "projr (init_poolmanager
     (\<lambda>ciphers. \<lparr>minimum_version = TLSv1, check_hostname = False, verify_mode = CERT_OPTIONAL, verify_locations = []\<rparr>)
     (\<lambda>path. None) (projr (policy_create True (Some ''/ca.pem'') None)))"]
  by (simp add: policy_create_def init_poolmanager_def build_ssl_context_def given_def pinned_def Let_def)

end
