(* ===== verification/Asp_Client.thy ===== *)
theory Asp_Client
  imports Asp_Parse
begin

text \<open>
  \<open>AspClient\<close> of \<open>plugins/module_utils/asp.py\<close>: one request at a time to the BMC's \<open>.asp\<close> surface with
  bounded retries, login and session tokens, media-session allocation and the WEBVAR reads and writes.
  The \<open>requests\<close> library and the BMC behind it are an argument \<open>srv\<close>: the outcome of a request as a
  function of all requests sent so far, that one last. The client's log records the requests and the
  back-off sleeps in order. A redirect that \<open>requests\<close> follows on its own belongs to the outcome of the
  request that met it: only what the client itself issues is in the log. The lock is not modelled: a client state is used by one call at a time.
\<close>

section \<open>Requests and outcomes\<close>

record http_request =
  rq_method :: string
  rq_url :: string
  rq_data :: "arguments option"
  rq_params :: "arguments option"
  rq_headers :: arguments
  rq_timeout :: "int \<times> int"

text \<open>A raised \<open>requests\<close> exception with the chain of its causes and contexts, as objects in a heap.\<close>

record exc_node =
  exc_text :: string
  exc_cause :: "nat option"
  exc_context :: "nat option"

datatype http_outcome =
    HttpResponse string
  | ConnectTimeout
  | SSLError
  | ReadTimeout
  | ConnectionFailed "exc_node list" nat
  | OtherFailure

datatype wire_event = Sent http_request | Slept nat

type_synonym server = "http_request list \<Rightarrow> http_outcome"

fun sent_requests :: "wire_event list \<Rightarrow> http_request list" where
  "sent_requests [] = []"
| "sent_requests (Sent rq # evs) = rq # sent_requests evs"
| "sent_requests (Slept n # evs) = sent_requests evs"

section \<open>The client object\<close>

record asp_client =
  ac_host :: string
  ac_port :: int
  ac_username :: string
  ac_password :: string
  ac_use_tls :: bool
  ac_timeout :: int
  ac_connect_timeout :: int
  ac_max_retries :: nat
  ac_policy :: tls_trust_policy
  ac_pool :: "pool_options option"
  ac_session_cookie :: "string option"
  ac_csrf_token :: "string option"
  ac_log :: "wire_event list"

definition asp_client_init ::
  "(string \<Rightarrow> ssl_context) \<Rightarrow> (string \<Rightarrow> exn option) \<Rightarrow> string \<Rightarrow> int \<Rightarrow> string \<Rightarrow> string \<Rightarrow> bool \<Rightarrow> bool \<Rightarrow>
   string option \<Rightarrow> string option \<Rightarrow> bool \<Rightarrow> int \<Rightarrow> int \<Rightarrow> int \<Rightarrow> exn + asp_client" where
  "asp_client_init make_context load_ca host port username password use_tls validate ca tls_fingerprint
     allow_insecure timeout connect_timeout max_retries =
     (case enforce_transport_policy use_tls allow_insecure of Inl e \<Rightarrow> Inl e
      | Inr _ \<Rightarrow> (case policy_create validate ca tls_fingerprint of Inl e \<Rightarrow> Inl e
      | Inr policy \<Rightarrow>
          (let client = \<lparr>ac_host = host, ac_port = port, ac_username = username, ac_password = password,
             ac_use_tls = use_tls, ac_timeout = timeout, ac_connect_timeout = connect_timeout,
             ac_max_retries = nat (max 0 max_retries), ac_policy = policy, ac_pool = None,
             ac_session_cookie = None, ac_csrf_token = None, ac_log = []\<rparr>
           in if use_tls then
                (case init_poolmanager make_context load_ca policy of
                   Inl e \<Rightarrow> Inl e | Inr pool \<Rightarrow> Inr (client\<lparr>ac_pool := Some pool\<rparr>))
              else Inr client)))"

definition url_of :: "bool \<Rightarrow> asp_client \<Rightarrow> string" where
  "url_of tls c = (if tls then ''https'' else ''http'') @ ''://'' @ ac_host c @ '':'' @ str_int (ac_port c)"

definition base_url :: "asp_client \<Rightarrow> string" where
  "base_url c = url_of (ac_use_tls c) c"

definition client_endpoint :: "asp_client \<Rightarrow> string" where
  "client_endpoint c = ac_host c @ '':'' @ str_int (ac_port c)"

definition asp_error :: "error_class \<Rightarrow> string \<Rightarrow> bool \<Rightarrow> asp_client \<Rightarrow> exn" where
  "asp_error cls op indet c = Ikvm \<lparr>error_class = cls, endpoint = Some (client_endpoint c), operation = Some op,
     indeterminate = indet, return_value = None\<rparr>"

definition raise_if_session_expired :: "string \<Rightarrow> string \<Rightarrow> asp_client \<Rightarrow> exn option" where
  "raise_if_session_expired body op c =
     (if \<not> looks_like_session_expired_html body then None else Some (asp_error PROTOCOL op False c))"

definition headers :: "string \<Rightarrow> asp_client \<Rightarrow> arguments" where
  "headers url c =
     (if given (ac_session_cookie c) then [(''Cookie'', ''SessionCookie='' @ the (ac_session_cookie c))] else [])
     @ (if given (ac_csrf_token c) \<and> \<not> sublist ''WEBSES'' url then [(''CSRFTOKEN'', the (ac_csrf_token c))] else [])"

section \<open>Sending\<close>

text \<open>The walk over \<open>__cause__ or __context__\<close> with its \<open>seen\<close> set.\<close>

function chain_texts :: "exc_node list \<Rightarrow> nat option \<Rightarrow> nat list \<Rightarrow> string list" where
  "chain_texts heap current seen = (case current of None \<Rightarrow> []
     | Some i \<Rightarrow> if i \<in> set seen \<or> length heap \<le> i then []
                 else let node = heap ! i in
                   exc_text node # chain_texts heap
                     (case exc_cause node of Some j \<Rightarrow> Some j | None \<Rightarrow> exc_context node) (i # seen))"
  by pat_completeness simp
termination
proof (relation "measure (\<lambda>(heap, current, seen). card ({..<length heap} - set seen))", goal_cases)
  case (2 heap current seen i node)
  then have "i < length heap" "i \<notin> set seen" by simp_all
  then have "{..<length heap} - set (i # seen) \<subset> {..<length heap} - set seen" by auto
  then have "card ({..<length heap} - set (i # seen)) < card ({..<length heap} - set seen)"
    by (rule psubset_card_mono [rotated]) simp
  then show ?case unfolding in_measure split .
qed simp

declare chain_texts.simps [simp del]

fun join_spaces :: "string list \<Rightarrow> string" where
  "join_spaces [] = []"
| "join_spaces [s] = s"
| "join_spaces (s # t # ss) = s @ '' '' @ join_spaces (t # ss)"

definition connection_error_is_post_connect :: "exc_node list \<Rightarrow> nat \<Rightarrow> bool" where
  "connection_error_is_post_connect heap i =
     (let text = py_lower (join_spaces (chain_texts heap (Some i) []))
      in list_ex (\<lambda>marker. sublist marker text)
           [''connection aborted'', ''connection reset'', ''remote end closed connection'', ''broken pipe''])"

datatype send_result = Served string | Failed exn | TransientBusy

definition build_request :: "string \<Rightarrow> string \<Rightarrow> arguments option \<Rightarrow> arguments option \<Rightarrow> asp_client \<Rightarrow> http_request" where
  "build_request meth url data params c =
     \<lparr>rq_method = meth, rq_url = url, rq_data = data, rq_params = params, rq_headers = headers url c,
      rq_timeout = (ac_connect_timeout c, ac_timeout c)\<rparr>"

definition classify_outcome :: "string \<Rightarrow> asp_client \<Rightarrow> http_outcome \<Rightarrow> send_result" where
  "classify_outcome op c r = (case r of
      HttpResponse text \<Rightarrow> Served text
    | ConnectTimeout \<Rightarrow> Failed (asp_error TIMEOUT op False c)
    | SSLError \<Rightarrow> Failed (asp_error TLS_VALIDATION op False c)
    | ReadTimeout \<Rightarrow> TransientBusy
    | ConnectionFailed heap i \<Rightarrow>
        if connection_error_is_post_connect heap i then TransientBusy else Failed (asp_error CONNECTION op False c)
    | OtherFailure \<Rightarrow> Failed RequestException)"

definition send_once ::
  "server \<Rightarrow> string \<Rightarrow> string \<Rightarrow> string \<Rightarrow> arguments option \<Rightarrow> arguments option \<Rightarrow> asp_client \<Rightarrow> send_result \<times> asp_client" where
  "send_once srv meth url op data params c =
     (let rq = build_request meth url data params c; c1 = c\<lparr>ac_log := ac_log c @ [Sent rq]\<rparr>
      in (classify_outcome op c (srv (sent_requests (ac_log c1))), c1))"

lemma send_once_config: "send_once srv meth url op data params c = (r, c1) \<Longrightarrow> ac_max_retries c1 = ac_max_retries c"
  by (auto simp: send_once_def Let_def)

function retry_loop ::
  "server \<Rightarrow> string \<Rightarrow> string \<Rightarrow> string \<Rightarrow> arguments option \<Rightarrow> arguments option \<Rightarrow> nat \<Rightarrow> asp_client \<Rightarrow> (exn + string) \<times> asp_client" where
  "retry_loop srv meth url op data params attempt c =
     (case send_once srv meth url op data params c of
        (Served text, c1) \<Rightarrow> (Inr text, c1)
      | (Failed e, c1) \<Rightarrow> (Inl e, c1)
      | (TransientBusy, c1) \<Rightarrow>
          if attempt + 1 > ac_max_retries c1 then (Inl (asp_error BMC_BUSY op True c1), c1)
          else retry_loop srv meth url op data params (attempt + 1) (c1\<lparr>ac_log := ac_log c1 @ [Slept (attempt + 1)]\<rparr>))"
  by pat_completeness auto
termination
  by (relation "measure (\<lambda>(srv, meth, url, op, data, params, attempt, c). Suc (ac_max_retries c) - attempt)")
    (auto dest: send_once_config [OF sym])

declare retry_loop.simps [simp del]

definition send_with_retry ::
  "server \<Rightarrow> string \<Rightarrow> string \<Rightarrow> string option \<Rightarrow> arguments option \<Rightarrow> arguments option \<Rightarrow> asp_client \<Rightarrow> (exn + string) \<times> asp_client" where
  "send_with_retry srv meth url op data params c =
     retry_loop srv meth url (if given op then the op else meth) data params 0 c"

definition client_request ::
  "server \<Rightarrow> string \<Rightarrow> string \<Rightarrow> string option \<Rightarrow> arguments option \<Rightarrow> asp_client \<Rightarrow> (exn + string) \<times> asp_client" where
  "client_request srv meth path op data c =
     send_with_retry srv meth (base_url c @ path) (Some (if given op then the op else path)) data None c"

section \<open>Session lifecycle\<close>

definition LOGIN_PATH :: string where "LOGIN_PATH = ''/rpc/WEBSES/create.asp''"

definition field_value :: "regex \<Rightarrow> string \<Rightarrow> string option" where
  "field_value r text = (case rx_search r text of None \<Rightarrow> None
     | Some m \<Rightarrow> if rx_group 1 m = [] then None else Some (rx_group 1 m))"

definition login :: "server \<Rightarrow> asp_client \<Rightarrow> (exn + string) \<times> asp_client" where
  "login srv c = (case client_request srv ''POST'' LOGIN_PATH (Some ''login'')
       (Some [(''WEBVAR_USERNAME'', ac_username c), (''WEBVAR_PASSWORD'', ac_password c)]) c of
      (Inl e, c1) \<Rightarrow> (Inl e, c1)
    | (Inr text, c1) \<Rightarrow>
        (case rx_search SESSION_COOKIE_RE text of
           None \<Rightarrow> (Inl (asp_error PROTOCOL ''login'' False c1), c1)
         | Some m \<Rightarrow>
             let session_cookie = rx_group 1 m in
             if session_cookie = [] \<or> looks_like_failed_login session_cookie
             then (Inl (asp_error AUTHENTICATION ''login'' False c1), c1)
             else (Inr session_cookie, c1\<lparr>ac_session_cookie := Some session_cookie,
                                          ac_csrf_token := field_value CSRFTOKEN_RE text\<rparr>)))"

definition get_session_token :: "server \<Rightarrow> asp_client \<Rightarrow> (exn + string option) \<times> asp_client" where
  "get_session_token srv c = (case client_request srv ''GET'' ''/rpc/getsessiontoken.asp'' (Some ''get_session_token'') None c of
      (Inl e, c1) \<Rightarrow> (Inl e, c1)
    | (Inr text, c1) \<Rightarrow> (Inr (field_value STOKEN_RE text), c1))"

definition issue_media_request :: "server \<Rightarrow> string \<Rightarrow> arguments \<Rightarrow> asp_client \<Rightarrow> (exn + string) \<times> asp_client" where
  "issue_media_request srv url params c =
     send_with_retry srv ''GET'' url (Some ''allocate_media_session'') None (Some params) c"

definition allocate_media_session ::
  "server \<Rightarrow> string \<Rightarrow> bool option \<Rightarrow> asp_client \<Rightarrow> (exn + jnlp_session) \<times> asp_client" where
  "allocate_media_session srv client_ip secure c =
     (if ac_session_cookie c = None then (Inl (asp_error AUTHENTICATION ''allocate_media_session'' False c), c)
      else let use_tls_for_fetch = (case secure of None \<Rightarrow> ac_use_tls c | Some b \<Rightarrow> b);
               url = url_of use_tls_for_fetch c @ ''/Java/jviewer.jnlp''
           in case issue_media_request srv url [(''EXTRNIP'', client_ip), (''JNLPSTR'', ''JViewer'')] c of
                (Inl e, c1) \<Rightarrow> (Inl e, c1)
              | (Inr text, c1) \<Rightarrow>
                  (let session = from_arguments (parse_jnlp_arguments text)
                   in if kvm_token session = None then (Inl (asp_error PROTOCOL ''allocate_media_session'' False c1), c1)
                      else (Inr session, c1)))"

section \<open>WEBVAR reads and writes\<close>

definition rpc_path :: "string \<Rightarrow> string" where
  "rpc_path ep = (if starts_with ep ''/'' then ep else ''/rpc/'' @ ep @ ''.asp'')"

text \<open>The common tail of the three WEBVAR methods.\<close>

definition read_webvar ::
  "(string \<Rightarrow> py_literal option) \<Rightarrow> string \<Rightarrow> string \<Rightarrow> (exn + string) \<times> asp_client \<Rightarrow> (exn + webvar_response) \<times> asp_client" where
  "read_webvar literal_eval ep op reply = (case reply of
      (Inl e, c1) \<Rightarrow> (Inl e, c1)
    | (Inr body, c1) \<Rightarrow> (case raise_if_session_expired body op c1 of
         Some e \<Rightarrow> (Inl e, c1)
       | None \<Rightarrow> (parse_webvar literal_eval body (Some ep) (Some op), c1)))"

definition webvar_op :: "string \<Rightarrow> string option \<Rightarrow> string \<Rightarrow> string" where
  "webvar_op name op ep = (if given op then the op else name @ '':'' @ ep)"

definition get_webvar ::
  "(string \<Rightarrow> py_literal option) \<Rightarrow> server \<Rightarrow> string \<Rightarrow> string option \<Rightarrow> asp_client \<Rightarrow> (exn + webvar_response) \<times> asp_client" where
  "get_webvar literal_eval srv ep op c =
     (let o1 = webvar_op ''get_webvar'' op ep in
      read_webvar literal_eval ep o1 (client_request srv ''GET'' (rpc_path ep) (Some o1) None c))"

definition post_webvar ::
  "(string \<Rightarrow> py_literal option) \<Rightarrow> server \<Rightarrow> string \<Rightarrow> arguments \<Rightarrow> string option \<Rightarrow> asp_client \<Rightarrow> (exn + webvar_response) \<times> asp_client" where
  "post_webvar literal_eval srv ep data op c =
     (let o1 = webvar_op ''post_webvar'' op ep in
      read_webvar literal_eval ep o1 (client_request srv ''POST'' (rpc_path ep) (Some o1) (Some data) c))"

definition set_webvar ::
  "(string \<Rightarrow> py_literal option) \<Rightarrow> server \<Rightarrow> string \<Rightarrow> arguments \<Rightarrow> string option \<Rightarrow> asp_client \<Rightarrow> (exn + webvar_response) \<times> asp_client" where
  "set_webvar literal_eval srv ep data op c =
     (let o1 = webvar_op ''set_webvar'' op ep in
      case read_webvar literal_eval ep o1 (client_request srv ''POST'' (rpc_path ep) (Some o1) (Some data) c) of
        (Inl e, c1) \<Rightarrow> (Inl e, c1)
      | (Inr response, c1) \<Rightarrow>
          if hapi_status response \<noteq> 0
          then (Inl (Ikvm \<lparr>error_class = REMOTE_OPERATION, endpoint = Some (client_endpoint c1), operation = Some o1,
                           indeterminate = False, return_value = Some (hapi_status response)\<rparr>), c1)
          else (Inr response, c1))"

definition get_host_status :: "server \<Rightarrow> asp_client \<Rightarrow> (exn + string) \<times> asp_client" where
  "get_host_status srv c = (case client_request srv ''GET'' ''/rpc/hoststatus.asp'' (Some ''get_host_status'') None c of
      (Inl e, c1) \<Rightarrow> (Inl e, c1)
    | (Inr body, c1) \<Rightarrow> (case raise_if_session_expired body ''get_host_status'' c1 of
         Some e \<Rightarrow> (Inl e, c1) | None \<Rightarrow> (Inr body, c1)))"

definition set_power :: "server \<Rightarrow> string \<Rightarrow> asp_client \<Rightarrow> (exn + string) \<times> asp_client" where
  "set_power srv command c =
     client_request srv ''POST'' ''/rpc/hostctl.asp'' (Some ''set_power'') (Some [(''WEBVAR_POWER_CMD'', command)]) c"

section \<open>Retries\<close>

text \<open>The wire events of \<open>i\<close> retries after \<open>a\<close> earlier ones: each further attempt after a sleep of one
  more back-off unit than the last.\<close>

fun retry_trace :: "http_request \<Rightarrow> nat \<Rightarrow> nat \<Rightarrow> wire_event list" where
  "retry_trace rq a 0 = [Sent rq]"
| "retry_trace rq a (Suc i) = Sent rq # Slept (Suc a) # retry_trace rq (Suc a) i"

lemma sent_requests_append [simp]: "sent_requests (a @ b) = sent_requests a @ sent_requests b"
  by (induction a rule: sent_requests.induct) auto

lemma sent_retry_trace [simp]: "sent_requests (retry_trace rq a i) = replicate (Suc i) rq"
  by (induction i arbitrary: a) auto

lemma log_irrelevant [simp]:
  "headers url (c\<lparr>ac_log := l\<rparr>) = headers url c"
  "build_request meth url data params (c\<lparr>ac_log := l\<rparr>) = build_request meth url data params c"
  "asp_error cls op indet (c\<lparr>ac_log := l\<rparr>) = asp_error cls op indet c"
  "classify_outcome op (c\<lparr>ac_log := l\<rparr>) r = classify_outcome op c r"
  "base_url (c\<lparr>ac_log := l\<rparr>) = base_url c" "url_of tls (c\<lparr>ac_log := l\<rparr>) = url_of tls c"
  "client_endpoint (c\<lparr>ac_log := l\<rparr>) = client_endpoint c"
  by (simp_all add: headers_def build_request_def asp_error_def client_endpoint_def classify_outcome_def base_url_def url_of_def
      split: http_outcome.splits)

text \<open>What attempt \<open>j\<close> of a call sees, and what the call makes of its last attempt.\<close>

definition attempt_outcome :: "server \<Rightarrow> string \<Rightarrow> http_request \<Rightarrow> asp_client \<Rightarrow> nat \<Rightarrow> send_result" where
  "attempt_outcome srv op rq c j = classify_outcome op c (srv (sent_requests (ac_log c) @ replicate (Suc j) rq))"

fun final_result :: "string \<Rightarrow> asp_client \<Rightarrow> send_result \<Rightarrow> exn + string" where
  "final_result op c (Served text) = Inr text"
| "final_result op c (Failed e) = Inl e"
| "final_result op c TransientBusy = Inl (asp_error BMC_BUSY op True c)"

lemma final_result_log [simp]: "final_result op (c\<lparr>ac_log := l\<rparr>) r = final_result op c r"
  by (cases r) simp_all

lemma retry_loop_trace:
  assumes "\<forall>j < i. attempt_outcome srv op rq c j = TransientBusy"
    and "attempt_outcome srv op rq c i \<noteq> TransientBusy \<or> attempt + i = ac_max_retries c"
    and "attempt + i \<le> ac_max_retries c" and "rq = build_request meth url data params c"
  shows "retry_loop srv meth url op data params attempt c
    = (final_result op c (attempt_outcome srv op rq c i), c\<lparr>ac_log := ac_log c @ retry_trace rq attempt i\<rparr>)"
  using assms
proof (induction i arbitrary: attempt c)
  case 0
  then show ?case
    by (subst retry_loop.simps)
      (auto simp: send_once_def Let_def attempt_outcome_def split: send_result.splits)
next
  case (Suc i)
  let ?c1 = "c\<lparr>ac_log := ac_log c @ [Sent rq, Slept (Suc attempt)]\<rparr>"
  have shift: "attempt_outcome srv op rq ?c1 j = attempt_outcome srv op rq c (Suc j)" for j
    by (simp add: attempt_outcome_def)
  have "attempt_outcome srv op rq c 0 = TransientBusy" using Suc.prems(1) by simp
  then have "retry_loop srv meth url op data params attempt c = retry_loop srv meth url op data params (Suc attempt) ?c1"
    using Suc.prems(3,4)
    by (subst retry_loop.simps) (simp add: send_once_def Let_def attempt_outcome_def)
  also have "\<dots> = (final_result op ?c1 (attempt_outcome srv op rq ?c1 i), ?c1\<lparr>ac_log := ac_log ?c1 @ retry_trace rq (Suc attempt) i\<rparr>)"
    by (rule Suc.IH, unfold shift) (use Suc.prems in simp_all)
  finally show ?case by (simp add: shift)
qed

lemma retries_end: "\<exists>i \<le> m. (\<forall>j < i. P j) \<and> (P i \<longrightarrow> i = m)" for P :: "nat \<Rightarrow> bool"
proof (induction m)
  case (Suc m)
  then show ?case by (metis le_Suc_eq less_Suc_eq_le order_refl le_SucI less_antisym not_less_eq_eq)
qed simp

lemma send_with_retry_trace:
  obtains i where "i \<le> ac_max_retries c"
    and "\<forall>j < i. attempt_outcome srv op (build_request meth url data params c) c j = TransientBusy"
    and "attempt_outcome srv op (build_request meth url data params c) c i = TransientBusy \<Longrightarrow> i = ac_max_retries c"
    and "op \<noteq> [] \<Longrightarrow> send_with_retry srv meth url (Some op) data params c
      = (final_result op c (attempt_outcome srv op (build_request meth url data params c) c i),
         c\<lparr>ac_log := ac_log c @ retry_trace (build_request meth url data params c) 0 i\<rparr>)"
proof -
  let ?rq = "build_request meth url data params c"
  obtain i where i: "i \<le> ac_max_retries c" "\<forall>j < i. attempt_outcome srv op ?rq c j = TransientBusy"
      "attempt_outcome srv op ?rq c i = TransientBusy \<Longrightarrow> i = ac_max_retries c"
    using retries_end [of "ac_max_retries c" "\<lambda>j. attempt_outcome srv op ?rq c j = TransientBusy"] by blast
  have "retry_loop srv meth url op data params 0 c
      = (final_result op c (attempt_outcome srv op ?rq c i), c\<lparr>ac_log := ac_log c @ retry_trace ?rq 0 i\<rparr>)"
    by (rule retry_loop_trace [OF i(2)]) (use i in auto)
  then show thesis using that [OF i] by (simp add: send_with_retry_def given_def)
qed

section \<open>Calls on a client\<close>

text \<open>The public methods as values, what running one does to the client, and the one request it is
  entitled to send.\<close>

datatype asp_call =
    Login
  | GetSessionToken
  | AllocateMedia string "bool option"
  | GetWebvar string "string option"
  | PostWebvar string arguments "string option"
  | SetWebvar string arguments "string option"
  | GetHostStatus
  | SetPower string

fun run_call :: "(string \<Rightarrow> py_literal option) \<Rightarrow> server \<Rightarrow> asp_call \<Rightarrow> asp_client \<Rightarrow> asp_client" where
  "run_call le srv Login c = snd (login srv c)"
| "run_call le srv GetSessionToken c = snd (get_session_token srv c)"
| "run_call le srv (AllocateMedia ip secure) c = snd (allocate_media_session srv ip secure c)"
| "run_call le srv (GetWebvar ep op) c = snd (get_webvar le srv ep op c)"
| "run_call le srv (PostWebvar ep data op) c = snd (post_webvar le srv ep data op c)"
| "run_call le srv (SetWebvar ep data op) c = snd (set_webvar le srv ep data op c)"
| "run_call le srv GetHostStatus c = snd (get_host_status srv c)"
| "run_call le srv (SetPower cmd) c = snd (set_power srv cmd c)"

fun is_read :: "asp_call \<Rightarrow> bool" where
  "is_read GetSessionToken = True"
| "is_read (AllocateMedia ip secure) = True"
| "is_read (GetWebvar ep op) = True"
| "is_read GetHostStatus = True"
| "is_read _ = False"

fun call_scheme :: "asp_call \<Rightarrow> asp_client \<Rightarrow> bool" where
  "call_scheme (AllocateMedia ip (Some secure)) c = secure"
| "call_scheme call c = ac_use_tls c"

fun call_path :: "asp_call \<Rightarrow> string" where
  "call_path Login = LOGIN_PATH"
| "call_path GetSessionToken = ''/rpc/getsessiontoken.asp''"
| "call_path (AllocateMedia ip secure) = ''/Java/jviewer.jnlp''"
| "call_path (GetWebvar ep op) = rpc_path ep"
| "call_path (PostWebvar ep data op) = rpc_path ep"
| "call_path (SetWebvar ep data op) = rpc_path ep"
| "call_path GetHostStatus = ''/rpc/hoststatus.asp''"
| "call_path (SetPower cmd) = ''/rpc/hostctl.asp''"

fun call_data :: "asp_call \<Rightarrow> asp_client \<Rightarrow> arguments option" where
  "call_data Login c = Some [(''WEBVAR_USERNAME'', ac_username c), (''WEBVAR_PASSWORD'', ac_password c)]"
| "call_data (PostWebvar ep data op) c = Some data"
| "call_data (SetWebvar ep data op) c = Some data"
| "call_data (SetPower cmd) c = Some [(''WEBVAR_POWER_CMD'', cmd)]"
| "call_data _ c = None"

fun call_params :: "asp_call \<Rightarrow> arguments option" where
  "call_params (AllocateMedia ip secure) = Some [(''EXTRNIP'', ip), (''JNLPSTR'', ''JViewer'')]"
| "call_params _ = None"

definition request_of :: "asp_call \<Rightarrow> asp_client \<Rightarrow> http_request" where
  "request_of call c = build_request (if is_read call then ''GET'' else ''POST'')
     (url_of (call_scheme call c) c @ call_path call) (call_data call c) (call_params call) c"

lemma rpc_path_nonempty: "rpc_path ep \<noteq> []"
  by (cases ep) (auto simp: rpc_path_def)

lemma webvar_op_nonempty: "name \<noteq> [] \<Longrightarrow> webvar_op name op ep \<noteq> []"
  by (auto simp: webvar_op_def given_def split: option.splits)

text \<open>A request changes nothing but the log, to which it adds at most \<open>max_retries + 1\<close> copies of itself.\<close>

definition only_sends :: "http_request \<Rightarrow> asp_client \<Rightarrow> asp_client \<Rightarrow> bool" where
  "only_sends rq c c1 \<longleftrightarrow> (\<exists>evs k. c1 = c\<lparr>ac_log := ac_log c @ evs\<rparr> \<and> sent_requests evs = replicate k rq \<and> k \<le> Suc (ac_max_retries c))"

lemma only_sends_refl: "only_sends rq c c"
  unfolding only_sends_def by (rule exI [of _ "[]"]) simp

lemma send_only_sends:
  assumes "op \<noteq> []"
  shows "only_sends (build_request meth url data params c) c (snd (send_with_retry srv meth url (Some op) data params c))"
proof (rule send_with_retry_trace [of c srv op meth url data params])
  fix i assume "i \<le> ac_max_retries c" and "op \<noteq> [] \<Longrightarrow> send_with_retry srv meth url (Some op) data params c
      = (final_result op c (attempt_outcome srv op (build_request meth url data params c) c i),
         c\<lparr>ac_log := ac_log c @ retry_trace (build_request meth url data params c) 0 i\<rparr>)"
  with assms show ?thesis
    unfolding only_sends_def
    by (intro exI [of _ "retry_trace (build_request meth url data params c) 0 i"] exI [of _ "Suc i"]) simp
qed

lemma request_only_sends:
  assumes "op \<noteq> []"
  shows "only_sends (build_request meth (base_url c @ path) data None c) c (snd (client_request srv meth path (Some op) data c))"
  using send_only_sends [OF assms] assms by (simp add: client_request_def given_def)

lemma read_webvar_state: "snd (read_webvar le ep op reply) = snd reply"
  by (auto simp: read_webvar_def split: prod.splits sum.splits option.splits)

lemma call_only_sends:
  assumes "call \<noteq> Login"
  shows "only_sends (request_of call c) c (run_call le srv call c)"
proof (cases call)
  case Login
  with assms show ?thesis by simp
next
  case GetSessionToken
  then show ?thesis
    using request_only_sends [of "''get_session_token''" "''GET''" c "''/rpc/getsessiontoken.asp''" None srv]
    by (auto simp: get_session_token_def request_of_def base_url_def split: prod.splits sum.splits)
next
  case (AllocateMedia ip secure)
  let ?tls = "case secure of None \<Rightarrow> ac_use_tls c | Some b \<Rightarrow> b"
  have "request_of call c = build_request ''GET'' (url_of ?tls c @ ''/Java/jviewer.jnlp'') None (Some [(''EXTRNIP'', ip), (''JNLPSTR'', ''JViewer'')]) c"
    using AllocateMedia by (cases secure) (simp_all add: request_of_def)
  then show ?thesis
    using AllocateMedia send_only_sends [of "''allocate_media_session''" "''GET''" "url_of ?tls c @ ''/Java/jviewer.jnlp''"
        None "Some [(''EXTRNIP'', ip), (''JNLPSTR'', ''JViewer'')]" c srv] only_sends_refl
    by (auto simp: allocate_media_session_def issue_media_request_def Let_def split: prod.splits sum.splits)
next
  case (GetWebvar ep op)
  then show ?thesis
    using request_only_sends [OF webvar_op_nonempty, of "''get_webvar''" "''GET''" c "rpc_path ep" None srv op ep]
    by (simp add: get_webvar_def Let_def read_webvar_state request_of_def base_url_def)
next
  case (PostWebvar ep data op)
  then show ?thesis
    using request_only_sends [OF webvar_op_nonempty, of "''post_webvar''" "''POST''" c "rpc_path ep" "Some data" srv op ep]
    by (simp add: post_webvar_def Let_def read_webvar_state request_of_def base_url_def)
next
  case (SetWebvar ep data op)
  let ?r = "client_request srv ''POST'' (rpc_path ep) (Some (webvar_op ''set_webvar'' op ep)) (Some data) c"
  have "run_call le srv call c = snd (read_webvar le ep (webvar_op ''set_webvar'' op ep) ?r)"
    using SetWebvar by (auto simp: set_webvar_def Let_def split: prod.splits sum.splits)
  then show ?thesis
    using SetWebvar request_only_sends [OF webvar_op_nonempty, of "''set_webvar''" "''POST''" c "rpc_path ep" "Some data" srv op ep]
    by (simp add: read_webvar_state request_of_def base_url_def)
next
  case GetHostStatus
  then show ?thesis
    using request_only_sends [of "''get_host_status''" "''GET''" c "''/rpc/hoststatus.asp''" None srv]
    by (auto simp: get_host_status_def request_of_def base_url_def split: prod.splits sum.splits option.splits)
next
  case (SetPower cmd)
  then show ?thesis
    using request_only_sends [of "''set_power''" "''POST''" c "''/rpc/hostctl.asp''" "Some [(''WEBVAR_POWER_CMD'', cmd)]" srv]
    by (simp add: set_power_def request_of_def base_url_def)
qed

lemma login_sends:
  obtains c1 cookie csrf where "only_sends (request_of Login c) c c1"
    and "run_call le srv Login c = c1\<lparr>ac_session_cookie := cookie, ac_csrf_token := csrf\<rparr>"
proof -
  let ?r = "client_request srv ''POST'' LOGIN_PATH (Some ''login'') (Some [(''WEBVAR_USERNAME'', ac_username c), (''WEBVAR_PASSWORD'', ac_password c)]) c"
  have s: "only_sends (request_of Login c) c (snd ?r)"
    using request_only_sends [of "''login''" "''POST''" c LOGIN_PATH] by (simp add: request_of_def base_url_def)
  have id: "\<exists>cookie csrf. x = x\<lparr>ac_session_cookie := cookie, ac_csrf_token := csrf\<rparr>" for x :: asp_client
    by (intro exI [of _ "ac_session_cookie x"] exI [of _ "ac_csrf_token x"]) simp
  have upd: "\<exists>a b. x\<lparr>ac_session_cookie := Some t, ac_csrf_token := v\<rparr> = x\<lparr>ac_session_cookie := a, ac_csrf_token := b\<rparr>"
    for x :: asp_client and t v by blast
  have "\<exists>cookie csrf. run_call le srv Login c = (snd ?r)\<lparr>ac_session_cookie := cookie, ac_csrf_token := csrf\<rparr>"
    by (cases ?r; cases "fst ?r"; cases "rx_search SESSION_COOKIE_RE (projr (fst ?r))")
      (simp_all add: login_def Let_def id upd)
  with s that show thesis by blast
qed

text \<open>The discipline of a sequence of calls.\<close>

definition disciplined :: "asp_call list \<Rightarrow> asp_client \<Rightarrow> http_request \<Rightarrow> bool" where
  "disciplined calls c rq \<longleftrightarrow>
     (sublist ''WEBSES'' (rq_url rq) \<longrightarrow> ''CSRFTOKEN'' \<notin> fst ` set (rq_headers rq))
     \<and> (\<exists>call \<in> set calls. rq_method rq = (if is_read call then ''GET'' else ''POST'')
          \<and> rq_url rq = url_of (call_scheme call c) c @ call_path call \<and> rq_data rq = call_data call c)"

definition same_client :: "asp_client \<Rightarrow> asp_client \<Rightarrow> bool" where
  "same_client c c1 \<longleftrightarrow> (\<exists>a b l. c1 = c\<lparr>ac_session_cookie := a, ac_csrf_token := b, ac_log := l\<rparr>)"

lemma same_client_refl: "same_client c c"
  unfolding same_client_def
  by (intro exI [of _ "ac_session_cookie c"] exI [of _ "ac_csrf_token c"] exI [of _ "ac_log c"]) simp

lemma same_client_trans: "same_client a b \<Longrightarrow> same_client b c \<Longrightarrow> same_client a c"
  unfolding same_client_def by (elim exE, intro exI) simp

lemma same_client_log: "same_client c (c\<lparr>ac_log := l\<rparr>)"
  unfolding same_client_def
  by (intro exI [of _ "ac_session_cookie c"] exI [of _ "ac_csrf_token c"] exI [of _ l]) simp

lemma same_client_D:
  assumes "same_client c c1"
  shows "ac_max_retries c1 = ac_max_retries c" "url_of tls c1 = url_of tls c" "call_scheme call c1 = call_scheme call c"
    "call_data call c1 = call_data call c"
proof -
  obtain a b l where c1: "c1 = c\<lparr>ac_session_cookie := a, ac_csrf_token := b, ac_log := l\<rparr>"
    using assms unfolding same_client_def by blast
  show "ac_max_retries c1 = ac_max_retries c" "url_of tls c1 = url_of tls c" "call_data call c1 = call_data call c"
    by (simp_all add: c1 url_of_def, cases call, simp_all add: c1)
  show "call_scheme call c1 = call_scheme call c"
    by (cases "(call, c)" rule: call_scheme.cases) (simp_all add: c1)
qed

lemma run_call_step:
  "\<exists>k. sent_requests (ac_log (run_call le srv call c)) = sent_requests (ac_log c) @ replicate k (request_of call c)
     \<and> k \<le> Suc (ac_max_retries c) \<and> same_client c (run_call le srv call c)"
proof (cases "call = Login")
  case True
  obtain c1 cookie csrf where c1: "only_sends (request_of Login c) c c1"
      "run_call le srv Login c = c1\<lparr>ac_session_cookie := cookie, ac_csrf_token := csrf\<rparr>"
    by (rule login_sends)
  have "same_client c1 (c1\<lparr>ac_session_cookie := cookie, ac_csrf_token := csrf\<rparr>)"
    unfolding same_client_def by (intro exI [of _ cookie] exI [of _ csrf] exI [of _ "ac_log c1"]) simp
  with c1 True show ?thesis by (auto simp: only_sends_def intro: same_client_trans [OF same_client_log])
next
  case False
  from call_only_sends [OF this, of c le srv] show ?thesis
    by (auto simp: only_sends_def same_client_log)
qed

lemma headers_csrf: "sublist ''WEBSES'' url \<Longrightarrow> ''CSRFTOKEN'' \<notin> fst ` set (headers url c)"
  by (auto simp: headers_def)

lemma request_of_disciplined: "call \<in> set calls \<Longrightarrow> disciplined calls c (request_of call c)"
  by (auto simp: disciplined_def request_of_def build_request_def headers_csrf)

lemma calls_disciplined:
  assumes "same_client c0 c" and "\<forall>rq \<in> set (sent_requests (ac_log c)). disciplined all c0 rq" and "set calls \<subseteq> set all"
  shows "(\<forall>rq \<in> set (sent_requests (ac_log (fold (run_call le srv) calls c))). disciplined all c0 rq)
    \<and> length (sent_requests (ac_log (fold (run_call le srv) calls c)))
        \<le> length (sent_requests (ac_log c)) + length calls * Suc (ac_max_retries c0)
    \<and> same_client c0 (fold (run_call le srv) calls c)"
  using assms
proof (induction calls arbitrary: c)
  case (Cons call calls)
  let ?c1 = "run_call le srv call c"
  obtain k where k: "sent_requests (ac_log ?c1) = sent_requests (ac_log c) @ replicate k (request_of call c)"
      "k \<le> Suc (ac_max_retries c)" "same_client c ?c1"
    using run_call_step by blast
  have "same_client c0 ?c1"
    using Cons.prems(1) k(3) by (rule same_client_trans)
  moreover have "disciplined all c0 (request_of call c)"
    using request_of_disciplined [of call all c] Cons.prems(3) same_client_D [OF Cons.prems(1)] by (simp add: disciplined_def)
  then have "\<forall>rq \<in> set (sent_requests (ac_log ?c1)). disciplined all c0 rq" using Cons.prems(2) k(1) by auto
  moreover have "set calls \<subseteq> set all" using Cons.prems(3) by simp
  ultimately show ?case
    using Cons.IH [of ?c1] k(1,2) same_client_D(1) [OF Cons.prems(1)] by simp
qed simp

section \<open>Answers at the first attempt\<close>

lemma send_served:
  assumes "srv (sent_requests (ac_log c) @ [build_request meth url data params c]) = HttpResponse text" and "op \<noteq> []"
  shows "send_with_retry srv meth url (Some op) data params c
    = (Inr text, c\<lparr>ac_log := ac_log c @ [Sent (build_request meth url data params c)]\<rparr>)"
proof -
  have "attempt_outcome srv op (build_request meth url data params c) c 0 = Served text"
    using assms(1) by (simp add: attempt_outcome_def classify_outcome_def)
  with retry_loop_trace [of 0 srv op "build_request meth url data params c" c 0 meth url data params]
  show ?thesis using assms(2) by (simp add: send_with_retry_def given_def)
qed

lemma request_served:
  assumes "srv (sent_requests (ac_log c) @ [build_request meth (base_url c @ path) data None c]) = HttpResponse text" and "op \<noteq> []"
  shows "client_request srv meth path (Some op) data c
    = (Inr text, c\<lparr>ac_log := ac_log c @ [Sent (build_request meth (base_url c @ path) data None c)]\<rparr>)"
  using send_served [where srv = srv and op = op, OF assms] assms(2) by (simp add: client_request_def given_def)

text \<open>A quoted field of a \<open>create.asp\<close> body.\<close>

definition render_field :: "string \<Rightarrow> string \<Rightarrow> string \<Rightarrow> string \<Rightarrow> string" where
  "render_field name w1 w2 v = (quote_chr # name @ [quote_chr]) @ w1 @ CHR '':'' # w2 @ quote_chr # v @ [quote_chr]"

definition readable_field :: "string \<Rightarrow> string \<Rightarrow> string \<Rightarrow> string \<Rightarrow> string \<Rightarrow> bool" where
  "readable_field pre name w1 w2 v \<longleftrightarrow> \<not> sublist (quote_chr # name @ [quote_chr]) (pre @ quote_chr # name)
     \<and> (\<forall>c \<in> set w1. is_space c) \<and> (\<forall>c \<in> set w2. is_space c) \<and> quote_chr \<notin> set v"

lemma search_field:
  assumes "readable_field pre name w1 w2 v"
  shows "\<exists>m. rx_search (field_re name) (pre @ render_field name w1 w2 v @ rest) = Some m \<and> rx_group 1 m = v"
  using field_search [of name pre w1 w2 v rest] assms by (simp add: readable_field_def render_field_def)

lemma login_served:
  assumes "srv (sent_requests (ac_log c) @ [request_of Login c]) = HttpResponse (pre @ render_field ''SESSION_COOKIE'' w1 w2 cookie @ rest)"
    and "readable_field pre ''SESSION_COOKIE'' w1 w2 cookie"
  shows "login srv c = (let c1 = c\<lparr>ac_log := ac_log c @ [Sent (request_of Login c)]\<rparr> in
     if cookie = [] \<or> starts_with cookie FAILURE_LOGIN_PREFIX then (Inl (asp_error AUTHENTICATION ''login'' False c), c1)
     else (Inr cookie, c1\<lparr>ac_session_cookie := Some cookie,
            ac_csrf_token := field_value CSRFTOKEN_RE (pre @ render_field ''SESSION_COOKIE'' w1 w2 cookie @ rest)\<rparr>))"
proof -
  have rq: "request_of Login c = build_request ''POST'' (base_url c @ LOGIN_PATH)
      (Some [(''WEBVAR_USERNAME'', ac_username c), (''WEBVAR_PASSWORD'', ac_password c)]) None c"
    by (simp add: request_of_def base_url_def)
  obtain m where "rx_search SESSION_COOKIE_RE (pre @ render_field ''SESSION_COOKIE'' w1 w2 cookie @ rest) = Some m" "rx_group 1 m = cookie"
    using search_field [OF assms(2)] unfolding SESSION_COOKIE_RE_def by blast
  with request_served [where srv = srv and op = "''login''", OF assms(1) [unfolded rq]] show ?thesis
    by (auto simp: login_def Let_def looks_like_failed_login_def rq)
qed

lemma allocate_served:
  assumes "srv (sent_requests (ac_log c) @ [request_of (AllocateMedia ip secure) c]) = HttpResponse document"
    and "ac_session_cookie c \<noteq> None" and "kvm_token (from_arguments (parse_jnlp_arguments document)) \<noteq> None"
  shows "allocate_media_session srv ip secure c = (Inr (from_arguments (parse_jnlp_arguments document)),
     c\<lparr>ac_log := ac_log c @ [Sent (request_of (AllocateMedia ip secure) c)]\<rparr>)"
proof -
  have rq: "request_of (AllocateMedia ip secure) c = build_request ''GET''
      (url_of (case secure of None \<Rightarrow> ac_use_tls c | Some b \<Rightarrow> b) c @ ''/Java/jviewer.jnlp'') None
      (Some [(''EXTRNIP'', ip), (''JNLPSTR'', ''JViewer'')]) c"
    by (cases secure) (simp_all add: request_of_def)
  from send_served [where srv = srv and op = "''allocate_media_session''", OF assms(1) [unfolded rq]] assms(2,3) show ?thesis
    by (auto simp: allocate_media_session_def issue_media_request_def Let_def rq)
qed

lemma token_of_pairs:
  assumes "py_lower (unescape_entities n) = ''kvmtoken''" and "strip (unescape_entities tok) \<noteq> []"
    and "\<forall>(m, v) \<in> set later. py_lower (unescape_entities m) \<noteq> ''kvmtoken''"
  shows "kvm_token (from_arguments (fold (\<lambda>(n, v). dict_set (py_lower (unescape_entities n)) (unescape_entities v))
     (earlier @ (n, tok) # later) [])) = Some (strip (unescape_entities tok))"
proof -
  have keep: "map_of (fold (\<lambda>(n, v). dict_set (py_lower (unescape_entities n)) (unescape_entities v)) kvs d) ''kvmtoken''
      = map_of d ''kvmtoken''" if "\<forall>(m, v) \<in> set kvs. py_lower (unescape_entities m) \<noteq> ''kvmtoken''" for kvs d
    using that by (induction kvs arbitrary: d) (auto simp: map_of_dict_set)
  show ?thesis
    using assms keep [OF assms(3)]
    by (simp add: from_arguments_def Let_def arg_get_def map_of_dict_set optional_str_def)
qed

section \<open>Properties\<close>

text \<open>A client as the constructor leaves it, for the witnesses.\<close>

definition sample_client :: asp_client where
  "sample_client = \<lparr>ac_host = ''h'', ac_port = 443, ac_username = ''u'', ac_password = ''p'', ac_use_tls = True,
     ac_timeout = 30, ac_connect_timeout = 10, ac_max_retries = 2,
     ac_policy = \<lparr>validate_certs = True, ca_path = None, fingerprint = None\<rparr>, ac_pool = None,
     ac_session_cookie = None, ac_csrf_token = None, ac_log = []\<rparr>"

text \<open>C23. A request is retried only on the busy shape and never without bound: whatever the BMC does,
  a call sends the same request at most \<open>max_retries + 1\<close> times, sleeping one more back-off unit before
  each further attempt; every attempt but the last was busy, the last attempt's outcome is the call's,
  and a busy last attempt (only after all retries) raises the indeterminate \<open>BMC_BUSY\<close> error.\<close>

theorem bounded_retries:
  assumes "op \<noteq> []"
  shows "\<exists>i \<le> ac_max_retries c.
     (\<forall>j < i. attempt_outcome srv op (build_request meth url data params c) c j = TransientBusy)
   \<and> (attempt_outcome srv op (build_request meth url data params c) c i = TransientBusy \<longrightarrow> i = ac_max_retries c)
   \<and> send_with_retry srv meth url (Some op) data params c
      = (case attempt_outcome srv op (build_request meth url data params c) c i of
           Served text \<Rightarrow> Inr text
         | Failed e \<Rightarrow> Inl e
         | TransientBusy \<Rightarrow> Inl (Ikvm \<lparr>error_class = BMC_BUSY, endpoint = Some (client_endpoint c), operation = Some op,
             indeterminate = True, return_value = None\<rparr>),
         c\<lparr>ac_log := ac_log c @ retry_trace (build_request meth url data params c) 0 i\<rparr>)"
proof (rule send_with_retry_trace [of c srv op meth url data params])
  fix i assume i: "i \<le> ac_max_retries c"
    and "\<forall>j < i. attempt_outcome srv op (build_request meth url data params c) c j = TransientBusy"
    and "attempt_outcome srv op (build_request meth url data params c) c i = TransientBusy \<Longrightarrow> i = ac_max_retries c"
    and send: "op \<noteq> [] \<Longrightarrow> send_with_retry srv meth url (Some op) data params c
      = (final_result op c (attempt_outcome srv op (build_request meth url data params c) c i),
         c\<lparr>ac_log := ac_log c @ retry_trace (build_request meth url data params c) 0 i\<rparr>)"
  moreover have "final_result op c r = (case r of Served text \<Rightarrow> Inr text | Failed e \<Rightarrow> Inl e
      | TransientBusy \<Rightarrow> Inl (Ikvm \<lparr>error_class = BMC_BUSY, endpoint = Some (client_endpoint c), operation = Some op,
             indeterminate = True, return_value = None\<rparr>))" for r
    by (cases r) (simp_all add: asp_error_def)
  ultimately show ?thesis using send [OF assms] by (intro exI [of _ i]) simp
qed

theorem bounded_retries_witness:
  "fst (send_with_retry (\<lambda>h. if length h = 2 then HttpResponse ''ok'' else ReadTimeout) ''GET'' ''u'' (Some ''op'') None None sample_client) = Inr ''ok''"
proof -
  let ?srv = "\<lambda>h :: http_request list. if length h = 2 then HttpResponse ''ok'' else ReadTimeout"
  have out: "attempt_outcome ?srv ''op'' rq sample_client j = (if j = 1 then Served ''ok'' else TransientBusy)" for rq j
    by (simp add: attempt_outcome_def sample_client_def classify_outcome_def)
  obtain i where busy: "\<forall>j < i. attempt_outcome ?srv ''op'' (build_request ''GET'' ''u'' None None sample_client) sample_client j = TransientBusy"
    and last: "attempt_outcome ?srv ''op'' (build_request ''GET'' ''u'' None None sample_client) sample_client i = TransientBusy
        \<longrightarrow> i = ac_max_retries sample_client"
    and res: "fst (send_with_retry ?srv ''GET'' ''u'' (Some ''op'') None None sample_client)
       = (case attempt_outcome ?srv ''op'' (build_request ''GET'' ''u'' None None sample_client) sample_client i of
           Served text \<Rightarrow> Inr text
         | Failed e \<Rightarrow> Inl e
         | TransientBusy \<Rightarrow> Inl (Ikvm \<lparr>error_class = BMC_BUSY, endpoint = Some (client_endpoint sample_client), operation = Some ''op'',
             indeterminate = True, return_value = None\<rparr>))"
    using bounded_retries [of "''op''" sample_client ?srv "''GET''" "''u''" None None] by (metis fst_conv list.distinct(1))
  have "ac_max_retries sample_client = 2" by (simp add: sample_client_def)
  then have "i = 1" using busy last by (metis out one_less_numeral_iff semiring_norm(76) send_result.distinct(3))
  with res show ?thesis by (simp add: out)
qed

text \<open>C15. The client keeps its wire discipline over any sequence of calls, whatever the BMC answers:
  no more than \<open>max_retries + 1\<close> requests per call; every request goes to the configured host and port,
  over the client's own scheme unless that allocation named another; the anti-CSRF token never
  accompanies a \<open>WEBSES\<close> URL; reads are bodiless GETs and only the writing methods POST their data.\<close>

theorem client_wire_discipline:
  assumes "ac_log c = []"
  shows "length (sent_requests (ac_log (fold (run_call le srv) calls c))) \<le> length calls * Suc (ac_max_retries c)
    \<and> (\<forall>rq \<in> set (sent_requests (ac_log (fold (run_call le srv) calls c))).
         (sublist ''WEBSES'' (rq_url rq) \<longrightarrow> ''CSRFTOKEN'' \<notin> fst ` set (rq_headers rq))
       \<and> (\<exists>call \<in> set calls. rq_method rq = (if is_read call then ''GET'' else ''POST'')
            \<and> rq_url rq = url_of (call_scheme call c) c @ call_path call \<and> rq_data rq = call_data call c))
    \<and> (list_all is_read calls \<longrightarrow> (\<forall>rq \<in> set (sent_requests (ac_log (fold (run_call le srv) calls c))).
         rq_method rq = ''GET'' \<and> rq_data rq = None))"
proof -
  from calls_disciplined [OF same_client_refl, of c calls calls le srv] assms
  have d: "\<forall>rq \<in> set (sent_requests (ac_log (fold (run_call le srv) calls c))). disciplined calls c rq"
    and n: "length (sent_requests (ac_log (fold (run_call le srv) calls c))) \<le> length calls * Suc (ac_max_retries c)"
    by simp_all
  have reads: "is_read call \<Longrightarrow> call_data call c = None" for call by (cases call) simp_all
  show ?thesis
    using n d by (auto simp: disciplined_def list_all_iff reads)
qed

theorem client_wire_discipline_witness:
  "length (sent_requests (ac_log (fold (run_call (\<lambda>s. None) (\<lambda>h. ReadTimeout)) [Login, GetHostStatus] sample_client))) \<le> 6"
  using client_wire_discipline [of sample_client "\<lambda>s. None" "\<lambda>h. ReadTimeout" "[Login, GetHostStatus]"]
  by (simp add: sample_client_def)

lemma login_credentials:
  "case login srv c of
     (Inr cookie, c1) \<Rightarrow> cookie \<noteq> [] \<and> \<not> starts_with cookie ''Failure_Login'' \<and> ac_session_cookie c1 = Some cookie
       \<and> \<not> (ac_csrf_token c1 = Some [])
   | (Inl e, c1) \<Rightarrow> ac_session_cookie c1 = ac_session_cookie c \<and> ac_csrf_token c1 = ac_csrf_token c"
proof -
  let ?r = "client_request srv ''POST'' LOGIN_PATH (Some ''login'') (Some [(''WEBVAR_USERNAME'', ac_username c), (''WEBVAR_PASSWORD'', ac_password c)]) c"
  obtain res c1 where r: "?r = (res, c1)" by (cases ?r)
  have "only_sends (request_of Login c) c c1"
    using request_only_sends [of "''login''" "''POST''" c LOGIN_PATH
        "Some [(''WEBVAR_USERNAME'', ac_username c), (''WEBVAR_PASSWORD'', ac_password c)]" srv] r
    by (simp add: request_of_def base_url_def)
  then have "ac_session_cookie c1 = ac_session_cookie c \<and> ac_csrf_token c1 = ac_csrf_token c"
    by (auto simp: only_sends_def)
  moreover have "field_value p t \<noteq> Some []" for p t by (simp add: field_value_def split: option.splits)
  ultimately show ?thesis
    unfolding login_def r looks_like_failed_login_def FAILURE_LOGIN_PREFIX_def Let_def
    by (auto split: sum.splits option.splits)
qed

text \<open>The types of a client's credentials: a stored cookie is one the BMC granted, and a token is non-empty and
  stored with a cookie only.\<close>

definition credentials_typed :: "asp_client \<Rightarrow> bool" where
  "credentials_typed c \<longleftrightarrow> (case ac_session_cookie c of None \<Rightarrow> ac_csrf_token c = None
     | Some cookie \<Rightarrow> cookie \<noteq> [] \<and> \<not> starts_with cookie ''Failure_Login'') \<and> ac_csrf_token c \<noteq> Some []"

lemma run_call_credentials:
  assumes "credentials_typed c"
  shows "credentials_typed (run_call le srv call c)"
proof (cases "call = Login")
  case True
  with assms login_credentials [of c srv] show ?thesis
    by (auto simp: credentials_typed_def split: prod.splits sum.splits option.splits)
next
  case False
  from call_only_sends [OF this, of c le srv] assms show ?thesis
    by (auto simp: only_sends_def credentials_typed_def split: option.splits)
qed

lemma run_calls_typed:
  assumes "credentials_typed c"
  shows "credentials_typed (fold (run_call le srv) calls c) \<and> same_client c (fold (run_call le srv) calls c)"
  using assms
proof (induction calls arbitrary: c)
  case (Cons call calls)
  from Cons.IH [OF run_call_credentials [OF Cons.prems]] run_call_step [of le srv call c]
  show ?case using same_client_trans by (metis fold_simps(2))
qed (simp add: same_client_refl)

text \<open>A login stores a credential only when the BMC granted one: whatever the BMC answers, a returned
  cookie is non-empty, is no \<open>Failure_Login\<close> marker and is the one stored; every failure, the HTTP-200
  rejection included, leaves the stored cookie and token as they were.\<close>

theorem login_stores_only_granted:
  "case login srv c of
     (Inr cookie, c1) \<Rightarrow> cookie \<noteq> [] \<and> \<not> starts_with cookie ''Failure_Login'' \<and> ac_session_cookie c1 = Some cookie
       \<and> \<not> (ac_csrf_token c1 = Some [])
   | (Inl e, c1) \<Rightarrow> ac_session_cookie c1 = ac_session_cookie c \<and> ac_csrf_token c1 = ac_csrf_token c"
  by (rule login_credentials)

text \<open>The client after a login that was served at once.\<close>

definition logged_in :: "asp_client \<Rightarrow> string \<Rightarrow> string \<Rightarrow> asp_client" where
  "logged_in c cookie token = c\<lparr>ac_log := ac_log c @ [Sent (request_of Login c)], ac_session_cookie := Some cookie,
     ac_csrf_token := Some token\<rparr>"

text \<open>C7. Login and allocation compose: when the BMC answers \<open>create.asp\<close> with a cookie field and a token
  field and the JNLP request with a document that holds a \<open>-kvmtoken\<close> pair, the two calls return that
  cookie and a session carrying that token; the allocation was authorised by the cookie and, unless the
  URL is a \<open>WEBSES\<close> one, by the anti-CSRF token of the same login.\<close>

theorem media_session_allocated:
  assumes login_body: "srv (sent_requests (ac_log c) @ [request_of Login c]) = HttpResponse
      (pre @ render_field ''SESSION_COOKIE'' w1 w2 cookie @ mid @ render_field ''CSRFTOKEN'' w3 w4 token @ post)"
    and cookie: "readable_field pre ''SESSION_COOKIE'' w1 w2 cookie" "cookie \<noteq> []" "\<not> starts_with cookie ''Failure_Login''"
    and token: "readable_field (pre @ render_field ''SESSION_COOKIE'' w1 w2 cookie @ mid) ''CSRFTOKEN'' w3 w4 token" "token \<noteq> []"
    and jnlp: "srv (sent_requests (ac_log c) @ [request_of Login c, request_of (AllocateMedia ip secure) (logged_in c cookie token)])
        = HttpResponse (jpre @ render_elements es)"
      "no_argument jpre" "\<forall>e \<in> set es. good_element e"
      "map element_text es = positional @ concat (map (\<lambda>(n, v). [CHR ''-'' # n, v]) (earlier @ (n, tok) # later))"
      "\<forall>p \<in> set positional. \<not> starts_with p ''-''"
    and kvm: "py_lower (unescape_entities n) = ''kvmtoken''" "strip (unescape_entities tok) \<noteq> []"
      "\<forall>(m, v) \<in> set later. py_lower (unescape_entities m) \<noteq> ''kvmtoken''"
  shows "login srv c = (Inr cookie, (logged_in c cookie token)) \<and>
    (\<exists>session. fst (allocate_media_session srv ip secure (logged_in c cookie token)) = Inr session \<and> kvm_token session = Some (strip (unescape_entities tok)))
    \<and> rq_headers (request_of (AllocateMedia ip secure) (logged_in c cookie token)) = (''Cookie'', ''SessionCookie='' @ cookie)
        # (if sublist ''WEBSES'' (rq_url (request_of (AllocateMedia ip secure) (logged_in c cookie token))) then [] else [(''CSRFTOKEN'', token)])"
proof (intro conjI)
  let ?body = "pre @ render_field ''SESSION_COOKIE'' w1 w2 cookie @ mid @ render_field ''CSRFTOKEN'' w3 w4 token @ post"
  obtain m where "rx_search CSRFTOKEN_RE ?body = Some m" "rx_group 1 m = token"
    using search_field [OF token(1), of post] unfolding CSRFTOKEN_RE_def by auto
  with token(2) have "field_value CSRFTOKEN_RE ?body = Some token" by (simp add: field_value_def)
  with login_served [where srv = srv, OF login_body cookie(1)] cookie(2,3) show "login srv c = (Inr cookie, (logged_in c cookie token))"
    by (simp add: logged_in_def FAILURE_LOGIN_PREFIX_def Let_def)
  let ?session = "from_arguments (parse_jnlp_arguments (jpre @ render_elements es))"
  have "kvm_token ?session = Some (strip (unescape_entities tok))"
    unfolding parse_rendered_jnlp [OF jnlp(2-5)] by (rule token_of_pairs [OF kvm])
  moreover have "fst (allocate_media_session srv ip secure (logged_in c cookie token)) = Inr ?session"
    using allocate_served [of srv "logged_in c cookie token" ip secure "jpre @ render_elements es"] jnlp(1) calculation
    by (simp add: logged_in_def)
  ultimately show "\<exists>session. fst (allocate_media_session srv ip secure (logged_in c cookie token)) = Inr session \<and> kvm_token session = Some (strip (unescape_entities tok))"
    by blast
  show "rq_headers (request_of (AllocateMedia ip secure) (logged_in c cookie token)) = (''Cookie'', ''SessionCookie='' @ cookie)
        # (if sublist ''WEBSES'' (rq_url (request_of (AllocateMedia ip secure) (logged_in c cookie token))) then [] else [(''CSRFTOKEN'', token)])"
    using cookie(2) token(2) by (simp add: request_of_def build_request_def headers_def given_def logged_in_def)
qed

definition sample_elements :: "element list" where
  "sample_elements = [([], ''-kvmToken'', [], [CHR 0x0A]), ('' '', ''k1'', '' '', ''</jnlp>'')]"

definition sample_bmc :: server where
  "sample_bmc h = (if length h = 1
     then HttpResponse (''{ '' @ render_field ''SESSION_COOKIE'' '' '' '' '' ''abc'' @ '','' @ render_field ''CSRFTOKEN'' [] [] ''tk'' @ ''}'')
     else HttpResponse (''<jnlp>'' @ render_elements sample_elements))"

theorem media_session_allocated_witness:
  "\<exists>session. fst (allocate_media_session sample_bmc ''10.0.0.9'' None (logged_in sample_client ''abc'' ''tk'')) = Inr session
     \<and> kvm_token session = Some ''k1''"
proof -
  have sp: "is_space (CHR '' '')" by (simp add: is_space_def)
  have k: "py_lower (unescape_entities ''kvmToken'') = ''kvmtoken''" by code_simp
  have v: "unescape_entities ''k1'' = ''k1'' \<and> strip ''k1'' = ''k1''" by code_simp
  have good: "\<forall>e \<in> set sample_elements. good_element e"
    by (simp add: sample_elements_def plain_text_def strip_def lstrip_def is_space_def no_argument_def sublist_code)
  have cookie: "readable_field ''{ '' ''SESSION_COOKIE'' '' '' '' '' ''abc''"
    by (simp add: readable_field_def is_space_def quote_chr_def sublist_code)
  have token: "readable_field (''{ '' @ render_field ''SESSION_COOKIE'' '' '' '' '' ''abc'' @ '','') ''CSRFTOKEN'' [] [] ''tk''"
    by (simp add: readable_field_def render_field_def quote_chr_def sublist_code)
  have "login sample_bmc sample_client = (Inr ''abc'', logged_in sample_client ''abc'' ''tk'') \<and>
    (\<exists>session. fst (allocate_media_session sample_bmc ''10.0.0.9'' None (logged_in sample_client ''abc'' ''tk'')) = Inr session
       \<and> kvm_token session = Some (strip (unescape_entities ''k1'')))
    \<and> rq_headers (request_of (AllocateMedia ''10.0.0.9'' None) (logged_in sample_client ''abc'' ''tk'')) = (''Cookie'', ''SessionCookie='' @ ''abc'')
        # (if sublist ''WEBSES'' (rq_url (request_of (AllocateMedia ''10.0.0.9'' None) (logged_in sample_client ''abc'' ''tk''))) then [] else [(''CSRFTOKEN'', ''tk'')])"
    by (rule media_session_allocated [where positional = "[]" and earlier = "[]" and later = "[]" and n = "''kvmToken''" and tok = "''k1''"
          and pre = "''{ ''" and mid = "'',''" and post = "''}''" and jpre = "''<jnlp>''" and es = sample_elements, OF _ cookie _ _ token _ _ _ good])
      (simp_all add: k v sample_bmc_def sample_client_def sample_elements_def no_argument_def sublist_code)
  with v show ?thesis by simp
qed

text \<open>A write succeeds only when the BMC says so: for every answer, \<open>set_webvar\<close> returns a response
  only if its \<open>HAPI_STATUS\<close> is zero; and the answer rendered as the BMC prints it, with any status, is
  returned when the status is zero and raised as a \<open>REMOTE_OPERATION\<close> error carrying that status when it
  is not, never taken for the session-expired page.\<close>

theorem set_webvar_reports_status:
  assumes served: "srv (sent_requests (ac_log c) @ [request_of (SetWebvar ep data op) c])
      = HttpResponse (render_webvar banner name struct arr status rest)"
    and body: "CHR ''W'' \<notin> set banner" "balanced arr" "name \<noteq> []" "\<forall>c \<in> set name. is_word c"
      "struct \<noteq> []" "\<forall>c \<in> set struct. is_word c"
      "literal_eval (''['' @ arr @ '']'') = Some (LitList (map LitDict rs))"
  shows "fst (set_webvar literal_eval srv ep data op c) =
      (if status = 0 then Inr \<lparr>variable_name = name, struct_name = struct, records = drop_sentinel rs, hapi_status = 0\<rparr>
       else Inl (Ikvm \<lparr>error_class = REMOTE_OPERATION, endpoint = Some (client_endpoint c),
              operation = Some (webvar_op ''set_webvar'' op ep), indeterminate = False, return_value = Some status\<rparr>))
    \<and> (\<forall>srv' r. fst (set_webvar literal_eval srv' ep data op c) = Inr r \<longrightarrow> hapi_status r = 0)"
proof (intro conjI allI impI)
  let ?body = "render_webvar banner name struct arr status rest" and ?op = "webvar_op ''set_webvar'' op ep"
  have rq: "request_of (SetWebvar ep data op) c = build_request ''POST'' (base_url c @ rpc_path ep) (Some data) None c"
    by (simp add: request_of_def base_url_def)
  have "sublist WEBVAR_JSONVAR_MARKER ?body"
    unfolding render_webvar_def WEBVAR_JSONVAR_MARKER_def by (metis sublist_appendI)
  then have "raise_if_session_expired ?body ?op c1 = None" for c1
    by (simp add: raise_if_session_expired_def looks_like_session_expired_html_def)
  moreover have "parse_webvar literal_eval ?body (Some ep) (Some ?op)
      = Inr \<lparr>variable_name = name, struct_name = struct, records = drop_sentinel rs, hapi_status = status\<rparr>"
    by (rule parse_render_webvar) fact+
  ultimately show "fst (set_webvar literal_eval srv ep data op c) =
      (if status = 0 then Inr \<lparr>variable_name = name, struct_name = struct, records = drop_sentinel rs, hapi_status = 0\<rparr>
       else Inl (Ikvm \<lparr>error_class = REMOTE_OPERATION, endpoint = Some (client_endpoint c),
              operation = Some ?op, indeterminate = False, return_value = Some status\<rparr>))"
    using request_served [where srv = srv and op = ?op, OF served [unfolded rq] webvar_op_nonempty]
    by (simp add: set_webvar_def Let_def read_webvar_def)
  fix srv' r assume "fst (set_webvar literal_eval srv' ep data op c) = Inr r"
  then show "hapi_status r = 0"
    by (auto simp: set_webvar_def Let_def split: prod.splits sum.splits if_splits)
qed

theorem set_webvar_reports_status_witness:
  "fst (set_webvar (\<lambda>s. if s = ''['' @ sample_array @ '']'' then Some (LitList (map LitDict sample_rows)) else None)
      (\<lambda>h. HttpResponse (render_webvar ''//x'' ''SETNTP'' ''SETNTP'' sample_array 7 ''};'')) ''setntpcfg'' [] None sample_client)
    = Inl (Ikvm \<lparr>error_class = REMOTE_OPERATION, endpoint = Some ''h:443'',
              operation = Some ''set_webvar:setntpcfg'', indeterminate = False, return_value = Some 7\<rparr>)"
proof -
  have w: "\<forall>c \<in> set ''SETNTP''. is_word c" by code_simp
  have ep: "client_endpoint sample_client = ''h:443''" by code_simp
  show ?thesis
    using set_webvar_reports_status [of "\<lambda>h. HttpResponse (render_webvar ''//x'' ''SETNTP'' ''SETNTP'' sample_array 7 ''};'')"
        sample_client "''setntpcfg''" "[]" None "''//x''" "''SETNTP''" "''SETNTP''" sample_array 7 "''};''"
        "\<lambda>s. if s = ''['' @ sample_array @ '']'' then Some (LitList (map LitDict sample_rows)) else None" sample_rows]
      sample_array_balanced w by (simp add: ep webvar_op_def given_def)
qed

end
