(* ===== verification/Media_Module.thy ===== *)
theory Media_Module
  imports Media_Session Asp_Client
begin

text \<open>
  \<open>plugins/modules/asmb8_media.py\<close>: the Ansible module that attaches and detaches the media daemon, and the
  login-and-allocate sequence that daemon runs against the BMC. The processes, the clock and what the
  daemon does to the runtime directory while the module waits are arguments. Whatever a run signals and
  whether it forks is part of its result; message texts are not modelled.
\<close>

section \<open>The daemon's token\<close>

text \<open>The steps of \<open>_run_daemon\<close> between \<open>connecting\<close> and the media connection; \<open>local_ip\<close> is
  \<open>resolve_local_ip\<close>.\<close>

definition daemon_alloc ::
  "(string \<Rightarrow> ssl_context) \<Rightarrow> (string \<Rightarrow> exn option) \<Rightarrow> server \<Rightarrow> exn + string \<Rightarrow> session_config \<Rightarrow> string \<Rightarrow> string \<Rightarrow> exn + string option" where
  "daemon_alloc make_context load_ca srv local_ip cfg username password =
     (case asp_client_init make_context load_ca (cfg_host cfg) (int (cfg_port cfg)) username password (cfg_use_tls cfg)
             (cfg_validate_certs cfg) (cfg_ca_path cfg) (cfg_tls_fingerprint cfg) (cfg_allow_insecure_transport cfg)
             (int (cfg_timeout cfg)) (int (cfg_connect_timeout cfg)) 2 of
        Inl e \<Rightarrow> Inl e
      | Inr c \<Rightarrow> (case login srv c of
        (Inl e, c1) \<Rightarrow> Inl e
      | (Inr _, c1) \<Rightarrow> (case local_ip of
        Inl e \<Rightarrow> Inl e
      | Inr ip \<Rightarrow> (case allocate_media_session srv ip None c1 of
        (Inl e, c2) \<Rightarrow> Inl e
      | (Inr jnlp, c2) \<Rightarrow> Inr (kvm_token jnlp)))))"

section \<open>Reported fields\<close>

type_synonym trace_summary = "pyval list \<times> pyval list \<times> nat"

text \<open>\<open>sf_state = None\<close> is the text \<open>unknown\<close>.\<close>

record status_fields =
  sf_state :: "lifecycle option"
  sf_pid :: "int option"
  sf_bytes_read :: nat
  sf_sectors_served :: nat
  sf_last_request_at :: "string option"
  sf_updated_at :: "string option"
  sf_error :: "error_text option"
  sf_idle_polls :: nat
  sf_current_idle_streak :: "idle_streak option"
  sf_last_idle_streak :: "idle_streak option"
  sf_stop_reason :: "stop_reason option"
  sf_trace :: trace_summary

definition EMPTY_READ_TRACE :: trace_summary where
  "EMPTY_READ_TRACE = ([], [], 0)"

definition status_fields_of :: "media_state option \<Rightarrow> trace_summary \<Rightarrow> status_fields" where
  "status_fields_of state trace = (case state of
      None \<Rightarrow> \<lparr>sf_state = None, sf_pid = None, sf_bytes_read = 0, sf_sectors_served = 0, sf_last_request_at = None,
               sf_updated_at = None, sf_error = None, sf_idle_polls = 0, sf_current_idle_streak = None,
               sf_last_idle_streak = None, sf_stop_reason = None, sf_trace = trace\<rparr>
    | Some s \<Rightarrow> \<lparr>sf_state = Some (ms_state s), sf_pid = Some (ms_pid s), sf_bytes_read = bytes_read s,
               sf_sectors_served = sectors_served s, sf_last_request_at = last_request_at s,
               sf_updated_at = Some (updated_at s), sf_error = ms_error s, sf_idle_polls = idle_polls s,
               sf_current_idle_streak = current_idle_streak s, sf_last_idle_streak = last_idle_streak s,
               sf_stop_reason = ms_stop_reason s, sf_trace = trace\<rparr>)"

definition with_trace :: "media_state option \<Rightarrow> trace_summary \<Rightarrow> (media_state \<times> trace_summary) option" where
  "with_trace state trace = map_option (\<lambda>s. (s, trace)) state"

definition error_class_of :: "media_state option \<Rightarrow> error_class" where
  "error_class_of state = (case state of None \<Rightarrow> PROTOCOL
     | Some s \<Rightarrow> (case ms_error_class s of None \<Rightarrow> PROTOCOL | Some c \<Rightarrow> c))"

record media_exit =
  x_changed :: bool
  x_session_id :: string
  x_fields :: status_fields
  x_previous :: "media_state option"
  x_desired :: "string option"
  x_observed :: "(media_state \<times> trace_summary) option"
  x_recovered_stale :: "bool option"
  x_reclaimed :: "string list option"
  x_exited_cleanly :: "bool option"

record media_fail =
  f_error_class :: error_class
  f_indeterminate :: bool
  f_session_id :: string
  f_reclaimed :: "string list"
  f_fields :: status_fields

text \<open>\<open>exit_json\<close>, \<open>fail_json\<close> with the session's fields, or an exception: an \<open>IkvmError\<close> of these is
  rendered by \<open>main\<close>, any other leaves the module.\<close>

datatype media_outcome = Exit media_exit | Fail media_fail | Raised exn

record module_run =
  mr_outcome :: media_outcome
  mr_signals :: "int list"
  mr_spawned :: bool
  mr_fs :: "media_state rt_fs"

section \<open>Attach\<close>

text \<open>\<open>ae_dir\<close> is the runtime directory as the module finds it at each poll after the spawn, and
  \<open>ae_dir_final\<close> after the wait, both given the directory the spawn left behind.\<close>

record attach_env =
  ae_generated_id :: string
  ae_kill_before :: "int \<Rightarrow> probe"
  ae_images :: "string \<rightharpoonup> fs_node"
  ae_has_fork :: bool
  ae_reported :: "string option"
  ae_now :: string
  ae_dir :: "media_state rt_fs \<Rightarrow> nat \<Rightarrow> media_state rt_fs"
  ae_dir_final :: "media_state rt_fs \<Rightarrow> media_state rt_fs"
  ae_clock :: "nat \<Rightarrow> nat"
  ae_kill_after :: "int \<Rightarrow> probe"
  ae_loads :: "string \<Rightarrow> pyval option"

definition trace_of :: "attach_env \<Rightarrow> media_state rt_fs \<Rightarrow> string \<Rightarrow> trace_summary" where
  "trace_of env fs sid = read_trace_summary (ae_loads env) fs sid READ_TRACE_HEAD_LIMIT READ_TRACE_TAIL_LIMIT"

definition settled :: "media_state \<Rightarrow> bool" where
  "settled s \<longleftrightarrow> ms_state s \<in> {STATE_ATTACHED, STATE_ERROR, STATE_DETACHED}"

text \<open>From the end of the wait to the result.\<close>

definition attach_verdict ::
  "attach_env \<Rightarrow> string \<Rightarrow> media_state option \<Rightarrow> bool \<Rightarrow> string list \<Rightarrow> media_state option \<Rightarrow> media_state rt_fs \<Rightarrow> media_outcome" where
  "attach_verdict env sid existing recovered_stale reclaimed observed fs =
     (let trace = trace_of env fs sid; fields = status_fields_of observed trace in
      if sf_state fields = Some STATE_ERROR then
        Fail \<lparr>f_error_class = error_class_of observed, f_indeterminate = False, f_session_id = sid, f_reclaimed = reclaimed, f_fields = fields\<rparr>
      else if sf_state fields \<noteq> Some STATE_ATTACHED then
        if \<not> is_pid_alive (ae_kill_after env) (map_option ms_pid observed) then
          (let final = (case read_state fs sid of Some s \<Rightarrow> Some s | None \<Rightarrow> observed) in
           Fail \<lparr>f_error_class = error_class_of final, f_indeterminate = False, f_session_id = sid, f_reclaimed = reclaimed,
                 f_fields = status_fields_of final (trace_of env fs sid)\<rparr>)
        else if (case sf_state fields of None \<Rightarrow> False | Some s \<Rightarrow> s \<in> TERMINAL_STATES) then
          Fail \<lparr>f_error_class = error_class_of observed, f_indeterminate = False, f_session_id = sid, f_reclaimed = reclaimed, f_fields = fields\<rparr>
        else Fail \<lparr>f_error_class = TIMEOUT, f_indeterminate = True, f_session_id = sid, f_reclaimed = reclaimed, f_fields = fields\<rparr>
      else Exit \<lparr>x_changed = True, x_session_id = sid, x_fields = fields, x_previous = existing, x_desired = Some ''attached'',
                 x_observed = with_trace observed trace, x_recovered_stale = Some recovered_stale,
                 x_reclaimed = Some reclaimed, x_exited_cleanly = None\<rparr>)"

definition CHECK_MODE_FIELDS :: status_fields where
  "CHECK_MODE_FIELDS = \<lparr>sf_state = Some STATE_STARTING, sf_pid = None, sf_bytes_read = 0, sf_sectors_served = 0,
     sf_last_request_at = None, sf_updated_at = None, sf_error = None, sf_idle_polls = 0,
     sf_current_idle_streak = None, sf_last_idle_streak = None, sf_stop_reason = None, sf_trace = EMPTY_READ_TRACE\<rparr>"

text \<open>Reclamation, the spawn and the wait.\<close>

definition attach_spawn ::
  "attach_env \<Rightarrow> session_config \<Rightarrow> nat \<Rightarrow> media_state option \<Rightarrow> bool \<Rightarrow> media_state rt_fs \<Rightarrow> module_run option" where
  "attach_spawn env cfg attach_timeout existing recovered_stale fs1 =
     (let sid = cfg_session_id cfg; ep = endpoint_text (cfg_host cfg) (cfg_cd_port cfg) in
      case reclaim_conflicting_sessions (ae_kill_before env) fs1 ep (Some sid) of
        (Inl e, sigs, fs2) \<Rightarrow> Some \<lparr>mr_outcome = Raised e, mr_signals = sigs, mr_spawned = False, mr_fs = fs2\<rparr>
      | (Inr reclaimed, sigs, fs2) \<Rightarrow>
          (case spawn_session (ae_has_fork env) cfg (ae_reported env) (ae_now env) fs2 of
             (Inl e, fs3) \<Rightarrow> Some \<lparr>mr_outcome = Raised e, mr_signals = sigs, mr_spawned = ae_has_fork env, mr_fs = fs3\<rparr>
           | (Inr _, fs3) \<Rightarrow>
               (case wait_for_state (ae_dir env fs3) sid settled (ae_clock env) attach_timeout of
                  None \<Rightarrow> None
                | Some observed \<Rightarrow>
                    Some \<lparr>mr_outcome = attach_verdict env sid existing recovered_stale reclaimed observed (ae_dir_final env fs3),
                          mr_signals = sigs, mr_spawned = True, mr_fs = ae_dir_final env fs3\<rparr>)))"

text \<open>\<open>None\<close> is a wait that never ends. The image of \<open>cfg\<close> is the parameter \<open>image\<close>, its session id the
  parameter \<open>session_id\<close>, empty when absent.\<close>

definition media_attach :: "attach_env \<Rightarrow> bool \<Rightarrow> session_config \<Rightarrow> nat \<Rightarrow> media_state rt_fs \<Rightarrow> module_run option" where
  "media_attach env check_mode cfg0 attach_timeout fs =
     (let sid = (if cfg_session_id cfg0 = [] then ae_generated_id env else cfg_session_id cfg0);
          cfg = cfg0\<lparr>cfg_session_id := sid\<rparr>;
          ep = endpoint_text (cfg_host cfg) (cfg_cd_port cfg);
          existing = read_state fs sid;
          live = (case existing of None \<Rightarrow> False
            | Some s \<Rightarrow> is_pid_alive (ae_kill_before env) (Some (ms_pid s)) \<and> ms_state s \<notin> TERMINAL_STATES)
      in if live then
           (let trace = trace_of env fs sid in
            Some \<lparr>mr_outcome = Exit \<lparr>x_changed = False, x_session_id = sid, x_fields = status_fields_of existing trace,
                     x_previous = existing, x_desired = None, x_observed = with_trace existing trace,
                     x_recovered_stale = None, x_reclaimed = Some [], x_exited_cleanly = None\<rparr>,
                  mr_signals = [], mr_spawned = False, mr_fs = fs\<rparr>)
         else
           (let recovered_stale = (existing \<noteq> None);
                fs1 = (if recovered_stale then remove_state sid fs else fs);
                raised = (\<lambda>e. Some \<lparr>mr_outcome = Raised e, mr_signals = [], mr_spawned = False, mr_fs = fs1\<rparr>)
            in if cfg_image cfg = [] then raised (ProtocolError ''asmb8_media.attach'')
            else case validate_image (ae_images env) (cfg_image cfg) of
               Inl e \<Rightarrow> raised e
             | Inr _ \<Rightarrow>
                 if check_mode then
                   Some \<lparr>mr_outcome = Exit \<lparr>x_changed = True, x_session_id = sid, x_fields = CHECK_MODE_FIELDS,
                            x_previous = existing, x_desired = Some ''attached'', x_observed = None,
                            x_recovered_stale = Some recovered_stale,
                            x_reclaimed = Some (map ms_session_id (find_conflicting_sessions fs1 ep (Some sid))), x_exited_cleanly = None\<rparr>,
                         mr_signals = [], mr_spawned = False, mr_fs = fs1\<rparr>
                 else attach_spawn env cfg attach_timeout existing recovered_stale fs1))"

section \<open>Detach\<close>

record detach_env =
  de_kill :: "int \<Rightarrow> probe"
  de_kill_at :: "nat \<Rightarrow> int \<Rightarrow> probe"
  de_clock :: "nat \<Rightarrow> nat"
  de_dir_after :: "media_state rt_fs \<Rightarrow> media_state rt_fs"
  de_loads :: "string \<Rightarrow> pyval option"

definition media_detach :: "detach_env \<Rightarrow> bool \<Rightarrow> string \<Rightarrow> nat \<Rightarrow> media_state rt_fs \<Rightarrow> module_run option" where
  "media_detach env check_mode sid detach_timeout fs =
     (let trace_at = (\<lambda>d. read_trace_summary (de_loads env) d sid READ_TRACE_HEAD_LIMIT READ_TRACE_TAIL_LIMIT);
          exit = (\<lambda>changed state trace previous observed stale exited d sigs.
            Some \<lparr>mr_outcome = Exit \<lparr>x_changed = changed, x_session_id = sid, x_fields = status_fields_of state trace,
                     x_previous = previous, x_desired = Some ''detached'', x_observed = observed,
                     x_recovered_stale = stale, x_reclaimed = None, x_exited_cleanly = exited\<rparr>,
                  mr_signals = sigs, mr_spawned = False, mr_fs = d\<rparr>)
      in case read_state fs sid of
           None \<Rightarrow> exit False None EMPTY_READ_TRACE None None None None fs []
         | Some existing \<Rightarrow>
             (let pid = Some (ms_pid existing); live = is_pid_alive (de_kill env) pid; trace = trace_at fs in
              if check_mode then
                exit live (Some existing) trace (Some existing) (with_trace (Some existing) trace) None None fs []
              else if \<not> live then
                exit False (Some existing) trace (Some existing) (with_trace (Some existing) trace) (Some True) None (remove_state sid fs) []
              else (case request_stop (de_kill env) pid of
                  Inl e \<Rightarrow> Some \<lparr>mr_outcome = Raised e, mr_signals = [], mr_spawned = False, mr_fs = fs\<rparr>
                | Inr sigs \<Rightarrow> (case wait_for_exit (de_kill_at env) (de_clock env) pid detach_timeout of
                  None \<Rightarrow> None
                | Some exited \<Rightarrow>
                    (let d = de_dir_after env fs;
                         final_state = (case read_state d sid of Some s \<Rightarrow> s | None \<Rightarrow> existing);
                         trace1 = trace_at d
                     in exit True (Some final_state) trace1 (Some existing) (with_trace (Some final_state) trace1) None (Some exited)
                          (remove_state sid d) sigs)))))"

section \<open>\<open>main\<close>\<close>

datatype media_request = Attached | Detached

definition media_main ::
  "attach_env \<Rightarrow> detach_env \<Rightarrow> media_request \<Rightarrow> bool \<Rightarrow> session_config \<Rightarrow> nat \<Rightarrow> nat \<Rightarrow> media_state rt_fs \<Rightarrow> module_run option" where
  "media_main aenv denv state check_mode cfg attach_timeout detach_timeout fs = (case state of
      Attached \<Rightarrow> (case enforce_transport_policy (cfg_use_tls cfg) (cfg_allow_insecure_transport cfg) of
          Inl e \<Rightarrow> Some \<lparr>mr_outcome = Raised e, mr_signals = [], mr_spawned = False, mr_fs = fs\<rparr>
        | Inr _ \<Rightarrow> media_attach aenv check_mode cfg attach_timeout fs)
    | Detached \<Rightarrow> media_detach denv check_mode (cfg_session_id cfg) detach_timeout fs)"

section \<open>Facts\<close>

text \<open>The branches of an attach, one at a time.\<close>

definition live_record :: "attach_env \<Rightarrow> media_state option \<Rightarrow> bool" where
  "live_record env existing \<longleftrightarrow> (case existing of None \<Rightarrow> False
     | Some s \<Rightarrow> is_pid_alive (ae_kill_before env) (Some (ms_pid s)) \<and> ms_state s \<notin> TERMINAL_STATES)"

definition attach_id :: "attach_env \<Rightarrow> session_config \<Rightarrow> string" where
  "attach_id env cfg = (if cfg_session_id cfg = [] then ae_generated_id env else cfg_session_id cfg)"

definition stale_removed :: "attach_env \<Rightarrow> session_config \<Rightarrow> media_state rt_fs \<Rightarrow> media_state rt_fs" where
  "stale_removed env cfg fs = (if read_state fs (attach_id env cfg) \<noteq> None then remove_state (attach_id env cfg) fs else fs)"

lemma attach_live:
  assumes "live_record env (read_state fs (attach_id env cfg))"
  shows "\<exists>x. media_attach env check cfg t fs = Some \<lparr>mr_outcome = Exit x, mr_signals = [], mr_spawned = False, mr_fs = fs\<rparr>
    \<and> \<not> x_changed x \<and> x_previous x = read_state fs (attach_id env cfg)"
  using assms by (simp add: media_attach_def Let_def live_record_def attach_id_def)

lemma attach_check:
  assumes "\<not> live_record env (read_state fs (attach_id env cfg))"
  shows "\<exists>r. media_attach env True cfg t fs = Some \<lparr>mr_outcome = r, mr_signals = [], mr_spawned = False, mr_fs = stale_removed env cfg fs\<rparr>
    \<and> (\<forall>f. r \<noteq> Fail f) \<and> (\<forall>x. r = Exit x \<longrightarrow> x_changed x)"
  using assms
  by (cases "validate_image (ae_images env) (cfg_image cfg)")
    (auto simp: media_attach_def Let_def live_record_def attach_id_def stale_removed_def)

text \<open>The directory the spawn leaves behind, when the attach gets as far as a spawn: an image is named and
  readable, no conflicting session refuses its signal, and the fork reports a pid.\<close>

definition spawned_dir :: "attach_env \<Rightarrow> session_config \<Rightarrow> media_state rt_fs \<Rightarrow> media_state rt_fs option" where
  "spawned_dir env cfg0 fs =
     (let cfg = cfg0\<lparr>cfg_session_id := attach_id env cfg0\<rparr>; ep = endpoint_text (cfg_host cfg) (cfg_cd_port cfg) in
      if cfg_image cfg = [] then None
      else case validate_image (ae_images env) (cfg_image cfg) of
          Inl e \<Rightarrow> None
        | Inr _ \<Rightarrow>
            (case reclaim_conflicting_sessions (ae_kill_before env) (stale_removed env cfg0 fs) ep (Some (cfg_session_id cfg)) of
               (Inl e, sigs, fs2) \<Rightarrow> None
             | (Inr _, sigs, fs2) \<Rightarrow>
                 (case spawn_session (ae_has_fork env) cfg (ae_reported env) (ae_now env) fs2 of
                    (Inl e, fs3) \<Rightarrow> None
                  | (Inr _, fs3) \<Rightarrow> Some fs3)))"

lemma attach_real:
  assumes "\<not> live_record env (read_state fs (attach_id env cfg))" and "media_attach env False cfg t fs = Some run"
  shows "case spawned_dir env cfg fs of
      None \<Rightarrow> \<exists>e. mr_outcome run = Raised e
    | Some fs3 \<Rightarrow> mr_spawned run \<and> mr_fs run = ae_dir_final env fs3 \<and> (\<exists>stale reclaimed observed.
        wait_for_state (ae_dir env fs3) (attach_id env cfg) settled (ae_clock env) t = Some observed
      \<and> mr_outcome run = attach_verdict env (attach_id env cfg) (read_state fs (attach_id env cfg)) stale reclaimed observed (mr_fs run))"
proof -
  let ?sid = "attach_id env cfg"
  have sid: "(if cfg_session_id cfg = [] then ae_generated_id env else cfg_session_id cfg) = ?sid" by (simp add: attach_id_def)
  have live: "(case read_state fs ?sid of None \<Rightarrow> False
      | Some s \<Rightarrow> is_pid_alive (ae_kill_before env) (Some (ms_pid s)) \<and> ms_state s \<notin> TERMINAL_STATES) = False"
    using assms(1) by (simp add: live_record_def)
  show ?thesis
    using assms(2) unfolding media_attach_def Let_def sid live spawned_dir_def stale_removed_def
    by (auto simp: attach_spawn_def Let_def split: if_splits sum.splits prod.splits option.splits) blast+
qed

lemma attach_returns:
  assumes "\<exists>m. ae_clock env 0 + t \<le> ae_clock env (Suc m)"
  shows "\<exists>run. media_attach env check cfg t fs = Some run"
proof -
  have "wait_for_state d sid settled (ae_clock env) t \<noteq> None" for d sid using waits_return(1) [OF assms] by auto
  then have "attach_spawn env cfg' t existing stale fs1 \<noteq> None" for cfg' existing stale fs1
    by (simp add: attach_spawn_def Let_def split: sum.splits prod.splits option.splits) (metis option.distinct(1))
  then have "media_attach env check cfg t fs \<noteq> None"
    by (simp add: media_attach_def Let_def split: sum.splits)
  then show ?thesis by simp
qed

text \<open>A daemon that is still on its way: alive, and its record neither attached nor terminal.\<close>

definition undecided :: "attach_env \<Rightarrow> media_state option \<Rightarrow> bool" where
  "undecided env observed \<longleftrightarrow> (case observed of None \<Rightarrow> False
     | Some s \<Rightarrow> is_pid_alive (ae_kill_after env) (Some (ms_pid s)) \<and> ms_state s \<notin> insert STATE_ATTACHED TERMINAL_STATES)"

text \<open>What the result of an attach must say of the record the wait ended with.\<close>

definition reports_record :: "attach_env \<Rightarrow> string \<Rightarrow> media_state rt_fs \<Rightarrow> media_state option \<Rightarrow> media_outcome \<Rightarrow> bool" where
  "reports_record env sid fs observed out \<longleftrightarrow> (case out of
      Exit x \<Rightarrow> x_changed x \<and> (\<exists>s. observed = Some s \<and> ms_state s = STATE_ATTACHED \<and> x_observed x = Some (s, trace_of env fs sid))
    | Fail f \<Rightarrow> map_option ms_state observed \<noteq> Some STATE_ATTACHED \<and> (f_indeterminate f \<longleftrightarrow> undecided env observed)
        \<and> (if undecided env observed then f_error_class f = TIMEOUT \<and> f_fields f = status_fields_of observed (trace_of env fs sid)
           else f_error_class f \<in> {error_class_of observed, error_class_of (read_state fs sid)})
    | Raised e \<Rightarrow> False)"

lemma verdict_reports:
  "reports_record env sid fs observed (attach_verdict env sid existing stale reclaimed observed fs)"
proof (cases observed)
  case None
  then show ?thesis
    by (auto simp: reports_record_def attach_verdict_def undecided_def Let_def status_fields_of_def is_pid_alive_def split: option.splits)
next
  case (Some s)
  then show ?thesis
    by (cases "ms_state s")
      (auto simp: reports_record_def attach_verdict_def undecided_def Let_def status_fields_of_def with_trace_def TERMINAL_STATES_def
        split: option.splits)
qed

section \<open>Properties\<close>

text \<open>C5. An attach reports what the daemon's record says. Whatever the BMC, the daemon and the other
  processes do, and however the clock runs as long as it passes the deadline, the module returns. Found
  a live session of that id, it reports success without a change and touches nothing. In check mode it
  signals and forks nothing. Otherwise it raises exactly when it could not spawn (no image named or
  readable, a refused signal, no fork); having spawned, it judges the record \<open>observed\<close> that it read in the
  runtime directory at some poll \<open>k\<close> after the spawn, the first poll whose record is settled or that the
  clock puts past the deadline: success, claiming a change, exactly when that record says \<open>attached\<close>; a
  failure that is indeterminate exactly when that record names a live process and is neither attached nor
  terminal, and then a timeout carrying that record's fields.\<close>

theorem attach_success_means_attached:
  assumes "\<exists>m. ae_clock env 0 + t \<le> ae_clock env (Suc m)"
  shows "\<exists>run. media_attach env check cfg t fs = Some run \<and>
     (let sid = attach_id env cfg in
      if live_record env (read_state fs sid)
      then mr_fs run = fs \<and> mr_signals run = [] \<and> \<not> mr_spawned run
           \<and> (\<exists>x. mr_outcome run = Exit x \<and> \<not> x_changed x \<and> x_previous x = read_state fs sid)
      else if check then mr_signals run = [] \<and> \<not> mr_spawned run \<and> (\<forall>f. mr_outcome run \<noteq> Fail f)
      else (case spawned_dir env cfg fs of
          None \<Rightarrow> \<exists>e. mr_outcome run = Raised e
        | Some fs3 \<Rightarrow> mr_spawned run \<and> (\<exists>k. let observed = read_state (ae_dir env fs3 k) sid in
            ((\<exists>s. observed = Some s \<and> settled s) \<or> ae_clock env 0 + t \<le> ae_clock env (Suc k))
          \<and> (\<forall>j < k. \<not> (\<exists>s. read_state (ae_dir env fs3 j) sid = Some s \<and> settled s) \<and> ae_clock env (Suc j) < ae_clock env 0 + t)
          \<and> reports_record env sid (mr_fs run) observed (mr_outcome run))))"
proof -
  obtain run where run: "media_attach env check cfg t fs = Some run" using attach_returns [OF assms] by blast
  let ?sid = "attach_id env cfg"
  consider (live) "live_record env (read_state fs ?sid)" | (check) "\<not> live_record env (read_state fs ?sid)" "check"
    | (real) "\<not> live_record env (read_state fs ?sid)" "\<not> check" by blast
  then show ?thesis
  proof cases
    case live
    with attach_live [OF this, of check t] run show ?thesis by auto
  next
    case check
    with attach_check [OF check(1), of t] run show ?thesis by auto
  next
    case real
    note r = attach_real [OF real(1), of t run]
    show ?thesis
    proof (cases "spawned_dir env cfg fs")
      case None
      with r run real show ?thesis by simp
    next
      case (Some fs3)
      obtain k where "wait_for_state (ae_dir env fs3) ?sid settled (ae_clock env) t = Some (read_state (ae_dir env fs3 k) ?sid)"
        "(\<exists>s. read_state (ae_dir env fs3 k) ?sid = Some s \<and> settled s) \<or> ae_clock env 0 + t \<le> ae_clock env (Suc k)"
        "\<forall>j < k. \<not> (\<exists>s. read_state (ae_dir env fs3 j) ?sid = Some s \<and> settled s) \<and> ae_clock env (Suc j) < ae_clock env 0 + t"
        using wait_for_state_reads [OF assms, of "ae_dir env fs3" ?sid settled] by (elim exE conjE)
      moreover obtain stale reclaimed where "mr_spawned run" "mr_outcome run = attach_verdict env ?sid (read_state fs ?sid)
          stale reclaimed (read_state (ae_dir env fs3 k) ?sid) (mr_fs run)"
        using r run real(2) Some calculation(1) by auto
      moreover have "reports_record env ?sid (mr_fs run) (read_state (ae_dir env fs3 k) ?sid) (mr_outcome run)"
        by (simp only: calculation(5) verdict_reports)
      ultimately have sp: "mr_spawned run" and ex: "\<exists>k. let observed = read_state (ae_dir env fs3 k) ?sid in
            ((\<exists>s. observed = Some s \<and> settled s) \<or> ae_clock env 0 + t \<le> ae_clock env (Suc k))
          \<and> (\<forall>j < k. \<not> (\<exists>s. read_state (ae_dir env fs3 j) ?sid = Some s \<and> settled s) \<and> ae_clock env (Suc j) < ae_clock env 0 + t)
          \<and> reports_record env ?sid (mr_fs run) observed (mr_outcome run)"
        unfolding Let_def by blast+
      from real have "\<not> live_record env (read_state fs ?sid)" "check = False" by simp_all
      then show ?thesis unfolding Let_def [of ?sid]
        by (intro exI [of _ run] conjI run) (simp only: if_False Some option.case sp ex simp_thms)
    qed
  qed
qed

definition sample_attach_env :: attach_env where
  "sample_attach_env = \<lparr>ae_generated_id = ''g'', ae_kill_before = (\<lambda>p. NoSuchProcess), ae_images = [''img'' \<mapsto> FileNode [1]],
     ae_has_fork = True, ae_reported = Some ''9'', ae_now = ''t'', ae_dir = (\<lambda>d k. d), ae_dir_final = (\<lambda>d. d),
     ae_clock = (\<lambda>k. k), ae_kill_after = (\<lambda>p. ProcExists), ae_loads = (\<lambda>s. None)\<rparr>"

text \<open>An attach over a stale record, whose daemon has published \<open>attached\<close> when the module first looks.\<close>

definition attached_records :: "media_state rt_fs" where
  "attached_records = sample_records\<lparr>inodes := (\<lambda>_. JsonDict ((initial_state ''t'' ''s'' ''h:5120'' 9 ''img'')\<lparr>ms_state := STATE_ATTACHED\<rparr>))\<rparr>"

definition attaching_env :: attach_env where
  "attaching_env = sample_attach_env\<lparr>ae_dir := (\<lambda>d k. attached_records), ae_dir_final := (\<lambda>d. attached_records)\<rparr>"

theorem attach_success_means_attached_witness:
  "\<exists>run x. media_attach attaching_env False (sample_config\<lparr>cfg_session_id := ''s''\<rparr>) 3 sample_records = Some run
     \<and> mr_spawned run \<and> mr_outcome run = Exit x \<and> x_changed x
     \<and> (\<exists>s tr. x_observed x = Some (s, tr) \<and> ms_state s = STATE_ATTACHED)"
proof -
  let ?cfg = "sample_config\<lparr>cfg_session_id := ''s''\<rparr>"
  have c: "\<exists>m. ae_clock attaching_env 0 + 3 \<le> ae_clock attaching_env (Suc m)"
    by (rule exI [of _ 3]) (simp add: attaching_env_def sample_attach_env_def)
  have id: "attach_id attaching_env ?cfg = ''s''" by (simp add: attach_id_def)
  have r: "read_state sample_records ''s'' = Some (initial_state ''t'' ''s'' ''h:1'' 9 ''img'')"
    by (simp add: read_state_def fs_read_def fs_lookup_def sample_records_def state_file_path_def)
  have dead: "\<not> live_record attaching_env (read_state sample_records ''s'')"
    by (simp add: live_record_def r attaching_env_def sample_attach_env_def is_pid_alive_def)
  have a: "read_state attached_records ''s'' = Some ((initial_state ''t'' ''s'' ''h:5120'' 9 ''img'')\<lparr>ms_state := STATE_ATTACHED\<rparr>)"
    by (simp add: read_state_def fs_read_def fs_lookup_def attached_records_def sample_records_def state_file_path_def)
  have gone: "stale_removed attaching_env ?cfg sample_records = \<lparr>names = [], inodes = inodes sample_records, next_ino = 1\<rparr>"
    by (simp add: stale_removed_def id r)
      (simp add: remove_state_def remove_paths_def fs_unlink_def od_pop_def sample_records_def state_file_path_def)
  have nine: "py_int ''9'' = Some 9" by code_simp
  have cfg: "cfg_image ?cfg = ''img''" by (simp add: sample_config_def)
  have ok: "validate_image (ae_images attaching_env) ''img'' = Inr ()"
    by (simp add: validate_image_def file_reader_open_def attaching_env_def sample_attach_env_def)
  have none: "reclaim_conflicting_sessions k (stale_removed attaching_env ?cfg sample_records) ep ex
      = (Inr [], [], stale_removed attaching_env ?cfg sample_records)" for k ep ex
    by (simp add: gone reclaim_conflicting_sessions_def find_conflicting_sessions_def list_session_ids_def)
  have fork: "\<exists>d2. spawn_session (ae_has_fork attaching_env) c (ae_reported attaching_env) n d = (Inr 9, d2)" for c n d
    by (simp add: spawn_session_def nine attaching_env_def sample_attach_env_def)
  obtain fs3 where s: "spawned_dir attaching_env ?cfg sample_records = Some fs3"
    using fork [of "?cfg\<lparr>cfg_session_id := ''s''\<rparr>" "ae_now attaching_env" "stale_removed attaching_env ?cfg sample_records"]
    by (auto simp: spawned_dir_def Let_def id cfg ok none)
  have dir: "read_state (ae_dir attaching_env fs3 k) ''s'' = read_state attached_records ''s''" for k
    by (simp add: attaching_env_def)
  have rep: "\<exists>x. mr_outcome run = Exit x \<and> x_changed x \<and> (\<exists>s tr. x_observed x = Some (s, tr) \<and> ms_state s = STATE_ATTACHED)"
    if "reports_record attaching_env ''s'' (mr_fs run) (read_state attached_records ''s'') (mr_outcome run)" for run
    using that by (auto simp: reports_record_def a split: media_outcome.splits) (metis prod.collapse)
  show ?thesis
    using attach_success_means_attached [OF c, of False ?cfg sample_records] rep
    by (auto simp: id dead s dir Let_def)
qed

text \<open>Check mode, too, drops a stale record of the session it would replace.\<close>

lemma check_mode_removes_stale_record:
  "read_state sample_records ''s'' \<noteq> None \<and>
   (\<exists>run. media_attach sample_attach_env True (sample_config\<lparr>cfg_session_id := ''s''\<rparr>) 3 sample_records = Some run
      \<and> read_state (mr_fs run) ''s'' = None)"
proof -
  have r: "read_state sample_records ''s'' = Some (initial_state ''t'' ''s'' ''h:1'' 9 ''img'')"
    by (simp add: read_state_def fs_read_def fs_lookup_def sample_records_def state_file_path_def)
  have "\<not> live_record sample_attach_env (read_state sample_records (attach_id sample_attach_env (sample_config\<lparr>cfg_session_id := ''s''\<rparr>)))"
    by (simp add: live_record_def attach_id_def r sample_attach_env_def is_pid_alive_def)
  from attach_check [OF this, of 3] show ?thesis
    by (auto simp: r stale_removed_def attach_id_def media_files.read_remove)
qed

text \<open>C35. A detach leaves nothing of its session and nothing else changed: outside check mode, unless the
  signal itself is refused, the module ends with no record of that session and every other record as
  the directory had it; it signals at most the recorded process, and only a live one; it claims a
  change exactly when it signalled one. In check mode it signals nothing and changes nothing.\<close>

theorem detach_removes_only_its_session:
  assumes "\<exists>m. de_clock env 0 + t \<le> de_clock env (Suc m)" and "\<And>p. de_kill env p \<noteq> PermissionDenied"
  shows "\<exists>run x. media_detach env check sid t fs = Some run \<and> mr_outcome run = Exit x \<and> \<not> mr_spawned run
    \<and> (if check then mr_fs run = fs \<and> mr_signals run = []
       else (\<exists>d \<in> {fs, de_dir_after env fs}. \<forall>s. read_state (mr_fs run) s = (if s = sid then None else read_state d s))
            \<and> mr_signals run = (case read_state fs sid of None \<Rightarrow> []
                | Some st \<Rightarrow> if is_pid_alive (de_kill env) (Some (ms_pid st)) then [ms_pid st] else [])
            \<and> x_changed x = (mr_signals run \<noteq> []))"
proof (cases "read_state fs sid")
  case None
  then show ?thesis by (auto simp: media_detach_def Let_def)
next
  case (Some st)
  obtain b where b: "wait_for_exit (de_kill_at env) (de_clock env) (Some (ms_pid st)) t = Some b"
    using waits_return(2) [OF assms(1)] by blast
  note alive = media_files.alive_iff_stoppable [OF assms(2)]
  show ?thesis
    using Some b
    by (cases check; cases "media_files.stoppable (de_kill env) st")
      (auto simp: media_detach_def Let_def alive media_files.read_remove media_files.stop_recorded)
qed

definition sample_detach_env :: detach_env where
  "sample_detach_env = \<lparr>de_kill = (\<lambda>p. ProcExists), de_kill_at = (\<lambda>k p. NoSuchProcess), de_clock = (\<lambda>k. k),
     de_dir_after = (\<lambda>d. d), de_loads = (\<lambda>s. None)\<rparr>"

theorem detach_removes_only_its_session_witness:
  "\<exists>run. media_detach sample_detach_env False ''s'' 3 sample_records = Some run \<and> mr_signals run = [9]"
proof -
  have c: "\<exists>m. de_clock sample_detach_env 0 + 3 \<le> de_clock sample_detach_env (Suc m)"
    by (rule exI [of _ 3]) (simp add: sample_detach_env_def)
  have k: "de_kill sample_detach_env p \<noteq> PermissionDenied" for p by (simp add: sample_detach_env_def)
  have r: "read_state sample_records ''s'' = Some (initial_state ''t'' ''s'' ''h:1'' 9 ''img'')"
    by (simp add: read_state_def fs_read_def fs_lookup_def sample_records_def state_file_path_def)
  have p: "is_pid_alive (de_kill sample_detach_env) (Some 9)"
    "ms_pid (initial_state ''t'' ''s'' ''h:1'' 9 ''img'') = 9"
    by (simp_all add: sample_detach_env_def is_pid_alive_def initial_state_def)
  from detach_removes_only_its_session [OF c k, of False "''s''" sample_records] show ?thesis
    by (auto simp: r p)
qed

end
