(* ===== verification/Http_Path.thy ===== *)
theory Http_Path
  imports Ikvm_Errors "HOL-Library.List_Lexorder"
begin

text \<open>
  \<open>plugins/module_utils/http_origin.py\<close>, path confinement: \<open>resolve_within_root\<close> with what it
  uses of \<open>urllib.parse\<close> (one pass of percent decoding, strict UTF-8) and of \<open>pathlib\<close>
  (symlink resolution over a file tree). Text is a list of code points, a path a list of
  segments from the file-system root. \<open>fuel\<close> bounds the symlinks followed in one resolution;
  running out is the \<open>RuntimeError\<close> or \<open>OSError\<close> of a symlink loop.
\<close>

type_synonym utext = "nat list"
type_synonym path = "utext list"

section \<open>Text\<close>

definition cont_byte :: "nat \<Rightarrow> bool" where
  "cont_byte b \<longleftrightarrow> 0x80 \<le> b \<and> b < 0xC0"

fun utf8_decode :: "nat list \<Rightarrow> utext option" where
  "utf8_decode [] = Some []"
| "utf8_decode (b # bs) =
     (if b < 0x80 then map_option ((#) b) (utf8_decode bs)
      else if 0xC2 \<le> b \<and> b \<le> 0xDF then
        (case bs of
           c1 # r \<Rightarrow> if cont_byte c1
             then map_option ((#) ((b - 0xC0) * 64 + (c1 - 0x80))) (utf8_decode r) else None
         | _ \<Rightarrow> None)
      else if 0xE0 \<le> b \<and> b \<le> 0xEF then
        (case bs of
           c1 # c2 # r \<Rightarrow>
             (let cp = (b - 0xE0) * 4096 + (c1 - 0x80) * 64 + (c2 - 0x80) in
              if cont_byte c1 \<and> cont_byte c2 \<and> 0x800 \<le> cp \<and> \<not> (0xD800 \<le> cp \<and> cp \<le> 0xDFFF)
              then map_option ((#) cp) (utf8_decode r) else None)
         | _ \<Rightarrow> None)
      else if 0xF0 \<le> b \<and> b \<le> 0xF4 then
        (case bs of
           c1 # c2 # c3 # r \<Rightarrow>
             (let cp = (b - 0xF0) * 262144 + (c1 - 0x80) * 4096 + (c2 - 0x80) * 64 + (c3 - 0x80) in
              if cont_byte c1 \<and> cont_byte c2 \<and> cont_byte c3 \<and> 0x10000 \<le> cp \<and> cp \<le> 0x10FFFF
              then map_option ((#) cp) (utf8_decode r) else None)
         | _ \<Rightarrow> None)
      else None)"

definition hex_val :: "nat \<Rightarrow> nat option" where
  "hex_val c = (if 48 \<le> c \<and> c \<le> 57 then Some (c - 48)
     else if 65 \<le> c \<and> c \<le> 70 then Some (c - 55)
     else if 97 \<le> c \<and> c \<le> 102 then Some (c - 87) else None)"

text \<open>\<open>urllib.parse.unquote_to_bytes\<close>: an escape that is not two hexadecimal digits stays.\<close>

fun unquote_bytes :: "utext \<Rightarrow> nat list" where
  "unquote_bytes (c # h # l # r) =
     (if c = 37 then (case (hex_val h, hex_val l) of
          (Some x, Some y) \<Rightarrow> (16 * x + y) # unquote_bytes r
        | _ \<Rightarrow> c # unquote_bytes (h # l # r))
      else c # unquote_bytes (h # l # r))"
| "unquote_bytes s = s"

text \<open>\<open>urllib.parse.unquote(s, "utf-8", "strict")\<close>: each ASCII run is unquoted and decoded, other
  characters stay as they are.\<close>

function unquote :: "utext \<Rightarrow> utext option" where
  "unquote s = (case s of [] \<Rightarrow> Some []
     | c # cs \<Rightarrow>
         if c < 128 then
           (case utf8_decode (unquote_bytes (takeWhile (\<lambda>x. x < 128) s)) of
              None \<Rightarrow> None
            | Some d \<Rightarrow> map_option ((@) d) (unquote (dropWhile (\<lambda>x. x < 128) s)))
         else map_option ((#) c) (unquote cs))"
  by pat_completeness auto
termination
  by (relation "measure length") (auto simp: le_imp_less_Suc length_dropWhile_le)

declare unquote.simps [simp del]

fun split_on :: "nat \<Rightarrow> utext \<Rightarrow> utext list" where
  "split_on sep [] = [[]]"
| "split_on sep (c # cs) =
     (if c = sep then [] # split_on sep cs
      else (case split_on sep cs of [] \<Rightarrow> [[c]] | w # ws \<Rightarrow> (c # w) # ws))"

definition DOT :: utext where "DOT = [46]"
definition DOTDOT :: utext where "DOTDOT = [46, 46]"

section \<open>The file tree\<close>

datatype node = HFile bytes | HDir "(utext \<times> node) list" | HLink utext

fun lookup :: "node \<Rightarrow> path \<Rightarrow> node option" where
  "lookup n [] = Some n"
| "lookup (HDir es) (s # p) = (case map_of es s of None \<Rightarrow> None | Some m \<Rightarrow> lookup m p)"
| "lookup _ (s # p) = None"

text \<open>\<open>Path.resolve(strict=False)\<close> from a directory already resolved: \<open>None\<close> on a symlink loop, which
  raises up to Python 3.12. From 3.13 on the rest of such a path is appended unresolved instead: the
  containment check then sees the path of the looping link itself, which names no file.\<close>

function realpath :: "node \<Rightarrow> nat \<Rightarrow> path \<Rightarrow> path \<Rightarrow> path option" where
  "realpath fs fuel acc segs = (case segs of
      [] \<Rightarrow> Some acc
    | s # rest \<Rightarrow>
        if s = [] \<or> s = DOT then realpath fs fuel acc rest
        else if s = DOTDOT then realpath fs fuel (butlast acc) rest
        else (case lookup fs (acc @ [s]) of
            Some (HLink target) \<Rightarrow>
              (case fuel of
                 0 \<Rightarrow> None
               | Suc k \<Rightarrow> realpath fs k (if target \<noteq> [] \<and> hd target = 47 then [] else acc)
                             (split_on 47 target @ rest))
          | _ \<Rightarrow> realpath fs fuel (acc @ [s]) rest))"
  by pat_completeness auto
termination
  by (relation "measures [\<lambda>(fs, fuel, acc, segs). fuel, \<lambda>(fs, fuel, acc, segs). length segs]") auto

declare realpath.simps [simp del]

section \<open>\<open>resolve_within_root\<close>\<close>

definition target_segments :: "utext \<Rightarrow> path option" where
  "target_segments raw_target =
     (let path_part = takeWhile (\<lambda>c. c \<noteq> 35) (takeWhile (\<lambda>c. c \<noteq> 63) raw_target) in
      case unquote path_part of
        None \<Rightarrow> None
      | Some decoded \<Rightarrow>
          if 0 \<in> set decoded then None
          else let segments = filter (\<lambda>s. s \<noteq> [] \<and> s \<noteq> DOT) (split_on 47 decoded)
               in if DOTDOT \<in> set segments then None else Some segments)"

definition resolve_within_root :: "node \<Rightarrow> nat \<Rightarrow> path \<Rightarrow> utext \<Rightarrow> path option" where
  "resolve_within_root fs fuel root raw_target =
     (case target_segments raw_target of
        None \<Rightarrow> None
      | Some segments \<Rightarrow>
          (case realpath fs fuel [] (root @ segments) of
             None \<Rightarrow> None
           | Some resolved \<Rightarrow> if starts_with resolved root then Some resolved else None))"

section \<open>Resolution without symlinks\<close>

text \<open>No proper prefix step of the path is a symlink.\<close>

fun link_free :: "node \<Rightarrow> path \<Rightarrow> path \<Rightarrow> bool" where
  "link_free fs acc [] = True"
| "link_free fs acc (s # p) = ((\<forall>t. lookup fs (acc @ [s]) \<noteq> Some (HLink t)) \<and> link_free fs (acc @ [s]) p)"

definition plain_seg :: "utext \<Rightarrow> bool" where
  "plain_seg s \<longleftrightarrow> s \<noteq> [] \<and> s \<noteq> DOT \<and> s \<noteq> DOTDOT"

lemma realpath_plain:
  assumes "link_free fs acc p" and "\<forall>s \<in> set p. plain_seg s"
  shows "realpath fs fuel acc p = Some (acc @ p)"
  using assms
proof (induction p arbitrary: acc)
  case (Cons s p)
  have "realpath fs fuel acc (s # p) = realpath fs fuel (acc @ [s]) p"
    using Cons.prems by (subst realpath.simps) (auto simp: plain_seg_def split: option.splits node.splits)
  with Cons show ?case by simp
qed (simp add: realpath.simps)

lemma link_free_append: "link_free fs acc (p @ q) \<longleftrightarrow> link_free fs acc p \<and> link_free fs (acc @ p) q"
  by (induction p arbitrary: acc) auto

section \<open>One pass of decoding\<close>

lemma split_on_nonempty [simp]: "split_on sep s \<noteq> []"
  by (induction s) (auto split: list.splits)

lemma split_on_segment: "sep \<notin> set s \<Longrightarrow> split_on sep s = [s]"
  by (induction s) auto

lemma split_on_append: "sep \<notin> set s \<Longrightarrow> split_on sep (s @ sep # t) = s # split_on sep t"
  by (induction s) (auto split: list.splits)

lemma split_on_no_sep: "s \<in> set (split_on sep t) \<Longrightarrow> sep \<notin> set s"
  by (induction t arbitrary: s) (auto split: list.splits if_splits)

lemma split_on_subset: "s \<in> set (split_on sep t) \<Longrightarrow> set s \<subseteq> set t"
proof (induction t arbitrary: s)
  case (Cons c cs)
  obtain w ws where "split_on sep cs = w # ws" by (cases "split_on sep cs") auto
  with Cons show ?case by (cases "c = sep") fastforce+
qed simp

lemma utf8_decode_ascii: "\<forall>b \<in> set bs. b < 0x80 \<Longrightarrow> utf8_decode bs = Some bs"
  by (induction bs) auto

lemma target_segments_safe:
  assumes "target_segments t = Some segs" and "s \<in> set segs"
  shows "plain_seg s" and "47 \<notin> set s" and "0 \<notin> set s"
proof -
  obtain d where segs: "segs = filter (\<lambda>s. s \<noteq> [] \<and> s \<noteq> DOT) (split_on 47 d)" and dd: "DOTDOT \<notin> set segs"
    and z: "0 \<notin> set d"
    using assms(1) by (auto simp: target_segments_def Let_def split: option.splits if_splits)
  then show "plain_seg s" using assms(2) by (auto simp: plain_seg_def)
  show "47 \<notin> set s" using assms(2) segs by (auto dest: split_on_no_sep)
  show "0 \<notin> set s" using assms(2) segs z split_on_subset [of s 47 d] by auto
qed

section \<open>Quoting\<close>

text \<open>\<open>urllib.parse.quote\<close> with its default safe set, and the request path the self-test builds
  from the parts of a relative path.\<close>

definition utf8_encode :: "nat \<Rightarrow> nat list" where
  "utf8_encode c = (if c < 0x80 then [c]
     else if c < 0x800 then [0xC0 + c div 64, 0x80 + c mod 64]
     else if c < 0x10000 then [0xE0 + c div 4096, 0x80 + c div 64 mod 64, 0x80 + c mod 64]
     else [0xF0 + c div 262144, 0x80 + c div 4096 mod 64, 0x80 + c div 64 mod 64, 0x80 + c mod 64])"

definition quote_safe :: "nat \<Rightarrow> bool" where
  "quote_safe b \<longleftrightarrow> (48 \<le> b \<and> b \<le> 57) \<or> (65 \<le> b \<and> b \<le> 90) \<or> (97 \<le> b \<and> b \<le> 122) \<or> b \<in> {95, 46, 45, 126, 47}"

definition hex_upper :: "nat \<Rightarrow> nat" where
  "hex_upper n = (if n < 10 then 48 + n else 55 + n)"

definition quote_byte :: "nat \<Rightarrow> utext" where
  "quote_byte b = (if quote_safe b then [b] else [37, hex_upper (b div 16), hex_upper (b mod 16)])"

definition quote :: "utext \<Rightarrow> utext" where
  "quote s = concat (map quote_byte (concat (map utf8_encode s)))"

text \<open>\<open>quote\<close> encodes strictly: a surrogate, which is how Python shows a byte of a file name that is not UTF-8,
  raises \<open>UnicodeEncodeError\<close>. The bytes above are meant for texts that pass this test.\<close>

definition quotable :: "utext \<Rightarrow> bool" where
  "quotable s \<longleftrightarrow> list_all (\<lambda>c. c < 0xD800 \<or> 0xDFFF < c) s"

fun join_slash :: "utext list \<Rightarrow> utext" where
  "join_slash [] = []"
| "join_slash [p] = p"
| "join_slash (p # q # ps) = p @ 47 # join_slash (q # ps)"

definition url_path :: "path \<Rightarrow> utext" where
  "url_path parts = 47 # join_slash (map quote parts)"

definition url_seg :: "utext \<Rightarrow> bool" where
  "url_seg s \<longleftrightarrow> plain_seg s \<and> 47 \<notin> set s \<and> (\<forall>c \<in> set s. 0 < c \<and> c < 128)"

lemma unquote_bytes_Cons: "c \<noteq> 37 \<Longrightarrow> unquote_bytes (c # r) = c # unquote_bytes r"
  by (cases "c # r" rule: unquote_bytes.cases) auto

lemma hex_val_upper: "n < 16 \<Longrightarrow> hex_val (hex_upper n) = Some n"
  by (simp add: hex_val_def hex_upper_def)

lemma unquote_quote_byte: "b < 256 \<Longrightarrow> unquote_bytes (quote_byte b @ r) = b # unquote_bytes r"
proof (cases "quote_safe b")
  case True
  then have "b \<noteq> 37" by (auto simp: quote_safe_def)
  with True show ?thesis by (simp add: quote_byte_def unquote_bytes_Cons)
next
  case False
  moreover assume "b < 256"
  ultimately show ?thesis by (simp add: quote_byte_def hex_val_upper)
qed

lemma quote_ascii: "\<forall>c \<in> set s. c < 128 \<Longrightarrow> quote s = concat (map quote_byte s)"
  by (induction s) (auto simp: quote_def utf8_encode_def)

lemma unquote_bytes_quote: "\<forall>c \<in> set s. c < 128 \<Longrightarrow> unquote_bytes (quote s @ r) = s @ unquote_bytes r"
  by (simp add: quote_ascii, induction s) (auto simp: unquote_quote_byte)

lemma hex_upper_range: "n < 16 \<Longrightarrow> hex_upper n < 128 \<and> hex_upper n \<noteq> 63 \<and> hex_upper n \<noteq> 35"
  by (auto simp: hex_upper_def)

lemma quote_byte_chars: "b < 128 \<Longrightarrow> c \<in> set (quote_byte b) \<Longrightarrow> c < 128 \<and> c \<noteq> 63 \<and> c \<noteq> 35"
proof (cases "quote_safe b")
  case True
  moreover assume "b < 128" and "c \<in> set (quote_byte b)"
  ultimately have "c = b" "b < 128" by (simp_all add: quote_byte_def)
  with True show ?thesis by (auto simp: quote_safe_def)
next
  case False
  assume "b < 128" and c: "c \<in> set (quote_byte b)"
  then have "b div 16 < 16" "b mod 16 < 16" by simp_all
  note hex_upper_range [OF this(1)] hex_upper_range [OF this(2)]
  moreover have "c = 37 \<or> c = hex_upper (b div 16) \<or> c = hex_upper (b mod 16)"
    using c False by (simp add: quote_byte_def)
  ultimately show ?thesis by (elim disjE) simp_all
qed

lemma set_join_slash: "c \<in> set (join_slash qs) \<Longrightarrow> c = 47 \<or> (\<exists>q \<in> set qs. c \<in> set q)"
  by (induction qs rule: join_slash.induct) auto

lemma url_path_chars:
  assumes "\<forall>p \<in> set parts. url_seg p" and "c \<in> set (url_path parts)"
  shows "c < 128 \<and> c \<noteq> 63 \<and> c \<noteq> 35"
proof -
  have q: "c < 128 \<and> c \<noteq> 63 \<and> c \<noteq> 35" if "p \<in> set parts" "c \<in> set (quote p)" for c p
    using that assms(1) quote_ascii [of p] by (auto simp: url_seg_def dest!: quote_byte_chars [rotated])
  have "c = 47 \<or> (\<exists>p \<in> set parts. c \<in> set (quote p))"
    using assms(2) set_join_slash [of c "map quote parts"] by (auto simp: url_path_def)
  with q [of _ c] show ?thesis by auto
qed

lemma unquote_ascii:
  assumes "\<forall>c \<in> set s. c < 128" and "\<forall>b \<in> set (unquote_bytes s). b < 128"
  shows "unquote s = Some (unquote_bytes s)"
proof (cases s)
  case Nil
  then show ?thesis by (simp add: unquote.simps)
next
  case (Cons c cs)
  have tw: "takeWhile (\<lambda>x. x < 128) cs = cs" and dw: "dropWhile (\<lambda>x. x < 128) cs = []" and c: "c < 128"
    using assms(1) Cons by auto
  have "unquote (c # cs) = (case utf8_decode (unquote_bytes (c # cs)) of None \<Rightarrow> None
      | Some d \<Rightarrow> map_option ((@) d) (unquote []))"
    by (subst unquote.simps) (simp add: tw dw c cong: option.case_cong)
  with assms(2) Cons show ?thesis by (simp add: utf8_decode_ascii unquote.simps [of "[]"])
qed

lemma unquote_bytes_url:
  assumes "\<forall>p \<in> set parts. url_seg p"
  shows "unquote_bytes (join_slash (map quote parts)) = join_slash parts"
  using assms
proof (induction parts rule: join_slash.induct)
  case (2 p)
  then show ?case using unquote_bytes_quote [of p "[]"] by (simp add: url_seg_def)
next
  case (3 p q ps)
  then show ?case
    using unquote_bytes_quote [of p "47 # join_slash (map quote (q # ps))"]
    by (simp add: url_seg_def unquote_bytes_Cons)
qed simp

lemma split_join: "\<forall>p \<in> set parts. 47 \<notin> set p \<Longrightarrow> parts \<noteq> [] \<Longrightarrow> split_on 47 (join_slash parts) = parts"
  by (induction parts rule: join_slash.induct) (auto simp: split_on_segment split_on_append)

lemma target_segments_url:
  assumes "\<forall>p \<in> set parts. url_seg p" and "parts \<noteq> []"
  shows "target_segments (url_path parts) = Some parts"
proof -
  have chars: "\<forall>c \<in> set (url_path parts). c < 128 \<and> c \<noteq> 63 \<and> c \<noteq> 35" using url_path_chars assms(1) by blast
  have tw: "takeWhile (\<lambda>c. c \<noteq> 35) (takeWhile (\<lambda>c. c \<noteq> 63) (url_path parts)) = url_path parts"
  proof -
    have a: "takeWhile (\<lambda>c. c \<noteq> 63) (url_path parts) = url_path parts"
      using chars by (intro takeWhile_eq_all_conv [THEN iffD2]) blast
    have b: "takeWhile (\<lambda>c. c \<noteq> 35) (url_path parts) = url_path parts"
      using chars by (intro takeWhile_eq_all_conv [THEN iffD2]) blast
    show ?thesis by (simp only: a b)
  qed
  have ub: "unquote_bytes (url_path parts) = 47 # join_slash parts"
    using unquote_bytes_url [OF assms(1)] by (simp add: url_path_def unquote_bytes_Cons)
  have small: "0 < c \<and> c < 128" if "c \<in> set (47 # join_slash parts)" for c
    using that set_join_slash [of c parts] assms(1) by (auto simp: url_seg_def)
  have uq: "unquote (url_path parts) = Some (47 # join_slash parts)"
    using unquote_ascii [of "url_path parts"] chars ub small by auto
  have "filter (\<lambda>s. s \<noteq> [] \<and> s \<noteq> DOT) parts = parts" and "DOTDOT \<notin> set parts"
    using assms(1) by (auto simp: url_seg_def plain_seg_def filter_id_conv)
  moreover have "split_on 47 (47 # join_slash parts) = [] # parts"
    using split_join [of parts] assms by (auto simp: url_seg_def)
  moreover have "0 \<notin> set (47 # join_slash parts)" using small by blast
  ultimately show ?thesis by (simp add: target_segments_def tw uq Let_def)
qed

section \<open>Confinement\<close>

lemma link_free_butlast: "link_free fs acc p \<Longrightarrow> link_free fs acc (butlast p)"
  by (induction p arbitrary: acc) auto

text \<open>A resolved path passes through no symlink and has no dot segments.\<close>

lemma realpath_link_free:
  assumes "realpath fs fuel acc segs = Some p" and "link_free fs [] acc" and "\<forall>s \<in> set acc. plain_seg s"
  shows "link_free fs [] p \<and> (\<forall>s \<in> set p. plain_seg s)"
  using assms
proof (induction fs fuel acc segs arbitrary: p rule: realpath.induct)
  case (1 fs fuel acc segs)
  show ?case
  proof (cases segs)
    case Nil
    then show ?thesis using "1.prems" by (simp add: realpath.simps)
  next
    case (Cons s rest)
    note eq = realpath.simps [of fs fuel acc segs, unfolded Cons, simplified]
    consider (skip) "s = [] \<or> s = DOT" | (up) "s = DOTDOT" "\<not> (s = [] \<or> s = DOT)"
      | (link) t where "plain_seg s" "lookup fs (acc @ [s]) = Some (HLink t)"
      | (down) "plain_seg s" "\<forall>t. lookup fs (acc @ [s]) \<noteq> Some (HLink t)"
      unfolding plain_seg_def by blast
    then show ?thesis
    proof cases
      case skip
      then show ?thesis using "1.IH"(1) [OF Cons skip] "1.prems" eq Cons by auto
    next
      case up
      then have "realpath fs fuel (butlast acc) rest = Some p" using "1.prems"(1) eq Cons by (simp add: DOT_def DOTDOT_def)
      with "1.IH"(2) [OF Cons up(2,1)] "1.prems"(2,3) show ?thesis
        by (auto simp: link_free_butlast dest: in_set_butlastD)
    next
      case link
      then have ns: "\<not> (s = [] \<or> s = DOT)" "s \<noteq> DOTDOT" by (auto simp: plain_seg_def)
      then obtain k where k: "fuel = Suc k"
        and r: "realpath fs k (if t \<noteq> [] \<and> hd t = 47 then [] else acc) (split_on 47 t @ rest) = Some p"
        using "1.prems"(1) eq Cons link(2) by (auto split: nat.splits)
      have "link_free fs [] (if t \<noteq> [] \<and> hd t = 47 then [] else acc)"
        "\<forall>s \<in> set (if t \<noteq> [] \<and> hd t = 47 then [] else acc). plain_seg s"
        using "1.prems"(2,3) by auto
      from "1.IH"(6) [OF Cons ns link(2) refl k r this] show ?thesis .
    next
      case down
      then have ns: "\<not> (s = [] \<or> s = DOT)" "s \<noteq> DOTDOT" by (auto simp: plain_seg_def)
      have r: "realpath fs fuel (acc @ [s]) rest = Some p"
        using "1.prems"(1) eq Cons ns down(2) by (auto split: option.splits node.splits)
      have ok: "link_free fs [] (acc @ [s])" "\<forall>x \<in> set (acc @ [s]). plain_seg x"
        using "1.prems"(2,3) down by (auto simp: link_free_append)
      show ?thesis
      proof (cases "lookup fs (acc @ [s])")
        case None
        from "1.IH"(3) [OF Cons ns None r ok] show ?thesis .
      next
        case (Some n)
        then show ?thesis
          using "1.IH"(4) [OF Cons ns _ _ r ok] "1.IH"(5) [OF Cons ns _ _ r ok] down(2) by (cases n) auto
      qed
    qed
  qed
qed

lemma resolve_within_root_confined:
  assumes "resolve_within_root fs fuel root t = Some p"
  shows "\<exists>rest. p = root @ rest" and "link_free fs [] p" and "\<forall>s \<in> set p. plain_seg s"
proof -
  obtain segs where r: "realpath fs fuel [] (root @ segs) = Some p" and "starts_with p root"
    using assms by (auto simp: resolve_within_root_def split: option.splits if_splits)
  then show "\<exists>rest. p = root @ rest" by (simp add: starts_with_iff)
  show "link_free fs [] p" "\<forall>s \<in> set p. plain_seg s" using realpath_link_free [OF r] by simp_all
qed

lemma resolve_url_path:
  assumes "\<forall>s \<in> set parts. url_seg s" and "parts \<noteq> []" and "link_free fs [] (root @ parts)" and "\<forall>s \<in> set root. plain_seg s"
  shows "resolve_within_root fs fuel root (url_path parts) = Some (root @ parts)"
proof -
  have "\<forall>s \<in> set (root @ parts). plain_seg s" using assms(1,4) by (auto simp: url_seg_def)
  from realpath_plain [OF assms(3) this, of fuel] target_segments_url [OF assms(1,2)] show ?thesis
    by (simp add: resolve_within_root_def)
qed

section \<open>Properties\<close>

text \<open>C1. Confinement: whatever the request target (percent-encoded, double-encoded, with dot
  segments, null bytes, query or fragment) and whatever symlinks the tree holds, a path that
  \<open>resolve_within_root\<close> returns lies below the root, passes through no symlink and has no dot
  segments, so opening it opens a file of the root's own subtree. A target whose decoded path has a
  \<open>..\<close> segment is refused.\<close>

theorem request_path_confined:
  "case resolve_within_root fs fuel root t of
     None \<Rightarrow> True
   | Some p \<Rightarrow> (\<exists>rest. p = root @ rest) \<and> link_free fs [] p \<and> list_all plain_seg p
       \<and> (\<exists>decoded. unquote (takeWhile (\<lambda>c. c \<noteq> 35) (takeWhile (\<lambda>c. c \<noteq> 63) t)) = Some decoded
            \<and> DOTDOT \<notin> set (split_on 47 decoded) \<and> 0 \<notin> set decoded)"
proof (cases "resolve_within_root fs fuel root t")
  case (Some p)
  have "\<exists>decoded. unquote (takeWhile (\<lambda>c. c \<noteq> 35) (takeWhile (\<lambda>c. c \<noteq> 63) t)) = Some decoded
            \<and> DOTDOT \<notin> set (split_on 47 decoded) \<and> 0 \<notin> set decoded"
    using Some by (auto simp: resolve_within_root_def target_segments_def Let_def DOT_def DOTDOT_def
        split: option.splits if_splits)
  with Some resolve_within_root_confined [OF Some] show ?thesis by (simp add: list_all_iff)
qed simp

text \<open>Every ordinary file is reachable: for a file below a fully resolved root, with no symlink on
  the way and ASCII segment names that are no dot segments, the URL path built by quoting its segments
  resolves to exactly that file.\<close>

theorem url_path_resolves:
  assumes "list_all url_seg parts" and "parts \<noteq> []" and "link_free fs [] (root @ parts)" and "list_all plain_seg root"
  shows "resolve_within_root fs fuel root (url_path parts) = Some (root @ parts)"
  using resolve_url_path [of parts fs root fuel] assms by (simp add: list_all_iff)

text \<open>A tree with a file whose name needs quoting, and a symlink that leaves the root.\<close>

definition sample_tree :: node where
  "sample_tree = HDir [([114], HDir [([97, 32, 37, 98], HFile [1, 2, 3, 4]), ([108], HLink [47, 101])]), ([101], HFile [9])]"

theorem url_path_resolves_witness:
  "resolve_within_root sample_tree 8 [[114]] (url_path [[97, 32, 37, 98]]) = Some [[114], [97, 32, 37, 98]]
   \<and> url_path [[97, 32, 37, 98]] = [47, 97, 37, 50, 48, 37, 50, 53, 98]"
proof -
  have "list_all url_seg [[97, 32, 37, 98]]" "list_all plain_seg [[114]]"
    by (simp_all add: url_seg_def plain_seg_def DOT_def DOTDOT_def)
  moreover have "link_free sample_tree [] ([[114]] @ [[97, 32, 37, 98]])" by (simp add: sample_tree_def)
  ultimately have "resolve_within_root sample_tree 8 [[114]] (url_path [[97, 32, 37, 98]]) = Some ([[114]] @ [[97, 32, 37, 98]])"
    by (intro url_path_resolves) simp_all
  moreover have "url_path [[97, 32, 37, 98]] = [47, 97, 37, 50, 48, 37, 50, 53, 98]"
    by (simp add: url_path_def quote_def utf8_encode_def quote_byte_def quote_safe_def hex_upper_def)
  ultimately show ?thesis by simp
qed

end
