(* ===== verification/Http_Serve.thy ===== *)
theory Http_Serve
  imports Http_Path
begin

text \<open>
  \<open>plugins/module_utils/http_origin.py\<close>, one request: \<open>parse_range_header\<close> and the handler's
  \<open>_handle\<close> up to its \<open>finally\<close> block. What the handler hands to \<open>http.server\<close> is a list of
  calls; \<open>mimetypes.guess_type\<close> is an argument, and so are the failures the operating system may
  report (a vanished file, a client that disconnects before its k-th chunk).
\<close>

section \<open>Range requests\<close>

datatype range_result = NoRange | ByteRange nat nat | RangeNotSatisfiable

definition parse_range_header :: "string option \<Rightarrow> nat \<Rightarrow> range_result" where
  "parse_range_header hdr fsize = (case hdr of
      None \<Rightarrow> NoRange
    | Some v \<Rightarrow>
        if v = [] then NoRange
        else if CHR '','' \<in> set v then NoRange
        else if \<not> starts_with v ''bytes='' then NoRange
        else let spec = strip (drop 6 v) in
          if CHR ''-'' \<notin> set spec then NoRange
          else let start_text = takeWhile (\<lambda>c. c \<noteq> CHR ''-'') spec;
                   end_text = drop (length start_text + 1) spec in
            if start_text = [] \<and> end_text = [] then NoRange
            else if start_text = [] then
              (case py_int end_text of
                 None \<Rightarrow> NoRange
               | Some suffix_length \<Rightarrow>
                   if suffix_length \<le> 0 \<or> fsize = 0 then RangeNotSatisfiable
                   else ByteRange (nat (max 0 (int fsize - suffix_length))) (fsize - 1))
            else
              (case py_int start_text of
                 None \<Rightarrow> NoRange
               | Some start \<Rightarrow>
                   if start < 0 \<or> fsize = 0 \<or> start \<ge> int fsize then RangeNotSatisfiable
                   else if end_text = [] then ByteRange (nat start) (fsize - 1)
                   else (case py_int end_text of
                       None \<Rightarrow> NoRange
                     | Some e \<Rightarrow> if e < start then NoRange
                                 else ByteRange (nat start) (nat (min e (int fsize - 1))))))"

section \<open>The handler\<close>

definition COPY_BUFFER_SIZE :: nat where "COPY_BUFFER_SIZE = 64 * 1024"

record request =
  rq_method :: string
  rq_send_body :: bool
  rq_path :: utext
  rq_range :: "string option"
  rq_self_test :: bool
  rq_client :: string

text \<open>The outcomes of the system calls of one request: \<open>head_fails\<close> is an \<open>OSError\<close> from writing the
  response head or the error page, \<open>wfile\<close> lists the writes of the body (\<open>False\<close>: the client is gone).\<close>

record io_env =
  head_fails :: bool
  stat_fails :: bool
  open_fails :: bool
  wfile :: "bool list"

text \<open>The calls on \<open>BaseHTTPRequestHandler\<close>.\<close>

datatype sent =
    SendError nat
  | SendResponse nat
  | SendHeader string string
  | EndHeaders
  | SendBody bytes

datatype outcome = Ok | BlockedTraversal | NotFound | NotSatisfiable | ClientDisconnected | ServerError

record reply =
  rp_sent :: "sent list"
  rp_status :: nat
  rp_outcome :: outcome
  rp_bytes_sent :: nat

text \<open>The \<open>except OSError\<close> clause: the 500 page is attempted, its own failure suppressed.\<close>

definition server_error :: "sent list \<Rightarrow> reply" where
  "server_error head = \<lparr>rp_sent = head @ [SendError 500], rp_status = 500, rp_outcome = ServerError, rp_bytes_sent = 0\<rparr>"

definition reply_error :: "io_env \<Rightarrow> nat \<Rightarrow> outcome \<Rightarrow> reply" where
  "reply_error io st out = (if head_fails io then server_error []
     else \<lparr>rp_sent = [SendError st], rp_status = st, rp_outcome = out, rp_bytes_sent = 0\<rparr>)"

text \<open>The copy loop: the bodies written and whether the client went away. A \<open>read\<close> that raises an \<open>OSError\<close> in the
  middle of the body, once the file was opened, is not modelled.\<close>

function copy_loop :: "bytes \<Rightarrow> nat \<Rightarrow> nat \<Rightarrow> bool list \<Rightarrow> bytes list \<times> bool" where
  "copy_loop content pos remaining ws =
     (if remaining > 0 then
        let chunk = pslice pos (pos + min COPY_BUFFER_SIZE remaining) content in
        if chunk = [] then ([], False)
        else if ws \<noteq> [] \<and> \<not> hd ws then ([], True)
        else let (rest, gone) = copy_loop content (pos + length chunk) (remaining - length chunk) (tl ws)
             in (chunk # rest, gone)
      else ([], False))"
  by pat_completeness auto
termination
  by (relation "measure (\<lambda>(content, pos, remaining, ws). remaining)") (auto simp: COPY_BUFFER_SIZE_def pslice_def)

declare copy_loop.simps [simp del]

definition range_header :: "nat \<Rightarrow> nat \<Rightarrow> nat \<Rightarrow> string" where
  "range_header start e fsize = ''bytes '' @ str_nat start @ ''-'' @ str_nat e @ ''/'' @ str_nat fsize"

definition file_headers :: "string \<Rightarrow> range_result \<Rightarrow> nat \<Rightarrow> nat \<Rightarrow> sent list" where
  "file_headers ctype br len fsize =
     [SendResponse (case br of ByteRange _ _ \<Rightarrow> 206 | _ \<Rightarrow> 200), SendHeader ''Content-Type'' ctype,
      SendHeader ''Content-Length'' (str_nat len), SendHeader ''Accept-Ranges'' ''bytes'']
     @ (case br of ByteRange s e \<Rightarrow> [SendHeader ''Content-Range'' (range_header s e fsize)] | _ \<Rightarrow> [])
     @ [EndHeaders]"

definition serve_file :: "string \<Rightarrow> io_env \<Rightarrow> request \<Rightarrow> bytes \<Rightarrow> reply" where
  "serve_file ctype io rq content =
     (let fsize = length content in
      case parse_range_header (rq_range rq) fsize of
        RangeNotSatisfiable \<Rightarrow>
          if head_fails io then server_error []
          else \<lparr>rp_sent = [SendResponse 416, SendHeader ''Content-Range'' (''bytes */'' @ str_nat fsize),
                     SendHeader ''Content-Length'' ''0'', EndHeaders],
           rp_status = 416, rp_outcome = NotSatisfiable, rp_bytes_sent = 0\<rparr>
      | br \<Rightarrow>
          (let (start, len) = (case br of ByteRange s e \<Rightarrow> (s, e + 1 - s) | _ \<Rightarrow> (0, fsize));
               status = (case br of ByteRange _ _ \<Rightarrow> 206 | _ \<Rightarrow> 200);
               hdrs = file_headers ctype br len fsize
           in if head_fails io then server_error []
              else if \<not> rq_send_body rq
              then \<lparr>rp_sent = hdrs, rp_status = status, rp_outcome = Ok, rp_bytes_sent = 0\<rparr>
              else if open_fails io
              then server_error hdrs
              else let (chunks, gone) = copy_loop content start len (wfile io)
                   in \<lparr>rp_sent = hdrs @ map SendBody chunks, rp_status = status,
                       rp_outcome = (if gone then ClientDisconnected else Ok),
                       rp_bytes_sent = length (concat chunks)\<rparr>))"

definition handle_request ::
  "node \<Rightarrow> nat \<Rightarrow> (path \<Rightarrow> string) \<Rightarrow> path \<Rightarrow> io_env \<Rightarrow> request \<Rightarrow> reply" where
  "handle_request fs fuel guess_type root io rq =
     (case resolve_within_root fs fuel root (rq_path rq) of
        None \<Rightarrow> reply_error io 404 BlockedTraversal
      | Some p \<Rightarrow>
          (case lookup fs p of
             Some (HFile content) \<Rightarrow>
               if stat_fails io then reply_error io 404 NotFound
               else serve_file (guess_type p) io rq content
           | _ \<Rightarrow> reply_error io 404 NotFound))"

definition reply_body :: "reply \<Rightarrow> bytes" where
  "reply_body r = concat (List.map_filter (\<lambda>x. case x of SendBody b \<Rightarrow> Some b | _ \<Rightarrow> None) (rp_sent r))"

section \<open>Ranges\<close>

lemma parse_range_bounds:
  assumes "parse_range_header hdr fsize = ByteRange s e"
  shows "s \<le> e \<and> e < fsize"
  using assms
  by (auto simp: parse_range_header_def Let_def split: option.splits if_splits)

text \<open>The three forms a client sends.\<close>

lemma strip_range: "strip (str_nat a @ ''-'' @ s) = str_nat a @ ''-'' @ s" if "s = [] \<or> s = str_nat b" for a b s
proof (rule strip_nonspace)
  have "\<not> is_space (CHR ''-'')" by (simp add: is_space_def)
  with that show "\<forall>c \<in> set (str_nat a @ ''-'' @ s). \<not> is_space c" using str_nat_digits by auto
qed

lemma strip_suffix_range: "strip (''-'' @ str_nat b) = ''-'' @ str_nat b"
proof (rule strip_nonspace)
  have "\<not> is_space (CHR ''-'')" by (simp add: is_space_def)
  then show "\<forall>c \<in> set (''-'' @ str_nat b). \<not> is_space c" using str_nat_digits by auto
qed

lemma no_comma: "CHR '','' \<notin> set (str_nat a)" "CHR ''-'' \<notin> set (str_nat a)"
proof -
  show "CHR '','' \<notin> set (str_nat a)" "CHR ''-'' \<notin> set (str_nat a)"
    using str_nat_digits [of "CHR '',''" a] str_nat_digits [of "CHR ''-''" a] by (auto simp: is_digit_def)
qed

lemma py_int_str_nat: "py_int (str_nat a) = Some (int a)"
  using py_int_str_int [of "int a"] by (simp add: str_int_def)

lemma takeWhile_str_nat: "takeWhile (\<lambda>c. c \<noteq> CHR ''-'') (str_nat a @ CHR ''-'' # s) = str_nat a"
  using no_comma(2) [of a] by (auto simp: takeWhile_append)

lemma parse_range_forms:
  "parse_range_header (Some (''bytes='' @ str_nat a @ ''-'' @ str_nat b)) fsize =
     (if fsize \<le> a then RangeNotSatisfiable else if b < a then NoRange else ByteRange a (min b (fsize - 1)))"
  "parse_range_header (Some (''bytes='' @ str_nat a @ ''-'')) fsize =
     (if fsize \<le> a then RangeNotSatisfiable else ByteRange a (fsize - 1))"
  "parse_range_header (Some (''bytes='' @ ''-'' @ str_nat b)) fsize =
     (if b = 0 \<or> fsize = 0 then RangeNotSatisfiable else ByteRange (fsize - b) (fsize - 1))"
proof -
  note f = parse_range_header_def Let_def no_comma py_int_str_nat takeWhile_str_nat
  show "parse_range_header (Some (''bytes='' @ str_nat a @ ''-'' @ str_nat b)) fsize =
     (if fsize \<le> a then RangeNotSatisfiable else if b < a then NoRange else ByteRange a (min b (fsize - 1)))"
    using strip_range [of "str_nat b" b a] by (auto simp: f min_def)
  show "parse_range_header (Some (''bytes='' @ str_nat a @ ''-'')) fsize =
     (if fsize \<le> a then RangeNotSatisfiable else ByteRange a (fsize - 1))"
    using strip_range [of "[]" b a] by (auto simp: f)
  show "parse_range_header (Some (''bytes='' @ ''-'' @ str_nat b)) fsize =
     (if b = 0 \<or> fsize = 0 then RangeNotSatisfiable else ByteRange (fsize - b) (fsize - 1))"
    using strip_suffix_range [of b] by (auto simp: f max_def nat_diff_distrib)
qed

section \<open>What is sent\<close>

lemma copy_loop_spec:
  assumes "copy_loop content pos remaining ws = (chunks, gone)" and "pos + remaining \<le> length content"
  shows "\<exists>k \<le> remaining. concat chunks = pslice pos (pos + k) content \<and> (\<not> gone \<longrightarrow> k = remaining)
    \<and> (gone \<longrightarrow> False \<in> set ws)"
  using assms
proof (induction content pos remaining ws arbitrary: chunks gone rule: copy_loop.induct)
  case (1 content pos remaining ws)
  let ?chunk = "pslice pos (pos + min COPY_BUFFER_SIZE remaining) content"
  show ?case
  proof (cases "remaining = 0 \<or> ws \<noteq> [] \<and> \<not> hd ws")
    case True
    then have "chunks = []" "gone \<longrightarrow> ws \<noteq> [] \<and> \<not> hd ws" "\<not> gone \<longrightarrow> remaining = 0"
      using "1.prems" by (auto simp: copy_loop.simps [of content pos remaining ws] Let_def COPY_BUFFER_SIZE_def pslice_def
          split: if_splits)
    moreover have "ws \<noteq> [] \<and> \<not> hd ws \<Longrightarrow> False \<in> set ws" using hd_in_set [of ws] by auto
    ultimately show ?thesis by (intro exI [of _ 0]) (auto simp: pslice_def)
  next
    case False
    have len: "length ?chunk = min COPY_BUFFER_SIZE remaining" using "1.prems"(2) by simp
    have pos: "0 < min COPY_BUFFER_SIZE remaining" using False by (simp add: COPY_BUFFER_SIZE_def)
    then have ne: "?chunk \<noteq> []" using len by (metis length_greater_0_conv)
    obtain rest g where rec: "copy_loop content (pos + length ?chunk) (remaining - length ?chunk) (tl ws) = (rest, g)"
      by fastforce
    have eq: "chunks = ?chunk # rest" "gone = g"
      using "1.prems"(1) False ne rec by (auto simp: copy_loop.simps [of content pos remaining ws] Let_def)
    have "\<exists>k \<le> remaining - length ?chunk. concat rest = pslice (pos + length ?chunk) (pos + length ?chunk + k) content
        \<and> (\<not> g \<longrightarrow> k = remaining - length ?chunk) \<and> (g \<longrightarrow> False \<in> set (tl ws))"
      by (rule "1.IH" [OF _ refl ne _ rec]) (use False len "1.prems"(2) in auto)
    then obtain k where k: "k \<le> remaining - length ?chunk"
      "concat rest = pslice (pos + length ?chunk) (pos + length ?chunk + k) content"
      "\<not> g \<longrightarrow> k = remaining - length ?chunk" "g \<longrightarrow> False \<in> set (tl ws)" by blast
    have c: "?chunk = pslice pos (pos + length ?chunk) content" by (simp only: len)
    have "concat chunks = pslice pos (pos + (length ?chunk + k)) content"
      unfolding eq concat.simps k(2)
      by (subst c) (use pslice_adjacent [of pos "pos + length ?chunk" "pos + length ?chunk + k" content] in \<open>simp add: ac_simps\<close>)
    moreover have "g \<longrightarrow> False \<in> set ws" using k(4) by (cases ws) auto
    moreover have "length ?chunk \<le> remaining" using len by simp
    ultimately show ?thesis
      using k(1,3) eq(2) by (intro exI [of _ "length ?chunk + k"]) (simp del: length_pslice)
  qed
qed

lemma body_of_chunks:
  "concat (List.map_filter (\<lambda>x. case x of SendBody b \<Rightarrow> Some b | _ \<Rightarrow> None) (map SendBody cs)) = concat cs"
  by (induction cs) (auto simp: map_filter_simps)

lemma file_headers_body:
  "List.map_filter (\<lambda>x. case x of SendBody b \<Rightarrow> Some b | _ \<Rightarrow> None) (file_headers ctype br len n @ xs)
    = List.map_filter (\<lambda>x. case x of SendBody b \<Rightarrow> Some b | _ \<Rightarrow> None) xs"
  by (simp add: file_headers_def map_filter_def split: range_result.splits)

lemma content_length_header: "SendHeader ''Content-Length'' (str_nat len) \<in> set (file_headers ctype br len n)"
  by (simp add: file_headers_def)

definition requested :: "request \<Rightarrow> bytes \<Rightarrow> nat \<times> nat" where
  "requested rq content = (case parse_range_header (rq_range rq) (length content) of
      ByteRange s e \<Rightarrow> (s, e + 1 - s) | _ \<Rightarrow> (0, length content))"

lemma requested_bounds: "requested rq content = (s, n) \<Longrightarrow> s + n \<le> length content"
  using parse_range_bounds [of "rq_range rq" "length content"]
  by (fastforce simp: requested_def split: range_result.splits)

lemma serve_file_spec:
  assumes "parse_range_header (rq_range rq) (length content) \<noteq> RangeNotSatisfiable"
    and "requested rq content = (s, n)" and "rq_send_body rq" and "\<not> open_fails io" and "\<not> head_fails io"
  shows "\<exists>k \<le> n. reply_body (serve_file ctype io rq content) = pslice s (s + k) content
    \<and> rp_bytes_sent (serve_file ctype io rq content) = k
    \<and> (rp_outcome (serve_file ctype io rq content) = Ok \<and> k = n
       \<or> rp_outcome (serve_file ctype io rq content) = ClientDisconnected)
    \<and> (False \<notin> set (wfile io) \<longrightarrow> k = n \<and> rp_outcome (serve_file ctype io rq content) = Ok)
    \<and> SendHeader ''Content-Length'' (str_nat n) \<in> set (rp_sent (serve_file ctype io rq content))"
proof -
  obtain chunks gone where cl: "copy_loop content s n (wfile io) = (chunks, gone)" by fastforce
  obtain k where k: "k \<le> n" "concat chunks = pslice s (s + k) content" "\<not> gone \<longrightarrow> k = n" "gone \<longrightarrow> False \<in> set (wfile io)"
    using copy_loop_spec [OF cl requested_bounds [OF assms(2)]] by blast
  have "length (concat chunks) = k" using k(1,2) requested_bounds [OF assms(2)] by simp
  then have r: "\<exists>hs. serve_file ctype io rq content = \<lparr>rp_sent = hs @ map SendBody chunks,
      rp_status = (case parse_range_header (rq_range rq) (length content) of ByteRange _ _ \<Rightarrow> 206 | _ \<Rightarrow> 200),
      rp_outcome = (if gone then ClientDisconnected else Ok), rp_bytes_sent = k\<rparr>
      \<and> (\<exists>br m. hs = file_headers ctype br n m)"
    using assms cl by (auto simp: serve_file_def requested_def Let_def split: range_result.splits)
  then obtain hs br m where r: "serve_file ctype io rq content = \<lparr>rp_sent = hs @ map SendBody chunks,
      rp_status = (case parse_range_header (rq_range rq) (length content) of ByteRange _ _ \<Rightarrow> 206 | _ \<Rightarrow> 200),
      rp_outcome = (if gone then ClientDisconnected else Ok), rp_bytes_sent = k\<rparr>"
    and hs: "hs = file_headers ctype br n m" by blast
  show ?thesis
    using k by (intro exI [of _ k]) (auto simp: r hs reply_body_def file_headers_body body_of_chunks content_length_header)
qed

section \<open>Properties\<close>

text \<open>Range requests: an accepted range lies inside the file, and the three forms of a single
  range mean what they say, the end clamped to the file; a start at or past the end, and a suffix of an
  empty file or of length zero, cannot be satisfied.\<close>

theorem range_forms:
  "(case parse_range_header hdr fsize of ByteRange s e \<Rightarrow> s \<le> e \<and> e < fsize | _ \<Rightarrow> True)
   \<and> parse_range_header (Some (''bytes='' @ str_nat a @ ''-'' @ str_nat b)) fsize =
       (if fsize \<le> a then RangeNotSatisfiable else if b < a then NoRange else ByteRange a (min b (fsize - 1)))
   \<and> parse_range_header (Some (''bytes='' @ str_nat a @ ''-'')) fsize =
       (if fsize \<le> a then RangeNotSatisfiable else ByteRange a (fsize - 1))
   \<and> parse_range_header (Some (''bytes='' @ ''-'' @ str_nat b)) fsize =
       (if b = 0 \<or> fsize = 0 then RangeNotSatisfiable else ByteRange (fsize - b) (fsize - 1))"
  by (intro conjI parse_range_forms) (use parse_range_bounds [of hdr fsize] in \<open>simp split: range_result.splits\<close>)

text \<open>C32. What a GET serves: for a request that resolves to a file and a range that can be satisfied,
  with no failing system call, the body is exactly the requested bytes of the file (all of it without a
  usable range), the advertised Content-Length and the accounted byte count are its length, and the
  status is 206 for a range and 200 otherwise. If the client goes away, a leading part of those bytes
  was sent and exactly that part is accounted.\<close>

theorem get_serves_requested_bytes:
  assumes "resolve_within_root fs fuel root (rq_path rq) = Some p" and "lookup fs p = Some (HFile content)"
    and "parse_range_header (rq_range rq) (length content) \<noteq> RangeNotSatisfiable"
    and "requested rq content = (s, n)" and "rq_send_body rq"
    and "\<not> open_fails io" and "\<not> head_fails io" and "\<not> stat_fails io"
    and "reply = handle_request fs fuel guess_type root io rq"
  shows "\<exists>k \<le> n. reply_body reply = pslice s (s + k) content \<and> rp_bytes_sent reply = k
    \<and> (rp_outcome reply = Ok \<and> k = n \<or> rp_outcome reply = ClientDisconnected)
    \<and> (False \<notin> set (wfile io) \<longrightarrow> k = n \<and> rp_outcome reply = Ok)
    \<and> SendHeader ''Content-Length'' (str_nat n) \<in> set (rp_sent reply)
    \<and> rp_status reply = (case parse_range_header (rq_range rq) (length content) of ByteRange _ _ \<Rightarrow> 206 | _ \<Rightarrow> 200)"
proof -
  have r: "reply = serve_file (guess_type p) io rq content"
    using assms(1,2,8,9) by (simp add: handle_request_def)
  have "rp_status reply = (case parse_range_header (rq_range rq) (length content) of ByteRange _ _ \<Rightarrow> 206 | _ \<Rightarrow> 200)"
    using assms(3,5-7) by (auto simp: r serve_file_def Let_def split: range_result.splits prod.splits)
  with serve_file_spec [OF assms(3-7), of "guess_type p"] show ?thesis unfolding r by blast
qed

definition sample_get :: request where
  "sample_get = \<lparr>rq_method = ''GET'', rq_send_body = True, rq_path = url_path [[97, 32, 37, 98]],
     rq_range = Some (''bytes='' @ str_nat 1 @ ''-'' @ str_nat 2), rq_self_test = False, rq_client = ''c''\<rparr>"

definition calm :: io_env where
  "calm = \<lparr>head_fails = False, stat_fails = False, open_fails = False, wfile = []\<rparr>"

lemma calm_simps [simp]: "\<not> head_fails calm" "\<not> stat_fails calm" "\<not> open_fails calm" "wfile calm = []"
  by (simp_all add: calm_def)

lemma sample_get_resolves: "resolve_within_root sample_tree 8 [[114]] (rq_path sample_get) = Some ([[114]] @ [[97, 32, 37, 98]])"
  unfolding sample_get_def request.simps
  by (rule resolve_url_path) (simp_all add: url_seg_def plain_seg_def DOT_def DOTDOT_def sample_tree_def)

theorem get_serves_requested_bytes_witness:
  "reply_body (handle_request sample_tree 8 (\<lambda>_. ''x'') [[114]] calm sample_get) = [2, 3]
   \<and> rp_status (handle_request sample_tree 8 (\<lambda>_. ''x'') [[114]] calm sample_get) = 206"
proof -
  have l: "lookup sample_tree ([[114]] @ [[97, 32, 37, 98]]) = Some (HFile [1, 2, 3, 4])" by (simp add: sample_tree_def)
  have pr: "parse_range_header (rq_range sample_get) (length [1, 2, 3, 4 :: byte]) = ByteRange 1 2"
    unfolding sample_get_def request.simps by (subst parse_range_forms(1)) simp
  have rq: "requested sample_get [1, 2, 3, 4] = (1, 2)" by (simp add: requested_def pr [simplified])
  have sb: "rq_send_body sample_get" by (simp add: sample_get_def)
  from get_serves_requested_bytes [OF sample_get_resolves l _ rq sb _ _ _ refl, of calm "\<lambda>_. ''x''"] pr
  show ?thesis by (auto simp: pslice_def)
qed

end
