(* ===== verification/Http_Origin.thy ===== *)
theory Http_Origin
  imports Http_Serve Daemon_Runtime
begin

text \<open>
  \<open>plugins/module_utils/http_origin.py\<close>, the daemon: its state record, the accounting in the
  handler's \<open>finally\<close> block, the startup self-test, the control loop with its lifetime cap, and
  the whole \<open>_run_daemon\<close>. The outcome of binding, the clock, the stop flag, the outcomes of disk writes
  and the answer of the self-test's HTTP exchange are arguments. The server thread answers requests
  from its start on: \<open>oe_early\<close> are those accounted before the self-test's verdict (its own probe
  among them), \<open>oe_requests\<close> those accounted until the \<open>stopped\<close> record is written, in the order in which
  \<open>state_lock\<close> admits them, and \<open>oe_late\<close> those of handler threads still in flight then, which nothing joins,
  accounted before \<open>os._exit\<close> ends the process. A request \<open>os._exit\<close> cuts off is in none of the lists.

  The main thread's own \<open>_persist\<close> calls do not take \<open>state_lock\<close>. The state in memory does not depend on
  that, as the main thread and the handlers write different keys of it; the record on disk does. This
  theory takes the writes of records one at a time and states its results on the state in memory;
  \<open>Origin_Writers\<close> takes the overlapping writes apart.
\<close>

section \<open>The state record\<close>

datatype origin_lifecycle = ORIGIN_STARTING | ORIGIN_SERVING | ORIGIN_STOPPED | ORIGIN_ERROR

definition ORIGIN_TERMINAL_STATES :: "origin_lifecycle set" where
  "ORIGIN_TERMINAL_STATES = {ORIGIN_STOPPED, ORIGIN_ERROR}"

definition DEFAULT_BIND_ADDRESS :: string where "DEFAULT_BIND_ADDRESS = ''127.0.0.1''"
definition DEFAULT_PORT :: nat where "DEFAULT_PORT = 0"
definition DEFAULT_LIFETIME_SECONDS :: nat where "DEFAULT_LIFETIME_SECONDS = 4 * 60 * 60"

datatype origin_error = InvalidRootText | BindFailedText | SelfTestText string

datatype origin_stop = OriginSignal | LifetimeExpired

record origin_config =
  oc_session_id :: string
  oc_root :: path
  oc_bind_address :: string
  oc_port :: nat
  oc_lifetime_seconds :: nat

record origin_state =
  os_session_id :: string
  os_pid :: nat
  os_state :: origin_lifecycle
  os_error :: "origin_error option"
  os_error_class :: "error_class option"
  os_root :: path
  os_bind_address :: string
  os_port :: nat
  os_url :: "string option"
  request_count :: nat
  bytes_served :: nat
  os_last_request_at :: "string option"
  os_started_at :: string
  os_updated_at :: string
  os_stop_reason :: "origin_stop option"

definition origin_initial_state :: "string \<Rightarrow> origin_config \<Rightarrow> nat \<Rightarrow> origin_state" where
  "origin_initial_state now cfg pid = \<lparr>os_session_id = oc_session_id cfg, os_pid = pid,
     os_state = ORIGIN_STARTING, os_error = None, os_error_class = None, os_root = oc_root cfg,
     os_bind_address = oc_bind_address cfg, os_port = oc_port cfg, os_url = None, request_count = 0,
     bytes_served = 0, os_last_request_at = None, os_started_at = now, os_updated_at = now,
     os_stop_reason = None\<rparr>"

definition access_log_file_path :: "string \<Rightarrow> string" where
  "access_log_file_path sid = sid @ ''-access.log''"

definition origin_remove_state :: "string \<Rightarrow> 's rt_fs \<Rightarrow> 's rt_fs" where
  "origin_remove_state sid fs = remove_paths [state_file_path sid, log_file_path sid, access_log_file_path sid] fs"

text \<open>\<open>Path.resolve(strict=True)\<close>. A missing file is an \<open>OSError\<close>. What a symlink loop raises depends on the
  interpreter, \<open>RuntimeError\<close> up to Python 3.12 and \<open>OSError\<close> from 3.13 on, so it is an argument.\<close>

definition resolve_strict :: "exn \<Rightarrow> node \<Rightarrow> nat \<Rightarrow> path \<Rightarrow> exn + path" where
  "resolve_strict loop_exn fs fuel p = (case realpath fs fuel [] p of
      None \<Rightarrow> Inl loop_exn
    | Some q \<Rightarrow> if lookup fs q = None then Inl FileNotFoundError else Inr q)"

text \<open>What \<open>except OSError\<close> catches.\<close>

definition is_os_error :: "exn \<Rightarrow> bool" where
  "is_os_error e \<longleftrightarrow> e \<in> {OSError, FileNotFoundError, IsADirectoryError, PermissionError}"

definition validate_root :: "exn \<Rightarrow> node \<Rightarrow> nat \<Rightarrow> path \<Rightarrow> exn + path" where
  "validate_root loop_exn fs fuel p = (case resolve_strict loop_exn fs fuel p of
      Inl e \<Rightarrow> Inl (if is_os_error e then ProtocolError ''asmb8_http_origin.validate_root'' else e)
    | Inr q \<Rightarrow> (case lookup fs q of
          Some (HDir _) \<Rightarrow> Inr q
        | _ \<Rightarrow> Inl (ProtocolError ''asmb8_http_origin.validate_root'')))"

section \<open>Accounting\<close>

record access_record =
  ac_time :: string
  ac_method :: string
  ac_path :: utext
  ac_status :: nat
  ac_outcome :: outcome
  ac_bytes_sent :: nat
  ac_client :: string
  ac_self_test :: bool

record origin =
  o_state :: origin_state
  o_fs :: "origin_state rt_fs"
  o_pid :: nat
  o_now :: "nat \<Rightarrow> string"
  o_tick :: nat
  o_disk :: "bool list"
  o_access :: "access_record list"
  o_listening :: bool

definition o_now_iso :: "origin \<Rightarrow> string \<times> origin" where
  "o_now_iso u = (o_now u (o_tick u), u\<lparr>o_tick := o_tick u + 1\<rparr>)"

definition o_disk_write :: "origin \<Rightarrow> bool \<times> origin" where
  "o_disk_write u = (case o_disk u of [] \<Rightarrow> (True, u) | ok # oks \<Rightarrow> (ok, u\<lparr>o_disk := oks\<rparr>))"

text \<open>\<open>_persist\<close>: unlike the media daemon's, a failing write is suppressed.\<close>

definition o_persist :: "origin \<Rightarrow> origin" where
  "o_persist u =
     (let (now, u1) = o_now_iso u; st = (o_state u1)\<lparr>os_updated_at := now\<rparr>;
          (ok, u2) = o_disk_write (u1\<lparr>o_state := st\<rparr>)
      in if ok then u2\<lparr>o_fs := write_state_atomic (os_session_id st) (o_pid u) st (o_fs u2)\<rparr>
         else u2\<lparr>o_fs := write_state_atomic_failed (os_session_id st) (o_pid u) (o_fs u2)\<rparr>)"

definition o_upd :: "(origin_state \<Rightarrow> origin_state) \<Rightarrow> origin \<Rightarrow> origin" where
  "o_upd f u = u\<lparr>o_state := f (o_state u)\<rparr>"

definition append_access_log :: "access_record \<Rightarrow> origin \<Rightarrow> origin" where
  "append_access_log r u = (let (ok, u1) = o_disk_write u
     in if ok then u1\<lparr>o_access := o_access u1 @ [r]\<rparr> else u1)"

text \<open>The \<open>finally\<close> block of \<open>_handle\<close>.\<close>

definition account :: "request \<Rightarrow> reply \<Rightarrow> origin \<Rightarrow> origin" where
  "account rq rp u =
     (let u1 = (if rq_self_test rq then u
                else let (now, v) = o_now_iso u
                     in o_persist (o_upd (\<lambda>st. st\<lparr>request_count := request_count st + 1,
                          bytes_served := bytes_served st + rp_bytes_sent rp,
                          os_last_request_at := Some now\<rparr>) v));
          (now2, u2) = o_now_iso u1
      in append_access_log \<lparr>ac_time = now2, ac_method = rq_method rq, ac_path = rq_path rq,
           ac_status = rp_status rp, ac_outcome = rp_outcome rp, ac_bytes_sent = rp_bytes_sent rp,
           ac_client = rq_client rq, ac_self_test = rq_self_test rq\<rparr> u2)"

section \<open>The self-test\<close>

definition SELF_TEST_EMPTY_ROOT_PROBE_PATH :: utext where
  "SELF_TEST_EMPTY_ROOT_PROBE_PATH = map of_char ''/.asmb8-http-origin-selftest-no-file-in-root''"

definition format_bound_url :: "string \<Rightarrow> nat \<Rightarrow> string" where
  "format_bound_url addr port =
     (let host = (if CHR '':'' \<in> set addr then ''['' @ addr @ '']'' else addr)
      in ''http://'' @ host @ '':'' @ str_nat port @ ''/'')"

definition self_test_connect_host :: "string \<Rightarrow> string" where
  "self_test_connect_host addr =
     (if addr = ''0.0.0.0'' \<or> addr = [] then ''127.0.0.1'' else if addr = ''::'' then ''::1'' else addr)"

definition is_hfile :: "node \<Rightarrow> bool" where
  "is_hfile n = (case n of HFile _ \<Rightarrow> True | _ \<Rightarrow> False)"

fun first_some :: "'a option list \<Rightarrow> 'a option" where
  "first_some [] = None"
| "first_some (None # xs) = first_some xs"
| "first_some (Some x # xs) = Some x"

definition is_hdir :: "node \<Rightarrow> bool" where
  "is_hdir n = (case n of HDir _ \<Rightarrow> True | _ \<Rightarrow> False)"

text \<open>\<open>_find_probe_file\<close>: \<open>os.walk\<close> visits a directory's own files in sorted order, then its real
  subdirectories in sorted order; symlinks are neither followed nor returned, and a directory that cannot be
  listed is one without entries. \<open>denied\<close> are the names, relative to the root, whose \<open>is_file()\<close> raises
  \<open>PermissionError\<close> (those of a directory that may be listed but not searched).\<close>

fun find_probe_file :: "(path \<Rightarrow> bool) \<Rightarrow> node \<Rightarrow> (exn + path) option" where
  "find_probe_file denied (HDir es) =
     (let rs = sort_key fst (map (\<lambda>(n, m). (n, m, find_probe_file (\<lambda>p. denied (n # p)) m)) es)
      in first_some (map (\<lambda>(n, m, r). if is_hdir m then None
             else if denied [n] then Some (Inl PermissionError)
             else if is_hfile m then Some (Inr [n]) else None) rs
           @ map (\<lambda>(n, m, r). map_option (map_sum id ((#) n)) r) rs))"
| "find_probe_file denied _ = None"

text \<open>The exchange is \<open>_perform_self_test_request\<close>: status and body, or its exception. The two exceptions that
  are not handled, of \<open>is_file()\<close> and of \<open>quote\<close>, leave \<open>_run_self_test\<close>.\<close>

definition run_self_test :: "(path \<Rightarrow> bool) \<Rightarrow> node \<Rightarrow> path \<Rightarrow> (utext \<Rightarrow> (nat \<times> bytes) option) \<Rightarrow> exn + bool" where
  "run_self_test denied fs root exchange =
     (case lookup fs root of
        None \<Rightarrow> Inr False
      | Some dir \<Rightarrow>
          (case find_probe_file denied dir of
             Some (Inl e) \<Rightarrow> Inl e
           | Some (Inr parts) \<Rightarrow>
               if \<not> list_all quotable parts then Inl UnicodeEncodeError
               else (case lookup dir parts of
                  Some (HFile expected) \<Rightarrow>
                    (case exchange (url_path parts) of
                       None \<Rightarrow> Inr False
                     | Some (status, body) \<Rightarrow> Inr (status = 200 \<and> body = expected))
                | _ \<Rightarrow> Inr False)
           | None \<Rightarrow>
               (case exchange SELF_TEST_EMPTY_ROOT_PROBE_PATH of
                  None \<Rightarrow> Inr False
                | Some (status, body) \<Rightarrow> Inr (status = 404))))"

section \<open>The daemon\<close>

text \<open>The control loop: at poll \<open>k\<close> it sees the stop flag and the clock.\<close>

partial_function (option) control_loop ::
  "(nat \<Rightarrow> bool) \<Rightarrow> (nat \<Rightarrow> nat) \<Rightarrow> nat \<Rightarrow> nat \<Rightarrow> (origin_stop \<times> nat) option" where
  "control_loop flag clock deadline k =
     (if flag k then Some (OriginSignal, k)
      else if clock k \<ge> deadline then Some (LifetimeExpired, k)
      else control_loop flag clock deadline (Suc k))"

record origin_env =
  oe_tree :: node
  oe_fuel :: nat
  oe_loop_exn :: exn
  oe_denied :: "path \<Rightarrow> bool"
  oe_bind :: "exn + nat"
  oe_guess_type :: "path \<Rightarrow> string"
  oe_exchange :: "utext \<Rightarrow> (nat \<times> bytes) option"
  oe_early :: "(io_env \<times> request) list"
  oe_requests :: "(io_env \<times> request) list"
  oe_late :: "(io_env \<times> request) list"
  oe_flag :: "nat \<Rightarrow> bool"
  oe_clock :: "nat \<Rightarrow> nat"

definition serve_one :: "origin_env \<Rightarrow> path \<Rightarrow> io_env \<times> request \<Rightarrow> origin \<Rightarrow> origin" where
  "serve_one env root r u =
     (let rp = handle_request (oe_tree env) (oe_fuel env) (oe_guess_type env) root (fst r) (snd r)
      in account (snd r) rp u)"

definition o_fail :: "origin_error \<Rightarrow> error_class \<Rightarrow> origin \<Rightarrow> origin" where
  "o_fail err cls u = o_persist (o_upd (\<lambda>st. st\<lparr>os_state := ORIGIN_ERROR, os_error := Some err,
     os_error_class := Some cls\<rparr>) u)"

definition serve_until_stopped :: "origin_config \<Rightarrow> origin_env \<Rightarrow> path \<Rightarrow> origin \<Rightarrow> origin option" where
  "serve_until_stopped cfg env root u =
     (let u1 = o_persist (o_upd (\<lambda>st. st\<lparr>os_state := ORIGIN_SERVING\<rparr>) u);
          deadline = oe_clock env 0 + oc_lifetime_seconds cfg
      in case control_loop (oe_flag env) (\<lambda>k. oe_clock env (Suc k)) deadline 0 of
           None \<Rightarrow> None
         | Some (reason, k) \<Rightarrow>
             (let u2 = fold (serve_one env root) (oe_requests env) u1;
                  u3 = u2\<lparr>o_listening := False\<rparr>;
                  u4 = o_persist (o_upd (\<lambda>st. st\<lparr>os_state := ORIGIN_STOPPED, os_stop_reason := Some reason\<rparr>) u3)
              in Some (fold (serve_one env root) (oe_late env) u4)))"

text \<open>\<open>_run_daemon\<close> from its first record on: the exception that leaves it, if any, and the daemon as the
  process ends. After such an exception nothing closes the listening socket or writes a record: \<open>os._exit\<close>
  does the former.\<close>

definition run_origin :: "origin_config \<Rightarrow> origin_env \<Rightarrow> origin \<Rightarrow> ((exn + unit) \<times> origin) option" where
  "run_origin cfg env u =
     (let (now, u0) = o_now_iso u;
          u1 = o_persist (u0\<lparr>o_state := origin_initial_state now cfg (o_pid u)\<rparr>)
      in case resolve_strict (oe_loop_exn env) (oe_tree env) (oe_fuel env) (oc_root cfg) of
           Inl e \<Rightarrow> if is_os_error e then Some (Inr (), o_fail InvalidRootText PROTOCOL u1) else Some (Inl e, u1)
         | Inr root \<Rightarrow>
             (case oe_bind env of
                Inl e \<Rightarrow> if is_os_error e then Some (Inr (), o_fail BindFailedText CONNECTION u1) else Some (Inl e, u1)
              | Inr port \<Rightarrow>
                  (let u2 = o_persist (o_upd (\<lambda>st. st\<lparr>os_port := port,
                               os_url := Some (format_bound_url (oc_bind_address cfg) port)\<rparr>)
                               (u1\<lparr>o_listening := True\<rparr>));
                       u3 = fold (serve_one env root) (oe_early env) u2
                   in case run_self_test (oe_denied env) (oe_tree env) root (oe_exchange env) of
                        Inl e \<Rightarrow> Some (Inl e, fold (serve_one env root) (oe_late env) u3)
                      | Inr True \<Rightarrow> map_option (Pair (Inr ())) (serve_until_stopped cfg env root u3)
                      | Inr False \<Rightarrow> Some (Inr (), fold (serve_one env root) (oe_late env)
                                  (o_fail (SelfTestText (self_test_connect_host (oc_bind_address cfg)))
                                    CONNECTION (u3\<lparr>o_listening := False\<rparr>))))))"

text \<open>The parent's side of \<open>spawn_session\<close>.\<close>

definition origin_spawn_session ::
  "bool \<Rightarrow> origin_config \<Rightarrow> string option \<Rightarrow> string \<Rightarrow> origin_state rt_fs \<Rightarrow> (exn + int) \<times> origin_state rt_fs" where
  "origin_spawn_session has_fork cfg reported now fs =
     (if \<not> has_fork then (Inl (raises UNSUPPORTED_CAPABILITY ''asmb8_http_origin.spawn_session'' None), fs)
      else case reported of
          None \<Rightarrow> (Inl (ProtocolError ''asmb8_http_origin.spawn_session''), fs)
        | Some text \<Rightarrow>
            (case py_int text of
               None \<Rightarrow> (Inl ValueError, fs)
             | Some pid \<Rightarrow>
                 (Inr pid, snd (write_state_if_absent (oc_session_id cfg)
                    (origin_initial_state now cfg (nat pid)) fs))))"

section \<open>Accounting is order independent\<close>

lemma o_now_iso_simps [simp]:
  "o_state (snd (o_now_iso u)) = o_state u" "o_fs (snd (o_now_iso u)) = o_fs u"
  "o_listening (snd (o_now_iso u)) = o_listening u"
  by (simp_all add: o_now_iso_def)

lemma o_disk_write_frame:
  "o_disk_write u = (ok, u1) \<Longrightarrow> o_state u1 = o_state u \<and> o_fs u1 = o_fs u \<and> o_listening u1 = o_listening u"
  by (auto simp: o_disk_write_def split: list.splits)

lemma o_persist_frame:
  "\<exists>now. o_state (o_persist u) = (o_state u)\<lparr>os_updated_at := now\<rparr>" "o_listening (o_persist u) = o_listening u"
  "fs_ok (o_fs u) \<Longrightarrow> fs_ok (o_fs (o_persist u))"
proof -
  obtain now v where n: "o_now_iso u = (now, v)" and v: "o_state v = o_state u" "o_fs v = o_fs u" "o_listening v = o_listening u"
    using o_now_iso_simps by (metis prod.collapse)
  let ?v = "v\<lparr>o_state := (o_state v)\<lparr>os_updated_at := now\<rparr>\<rparr>"
  obtain ok w where d: "o_disk_write ?v = (ok, w)" by fastforce
  have w: "o_state w = (o_state u)\<lparr>os_updated_at := now\<rparr>" "o_fs w = o_fs u" "o_listening w = o_listening u"
    using o_disk_write_frame [OF d] v by simp_all
  show "\<exists>now. o_state (o_persist u) = (o_state u)\<lparr>os_updated_at := now\<rparr>" "o_listening (o_persist u) = o_listening u"
    using n d w by (auto simp: o_persist_def Let_def)
  show "fs_ok (o_fs (o_persist u))" if "fs_ok (o_fs u)"
    using that n d w fs_ok_write_state_atomic by (auto simp: o_persist_def Let_def)
qed

lemma o_upd_simps [simp]:
  "o_state (o_upd f u) = f (o_state u)" "o_fs (o_upd f u) = o_fs u" "o_listening (o_upd f u) = o_listening u"
  by (simp_all add: o_upd_def)

lemma append_access_log_frame [simp]:
  "o_state (append_access_log r u) = o_state u" "o_listening (append_access_log r u) = o_listening u"
  "o_fs (append_access_log r u) = o_fs u"
proof -
  obtain ok u1 where d: "o_disk_write u = (ok, u1)" by fastforce
  show "o_state (append_access_log r u) = o_state u" "o_listening (append_access_log r u) = o_listening u"
    "o_fs (append_access_log r u) = o_fs u"
    using o_disk_write_frame [OF d] by (simp_all add: append_access_log_def d)
qed

text \<open>What no accounting touches: everything the main thread writes.\<close>

definition main_fields :: "origin_state \<Rightarrow> origin_lifecycle \<times> origin_error option \<times> error_class option \<times> origin_stop option \<times> string" where
  "main_fields st = (os_state st, os_error st, os_error_class st, os_stop_reason st, os_session_id st)"

lemma main_fields_updated [simp]: "main_fields (st\<lparr>os_updated_at := t\<rparr>) = main_fields st"
  by (simp add: main_fields_def)

lemma account_frame:
  "request_count (o_state (account rq rp u)) = request_count (o_state u) + (if rq_self_test rq then 0 else 1)"
  "bytes_served (o_state (account rq rp u)) = bytes_served (o_state u) + (if rq_self_test rq then 0 else rp_bytes_sent rp)"
  "main_fields (o_state (account rq rp u)) = main_fields (o_state u)"
  "o_listening (account rq rp u) = o_listening u"
proof -
  let ?bump = "\<lambda>now st. st\<lparr>request_count := request_count st + 1,
      bytes_served := bytes_served st + rp_bytes_sent rp, os_last_request_at := Some now\<rparr>"
  let ?v = "if rq_self_test rq then u else o_persist (o_upd (?bump (fst (o_now_iso u))) (snd (o_now_iso u)))"
  have "\<exists>rec. account rq rp u = append_access_log rec (snd (o_now_iso ?v))"
    unfolding account_def Let_def split_def by blast
  then obtain rec where a: "account rq rp u = append_access_log rec (snd (o_now_iso ?v))" by blast
  obtain now where now: "o_state (o_persist (o_upd (?bump (fst (o_now_iso u))) (snd (o_now_iso u))))
      = (?bump (fst (o_now_iso u)) (o_state u))\<lparr>os_updated_at := now\<rparr>"
    using o_persist_frame(1) [of "o_upd (?bump (fst (o_now_iso u))) (snd (o_now_iso u))"] by auto
  show "request_count (o_state (account rq rp u)) = request_count (o_state u) + (if rq_self_test rq then 0 else 1)"
    "bytes_served (o_state (account rq rp u)) = bytes_served (o_state u) + (if rq_self_test rq then 0 else rp_bytes_sent rp)"
    "main_fields (o_state (account rq rp u)) = main_fields (o_state u)"
    by (simp_all add: a now [simplified] main_fields_def)
  show "o_listening (account rq rp u) = o_listening u" by (simp add: a o_persist_frame(2))
qed

definition real_requests :: "(io_env \<times> request) list \<Rightarrow> (io_env \<times> request) list" where
  "real_requests rs = filter (\<lambda>r. \<not> rq_self_test (snd r)) rs"

lemma serve_all_frame:
  "request_count (o_state (fold (serve_one env root) rs u)) = request_count (o_state u) + length (real_requests rs)"
  "bytes_served (o_state (fold (serve_one env root) rs u)) = bytes_served (o_state u) + sum_list (map (\<lambda>r. rp_bytes_sent
     (handle_request (oe_tree env) (oe_fuel env) (oe_guess_type env) root (fst r) (snd r))) (real_requests rs))"
  "main_fields (o_state (fold (serve_one env root) rs u)) = main_fields (o_state u)"
  "o_listening (fold (serve_one env root) rs u) = o_listening u"
  by (induction rs arbitrary: u) (simp_all add: serve_one_def Let_def account_frame real_requests_def)

section \<open>The lifetime cap\<close>

lemma control_loop_spec:
  assumes "\<exists>m \<ge> k. flag m \<or> deadline \<le> clock m"
  shows "\<exists>m \<ge> k. control_loop flag clock deadline k = Some (if flag m then OriginSignal else LifetimeExpired, m)
    \<and> (flag m \<or> deadline \<le> clock m) \<and> (\<forall>j. k \<le> j \<and> j < m \<longrightarrow> \<not> flag j \<and> clock j < deadline)"
proof -
  have "control_loop flag clock deadline k = (if flag k \<or> deadline \<le> clock k
      then Some (if flag k then OriginSignal else LifetimeExpired, k) else control_loop flag clock deadline (Suc k))" for k
    by (subst control_loop.simps) auto
  from poll_loop [of "control_loop flag clock deadline", OF this assms] show ?thesis
    by (auto simp: not_le)
qed

definition origin_verdict :: "origin_state \<Rightarrow> bool" where
  "origin_verdict st \<longleftrightarrow>
     os_state st = ORIGIN_STOPPED \<and> os_stop_reason st \<noteq> None
   \<or> os_state st = ORIGIN_ERROR \<and> os_error st \<noteq> None \<and> os_error_class st \<noteq> None"

lemma main_fields_verdict: "main_fields a = main_fields b \<Longrightarrow> origin_verdict a = origin_verdict b \<and> os_state a = os_state b"
  by (simp add: main_fields_def origin_verdict_def)

lemma serve_all_verdict:
  "origin_verdict (o_state (fold (serve_one env root) rs u)) = origin_verdict (o_state u)"
  "os_state (o_state (fold (serve_one env root) rs u)) = os_state (o_state u)"
  "os_error (o_state (fold (serve_one env root) rs u)) = os_error (o_state u)"
  using main_fields_verdict [OF serve_all_frame(3)] serve_all_frame(3) [of env root rs u] by (auto simp: main_fields_def)

lemma o_fail_verdict: "origin_verdict (o_state (o_fail e c u))" "o_listening (o_fail e c u) = o_listening u"
  "os_state (o_state (o_fail e c u)) = ORIGIN_ERROR"
  using o_persist_frame(1) [of "o_upd (\<lambda>st. st\<lparr>os_state := ORIGIN_ERROR, os_error := Some e, os_error_class := Some c\<rparr>) u"]
    o_persist_frame(2) [of "o_upd (\<lambda>st. st\<lparr>os_state := ORIGIN_ERROR, os_error := Some e, os_error_class := Some c\<rparr>) u"]
  by (auto simp: o_fail_def origin_verdict_def)

lemma serve_until_stopped_ok:
  assumes "\<exists>m. oe_flag env m \<or> oe_clock env 0 + oc_lifetime_seconds cfg \<le> oe_clock env (Suc m)"
  shows "\<exists>u1. serve_until_stopped cfg env root u = Some u1 \<and> origin_verdict (o_state u1) \<and> \<not> o_listening u1
    \<and> os_state (o_state u1) = ORIGIN_STOPPED
    \<and> request_count (o_state u1) = request_count (o_state u) + length (real_requests (oe_requests env @ oe_late env))"
proof -
  let ?d = "oe_clock env 0 + oc_lifetime_seconds cfg"
  obtain reason m where l: "control_loop (oe_flag env) (\<lambda>k. oe_clock env (Suc k)) ?d 0 = Some (reason, m)"
    using control_loop_spec [of 0 "oe_flag env" ?d "\<lambda>k. oe_clock env (Suc k)"] assms by auto
  let ?u1 = "o_persist (o_upd (\<lambda>st. st\<lparr>os_state := ORIGIN_SERVING\<rparr>) u)"
  let ?u3 = "(fold (serve_one env root) (oe_requests env) ?u1)\<lparr>o_listening := False\<rparr>"
  let ?fin = "o_upd (\<lambda>st. st\<lparr>os_state := ORIGIN_STOPPED, os_stop_reason := Some reason\<rparr>) ?u3"
  obtain now where now: "o_state (o_persist ?fin) = (o_state ?fin)\<lparr>os_updated_at := now\<rparr>"
    using o_persist_frame(1) by blast
  obtain now1 where n1: "o_state ?u1 = (o_state (o_upd (\<lambda>st. st\<lparr>os_state := ORIGIN_SERVING\<rparr>) u))\<lparr>os_updated_at := now1\<rparr>"
    using o_persist_frame(1) by blast
  have v: "origin_verdict (o_state (o_persist ?fin))" by (simp add: now origin_verdict_def)
  show ?thesis
    using now v o_persist_frame(2) [of ?fin]
    by (simp add: serve_until_stopped_def Let_def l serve_all_frame serve_all_verdict n1 real_requests_def)
qed

text \<open>The exception that leaves \<open>_run_daemon\<close>, if any, and whether the self-test passed on the resolved root.\<close>

definition escaping :: "origin_config \<Rightarrow> origin_env \<Rightarrow> exn option" where
  "escaping cfg env = (case resolve_strict (oe_loop_exn env) (oe_tree env) (oe_fuel env) (oc_root cfg) of
      Inl e \<Rightarrow> if is_os_error e then None else Some e
    | Inr root \<Rightarrow> (case oe_bind env of
          Inl e \<Rightarrow> if is_os_error e then None else Some e
        | Inr port \<Rightarrow> (case run_self_test (oe_denied env) (oe_tree env) root (oe_exchange env) of
              Inl e \<Rightarrow> Some e | Inr ok \<Rightarrow> None)))"

definition self_test_passed :: "origin_config \<Rightarrow> origin_env \<Rightarrow> bool" where
  "self_test_passed cfg env \<longleftrightarrow> (case resolve_strict (oe_loop_exn env) (oe_tree env) (oe_fuel env) (oc_root cfg) of
      Inl e \<Rightarrow> False
    | Inr root \<Rightarrow> (case oe_bind env of Inl e \<Rightarrow> False
        | Inr port \<Rightarrow> run_self_test (oe_denied env) (oe_tree env) root (oe_exchange env) = Inr True))"

text \<open>The daemon once bound, with what the server thread has accounted before the verdict.\<close>

definition bound_origin :: "origin_config \<Rightarrow> origin_env \<Rightarrow> path \<Rightarrow> nat \<Rightarrow> origin \<Rightarrow> origin" where
  "bound_origin cfg env root port u1 = fold (serve_one env root) (oe_early env)
     (o_persist (o_upd (\<lambda>st. st\<lparr>os_port := port, os_url := Some (format_bound_url (oc_bind_address cfg) port)\<rparr>)
        (u1\<lparr>o_listening := True\<rparr>)))"

lemma bound_origin_frame:
  "main_fields (o_state (bound_origin cfg env root port u1)) = main_fields (o_state u1)"
  "request_count (o_state (bound_origin cfg env root port u1)) = request_count (o_state u1) + length (real_requests (oe_early env))"
proof -
  let ?b = "o_upd (\<lambda>st. st\<lparr>os_port := port, os_url := Some (format_bound_url (oc_bind_address cfg) port)\<rparr>) (u1\<lparr>o_listening := True\<rparr>)"
  obtain now where "o_state (o_persist ?b) = (o_state ?b)\<lparr>os_updated_at := now\<rparr>" using o_persist_frame(1) by blast
  then show "main_fields (o_state (bound_origin cfg env root port u1)) = main_fields (o_state u1)"
    "request_count (o_state (bound_origin cfg env root port u1)) = request_count (o_state u1) + length (real_requests (oe_early env))"
    by (simp_all add: bound_origin_def serve_all_frame main_fields_def [of "_\<lparr>os_updated_at := now\<rparr>"]) (simp_all add: main_fields_def)
qed

lemma first_record:
  assumes "o_now_iso u = (now, u0)" and "u1 = o_persist (u0\<lparr>o_state := origin_initial_state now cfg (o_pid u)\<rparr>)"
  shows "os_state (o_state u1) = ORIGIN_STARTING" "os_error (o_state u1) = None" "request_count (o_state u1) = 0"
    "o_listening u1 = o_listening u"
  using assms o_persist_frame(1) [of "u0\<lparr>o_state := origin_initial_state now cfg (o_pid u)\<rparr>"]
    o_persist_frame(2) [of "u0\<lparr>o_state := origin_initial_state now cfg (o_pid u)\<rparr>"] o_now_iso_simps(3) [of u]
  by (auto simp: origin_initial_state_def)

lemma run_origin_bound:
  assumes "resolve_strict (oe_loop_exn env) (oe_tree env) (oe_fuel env) (oc_root cfg) = Inr root" and "oe_bind env = Inr port"
    and "o_now_iso u = (now, u0)" and "u1 = o_persist (u0\<lparr>o_state := origin_initial_state now cfg (o_pid u)\<rparr>)"
  shows "run_origin cfg env u = (case run_self_test (oe_denied env) (oe_tree env) root (oe_exchange env) of
      Inl e \<Rightarrow> Some (Inl e, fold (serve_one env root) (oe_late env) (bound_origin cfg env root port u1))
    | Inr True \<Rightarrow> map_option (Pair (Inr ())) (serve_until_stopped cfg env root (bound_origin cfg env root port u1))
    | Inr False \<Rightarrow> Some (Inr (), fold (serve_one env root) (oe_late env)
        (o_fail (SelfTestText (self_test_connect_host (oc_bind_address cfg))) CONNECTION
          ((bound_origin cfg env root port u1)\<lparr>o_listening := False\<rparr>))))"
  using assms by (simp add: run_origin_def bound_origin_def Let_def split: sum.splits bool.splits)

text \<open>What is to be shown of a run, by the way it ends.\<close>

definition ends_as :: "origin_config \<Rightarrow> origin_env \<Rightarrow> exn + unit \<Rightarrow> origin \<Rightarrow> bool" where
  "ends_as cfg env r u1 \<longleftrightarrow> (case escaping cfg env of
      None \<Rightarrow> r = Inr () \<and> origin_verdict (o_state u1) \<and> \<not> o_listening u1
    | Some e \<Rightarrow> r = Inl e \<and> os_state (o_state u1) = ORIGIN_STARTING \<and> os_error (o_state u1) = None)
   \<and> (os_state (o_state u1) = ORIGIN_STOPPED \<longleftrightarrow> self_test_passed cfg env)
   \<and> (self_test_passed cfg env \<longrightarrow>
        request_count (o_state u1) = length (real_requests (oe_early env @ oe_requests env @ oe_late env)))"

lemma run_origin_ok:
  assumes ends: "\<exists>m. oe_flag env m \<or> oe_clock env 0 + oc_lifetime_seconds cfg \<le> oe_clock env (Suc m)"
    and quiet: "\<not> o_listening u"
  shows "\<exists>r u1. run_origin cfg env u = Some (r, u1) \<and> ends_as cfg env r u1"
proof -
  obtain now u0 where n: "o_now_iso u = (now, u0)" by fastforce
  define u1 where "u1 = o_persist (u0\<lparr>o_state := origin_initial_state now cfg (o_pid u)\<rparr>)"
  note f = first_record [OF n u1_def]
  let ?res = "resolve_strict (oe_loop_exn env) (oe_tree env) (oe_fuel env) (oc_root cfg)"
  show ?thesis
  proof (cases "\<exists>root port. ?res = Inr root \<and> oe_bind env = Inr port")
    case False
    then consider e where "?res = Inl e" | root e where "?res = Inr root" "oe_bind env = Inl e"
      by (cases ?res; cases "oe_bind env") auto
    then show ?thesis
      using f quiet o_fail_verdict [of _ _ u1]
      by cases (auto simp: run_origin_def n u1_def [symmetric] ends_as_def escaping_def self_test_passed_def Let_def)
  next
    case True
    then obtain root port where t: "?res = Inr root" "oe_bind env = Inr port" by blast
    let ?v = "bound_origin cfg env root port u1"
    note run = run_origin_bound [OF t n u1_def]
    have v: "os_state (o_state ?v) = ORIGIN_STARTING" "os_error (o_state ?v) = None"
      "request_count (o_state ?v) = length (real_requests (oe_early env))"
      using bound_origin_frame [of cfg env root port u1] f by (auto simp: main_fields_def)
    show ?thesis
    proof (cases "run_self_test (oe_denied env) (oe_tree env) root (oe_exchange env)")
      case (Inl e)
      with t v run show ?thesis by (simp add: ends_as_def escaping_def self_test_passed_def serve_all_verdict)
    next
      case (Inr ok)
      obtain w where w: "serve_until_stopped cfg env root ?v = Some w" "origin_verdict (o_state w)" "\<not> o_listening w"
        "os_state (o_state w) = ORIGIN_STOPPED"
        "request_count (o_state w) = request_count (o_state ?v) + length (real_requests (oe_requests env @ oe_late env))"
        using serve_until_stopped_ok [OF ends, of root ?v] by blast
      show ?thesis
        using t v run w Inr o_fail_verdict [of _ _ "?v\<lparr>o_listening := False\<rparr>"]
        by (cases ok) (auto simp: ends_as_def escaping_def self_test_passed_def serve_all_verdict serve_all_frame real_requests_def)
    qed
  qed
qed

section \<open>A working server passes its own self-test\<close>

text \<open>Directories have distinct entry names, each usable as a URL segment.\<close>

fun tree_ok :: "node \<Rightarrow> bool" where
  "tree_ok (HDir es) \<longleftrightarrow> distinct (map fst es) \<and> (\<forall>e \<in> set es. url_seg (fst e) \<and> tree_ok (snd e))"
| "tree_ok _ \<longleftrightarrow> True"

lemma map_sum_eq_Inr: "map_sum id g x = Inr y \<longleftrightarrow> (\<exists>z. x = Inr z \<and> y = g z)"
  by (cases x) auto

lemma url_seg_quotable: "url_seg s \<Longrightarrow> quotable s"
  by (auto simp: url_seg_def quotable_def list_all_iff)

lemma first_some_in: "first_some xs = Some x \<Longrightarrow> Some x \<in> set xs"
  by (induction xs rule: first_some.induct) auto

lemma find_probe_lookup:
  "tree_ok n \<Longrightarrow> find_probe_file denied n = Some (Inr parts) \<Longrightarrow>
    parts \<noteq> [] \<and> (\<exists>c. lookup n parts = Some (HFile c)) \<and> list_all url_seg parts"
proof (induction denied n arbitrary: parts rule: find_probe_file.induct)
  case (1 denied es)
  let ?rs = "map (\<lambda>(n, m). (n, m, find_probe_file (\<lambda>p. denied (n # p)) m)) es"
  have "Some (Inr parts) \<in> set (map (\<lambda>(n, m, r). if is_hdir m then None else if denied [n] then Some (Inl PermissionError)
          else if is_hfile m then Some (Inr [n]) else None) ?rs @ map (\<lambda>(n, m, r). map_option (map_sum id ((#) n)) r) ?rs)"
    using first_some_in [OF 1(3) [unfolded find_probe_file.simps Let_def]] by (simp add: image_image)
  then obtain s m where e: "(s, m) \<in> set es"
    and c: "(is_hfile m \<and> parts = [s]) \<or> (\<exists>p. find_probe_file (\<lambda>p. denied (s # p)) m = Some (Inr p) \<and> parts = s # p)"
    by (auto simp: eq_commute [of "Some (Inr parts)"] map_sum_eq_Inr split: if_splits)
  have m: "map_of es s = Some m" "url_seg s" "tree_ok m" using 1(2) e by auto
  show ?case
  proof (cases "is_hfile m \<and> parts = [s]")
    case True
    then show ?thesis using m by (cases m) (auto simp: is_hfile_def)
  next
    case False
    then obtain p where p: "find_probe_file (\<lambda>p. denied (s # p)) m = Some (Inr p)" "parts = s # p" using c by blast
    from 1(1) [OF e refl m(3) p(1)] show ?thesis using m p(2) by auto
  qed
qed auto

lemma lookup_append: "lookup n (p @ q) = (case lookup n p of None \<Rightarrow> None | Some m \<Rightarrow> lookup m q)"
  by (induction n p rule: lookup.induct) (auto split: option.splits)

lemma lookup_link_free:
  assumes "lookup fs (acc @ p) = Some n" and "\<forall>t. n \<noteq> HLink t"
  shows "link_free fs acc p"
  using assms
proof (induction p arbitrary: acc)
  case (Cons s p)
  have "link_free fs (acc @ [s]) p" using Cons.IH [of "acc @ [s]"] Cons.prems by simp
  moreover have "lookup fs (acc @ [s]) \<noteq> Some (HLink t)" for t
    using Cons.prems lookup_append [of fs "acc @ [s]" p] by (cases p) auto
  ultimately show ?case by simp
qed simp

text \<open>The exchange with a server thread that answers: the daemon's own handler.\<close>

definition own_exchange :: "node \<Rightarrow> nat \<Rightarrow> (path \<Rightarrow> string) \<Rightarrow> path \<Rightarrow> utext \<Rightarrow> (nat \<times> bytes) option" where
  "own_exchange fs fuel gt root t =
     (let rp = handle_request fs fuel gt root calm \<lparr>rq_method = ''GET'', rq_send_body = True, rq_path = t,
                 rq_range = None, rq_self_test = True, rq_client = ''127.0.0.1''\<rparr>
      in Some (rp_status rp, reply_body rp))"

lemma serve_whole_file:
  assumes "rq_range rq = None" and "rq_send_body rq"
  shows "rp_status (serve_file ct calm rq content) = 200" and "reply_body (serve_file ct calm rq content) = content"
proof -
  have n: "parse_range_header (rq_range rq) (length content) = NoRange" using assms(1) by (simp add: parse_range_header_def)
  have r: "requested rq content = (0, length content)" by (simp add: requested_def n)
  show "rp_status (serve_file ct calm rq content) = 200"
    using assms(2) by (auto simp: serve_file_def n Let_def split: prod.splits)
  show "reply_body (serve_file ct calm rq content) = content"
    using serve_file_spec [OF _ r assms(2), of calm ct] n by auto
qed

lemma run_self_test_own:
  assumes "resolve_strict loop_exn fs fuel r0 = Inr root"
    and "lookup fs root = Some dir" and "tree_ok dir" and "find_probe_file denied dir = Some (Inr parts)"
  shows "run_self_test denied fs root (own_exchange fs fuel gt root) = Inr True"
proof -
  obtain c where p: "parts \<noteq> []" "lookup dir parts = Some (HFile c)" "list_all url_seg parts"
    using find_probe_lookup [OF assms(3,4)] by blast
  have q: "list_all quotable parts" using p(3) url_seg_quotable by (auto simp: list_all_iff)
  have f: "lookup fs (root @ parts) = Some (HFile c)" using assms(2) p(2) by (simp add: lookup_append)
  have "realpath fs fuel [] r0 = Some root"
    using assms(1) by (auto simp: resolve_strict_def split: option.splits if_splits)
  from realpath_link_free [OF this] have plain: "\<forall>s \<in> set root. plain_seg s" by simp
  have "link_free fs [] (root @ parts)" by (rule lookup_link_free [of _ _ _ "HFile c"]) (simp_all add: f)
  from resolve_url_path [OF _ p(1) this plain, of fuel] p(3)
  have "resolve_within_root fs fuel root (url_path parts) = Some (root @ parts)" by (simp add: list_all_iff)
  then have "own_exchange fs fuel gt root (url_path parts) = Some (200, c)"
    by (simp add: own_exchange_def Let_def handle_request_def f serve_whole_file)
  then show ?thesis by (simp add: run_self_test_def assms(2,4) p(2) q)
qed

section \<open>Properties\<close>


definition sample_origin_config :: origin_config where
  "sample_origin_config = \<lparr>oc_session_id = ''o'', oc_root = [[114]], oc_bind_address = DEFAULT_BIND_ADDRESS,
     oc_port = DEFAULT_PORT, oc_lifetime_seconds = DEFAULT_LIFETIME_SECONDS\<rparr>"

definition sample_origin :: origin where
  "sample_origin = \<lparr>o_state = origin_initial_state ''t'' sample_origin_config 5,
     o_fs = \<lparr>names = [], inodes = (\<lambda>_. Unparsable), next_ino = 0\<rparr>, o_pid = 5, o_now = (\<lambda>k. ''t''), o_tick = 0,
     o_disk = [], o_access = [], o_listening = False\<rparr>"

definition sample_origin_env :: origin_env where
  "sample_origin_env = \<lparr>oe_tree = sample_tree, oe_fuel = 8, oe_loop_exn = RuntimeError, oe_denied = (\<lambda>p. False),
     oe_bind = Inr 8080, oe_guess_type = (\<lambda>_. ''x''),
     oe_exchange = own_exchange sample_tree 8 (\<lambda>_. ''x'') [[114]], oe_early = [], oe_requests = [(calm, sample_get)], oe_late = [(calm, sample_get)],
     oe_flag = (\<lambda>k. False), oe_clock = (\<lambda>k. k)\<rparr>"

lemma sample_origin_ends:
  "\<exists>m. oe_flag sample_origin_env m \<or> oe_clock sample_origin_env 0 + oc_lifetime_seconds sample_origin_config
      \<le> oe_clock sample_origin_env (Suc m)" "\<not> o_listening sample_origin"
  by (rule exI [of _ "DEFAULT_LIFETIME_SECONDS"])
    (simp_all add: sample_origin_env_def sample_origin_config_def sample_origin_def)

lemma sample_origin_env_simps:
  "oe_tree sample_origin_env = sample_tree" "oe_fuel sample_origin_env = 8" "oc_root sample_origin_config = [[114]]"
  "oe_bind sample_origin_env = Inr 8080" "oe_guess_type sample_origin_env = (\<lambda>_. ''x'')"
  "oe_exchange sample_origin_env = own_exchange sample_tree 8 (\<lambda>_. ''x'') [[114]]"
  "oe_loop_exn sample_origin_env = RuntimeError" "oe_denied sample_origin_env = (\<lambda>p. False)"
  by (simp_all add: sample_origin_env_def sample_origin_config_def)

lemma sample_root:
  "resolve_strict RuntimeError sample_tree 8 [[114]] = Inr [[114]]"
  "lookup sample_tree [[114]] = Some (HDir [([97, 32, 37, 98], HFile [1, 2, 3, 4]), ([108], HLink [47, 101])])"
  "tree_ok (HDir [([97, 32, 37, 98], HFile [1, 2, 3, 4]), ([108], HLink [47, 101])])"
  "\<exists>parts. find_probe_file (\<lambda>p. False) (HDir [([97, 32, 37, 98], HFile [1, 2, 3, 4]), ([108], HLink [47, 101])]) = Some (Inr parts)"
proof -
  have segs: "url_seg [114]" "url_seg [97, 32, 37, 98]" "url_seg [108]"
    by (simp_all add: url_seg_def plain_seg_def DOT_def DOTDOT_def)
  have "realpath sample_tree 8 [] [[114]] = Some ([] @ [[114]])"
    by (rule realpath_plain) (use segs(1) in \<open>simp_all add: sample_tree_def url_seg_def\<close>)
  then show "resolve_strict RuntimeError sample_tree 8 [[114]] = Inr [[114]]" by (simp add: resolve_strict_def sample_tree_def)
  show "tree_ok (HDir [([97, 32, 37, 98], HFile [1, 2, 3, 4]), ([108], HLink [47, 101])])" using segs by simp
qed (simp_all add: sample_tree_def is_hfile_def is_hdir_def)



text \<open>C34. A healthy origin serves: the root resolves to a directory that holds a regular file somewhere
  below it, all names in that directory are distinct, non-empty, ASCII and not dots, no name on the way to
  the probe file is refused, the port binds, and the server thread answers the self-test's request the
  way the handler does. Then the daemon does not end in the error state and raises nothing: it serves
  until it is stopped. The probe's URL resolves back to the probe file and its bytes come back unchanged.\<close>

theorem healthy_origin_serves:
  assumes "\<exists>m. oe_flag env m \<or> oe_clock env 0 + oc_lifetime_seconds cfg \<le> oe_clock env (Suc m)"
    and "resolve_strict (oe_loop_exn env) (oe_tree env) (oe_fuel env) (oc_root cfg) = Inr root"
    and "lookup (oe_tree env) root = Some dir" and "tree_ok dir"
    and "find_probe_file (oe_denied env) dir = Some (Inr parts)" and "oe_bind env = Inr port"
    and "oe_exchange env = own_exchange (oe_tree env) (oe_fuel env) (oe_guess_type env) root"
  shows "\<exists>u1. run_origin cfg env u = Some (Inr (), u1) \<and> os_state (o_state u1) = ORIGIN_STOPPED"
proof -
  have t: "run_self_test (oe_denied env) (oe_tree env) root (oe_exchange env) = Inr True"
    using run_self_test_own [OF assms(2,3,4,5)] assms(7) by simp
  obtain now u0 where n: "o_now_iso u = (now, u0)" by fastforce
  from run_origin_bound [OF assms(2,6) n refl] t
    serve_until_stopped_ok [OF assms(1), of root "bound_origin cfg env root port
      (o_persist (u0\<lparr>o_state := origin_initial_state now cfg (o_pid u)\<rparr>))"]
  show ?thesis by auto
qed

theorem healthy_origin_serves_witness:
  "\<exists>u1. run_origin sample_origin_config sample_origin_env sample_origin = Some (Inr (), u1) \<and> os_state (o_state u1) = ORIGIN_STOPPED"
proof -
  obtain parts where p: "find_probe_file (\<lambda>p. False) (HDir [([97, 32, 37, 98], HFile [1, 2, 3, 4]), ([108], HLink [47, 101])]) = Some (Inr parts)"
    using sample_root(4) by blast
  show ?thesis
    by (rule healthy_origin_serves [OF sample_origin_ends(1), unfolded sample_origin_env_simps, OF sample_root(1-3) p refl refl])
qed

section \<open>Exceptions that leave the daemon\<close>

text \<open>A root whose first file has a name that is not UTF-8 (its byte 0x80 shows as the surrogate U+DC80),
  and a root that is a symlink to itself.\<close>

definition undecodable_env :: origin_env where
  "undecodable_env = sample_origin_env\<lparr>oe_tree := HDir [([114], HDir [([0xDC80], HFile [1])])]\<rparr>"

definition looping_env :: origin_env where
  "looping_env = sample_origin_env\<lparr>oe_tree := HDir [([114], HLink [114])]\<rparr>"

lemma undecodable_root: "realpath (HDir [([114], HDir [([0xDC80], HFile [1])])]) 8 [] [[114]] = Some [[114]]"
  using realpath_plain [of "HDir [([114], HDir [([0xDC80], HFile [1])])]" "[]" "[[114]]" 8]
  by (simp add: plain_seg_def DOT_def DOTDOT_def)

lemma looping_root: "realpath (HDir [([114], HLink [114])]) fuel [] [[114]] = None"
  by (induction fuel) (subst realpath.simps, simp add: DOT_def DOTDOT_def)+

text \<open>The daemon dies on both roots and leaves no verdict: the exception is not handled, the record still says
  \<open>starting\<close>, and on the first root the socket is left to the end of the process.\<close>

theorem uncaught_leaves_starting:
  "(\<exists>u1. run_origin sample_origin_config undecodable_env sample_origin = Some (Inl UnicodeEncodeError, u1)
      \<and> os_state (o_state u1) = ORIGIN_STARTING)
   \<and> (\<exists>u1. run_origin sample_origin_config looping_env sample_origin = Some (Inl RuntimeError, u1)
      \<and> os_state (o_state u1) = ORIGIN_STARTING)"
proof -
  have c: "oe_flag undecodable_env = oe_flag sample_origin_env" "oe_clock undecodable_env = oe_clock sample_origin_env"
    "oe_flag looping_env = oe_flag sample_origin_env" "oe_clock looping_env = oe_clock sample_origin_env"
    by (simp_all add: undecodable_env_def looping_env_def)
  have e: "escaping sample_origin_config undecodable_env = Some UnicodeEncodeError"
    "escaping sample_origin_config looping_env = Some RuntimeError"
    by (simp_all add: escaping_def resolve_strict_def undecodable_env_def looping_env_def undecodable_root looping_root
        sample_origin_env_def sample_origin_config_def run_self_test_def is_hfile_def is_hdir_def quotable_def is_os_error_def)
  from run_origin_ok [of undecodable_env sample_origin_config sample_origin] run_origin_ok [of looping_env sample_origin_config sample_origin]
    sample_origin_ends e
  show ?thesis by (auto simp: ends_as_def c)
qed

end
