(* ===== verification/Origin_Module.thy ===== *)
theory Origin_Module
  imports Http_Origin
begin

text \<open>
  \<open>plugins/modules/asmb8_http_origin.py\<close>: the Ansible module that starts and stops the HTTP origin. As for the
  media module, the processes, the clock and what the daemon does to the runtime directory while the
  module waits are arguments; a run's signals and whether it forked are part of its result; message
  texts are not modelled.
\<close>

section \<open>Reported fields\<close>

text \<open>\<open>of_state = None\<close> is the text \<open>unknown\<close>.\<close>

record origin_fields =
  of_state :: "origin_lifecycle option"
  of_pid :: "int option"
  of_url :: "string option"
  of_port :: "nat option"
  of_root :: "path option"
  of_request_count :: nat
  of_bytes_served :: nat
  of_last_request_at :: "string option"
  of_started_at :: "string option"
  of_stop_reason :: "origin_stop option"
  of_error :: "origin_error option"

definition origin_status_fields :: "origin_state option \<Rightarrow> origin_fields" where
  "origin_status_fields state = (case state of
      None \<Rightarrow> \<lparr>of_state = None, of_pid = None, of_url = None, of_port = None, of_root = None, of_request_count = 0,
               of_bytes_served = 0, of_last_request_at = None, of_started_at = None, of_stop_reason = None, of_error = None\<rparr>
    | Some s \<Rightarrow> \<lparr>of_state = Some (os_state s), of_pid = Some (int (os_pid s)), of_url = os_url s, of_port = Some (os_port s),
               of_root = Some (os_root s), of_request_count = request_count s, of_bytes_served = bytes_served s,
               of_last_request_at = os_last_request_at s, of_started_at = Some (os_started_at s),
               of_stop_reason = os_stop_reason s, of_error = os_error s\<rparr>)"

definition origin_error_class_of :: "origin_state option \<Rightarrow> error_class" where
  "origin_error_class_of state = (case state of None \<Rightarrow> PROTOCOL
     | Some s \<Rightarrow> (case os_error_class s of None \<Rightarrow> PROTOCOL | Some c \<Rightarrow> c))"

record origin_exit =
  ox_changed :: bool
  ox_session_id :: string
  ox_fields :: origin_fields
  ox_endpoint :: string
  ox_previous :: "origin_state option"
  ox_desired :: "string option"
  ox_observed :: "origin_state option"
  ox_recovered_stale :: "bool option"
  ox_access_log :: "string option"
  ox_exited_cleanly :: "bool option"

record origin_failure =
  og_error_class :: error_class
  og_indeterminate :: bool
  og_session_id :: string
  og_fields :: origin_fields

datatype origin_outcome = OExit origin_exit | OFail origin_failure | ORaised exn

record origin_run =
  or_outcome :: origin_outcome
  or_signals :: "int list"
  or_spawned :: bool
  or_fs :: "origin_state rt_fs"

section \<open>Start\<close>

text \<open>\<open>op_path = None\<close> is an absent or empty \<open>path\<close>, an empty \<open>op_session_id\<close> an absent one. A port
  of zero asks for an ephemeral port and is false in Python's \<open>or\<close>.\<close>

record origin_params =
  op_path :: "path option"
  op_session_id :: string
  op_bind_address :: string
  op_port :: nat
  op_lifetime_seconds :: nat
  op_start_timeout :: nat
  op_stop_timeout :: nat

record start_env =
  se_generated_id :: string
  se_kill_before :: "int \<Rightarrow> probe"
  se_tree :: node
  se_fuel :: nat
  se_loop_exn :: exn
  se_has_fork :: bool
  se_reported :: "string option"
  se_now :: string
  se_dir :: "origin_state rt_fs \<Rightarrow> nat \<Rightarrow> origin_state rt_fs"
  se_dir_final :: "origin_state rt_fs \<Rightarrow> origin_state rt_fs"
  se_clock :: "nat \<Rightarrow> nat"
  se_kill_after :: "int \<Rightarrow> probe"

definition build_session_config :: "origin_params \<Rightarrow> string \<Rightarrow> path \<Rightarrow> origin_config" where
  "build_session_config params sid root = \<lparr>oc_session_id = sid, oc_root = root, oc_bind_address = op_bind_address params,
     oc_port = op_port params, oc_lifetime_seconds = op_lifetime_seconds params\<rparr>"

definition endpoint_at :: "string \<Rightarrow> nat \<Rightarrow> string" where
  "endpoint_at addr port = addr @ '':'' @ str_nat port"

definition origin_settled :: "origin_state \<Rightarrow> bool" where
  "origin_settled s \<longleftrightarrow> os_state s \<in> {ORIGIN_SERVING, ORIGIN_ERROR, ORIGIN_STOPPED}"

text \<open>From the end of the wait to the result.\<close>

definition start_verdict ::
  "start_env \<Rightarrow> origin_params \<Rightarrow> string \<Rightarrow> origin_state option \<Rightarrow> bool \<Rightarrow> origin_state option \<Rightarrow> origin_state rt_fs \<Rightarrow> origin_outcome" where
  "start_verdict env params sid existing recovered_stale observed fs =
     (let fields = origin_status_fields observed;
          fail = (\<lambda>cls ind fs. OFail \<lparr>og_error_class = cls, og_indeterminate = ind, og_session_id = sid, og_fields = fs\<rparr>) in
      if of_state fields = Some ORIGIN_ERROR then fail (origin_error_class_of observed) False fields
      else if of_state fields \<noteq> Some ORIGIN_SERVING then
        if \<not> is_pid_alive (se_kill_after env) (map_option (\<lambda>s. int (os_pid s)) observed) then
          (let final = (case read_state fs sid of Some s \<Rightarrow> Some s | None \<Rightarrow> observed)
           in fail (origin_error_class_of final) False (origin_status_fields final))
        else if (case of_state fields of None \<Rightarrow> False | Some s \<Rightarrow> s \<in> ORIGIN_TERMINAL_STATES) then
          fail (origin_error_class_of observed) False fields
        else fail TIMEOUT True fields
      else OExit \<lparr>ox_changed = True, ox_session_id = sid, ox_fields = fields,
             ox_endpoint = endpoint_at (op_bind_address params) (case of_port fields of None \<Rightarrow> 0 | Some p \<Rightarrow> p),
             ox_previous = existing, ox_desired = Some ''serving'', ox_observed = observed,
             ox_recovered_stale = Some recovered_stale, ox_access_log = Some (access_log_file_path sid), ox_exited_cleanly = None\<rparr>)"

definition start_spawn ::
  "start_env \<Rightarrow> origin_params \<Rightarrow> string \<Rightarrow> path \<Rightarrow> origin_state option \<Rightarrow> bool \<Rightarrow> origin_state rt_fs \<Rightarrow> origin_run option" where
  "start_spawn env params sid root existing recovered_stale fs1 =
     (case origin_spawn_session (se_has_fork env) (build_session_config params sid root) (se_reported env) (se_now env) fs1 of
        (Inl e, fs2) \<Rightarrow> Some \<lparr>or_outcome = ORaised e, or_signals = [], or_spawned = se_has_fork env, or_fs = fs2\<rparr>
      | (Inr _, fs2) \<Rightarrow>
          (case wait_for_state (se_dir env fs2) sid origin_settled (se_clock env) (op_start_timeout params) of
             None \<Rightarrow> None
           | Some observed \<Rightarrow>
               Some \<lparr>or_outcome = start_verdict env params sid existing recovered_stale observed (se_dir_final env fs2),
                     or_signals = [], or_spawned = True, or_fs = se_dir_final env fs2\<rparr>))"

definition start_id :: "start_env \<Rightarrow> origin_params \<Rightarrow> string" where
  "start_id env params = (if op_session_id params = [] then se_generated_id env else op_session_id params)"

definition origin_live :: "start_env \<Rightarrow> origin_state option \<Rightarrow> bool" where
  "origin_live env existing \<longleftrightarrow> (case existing of None \<Rightarrow> False
     | Some s \<Rightarrow> is_pid_alive (se_kill_before env) (Some (int (os_pid s))) \<and> os_state s \<notin> ORIGIN_TERMINAL_STATES)"

definition check_mode_fields :: "path \<Rightarrow> origin_fields" where
  "check_mode_fields root = \<lparr>of_state = Some ORIGIN_STARTING, of_pid = None, of_url = None, of_port = None,
     of_root = Some root, of_request_count = 0, of_bytes_served = 0, of_last_request_at = None, of_started_at = None,
     of_stop_reason = None, of_error = None\<rparr>"

definition origin_start :: "start_env \<Rightarrow> bool \<Rightarrow> origin_params \<Rightarrow> origin_state rt_fs \<Rightarrow> origin_run option" where
  "origin_start env check_mode params fs =
     (let sid = start_id env params;
          existing = read_state fs sid
      in case (origin_live env existing, existing) of
           (True, Some s) \<Rightarrow>
             Some \<lparr>or_outcome = OExit \<lparr>ox_changed = False, ox_session_id = sid, ox_fields = origin_status_fields existing,
                      ox_endpoint = endpoint_at (os_bind_address s) (if os_port s \<noteq> 0 then os_port s else op_port params),
                      ox_previous = existing, ox_desired = None, ox_observed = existing, ox_recovered_stale = None,
                      ox_access_log = Some (access_log_file_path sid), ox_exited_cleanly = None\<rparr>,
                   or_signals = [], or_spawned = False, or_fs = fs\<rparr>
         | _ \<Rightarrow>
             (let recovered_stale = (existing \<noteq> None);
                  fs1 = (if recovered_stale then origin_remove_state sid fs else fs);
                  raised = (\<lambda>e. Some \<lparr>or_outcome = ORaised e, or_signals = [], or_spawned = False, or_fs = fs1\<rparr>)
              in case op_path params of
                   None \<Rightarrow> raised (ProtocolError ''asmb8_http_origin.start'')
                 | Some p \<Rightarrow>
                     (case validate_root (se_loop_exn env) (se_tree env) (se_fuel env) p of
                        Inl e \<Rightarrow> raised e
                      | Inr root \<Rightarrow>
                          if check_mode then
                            Some \<lparr>or_outcome = OExit \<lparr>ox_changed = True, ox_session_id = sid, ox_fields = check_mode_fields root,
                                     ox_endpoint = endpoint_at (op_bind_address params) (op_port params),
                                     ox_previous = existing, ox_desired = Some ''serving'', ox_observed = None,
                                     ox_recovered_stale = Some recovered_stale,
                                     ox_access_log = Some (access_log_file_path sid), ox_exited_cleanly = None\<rparr>,
                                  or_signals = [], or_spawned = False, or_fs = fs1\<rparr>
                          else start_spawn env params sid root existing recovered_stale fs1)))"

section \<open>Stop\<close>

record stop_env =
  st_kill :: "int \<Rightarrow> probe"
  st_kill_at :: "nat \<Rightarrow> int \<Rightarrow> probe"
  st_clock :: "nat \<Rightarrow> nat"
  st_dir_after :: "origin_state rt_fs \<Rightarrow> origin_state rt_fs"

definition stop_endpoint :: "origin_state \<Rightarrow> string" where
  "stop_endpoint s = os_bind_address s @ '':'' @ (if os_port s \<noteq> 0 then str_nat (os_port s) else ''unknown'')"

definition stop_exit ::
  "string \<Rightarrow> bool \<Rightarrow> string \<Rightarrow> origin_state option \<Rightarrow> origin_state option \<Rightarrow> bool option \<Rightarrow> bool option \<Rightarrow> int list
   \<Rightarrow> origin_state rt_fs \<Rightarrow> origin_run option" where
  "stop_exit sid changed ep previous observed stale exited sigs d =
     Some \<lparr>or_outcome = OExit \<lparr>ox_changed = changed, ox_session_id = sid, ox_fields = origin_status_fields observed,
              ox_endpoint = ep, ox_previous = previous, ox_desired = Some ''stopped'', ox_observed = observed,
              ox_recovered_stale = stale, ox_access_log = None, ox_exited_cleanly = exited\<rparr>,
           or_signals = sigs, or_spawned = False, or_fs = d\<rparr>"

definition origin_stop_session :: "stop_env \<Rightarrow> bool \<Rightarrow> origin_params \<Rightarrow> origin_state rt_fs \<Rightarrow> origin_run option" where
  "origin_stop_session env check_mode params fs =
     (let sid = op_session_id params in
      case read_state fs sid of
        None \<Rightarrow> stop_exit sid False ''unknown'' None None None None [] fs
      | Some existing \<Rightarrow>
          (let ep = stop_endpoint existing; pid = Some (int (os_pid existing)); live = is_pid_alive (st_kill env) pid in
           if check_mode then stop_exit sid live ep (Some existing) (Some existing) None None [] fs
           else if \<not> live then stop_exit sid False ep (Some existing) (Some existing) (Some True) None [] (origin_remove_state sid fs)
           else (case request_stop (st_kill env) pid of
               Inl e \<Rightarrow> Some \<lparr>or_outcome = ORaised e, or_signals = [], or_spawned = False, or_fs = fs\<rparr>
             | Inr sigs \<Rightarrow> (case wait_for_exit (st_kill_at env) (st_clock env) pid (op_stop_timeout params) of
                 None \<Rightarrow> None
               | Some exited \<Rightarrow>
                   (let d = st_dir_after env fs;
                        final_state = (case read_state d sid of Some s \<Rightarrow> s | None \<Rightarrow> existing)
                    in stop_exit sid True ep (Some existing) (Some final_state) None (Some exited) sigs (origin_remove_state sid d))))))"

datatype origin_request = Started | Stopped

text \<open>\<open>main\<close> renders an \<open>IkvmError\<close> of the two branches with \<open>fail_json\<close>.\<close>

definition origin_main :: "start_env \<Rightarrow> stop_env \<Rightarrow> origin_request \<Rightarrow> bool \<Rightarrow> origin_params \<Rightarrow> origin_state rt_fs \<Rightarrow> origin_run option" where
  "origin_main senv tenv state check_mode params fs = (case state of
      Started \<Rightarrow> origin_start senv check_mode params fs
    | Stopped \<Rightarrow> origin_stop_session tenv check_mode params fs)"

section \<open>Facts\<close>

lemma origin_path_not_state: "log_file_path a \<noteq> state_file_path b" "access_log_file_path a \<noteq> state_file_path b"
proof -
  have "last (log_file_path a) \<noteq> last (state_file_path b)" "last (access_log_file_path a) \<noteq> last (state_file_path b)"
    by (simp_all add: log_file_path_def access_log_file_path_def state_file_path_def)
  then show "log_file_path a \<noteq> state_file_path b" "access_log_file_path a \<noteq> state_file_path b" by metis+
qed

interpretation origin_files: session_files origin_remove_state os_session_id "\<lambda>s. int (os_pid s)"
  by unfold_locales (unfold origin_remove_state_def, rule read_state_remove_paths, auto dest: sym simp: origin_path_not_state origin_path_not_state [symmetric])

text \<open>A daemon that is still on its way: alive, and its record still \<open>starting\<close>.\<close>

definition origin_undecided :: "start_env \<Rightarrow> origin_state option \<Rightarrow> bool" where
  "origin_undecided env observed \<longleftrightarrow> (case observed of None \<Rightarrow> False
     | Some s \<Rightarrow> os_state s = ORIGIN_STARTING \<and> is_pid_alive (se_kill_after env) (Some (int (os_pid s))))"

text \<open>What the result of a start must say of the record the wait ended with.\<close>

definition reports_origin :: "start_env \<Rightarrow> origin_params \<Rightarrow> origin_state option \<Rightarrow> origin_outcome \<Rightarrow> bool" where
  "reports_origin env params observed out \<longleftrightarrow> (case out of
      OExit x \<Rightarrow> ox_changed x \<and> ox_observed x = observed \<and> (\<exists>s. observed = Some s \<and> os_state s = ORIGIN_SERVING
        \<and> ox_endpoint x = endpoint_at (op_bind_address params) (os_port s))
    | OFail f \<Rightarrow> map_option os_state observed \<noteq> Some ORIGIN_SERVING \<and> (og_indeterminate f \<longleftrightarrow> origin_undecided env observed)
        \<and> (og_indeterminate f \<longrightarrow> og_error_class f = TIMEOUT \<and> og_fields f = origin_status_fields observed)
    | ORaised e \<Rightarrow> False)"

lemma start_verdict_reports: "reports_origin env params observed (start_verdict env params sid ex stale observed fs)"
proof (cases observed)
  case None
  then show ?thesis
    by (auto simp: reports_origin_def origin_undecided_def start_verdict_def Let_def origin_status_fields_def is_pid_alive_def)
next
  case (Some s)
  then show ?thesis
    by (cases "os_state s")
      (auto simp: reports_origin_def origin_undecided_def start_verdict_def Let_def origin_status_fields_def ORIGIN_TERMINAL_STATES_def)
qed

text \<open>The root a start serves, and the directory its spawn leaves behind, when it gets that far.\<close>

definition start_root :: "start_env \<Rightarrow> origin_params \<Rightarrow> exn + path" where
  "start_root env params = (case op_path params of
      None \<Rightarrow> Inl (ProtocolError ''asmb8_http_origin.start'')
    | Some p \<Rightarrow> validate_root (se_loop_exn env) (se_tree env) (se_fuel env) p)"

definition origin_stale_removed :: "start_env \<Rightarrow> origin_params \<Rightarrow> origin_state rt_fs \<Rightarrow> origin_state rt_fs" where
  "origin_stale_removed env params fs =
     (if read_state fs (start_id env params) \<noteq> None then origin_remove_state (start_id env params) fs else fs)"

definition origin_spawned_dir :: "start_env \<Rightarrow> origin_params \<Rightarrow> origin_state rt_fs \<Rightarrow> origin_state rt_fs option" where
  "origin_spawned_dir env params fs = (case start_root env params of
      Inl e \<Rightarrow> None
    | Inr root \<Rightarrow>
        (case origin_spawn_session (se_has_fork env) (build_session_config params (start_id env params) root) (se_reported env)
                (se_now env) (origin_stale_removed env params fs) of
           (Inl e, fs2) \<Rightarrow> None
         | (Inr _, fs2) \<Rightarrow> Some fs2))"

lemma start_check:
  assumes "origin_start env True params fs = Some run" and "\<not> origin_live env (read_state fs (start_id env params))"
  shows "\<not> or_spawned run \<and> (case start_root env params of Inl e \<Rightarrow> or_outcome run = ORaised e
    | Inr root \<Rightarrow> \<exists>x. or_outcome run = OExit x \<and> ox_changed x \<and> ox_observed x = None)"
proof -
  have "origin_live env (read_state fs (start_id env params)) = False" using assms(2) by simp
  then show ?thesis
    using assms(1) unfolding origin_start_def Let_def start_root_def
    by (auto split: option.splits sum.splits)
qed

lemma start_real:
  assumes "origin_start env False params fs = Some run" and "\<not> origin_live env (read_state fs (start_id env params))"
  shows "case origin_spawned_dir env params fs of
      None \<Rightarrow> \<exists>e. or_outcome run = ORaised e
    | Some fs2 \<Rightarrow> or_spawned run \<and> (\<exists>stale observed. wait_for_state (se_dir env fs2) (start_id env params) origin_settled
          (se_clock env) (op_start_timeout params) = Some observed
        \<and> or_outcome run = start_verdict env params (start_id env params) (read_state fs (start_id env params)) stale observed (or_fs run))"
proof -
  have "origin_live env (read_state fs (start_id env params)) = False" using assms(2) by simp
  then show ?thesis
    using assms(1) unfolding origin_start_def Let_def origin_spawned_dir_def start_root_def origin_stale_removed_def
    by (auto simp: start_spawn_def Let_def split: if_splits sum.splits prod.splits option.splits)
qed

lemma start_returns:
  assumes "\<exists>m. se_clock env 0 + op_start_timeout params \<le> se_clock env (Suc m)"
  shows "\<exists>run. origin_start env check params fs = Some run"
proof -
  have "wait_for_state d sid origin_settled (se_clock env) (op_start_timeout params) \<noteq> None" for d sid
    using waits_return(1) [OF assms] by auto
  then have "start_spawn env params sid root existing stale fs1 \<noteq> None" for sid root existing stale fs1
    by (simp add: start_spawn_def split: sum.splits prod.splits option.splits) (metis option.distinct(1))
  then have "origin_start env check params fs \<noteq> None"
    by (simp add: origin_start_def Let_def split: sum.splits option.splits bool.splits)
  then show ?thesis by simp
qed

lemma start_no_signals:
  "origin_start env check params fs = Some run \<Longrightarrow> or_signals run = []"
  by (auto simp: origin_start_def start_spawn_def Let_def split: if_splits sum.splits prod.splits option.splits bool.splits)

section \<open>Properties\<close>

text \<open>C6. A start reports what the daemon's record says. Whatever the daemon and the other processes do, the
  module returns once the clock passes the deadline, and it signals no process. Found a live session of
  that id, it reports success without a change and touches nothing. In check mode it forks nothing and
  predicts a change exactly when the path is a directory. Otherwise it raises exactly when it could not
  spawn (no valid path, no fork); having spawned, it judges the record \<open>observed\<close> that it read in the runtime
  directory at some poll \<open>k\<close> after the spawn, the first poll whose record is settled or that the clock puts
  past the deadline: success, claiming a change and reporting the port of that record, exactly when it says
  \<open>serving\<close>; a failure that is indeterminate exactly when that record names a live process and still says
  \<open>starting\<close>, and then a timeout carrying that record's fields.\<close>

theorem start_success_means_serving:
  assumes "\<exists>m. se_clock env 0 + op_start_timeout params \<le> se_clock env (Suc m)"
  shows "\<exists>run. origin_start env check params fs = Some run \<and> or_signals run = [] \<and>
     (let sid = start_id env params in
      if origin_live env (read_state fs sid)
      then or_fs run = fs \<and> \<not> or_spawned run \<and> (\<exists>x. or_outcome run = OExit x \<and> \<not> ox_changed x \<and> ox_observed x = read_state fs sid)
      else if check then \<not> or_spawned run \<and> (case start_root env params of Inl e \<Rightarrow> or_outcome run = ORaised e
        | Inr root \<Rightarrow> \<exists>x. or_outcome run = OExit x \<and> ox_changed x \<and> ox_observed x = None)
      else (case origin_spawned_dir env params fs of
          None \<Rightarrow> \<exists>e. or_outcome run = ORaised e
        | Some fs2 \<Rightarrow> or_spawned run \<and> (\<exists>k. let observed = read_state (se_dir env fs2 k) sid; deadline = se_clock env 0 + op_start_timeout params in
            ((\<exists>s. observed = Some s \<and> origin_settled s) \<or> deadline \<le> se_clock env (Suc k))
          \<and> (\<forall>j < k. \<not> (\<exists>s. read_state (se_dir env fs2 j) sid = Some s \<and> origin_settled s) \<and> se_clock env (Suc j) < deadline)
          \<and> reports_origin env params observed (or_outcome run))))"
proof -
  obtain run where run: "origin_start env check params fs = Some run" using start_returns [OF assms] by blast
  note sig = start_no_signals [OF run]
  let ?sid = "start_id env params"
  consider (live) "origin_live env (read_state fs ?sid)" | (check) "\<not> origin_live env (read_state fs ?sid)" "check"
    | (real) "\<not> origin_live env (read_state fs ?sid)" "\<not> check" by blast
  then show ?thesis
  proof cases
    case live
    with run sig show ?thesis by (auto simp: origin_start_def Let_def origin_live_def split: option.splits)
  next
    case check
    with start_check [OF _ check(1), of run] run sig show ?thesis by auto
  next
    case real
    note r = start_real [OF _ real(1), of run]
    show ?thesis
    proof (cases "origin_spawned_dir env params fs")
      case None
      with r run real sig show ?thesis by simp
    next
      case (Some fs2)
      obtain k where "wait_for_state (se_dir env fs2) ?sid origin_settled (se_clock env) (op_start_timeout params)
          = Some (read_state (se_dir env fs2 k) ?sid)"
        "(\<exists>s. read_state (se_dir env fs2 k) ?sid = Some s \<and> origin_settled s)
          \<or> se_clock env 0 + op_start_timeout params \<le> se_clock env (Suc k)"
        "\<forall>j < k. \<not> (\<exists>s. read_state (se_dir env fs2 j) ?sid = Some s \<and> origin_settled s)
          \<and> se_clock env (Suc j) < se_clock env 0 + op_start_timeout params"
        using wait_for_state_reads [OF assms, of "se_dir env fs2" ?sid origin_settled] by (elim exE conjE)
      moreover obtain stale where "or_spawned run" "or_outcome run = start_verdict env params ?sid (read_state fs ?sid)
          stale (read_state (se_dir env fs2 k) ?sid) (or_fs run)"
        using r run real(2) Some calculation(1) by auto
      moreover have "reports_origin env params (read_state (se_dir env fs2 k) ?sid) (or_outcome run)"
        by (simp only: calculation(5) start_verdict_reports)
      ultimately have sp: "or_spawned run" and ex: "\<exists>k. let observed = read_state (se_dir env fs2 k) ?sid;
            deadline = se_clock env 0 + op_start_timeout params in
            ((\<exists>s. observed = Some s \<and> origin_settled s) \<or> deadline \<le> se_clock env (Suc k))
          \<and> (\<forall>j < k. \<not> (\<exists>s. read_state (se_dir env fs2 j) ?sid = Some s \<and> origin_settled s) \<and> se_clock env (Suc j) < deadline)
          \<and> reports_origin env params observed (or_outcome run)"
        unfolding Let_def by blast+
      from real have "\<not> origin_live env (read_state fs ?sid)" "check = False" by simp_all
      then show ?thesis unfolding Let_def [of ?sid]
        by (intro exI [of _ run] conjI run sig) (simp only: if_False Some option.case sp ex simp_thms)
    qed
  qed
qed

definition sample_params :: origin_params where
  "sample_params = \<lparr>op_path = Some [[114]], op_session_id = ''o'', op_bind_address = DEFAULT_BIND_ADDRESS, op_port = 0,
     op_lifetime_seconds = 60, op_start_timeout = 3, op_stop_timeout = 3\<rparr>"

definition sample_serving :: origin_state where
  "sample_serving = (origin_initial_state ''t'' sample_origin_config 9)\<lparr>os_state := ORIGIN_SERVING, os_port := 8080\<rparr>"

definition sample_directory :: "origin_state rt_fs" where
  "sample_directory = \<lparr>names = [(''o.json'', 0)], inodes = (\<lambda>_. JsonDict sample_serving), next_ino = 1\<rparr>"

definition sample_start_env :: start_env where
  "sample_start_env = \<lparr>se_generated_id = ''g'', se_kill_before = (\<lambda>p. NoSuchProcess), se_tree = sample_tree, se_fuel = 8, se_loop_exn = RuntimeError,
     se_has_fork = True, se_reported = Some ''9'', se_now = ''t'', se_dir = (\<lambda>d k. sample_directory),
     se_dir_final = (\<lambda>d. sample_directory), se_clock = (\<lambda>k. k), se_kill_after = (\<lambda>p. ProcExists)\<rparr>"

lemma sample_directory_read: "read_state sample_directory ''o'' = Some sample_serving"
  by (simp add: read_state_def fs_read_def fs_lookup_def sample_directory_def state_file_path_def)

theorem start_success_means_serving_witness:
  "\<exists>run x. origin_start sample_start_env False sample_params sample_directory = Some run \<and> or_spawned run
     \<and> or_outcome run = OExit x \<and> ox_changed x \<and> ox_observed x = Some sample_serving"
proof -
  have c: "\<exists>m. se_clock sample_start_env 0 + op_start_timeout sample_params \<le> se_clock sample_start_env (Suc m)"
    by (rule exI [of _ 3]) (simp add: sample_start_env_def sample_params_def)
  have id: "start_id sample_start_env sample_params = ''o''" by (simp add: start_id_def sample_params_def)
  have dead: "\<not> origin_live sample_start_env (Some sample_serving)"
    by (simp add: origin_live_def sample_start_env_def is_pid_alive_def)
  have nine: "py_int ''9'' = Some 9" by code_simp
  have root: "start_root sample_start_env sample_params = Inr [[114]]"
    by (simp add: start_root_def sample_params_def sample_start_env_def validate_root_def sample_root(1,2))
  have fork: "\<exists>d2. origin_spawn_session (se_has_fork sample_start_env) cfg (se_reported sample_start_env) n d = (Inr 9, d2)" for cfg n d
    by (simp add: origin_spawn_session_def nine sample_start_env_def)
  obtain fs2 where s: "origin_spawned_dir sample_start_env sample_params sample_directory = Some fs2"
    using fork [of "build_session_config sample_params ''o'' [[114]]" "se_now sample_start_env"
        "origin_stale_removed sample_start_env sample_params sample_directory"]
    by (auto simp: origin_spawned_dir_def root id)
  have dir: "read_state (se_dir sample_start_env fs2 k) ''o'' = Some sample_serving" for k
    by (simp add: sample_start_env_def sample_directory_read)
  have rep: "\<exists>x. or_outcome run = OExit x \<and> ox_changed x \<and> ox_observed x = Some sample_serving"
    if "reports_origin sample_start_env sample_params (Some sample_serving) (or_outcome run)" for run
    using that by (auto simp: reports_origin_def sample_serving_def split: origin_outcome.splits)
  show ?thesis
    using start_success_means_serving [OF c, of False sample_directory] rep
    by (auto simp: id sample_directory_read dead s dir Let_def)
qed

text \<open>Check mode drops the record of a dead session, as the media module does.\<close>

lemma origin_check_mode_removes_stale_record:
  "read_state sample_directory ''o'' \<noteq> None \<and>
   (\<exists>run. origin_start sample_start_env True sample_params sample_directory = Some run \<and> read_state (or_fs run) ''o'' = None)"
proof -
  have id: "start_id sample_start_env sample_params = ''o''" by (simp add: start_id_def sample_params_def)
  have dead: "origin_live sample_start_env (Some sample_serving) = False"
    by (simp add: origin_live_def sample_start_env_def is_pid_alive_def)
  show ?thesis
    unfolding origin_start_def Let_def id sample_directory_read dead
    by (auto simp: sample_directory_read origin_files.read_remove split: option.splits sum.splits)
qed

definition recorded_live :: "stop_env \<Rightarrow> origin_params \<Rightarrow> origin_state rt_fs \<Rightarrow> bool" where
  "recorded_live env params fs \<longleftrightarrow> (case read_state fs (op_session_id params) of None \<Rightarrow> False
     | Some st \<Rightarrow> is_pid_alive (st_kill env) (Some (int (os_pid st))))"

text \<open>A stop leaves nothing of its session and nothing else changed: outside check mode, unless the
  signal itself is refused, the module ends with no record of that session and every other record as
  the directory had it; it signals at most the recorded process, and only a live one; it claims a
  change exactly when it signalled one, and reports whether that process was seen to exit. In check
  mode it signals nothing, changes nothing, and predicts the change.\<close>

theorem stop_removes_only_its_session:
  assumes "\<exists>m. st_clock env 0 + op_stop_timeout params \<le> st_clock env (Suc m)" and "\<And>p. st_kill env p \<noteq> PermissionDenied"
  shows "\<exists>run x. origin_stop_session env check params fs = Some run \<and> or_outcome run = OExit x \<and> \<not> or_spawned run
    \<and> ox_changed x = recorded_live env params fs
    \<and> (if check then or_fs run = fs \<and> or_signals run = []
       else (\<exists>d \<in> {fs, st_dir_after env fs}. \<forall>s. read_state (or_fs run) s = (if s = op_session_id params then None else read_state d s))
            \<and> or_signals run = (if recorded_live env params fs then [int (os_pid (the (read_state fs (op_session_id params))))] else [])
            \<and> (ox_exited_cleanly x \<noteq> None) = recorded_live env params fs)"
proof (cases "read_state fs (op_session_id params)")
  case None
  then show ?thesis by (auto simp: origin_stop_session_def stop_exit_def Let_def recorded_live_def)
next
  case (Some st)
  obtain b where b: "wait_for_exit (st_kill_at env) (st_clock env) (Some (int (os_pid st))) (op_stop_timeout params) = Some b"
    using waits_return(2) [OF assms(1)] by blast
  note alive = origin_files.alive_iff_stoppable [OF assms(2)]
  show ?thesis
    using Some b
    by (cases check; cases "origin_files.stoppable (st_kill env) st")
      (auto simp: origin_stop_session_def stop_exit_def Let_def recorded_live_def alive origin_files.read_remove origin_files.stop_recorded)
qed

definition sample_stop_env :: stop_env where
  "sample_stop_env = \<lparr>st_kill = (\<lambda>p. ProcExists), st_kill_at = (\<lambda>k p. NoSuchProcess), st_clock = (\<lambda>k. k), st_dir_after = (\<lambda>d. d)\<rparr>"

theorem stop_removes_only_its_session_witness:
  "\<exists>run. origin_stop_session sample_stop_env False sample_params sample_directory = Some run \<and> or_signals run = [9]
     \<and> read_state (or_fs run) ''o'' = None"
proof -
  have c: "\<exists>m. st_clock sample_stop_env 0 + op_stop_timeout sample_params \<le> st_clock sample_stop_env (Suc m)"
    by (rule exI [of _ 3]) (simp add: sample_stop_env_def sample_params_def)
  have k: "st_kill sample_stop_env p \<noteq> PermissionDenied" for p by (simp add: sample_stop_env_def)
  have id: "op_session_id sample_params = ''o''" and pid: "os_pid sample_serving = 9"
    by (simp_all add: sample_params_def sample_serving_def origin_initial_state_def)
  have live: "is_pid_alive (st_kill sample_stop_env) (Some 9)" by (simp add: sample_stop_env_def is_pid_alive_def)
  from stop_removes_only_its_session [OF c k, of False sample_directory] show ?thesis
    by (auto simp: id sample_directory_read pid live recorded_live_def)
qed

end
