(* ===== verification/Web_Call.thy ===== *)
theory Web_Call
  imports Asp_Client
begin

text \<open>
  What the modules on the \<open>.asp\<close> surface share: sequences of client calls that stop at the first exception, the
  reading of WEBVAR records as Python dictionaries, the client built from the connection parameters
  (each module's \<open>build_asp_client\<close>), and the outcomes of \<open>exit_json\<close> and \<open>fail_json\<close>. A sequence
  is related to the list of calls it performs, so that what reaches the wire follows from the client.
\<close>

section \<open>Sequences of calls\<close>

type_synonym 'a web_call = "asp_client \<Rightarrow> (exn + 'a) \<times> asp_client"

definition call_return :: "'a \<Rightarrow> 'a web_call" where
  "call_return x c = (Inr x, c)"

definition call_raise :: "(asp_client \<Rightarrow> exn) \<Rightarrow> 'a web_call" where
  "call_raise e c = (Inl (e c), c)"

definition call_bind :: "'a web_call \<Rightarrow> ('a \<Rightarrow> 'b web_call) \<Rightarrow> 'b web_call" where
  "call_bind m f c = (case m c of (Inl e, c1) \<Rightarrow> (Inl e, c1) | (Inr x, c1) \<Rightarrow> f x c1)"

fun call_map :: "('a \<Rightarrow> 'b web_call) \<Rightarrow> 'a list \<Rightarrow> 'b list web_call" where
  "call_map f [] = call_return []"
| "call_map f (x # xs) = call_bind (f x) (\<lambda>y. call_bind (call_map f xs) (\<lambda>ys. call_return (y # ys)))"

lemma call_bind_Inr:
  assumes "call_bind m f c = (Inr y, c2)"
  obtains x c1 where "m c = (Inr x, c1)" and "f x c1 = (Inr y, c2)"
  using assms by (auto simp: call_bind_def split: prod.splits sum.splits)

lemma call_bind_step: "m c = (Inr x, c1) \<Longrightarrow> call_bind m f c = f x c1" "m c = (Inl e, c1) \<Longrightarrow> call_bind m f c = (Inl e, c1)"
  by (simp_all add: call_bind_def)

text \<open>\<open>try: ... except IkvmError as err\<close> for the error classes of \<open>handled\<close>.\<close>

definition call_try :: "'a web_call \<Rightarrow> (ikvm_error \<Rightarrow> 'a) \<Rightarrow> (ikvm_error \<Rightarrow> bool) \<Rightarrow> 'a web_call" where
  "call_try m h handled c = (case m c of
      (Inl (Ikvm err), c1) \<Rightarrow> if handled err then (Inr (h err), c1) else (Inl (Ikvm err), c1)
    | r \<Rightarrow> r)"

text \<open>A pure computation that may raise, over one value and over the items of a list.\<close>

definition call_lift :: "exn + 'a \<Rightarrow> 'a web_call" where
  "call_lift r c = (r, c)"

fun try_map :: "('a \<Rightarrow> exn + 'b) \<Rightarrow> 'a list \<Rightarrow> exn + 'b list" where
  "try_map f [] = Inr []"
| "try_map f (x # xs) = (case f x of Inl e \<Rightarrow> Inl e
     | Inr y \<Rightarrow> (case try_map f xs of Inl e \<Rightarrow> Inl e | Inr ys \<Rightarrow> Inr (y # ys)))"

text \<open>\<open>we_container_text\<close> is the \<open>str()\<close> of a list or a dictionary, \<open>we_other_int\<close> the \<open>int()\<close> of a
  literal of a type without a constructor of its own, such as a float.\<close>

record web_env =
  we_literal_eval :: "string \<Rightarrow> py_literal option"
  we_server :: server
  we_make_context :: "string \<Rightarrow> ssl_context"
  we_load_ca :: "string \<Rightarrow> exn option"
  we_has_requests :: bool
  we_container_text :: "py_literal \<Rightarrow> string"
  we_other_int :: "string \<Rightarrow> exn + int"

definition web_login :: "web_env \<Rightarrow> string web_call" where
  "web_login env = login (we_server env)"

definition web_get :: "web_env \<Rightarrow> string \<Rightarrow> string option \<Rightarrow> webvar_response web_call" where
  "web_get env ep op = get_webvar (we_literal_eval env) (we_server env) ep op"

definition web_post :: "web_env \<Rightarrow> string \<Rightarrow> arguments \<Rightarrow> webvar_response web_call" where
  "web_post env ep data = post_webvar (we_literal_eval env) (we_server env) ep data None"

definition web_set :: "web_env \<Rightarrow> string \<Rightarrow> arguments \<Rightarrow> webvar_response web_call" where
  "web_set env ep data = set_webvar (we_literal_eval env) (we_server env) ep data None"

section \<open>Records as dictionaries\<close>

definition rec_get :: "webvar_record \<Rightarrow> string \<Rightarrow> py_literal" where
  "rec_get r k = (case map_of r (LitStr k) of None \<Rightarrow> LitNone | Some v \<Rightarrow> v)"

fun truthy :: "py_literal \<Rightarrow> bool" where
  "truthy LitNone = False"
| "truthy (LitBool b) = b"
| "truthy (LitInt i) = (i \<noteq> 0)"
| "truthy (LitStr s) = (s \<noteq> [])"
| "truthy (LitList xs) = (xs \<noteq> [])"
| "truthy (LitDict kvs) = (kvs \<noteq> [])"
| "truthy (LitOther b s) = b"

definition lit_or :: "py_literal \<Rightarrow> py_literal \<Rightarrow> py_literal" where
  "lit_or x y = (if truthy x then x else y)"

definition lit_text :: "web_env \<Rightarrow> py_literal \<Rightarrow> string" where
  "lit_text env v = (case v of
      LitNone \<Rightarrow> ''None'' | LitBool b \<Rightarrow> (if b then ''True'' else ''False'') | LitInt i \<Rightarrow> str_int i
    | LitStr s \<Rightarrow> s | LitOther b s \<Rightarrow> s | _ \<Rightarrow> we_container_text env v)"

text \<open>Values that can be dictionary keys.\<close>

fun hashable :: "py_literal \<Rightarrow> bool" where
  "hashable (LitList xs) = False"
| "hashable (LitDict kvs) = False"
| "hashable _ = True"

text \<open>The distinct items in the order of their first occurrence.\<close>

definition first_seen :: "'a list \<Rightarrow> 'a list" where
  "first_seen xs = fold (\<lambda>x acc. if x \<in> set acc then acc else acc @ [x]) xs []"

lemma first_seen_acc:
  assumes "distinct acc"
  shows "distinct (fold (\<lambda>x acc. if x \<in> set acc then acc else acc @ [x]) xs acc)"
    and "set (fold (\<lambda>x acc. if x \<in> set acc then acc else acc @ [x]) xs acc) = set acc \<union> set xs"
  using assms by (induction xs arbitrary: acc) auto

lemma first_seen [simp]: "distinct (first_seen xs)" "set (first_seen xs) = set xs"
  using first_seen_acc [of "[]" xs] by (simp_all add: first_seen_def)

definition flag_of :: "webvar_record \<Rightarrow> string \<Rightarrow> py_literal" where
  "flag_of r k = LitBool (truthy (rec_get r k))"

definition obj :: "(string \<times> py_literal) list \<Rightarrow> py_literal" where
  "obj kvs = LitDict (map (\<lambda>(k, v). (LitStr k, v)) kvs)"

section \<open>Clients and outcomes\<close>

record conn_params =
  cp_host :: string
  cp_port :: int
  cp_username :: string
  cp_password :: string
  cp_use_tls :: bool
  cp_allow_insecure_transport :: bool
  cp_validate_certs :: bool
  cp_ca_path :: "string option"
  cp_tls_fingerprint :: "string option"
  cp_timeout :: int
  cp_connect_timeout :: int

definition build_asp_client :: "web_env \<Rightarrow> conn_params \<Rightarrow> exn + asp_client" where
  "build_asp_client env p = asp_client_init (we_make_context env) (we_load_ca env) (cp_host p) (cp_port p) (cp_username p)
     (cp_password p) (cp_use_tls p) (cp_validate_certs p) (cp_ca_path p) (cp_tls_fingerprint p)
     (cp_allow_insecure_transport p) (cp_timeout p) (cp_connect_timeout p) 2"

text \<open>\<open>FailMsg\<close> is a \<open>fail_json\<close> with a message only; \<open>Uncaught\<close> an exception that leaves \<open>main\<close>.\<close>

datatype 'r module_outcome = ExitJson bool 'r | FailJson ikvm_error | FailMsg | Uncaught exn

definition caught :: "exn \<Rightarrow> 'r module_outcome" where
  "caught e = (case e of Ikvm err \<Rightarrow> FailJson err | _ \<Rightarrow> Uncaught e)"

type_synonym 'r module_result = "'r module_outcome \<times> http_request list"

text \<open>The shared shape of \<open>main\<close>: the calls under \<open>try\<close>, and the requests they sent. \<open>inside\<close> says
  whether the client is built inside the \<open>try\<close>.\<close>

definition run_module :: "web_env \<Rightarrow> conn_params \<Rightarrow> bool \<Rightarrow> (bool \<times> 'r) web_call \<Rightarrow> 'r module_result" where
  "run_module env p inside body =
     (if \<not> we_has_requests env then (FailMsg, [])
      else case build_asp_client env p of
          Inl e \<Rightarrow> (if inside then caught e else Uncaught e, [])
        | Inr c \<Rightarrow> (case body c of
            (Inl e, c1) \<Rightarrow> (caught e, sent_requests (ac_log c1))
          | (Inr (changed, r), c1) \<Rightarrow> (ExitJson changed r, sent_requests (ac_log c1))))"

section \<open>The calls a sequence performs\<close>

named_theorems performs_intros \<open>which calls a sequence performs\<close>

definition performs :: "web_env \<Rightarrow> asp_call set \<Rightarrow> 'a web_call \<Rightarrow> bool" where
  "performs env S m \<longleftrightarrow> (\<forall>c. \<exists>calls. set calls \<subseteq> S
     \<and> snd (m c) = fold (run_call (we_literal_eval env) (we_server env)) calls c)"

lemma performs_one:
  assumes "call \<in> S" and "\<And>c. snd (m c) = run_call (we_literal_eval env) (we_server env) call c"
  shows "performs env S m"
  unfolding performs_def using assms by (intro allI exI [of _ "[call]"]) simp

lemma performs_client [performs_intros]:
  "Login \<in> S \<Longrightarrow> performs env S (web_login env)"
  "GetWebvar ep op \<in> S \<Longrightarrow> performs env S (web_get env ep op)"
  "PostWebvar ep data None \<in> S \<Longrightarrow> performs env S (web_post env ep data)"
  "SetWebvar ep data None \<in> S \<Longrightarrow> performs env S (web_set env ep data)"
  by (erule performs_one, simp add: web_login_def web_get_def web_post_def web_set_def)+

lemma performs_pure [performs_intros]:
  "performs env S (call_return x)" "performs env S (call_raise e)" "performs env S (call_lift r)"
  unfolding performs_def by (intro allI exI [of _ "[]"], simp add: call_return_def call_raise_def call_lift_def)+

lemma performs_bind [performs_intros]:
  assumes "performs env S m" and "\<And>x. performs env S (f x)"
  shows "performs env S (call_bind m f)"
  unfolding performs_def
proof
  fix c
  let ?run = "fold (run_call (we_literal_eval env) (we_server env))"
  obtain r c1 where m: "m c = (r, c1)" by fastforce
  with assms(1) obtain calls where calls: "set calls \<subseteq> S" "c1 = ?run calls c"
    unfolding performs_def by (metis snd_conv)
  show "\<exists>calls. set calls \<subseteq> S \<and> snd (call_bind m f c) = ?run calls c"
  proof (cases r)
    case (Inl e)
    with m calls show ?thesis by (auto simp: call_bind_def)
  next
    case (Inr x)
    obtain more where "set more \<subseteq> S" "snd (f x c1) = ?run more c1" using assms(2) unfolding performs_def by meson
    with m calls Inr show ?thesis by (intro exI [of _ "calls @ more"]) (simp add: call_bind_def)
  qed
qed

lemma performs_map [performs_intros]: "(\<And>x. performs env S (f x)) \<Longrightarrow> performs env S (call_map f xs)"
  by (induction xs) (auto intro!: performs_intros)

lemma performs_try [performs_intros]: "performs env S m \<Longrightarrow> performs env S (call_try m h handled)"
  unfolding performs_def call_try_def
  by (auto split: prod.splits sum.splits exn.splits) (metis snd_conv)+

lemma performs_if [performs_intros]:
  "performs env S a \<Longrightarrow> performs env S b \<Longrightarrow> performs env S (if p then a else b)"
  by simp

text \<open>Every request of such a module is one of its calls, and the client sends no other.\<close>

lemma init_log:
  assumes "build_asp_client env p = Inr c"
  shows "ac_log c = []" "ac_max_retries c = 2" "ac_session_cookie c = None"
  using assms
  by (auto simp: build_asp_client_def asp_client_init_def Let_def split: sum.splits if_splits)

lemma init_credentials:
  "build_asp_client env p = Inr c \<Longrightarrow> ac_username c = cp_username p \<and> ac_password c = cp_password p \<and> ac_host c = cp_host p"
  by (auto simp: build_asp_client_def asp_client_init_def Let_def split: sum.splits if_splits)

lemma performs_disciplined:
  assumes "performs env S m" and "build_asp_client env p = Inr c"
  shows "\<exists>calls. set calls \<subseteq> S \<and> (\<forall>rq \<in> set (sent_requests (ac_log (snd (m c)))). disciplined calls c rq)"
proof -
  obtain calls where calls: "set calls \<subseteq> S" "snd (m c) = fold (run_call (we_literal_eval env) (we_server env)) calls c"
    using assms(1) unfolding performs_def by blast
  with calls_disciplined [OF same_client_refl, of c calls calls "we_literal_eval env" "we_server env"] init_log(1) [OF assms(2)]
  show ?thesis by (intro exI [of _ calls]) simp
qed

lemma run_module_requests:
  assumes "performs env S body" and "run_module env p inside body = (out, rqs)" and "rq \<in> set rqs"
  obtains c call where "build_asp_client env p = Inr c" "call \<in> S"
    "rq_method rq = (if is_read call then ''GET'' else ''POST'')" "rq_url rq = url_of (call_scheme call c) c @ call_path call"
    "rq_data rq = call_data call c"
proof -
  obtain c where c: "build_asp_client env p = Inr c"
    using assms(2,3) by (auto simp: run_module_def split: if_splits sum.splits)
  then have "rqs = sent_requests (ac_log (snd (body c)))"
    using assms(2,3) by (auto simp: run_module_def split: if_splits sum.splits prod.splits)
  with performs_disciplined [OF assms(1) c] assms(3) obtain calls where "set calls \<subseteq> S" "disciplined calls c rq" by blast
  then obtain call where "call \<in> S" "rq_method rq = (if is_read call then ''GET'' else ''POST'')"
      "rq_url rq = url_of (call_scheme call c) c @ call_path call" "rq_data rq = call_data call c"
    unfolding disciplined_def by blast
  with c show ?thesis by (rule that)
qed

lemma run_module_exit:
  assumes "run_module env p inside body = (ExitJson changed r, rqs)"
  obtains c c1 where "build_asp_client env p = Inr c" "body c = (Inr (changed, r), c1)" "rqs = sent_requests (ac_log c1)"
  using assms by (auto simp: run_module_def caught_def split: if_splits sum.splits prod.splits exn.splits)

lemma performs_extends:
  assumes "performs env S m" and "m c = (r, c1)"
  shows "set (sent_requests (ac_log c)) \<subseteq> set (sent_requests (ac_log c1))"
proof -
  let ?run = "run_call (we_literal_eval env) (we_server env)"
  have step: "set (sent_requests (ac_log d)) \<subseteq> set (sent_requests (ac_log (?run call d)))" for call d
    using run_call_step [of "we_literal_eval env" "we_server env" call d] by auto
  have "set (sent_requests (ac_log d)) \<subseteq> set (sent_requests (ac_log (fold ?run calls d)))" for calls d
  proof (induction calls arbitrary: d)
    case (Cons call calls)
    then show ?case using step [of d call] by (metis fold_simps(2) order_trans)
  qed simp
  with assms show ?thesis unfolding performs_def by (metis snd_conv)
qed

text \<open>A client of the given connection: its identity is the configured one, a TLS pool exists exactly under TLS, and
  the credentials are typed.\<close>

definition client_typed :: "conn_params \<Rightarrow> asp_client \<Rightarrow> bool" where
  "client_typed p c \<longleftrightarrow> ac_host c = cp_host p \<and> ac_port c = cp_port p \<and> ac_username c = cp_username p \<and> ac_password c = cp_password p
     \<and> ac_use_tls c = cp_use_tls p \<and> (ac_pool c \<noteq> None) = cp_use_tls p \<and> (cp_use_tls p \<or> cp_allow_insecure_transport p)
     \<and> ac_max_retries c = 2 \<and> credentials_typed c"

lemma init_typed: "build_asp_client env p = Inr c \<Longrightarrow> client_typed p c"
  by (auto simp: build_asp_client_def asp_client_init_def client_typed_def credentials_typed_def enforce_transport_policy_def Let_def
      split: sum.splits if_splits)

text \<open>C19. The web client keeps its type. A client built from connection options never speaks plain HTTP without the
  explicit opt-in, and after any sequence of calls, whatever the BMC answers, it still has the configured
  host, account and retry limit, a TLS pool exactly when TLS is on, no cookie but one the BMC granted,
  and a token only together with a cookie.\<close>

theorem client_type_kept:
  "case build_asp_client env p of Inl e \<Rightarrow> True
   | Inr c \<Rightarrow> client_typed p c \<and> client_typed p (fold (run_call (we_literal_eval env) (we_server env)) calls c)"
proof (cases "build_asp_client env p")
  case (Inr c)
  then have c: "client_typed p c" by (rule init_typed)
  then have "credentials_typed c" by (simp add: client_typed_def)
  from run_calls_typed [OF this, of "we_literal_eval env" "we_server env" calls] c
  have "client_typed p (fold (run_call (we_literal_eval env) (we_server env)) calls c)"
    by (auto simp: client_typed_def same_client_def)
  with c Inr show ?thesis by simp
qed simp

text \<open>A write that was answered has been sent.\<close>

lemma web_set_sent:
  assumes "web_set env ep data c = (Inr response, c1)"
  shows "request_of (SetWebvar ep data None) c \<in> set (sent_requests (ac_log c1))"
proof -
  let ?op = "webvar_op ''set_webvar'' None ep"
  have op: "?op \<noteq> []" by (simp add: webvar_op_nonempty)
  obtain answer where r: "client_request (we_server env) ''POST'' (rpc_path ep) (Some ?op) (Some data) c = (Inr answer, c1)"
    using assms by (auto simp: web_set_def set_webvar_def read_webvar_def Let_def split: prod.splits sum.splits option.splits if_splits)
  let ?rq = "build_request ''POST'' (base_url c @ rpc_path ep) (Some data) None c"
  have "?rq \<in> set (sent_requests (ac_log (snd (client_request (we_server env) ''POST'' (rpc_path ep) (Some ?op) (Some data) c))))"
  proof (rule send_with_retry_trace [of c "we_server env" ?op "''POST''" "base_url c @ rpc_path ep" "Some data" None])
    fix i assume "?op \<noteq> [] \<Longrightarrow> send_with_retry (we_server env) ''POST'' (base_url c @ rpc_path ep) (Some ?op) (Some data) None c
        = (final_result ?op c (attempt_outcome (we_server env) ?op ?rq c i), c\<lparr>ac_log := ac_log c @ retry_trace ?rq 0 i\<rparr>)"
    with op show ?thesis by (simp add: client_request_def given_def)
  qed
  then show ?thesis by (simp add: r request_of_def base_url_def)
qed

section \<open>A sample device\<close>

text \<open>It grants the first login and then answers with the given tables in order; table \<open>k\<close> is written as the
  literal \<open>[k]\<close>, which its evaluator reads back.\<close>

definition sample_device :: "webvar_record list list \<Rightarrow> server" where
  "sample_device tables h = (if length h = 1
     then HttpResponse (''{ '' @ render_field ''SESSION_COOKIE'' '' '' '' '' ''abc'' @ ''}'')
     else HttpResponse (render_webvar ''//x'' ''T'' ''T'' (str_nat (length h - 2)) 0 ''};''))"

definition sample_eval :: "webvar_record list list \<Rightarrow> string \<Rightarrow> py_literal option" where
  "sample_eval tables s = map_of (map (\<lambda>(k, rows). (''['' @ str_nat k @ '']'', LitList (map LitDict rows))) (enumerate 0 tables)) s"

definition sample_env :: "webvar_record list list \<Rightarrow> web_env" where
  "sample_env tables = \<lparr>we_literal_eval = sample_eval tables, we_server = sample_device tables,
     we_make_context = (\<lambda>_. \<lparr>minimum_version = TLSv1_2, check_hostname = True, verify_mode = CERT_REQUIRED, verify_locations = []\<rparr>),
     we_load_ca = (\<lambda>_. None), we_has_requests = True, we_container_text = (\<lambda>_. []), we_other_int = (\<lambda>_. Inl TypeError)\<rparr>"

definition sample_conn :: conn_params where
  "sample_conn = \<lparr>cp_host = ''h'', cp_port = 80, cp_username = ''u'', cp_password = ''p'', cp_use_tls = False,
     cp_allow_insecure_transport = True, cp_validate_certs = True, cp_ca_path = None, cp_tls_fingerprint = None,
     cp_timeout = 30, cp_connect_timeout = 10\<rparr>"

end
