(* ===== verification/Ntp_Module.thy ===== *)
theory Ntp_Module
  imports Web_Call
begin

text \<open>
  \<open>plugins/modules/asmb8_ntp.py\<close>: read the NTP configuration, compare it with what is asked for, write all coupled
  fields when something differs, and read back. How \<open>requests\<close> renders a form value is the argument
  \<open>form\<close>; the receipt repeats the fields of the result.
\<close>

section \<open>The module\<close>

record ntp_state =
  ns_server1 :: py_literal
  ns_server2 :: py_literal
  ns_enabled :: "bool option"
  ns_status_raw :: py_literal

record ntp_desired =
  nd_server1 :: py_literal
  nd_server2 :: py_literal
  nd_enabled :: "bool option"

record ntp_params =
  np_server1 :: "string option"
  np_server2 :: "string option"
  np_enabled :: "bool option"

record ntp_result =
  nr_previous :: ntp_state
  nr_desired :: ntp_desired
  nr_observed :: ntp_state

definition decode_ntp_state :: "webvar_record \<Rightarrow> ntp_state" where
  "decode_ntp_state r = (let status_raw = rec_get r ''NTP_STATUS'' in
     \<lparr>ns_server1 = rec_get r ''SERVER_NAME1'', ns_server2 = rec_get r ''SERVER_NAME2'',
      ns_enabled = (if status_raw \<noteq> LitNone then Some (truthy status_raw) else None), ns_status_raw = status_raw\<rparr>)"

definition ntp_plan :: "ntp_state \<Rightarrow> ntp_params \<Rightarrow> ntp_desired \<times> bool" where
  "ntp_plan current params =
     (let desired = \<lparr>nd_server1 = (case np_server1 params of None \<Rightarrow> ns_server1 current | Some s \<Rightarrow> LitStr s),
                     nd_server2 = (case np_server2 params of None \<Rightarrow> ns_server2 current | Some s \<Rightarrow> LitStr s),
                     nd_enabled = (case np_enabled params of None \<Rightarrow> ns_enabled current | Some b \<Rightarrow> Some b)\<rparr>;
          changed = (nd_server1 desired \<noteq> ns_server1 current \<or> nd_server2 desired \<noteq> ns_server2 current
                     \<or> nd_enabled desired \<noteq> ns_enabled current)
      in (desired, changed))"

definition build_setntpcfg_data :: "(py_literal \<Rightarrow> string) \<Rightarrow> ntp_state \<Rightarrow> ntp_desired \<Rightarrow> arguments" where
  "build_setntpcfg_data form current desired =
     [(''NEW_NTPSERVER_NAME1'', form (lit_or (nd_server1 desired) (LitStr []))),
      (''OLD_NTPSERVER_NAME1'', form (lit_or (ns_server1 current) (LitStr []))),
      (''NEW_NTPSERVER_NAME2'', form (lit_or (nd_server2 desired) (LitStr []))),
      (''ISNTPENABLE'', if nd_enabled desired = Some True then ''1'' else ''0'')]"

definition first_record :: "webvar_response \<Rightarrow> webvar_record" where
  "first_record response = (case records response of [] \<Rightarrow> [] | r # _ \<Rightarrow> r)"

definition read_ntp :: "web_env \<Rightarrow> ntp_state web_call" where
  "read_ntp env = call_bind (web_get env ''getntpcfg'' None) (\<lambda>response. call_return (decode_ntp_state (first_record response)))"

text \<open>What follows the read: the prediction, the refusal to guess the coupled flag, or the write and its read-back.\<close>

definition ntp_act :: "web_env \<Rightarrow> (py_literal \<Rightarrow> string) \<Rightarrow> bool \<Rightarrow> ntp_params \<Rightarrow> ntp_state \<Rightarrow> (bool \<times> ntp_result) web_call" where
  "ntp_act env form check_mode params current =
     (let (desired, changed) = ntp_plan current params in
      if \<not> changed \<or> check_mode
      then call_return (changed, \<lparr>nr_previous = current, nr_desired = desired, nr_observed = current\<rparr>)
      else if nd_enabled desired = None
      then call_raise (\<lambda>c. Ikvm \<lparr>error_class = PROTOCOL, endpoint = Some (client_endpoint c),
             operation = Some ''asmb8_ntp.apply'', indeterminate = False, return_value = None\<rparr>)
      else call_bind (web_set env ''setntpcfg'' (build_setntpcfg_data form current desired)) (\<lambda>_.
           call_bind (read_ntp env) (\<lambda>observed.
           call_return (True, \<lparr>nr_previous = current, nr_desired = desired, nr_observed = observed\<rparr>))))"

definition ntp_apply :: "web_env \<Rightarrow> (py_literal \<Rightarrow> string) \<Rightarrow> bool \<Rightarrow> ntp_params \<Rightarrow> (bool \<times> ntp_result) web_call" where
  "ntp_apply env form check_mode params =
     call_bind (web_login env) (\<lambda>_. call_bind (read_ntp env) (ntp_act env form check_mode params))"

definition ntp_main :: "web_env \<Rightarrow> (py_literal \<Rightarrow> string) \<Rightarrow> bool \<Rightarrow> conn_params \<Rightarrow> ntp_params \<Rightarrow> ntp_result module_result" where
  "ntp_main env form check_mode conn params = run_module env conn True (ntp_apply env form check_mode params)"

section \<open>Facts\<close>

text \<open>Asking again for what is already there changes nothing.\<close>

lemma plan_settled:
  assumes "ntp_plan current params = (desired, b)" and "ns_server1 s = nd_server1 desired"
    and "ns_server2 s = nd_server2 desired" and "ns_enabled s = nd_enabled desired"
  shows "ntp_plan s params = (desired, False)"
  using assms by (auto simp: ntp_plan_def Let_def split: option.splits)

lemma plan_enabled:
  "nd_enabled (fst (ntp_plan current params)) = (case np_enabled params of None \<Rightarrow> ns_enabled current | Some b \<Rightarrow> Some b)"
  by (simp add: ntp_plan_def Let_def)

lemma performs_read_ntp: "GetWebvar ''getntpcfg'' None \<in> S \<Longrightarrow> performs env S (read_ntp env)"
  unfolding read_ntp_def by (intro performs_intros)

text \<open>The write of a run, if any: only outside check mode, and the one the plan of the state read asks for.\<close>

definition ntp_writes :: "(py_literal \<Rightarrow> string) \<Rightarrow> bool \<Rightarrow> ntp_params \<Rightarrow> asp_call set" where
  "ntp_writes form check_mode params = {SetWebvar ''setntpcfg'' (build_setntpcfg_data form current desired) None | current desired.
     \<not> check_mode \<and> ntp_plan current params = (desired, True) \<and> nd_enabled desired \<noteq> None}"

lemma ntp_apply_performs:
  "performs env ({Login, GetWebvar ''getntpcfg'' None} \<union> ntp_writes form check params) (ntp_apply env form check params)"
proof -
  have "performs env ({Login, GetWebvar ''getntpcfg'' None} \<union> ntp_writes form check params) (ntp_act env form check params current)" for current
    by (auto simp: ntp_act_def ntp_writes_def split: prod.split intro!: performs_intros performs_read_ntp)
  then show ?thesis
    unfolding ntp_apply_def by (intro performs_intros performs_read_ntp) auto
qed

text \<open>A successful run: what it read, what it planned, and what it sent.\<close>

lemma ntp_apply_success:
  assumes "ntp_apply env form check params c = (Inr (changed, r), c1)"
  obtains tok ca cb where "web_login env c = (Inr tok, ca)" "read_ntp env ca = (Inr (nr_previous r), cb)"
    "ntp_plan (nr_previous r) params = (nr_desired r, changed)"
    "if \<not> changed \<or> check then nr_observed r = nr_previous r \<and> c1 = cb
     else nd_enabled (nr_desired r) \<noteq> None \<and> (\<exists>response cc.
       web_set env ''setntpcfg'' (build_setntpcfg_data form (nr_previous r) (nr_desired r)) cb = (Inr response, cc)
       \<and> read_ntp env cc = (Inr (nr_observed r), c1))"
proof -
  obtain tok ca current cb where s: "web_login env c = (Inr tok, ca)" "read_ntp env ca = (Inr current, cb)"
      "ntp_act env form check params current cb = (Inr (changed, r), c1)"
    using assms unfolding ntp_apply_def by (elim call_bind_Inr) blast
  have "nr_previous r = current"
    and "ntp_plan current params = (nr_desired r, changed)"
    and "if \<not> changed \<or> check then nr_observed r = current \<and> c1 = cb
     else nd_enabled (nr_desired r) \<noteq> None \<and> (\<exists>response cc.
       web_set env ''setntpcfg'' (build_setntpcfg_data form current (nr_desired r)) cb = (Inr response, cc)
       \<and> read_ntp env cc = (Inr (nr_observed r), c1))"
    using s(3) by (auto simp: ntp_act_def call_return_def call_raise_def split: prod.splits if_splits elim!: call_bind_Inr)
  with s show ?thesis by (intro that) auto
qed

section \<open>Properties\<close>

text \<open>C16. The NTP module writes exactly what it reports. Every request of a run is the login, a read, or,
  outside check mode, the write of a planned difference with a known enable state. A success reports
  the plan of the state it read; without a difference, or in check mode, nothing is said to have
  changed on the device; otherwise the write it sent carries the reported desired state, the server
  name it replaces, and the enable flag it read unless a new one was asked for.\<close>

theorem ntp_writes_what_it_reports:
  assumes "ntp_main env form check conn params = (out, rqs)"
  shows "(\<forall>rq \<in> set rqs. rq_method rq = ''GET'' \<or> rq_data rq = Some [(''WEBVAR_USERNAME'', cp_username conn), (''WEBVAR_PASSWORD'', cp_password conn)]
      \<or> (\<not> check \<and> (\<exists>current desired. ntp_plan current params = (desired, True) \<and> nd_enabled desired \<noteq> None
            \<and> rq_data rq = Some (build_setntpcfg_data form current desired))))
    \<and> (\<forall>changed r. out = ExitJson changed r \<longrightarrow> ntp_plan (nr_previous r) params = (nr_desired r, changed)
        \<and> (if \<not> changed \<or> check then nr_observed r = nr_previous r
           else \<exists>rq data. rq \<in> set rqs \<and> rq_method rq = ''POST'' \<and> rq_data rq = Some data
             \<and> map_of data ''NEW_NTPSERVER_NAME1'' = Some (form (lit_or (nd_server1 (nr_desired r)) (LitStr [])))
             \<and> map_of data ''OLD_NTPSERVER_NAME1'' = Some (form (lit_or (ns_server1 (nr_previous r)) (LitStr [])))
             \<and> map_of data ''NEW_NTPSERVER_NAME2'' = Some (form (lit_or (nd_server2 (nr_desired r)) (LitStr [])))
             \<and> map_of data ''ISNTPENABLE'' = Some (if (case np_enabled params of None \<Rightarrow> ns_enabled (nr_previous r) | Some b \<Rightarrow> Some b) = Some True
                 then ''1'' else ''0'')))"
proof (intro conjI ballI allI impI)
  note run = assms [unfolded ntp_main_def]
  fix rq assume rq: "rq \<in> set rqs"
  show "rq_method rq = ''GET'' \<or> rq_data rq = Some [(''WEBVAR_USERNAME'', cp_username conn), (''WEBVAR_PASSWORD'', cp_password conn)]
      \<or> (\<not> check \<and> (\<exists>current desired. ntp_plan current params = (desired, True) \<and> nd_enabled desired \<noteq> None
            \<and> rq_data rq = Some (build_setntpcfg_data form current desired)))"
    by (rule run_module_requests [OF ntp_apply_performs run rq])
      (auto simp: ntp_writes_def dest: init_credentials, blast)
next
  fix changed r assume out: "out = ExitJson changed r"
  obtain c c1 where c: "build_asp_client env conn = Inr c" "ntp_apply env form check params c = (Inr (changed, r), c1)"
      "rqs = sent_requests (ac_log c1)"
    using run_module_exit [OF assms [unfolded ntp_main_def out]] by blast
  note s = ntp_apply_success [OF c(2)]
  show "ntp_plan (nr_previous r) params = (nr_desired r, changed)" by (rule s)
  show "if \<not> changed \<or> check then nr_observed r = nr_previous r
           else \<exists>rq data. rq \<in> set rqs \<and> rq_method rq = ''POST'' \<and> rq_data rq = Some data
             \<and> map_of data ''NEW_NTPSERVER_NAME1'' = Some (form (lit_or (nd_server1 (nr_desired r)) (LitStr [])))
             \<and> map_of data ''OLD_NTPSERVER_NAME1'' = Some (form (lit_or (ns_server1 (nr_previous r)) (LitStr [])))
             \<and> map_of data ''NEW_NTPSERVER_NAME2'' = Some (form (lit_or (nd_server2 (nr_desired r)) (LitStr [])))
             \<and> map_of data ''ISNTPENABLE'' = Some (if (case np_enabled params of None \<Rightarrow> ns_enabled (nr_previous r) | Some b \<Rightarrow> Some b) = Some True
                 then ''1'' else ''0'')"
  proof (rule s)
    fix tok ca cb
    assume plan: "ntp_plan (nr_previous r) params = (nr_desired r, changed)"
      and act: "if \<not> changed \<or> check then nr_observed r = nr_previous r \<and> c1 = cb
       else nd_enabled (nr_desired r) \<noteq> None \<and> (\<exists>response cc.
         web_set env ''setntpcfg'' (build_setntpcfg_data form (nr_previous r) (nr_desired r)) cb = (Inr response, cc)
         \<and> read_ntp env cc = (Inr (nr_observed r), c1))"
    let ?data = "build_setntpcfg_data form (nr_previous r) (nr_desired r)"
    have "nd_enabled (nr_desired r) = (case np_enabled params of None \<Rightarrow> ns_enabled (nr_previous r) | Some b \<Rightarrow> Some b)"
      using plan_enabled [of "nr_previous r" params] by (simp add: plan)
    moreover have "request_of (SetWebvar ''setntpcfg'' ?data None) cb \<in> set rqs" if w: "changed \<and> \<not> check"
    proof -
      obtain response cc where "web_set env ''setntpcfg'' ?data cb = (Inr response, cc)" "read_ntp env cc = (Inr (nr_observed r), c1)"
        using act w by auto
      with web_set_sent performs_extends [OF performs_read_ntp [of UNIV]] show ?thesis unfolding c(3) by blast
    qed
    ultimately show ?thesis
      using act by (auto simp: request_of_def build_request_def build_setntpcfg_data_def intro!: bexI)
  qed
qed

definition sample_ntp_tables :: "webvar_record list list" where
  "sample_ntp_tables = [[[(LitStr ''SERVER_NAME1'', LitStr ''a''), (LitStr ''NTP_STATUS'', LitInt 1)]], [[]],
     [[(LitStr ''SERVER_NAME1'', LitStr ''b''), (LitStr ''NTP_STATUS'', LitInt 1)]]]"

definition sample_ntp_params :: ntp_params where
  "sample_ntp_params = \<lparr>np_server1 = Some ''b'', np_server2 = None, np_enabled = None\<rparr>"

definition sample_form :: "py_literal \<Rightarrow> string" where
  "sample_form x = (case x of LitStr s \<Rightarrow> s | _ \<Rightarrow> [])"

definition sample_ntp_run :: "ntp_result module_result" where
  "sample_ntp_run = ntp_main (sample_env sample_ntp_tables) sample_form False sample_conn sample_ntp_params"

theorem ntp_writes_what_it_reports_witness:
  "\<exists>r rq data. fst sample_ntp_run = ExitJson True r \<and> rq \<in> set (snd sample_ntp_run) \<and> rq_method rq = ''POST''
     \<and> rq_data rq = Some data \<and> map_of data ''ISNTPENABLE'' = Some ''1''"
proof -
  have "case fst sample_ntp_run of ExitJson ch r \<Rightarrow> ch \<and> ns_enabled (nr_previous r) = Some True | _ \<Rightarrow> False"
    by code_simp
  then obtain r where r: "fst sample_ntp_run = ExitJson True r" "ns_enabled (nr_previous r) = Some True"
    by (auto split: module_outcome.splits)
  have "ntp_main (sample_env sample_ntp_tables) sample_form False sample_conn sample_ntp_params = (ExitJson True r, snd sample_ntp_run)"
    using r(1) by (simp add: sample_ntp_run_def prod_eq_iff)
  from ntp_writes_what_it_reports [OF this] r show ?thesis
    by (auto simp: sample_ntp_params_def)
qed

end
