(* ===== verification/Ivtp_Packet.thy ===== *)
theory Ivtp_Packet
  imports Ikvm_Errors
begin

text \<open>
  \<open>plugins/module_utils/ivtp.py\<close>, the part without a socket: the 8-byte IVTP header, the packet
  builders of the KVM handshake, the classification of the BMC's status and stop codes, and the
  reassembly of video fragments. Python's integers are \<open>int\<close> where a caller supplies them and
  \<open>nat\<close> where they are decoded from bytes.
\<close>

unbundle bit_operations_syntax

section \<open>Header\<close>

definition IVTP_HEADER_LEN :: nat where [simp]: "IVTP_HEADER_LEN = 8"

record ivtp_header =
  iv_type :: int
  pkt_size :: int
  iv_status :: int

definition ivtp_marshal :: "ivtp_header \<Rightarrow> bytes" where
  "ivtp_marshal h = mask_le 2 (iv_type h) @ mask_le 4 (pkt_size h) @ mask_le 2 (iv_status h)"

definition ivtp_parse :: "bytes \<Rightarrow> exn + ivtp_header" where
  "ivtp_parse data = (if length data < IVTP_HEADER_LEN then Inl (ProtocolError ''ivtp.parse_header'')
     else Inr \<lparr>iv_type = int (le_nat (pslice 0 2 data)), pkt_size = int (le_nat (pslice 2 6 data)),
               iv_status = int (le_nat (pslice 6 8 data))\<rparr>)"

section \<open>Opcodes\<close>

definition OP_REFRESH_VIDEO_SCREEN :: int where [simp]: "OP_REFRESH_VIDEO_SCREEN = 5"
definition OP_RESUME_REDIRECTION :: int where [simp]: "OP_RESUME_REDIRECTION = 6"
definition OP_STOP_SESSION_IMMEDIATE :: int where [simp]: "OP_STOP_SESSION_IMMEDIATE = 8"
definition OP_VALIDATE_VIDEO_SESSION :: int where [simp]: "OP_VALIDATE_VIDEO_SESSION = 18"
definition OP_VALIDATE_VIDEO_SESSION_RESPONSE :: int where [simp]: "OP_VALIDATE_VIDEO_SESSION_RESPONSE = 19"
definition OP_GET_WEB_TOKEN :: int where [simp]: "OP_GET_WEB_TOKEN = 21"
definition OP_SESSION_ACCEPTED :: int where [simp]: "OP_SESSION_ACCEPTED = 23"
definition OP_VIDEO_FRAGMENT :: int where [simp]: "OP_VIDEO_FRAGMENT = 25"

definition TOKEN_TYPE_WEB_SESSION :: int where [simp]: "TOKEN_TYPE_WEB_SESSION = 0"

section \<open>Packet builders\<close>

definition TOKEN_FIELD_LEN :: nat where [simp]: "TOKEN_FIELD_LEN = 130"
definition IP_FIELD_LEN :: nat where [simp]: "IP_FIELD_LEN = 65"
definition USERNAME_FIELD_LEN :: nat where [simp]: "USERNAME_FIELD_LEN = 129"
definition VIDEO_PACKET_SIZE :: nat where
  "VIDEO_PACKET_SIZE = TOKEN_FIELD_LEN + IP_FIELD_LEN + USERNAME_FIELD_LEN"

definition fixed_ascii :: "string \<Rightarrow> nat \<Rightarrow> string \<Rightarrow> exn + bytes" where
  "fixed_ascii text width op = (case encode_ascii text of
      None \<Rightarrow> Inl UnicodeEncodeError
    | Some encoded \<Rightarrow>
        if length encoded > width then Inl (ProtocolError op)
        else Inr (encoded @ replicate (width - length encoded) 0))"

definition build_validate_video_session :: "string \<Rightarrow> string \<Rightarrow> string \<Rightarrow> int \<Rightarrow> exn + bytes" where
  "build_validate_video_session token client_ip username token_type =
     (let op = ''ivtp.build_validate_video_session'' in
      case fixed_ascii token (TOKEN_FIELD_LEN - 1) op of
        Inl e \<Rightarrow> Inl e
      | Inr t \<Rightarrow>
          (case fixed_ascii client_ip IP_FIELD_LEN op of
             Inl e \<Rightarrow> Inl e
           | Inr ip_field \<Rightarrow>
               (case fixed_ascii username USERNAME_FIELD_LEN op of
                  Inl e \<Rightarrow> Inl e
                | Inr username_field \<Rightarrow>
                    (let body = (mask_byte token_type # t) @ ip_field @ username_field in
                     if length body \<noteq> VIDEO_PACKET_SIZE then Inl AssertionError
                     else Inr (ivtp_marshal \<lparr>iv_type = OP_VALIDATE_VIDEO_SESSION,
                                 pkt_size = int (length body), iv_status = 0\<rparr> @ body)))))"

definition build_get_web_token :: "string \<Rightarrow> exn + bytes" where
  "build_get_web_token token = (case encode_ascii token of
      None \<Rightarrow> Inl UnicodeEncodeError
    | Some body \<Rightarrow> Inr (ivtp_marshal \<lparr>iv_type = OP_GET_WEB_TOKEN, pkt_size = int (length body), iv_status = 0\<rparr> @ body))"

definition bodyless :: "int \<Rightarrow> int \<Rightarrow> bytes" where
  "bodyless op status = ivtp_marshal \<lparr>iv_type = op, pkt_size = 0, iv_status = status\<rparr>"

definition build_resume_redirection :: bytes where
  "build_resume_redirection = bodyless OP_RESUME_REDIRECTION 0"

definition build_refresh_video_screen :: bytes where
  "build_refresh_video_screen = bodyless OP_REFRESH_VIDEO_SCREEN 0"

definition build_stop_session :: "int \<Rightarrow> bytes" where
  "build_stop_session status = bodyless OP_STOP_SESSION_IMMEDIATE status"

section \<open>Status and stop codes\<close>

definition SESSION_INVALID :: int where [simp]: "SESSION_INVALID = 0"
definition SESSION_VALID :: int where [simp]: "SESSION_VALID = 1"
definition SESSION_KVM_DISABLED :: int where [simp]: "SESSION_KVM_DISABLED = 2"
definition SESSION_INVALID_VIDEO_TOKEN :: int where [simp]: "SESSION_INVALID_VIDEO_TOKEN = 3"
definition SESSION_INVALID_CDROM_TOKEN :: int where [simp]: "SESSION_INVALID_CDROM_TOKEN = 4"
definition SESSION_INVALID_FLOPPY_TOKEN :: int where [simp]: "SESSION_INVALID_FLOPPY_TOKEN = 5"

definition VALIDATE_STATUS_NAMES :: "int \<rightharpoonup> string" where
  "VALIDATE_STATUS_NAMES = [SESSION_INVALID \<mapsto> ''invalid_session'', SESSION_VALID \<mapsto> ''valid_session'',
     SESSION_KVM_DISABLED \<mapsto> ''kvm_disabled'', SESSION_INVALID_VIDEO_TOKEN \<mapsto> ''invalid_video_session_token'',
     SESSION_INVALID_CDROM_TOKEN \<mapsto> ''invalid_cdrom_session_token'',
     SESSION_INVALID_FLOPPY_TOKEN \<mapsto> ''invalid_floppy_session_token'']"

definition unknown_name :: "int \<Rightarrow> string" where
  "unknown_name status = ''unknown('' @ str_int status @ '')''"

definition validate_status_name :: "int \<Rightarrow> string" where
  "validate_status_name status = (case VALIDATE_STATUS_NAMES status of Some n \<Rightarrow> n | None \<Rightarrow> unknown_name status)"

definition parse_validate_video_session_response :: "bytes \<Rightarrow> exn + (int \<times> int option)" where
  "parse_validate_video_session_response body = (case body of
      [] \<Rightarrow> Inl (ProtocolError ''ivtp.parse_validate_video_session_response'')
    | b # rest \<Rightarrow> Inr (uint b, (case rest of [] \<Rightarrow> None | c # _ \<Rightarrow> Some (uint c))))"

definition validate_status_error :: "int \<Rightarrow> string option \<Rightarrow> exn" where
  "validate_status_error status ep = (let op = ''ivtp.open_channel'' in
     if status = SESSION_KVM_DISABLED then raises UNSUPPORTED_CAPABILITY op ep
     else if status \<in> {SESSION_INVALID, SESSION_INVALID_VIDEO_TOKEN, SESSION_INVALID_CDROM_TOKEN,
                       SESSION_INVALID_FLOPPY_TOKEN} then raises AUTHENTICATION op ep
     else raises PROTOCOL op ep)"

definition STOP_GENERIC :: int where [simp]: "STOP_GENERIC = 2"
definition STOP_CONF_CHANGE :: int where [simp]: "STOP_CONF_CHANGE = 5"
definition STOP_WEB_LOGOUT :: int where [simp]: "STOP_WEB_LOGOUT = 7"
definition STOP_LICENSE_EXPIRED :: int where [simp]: "STOP_LICENSE_EXPIRED = 8"
definition STOP_TIMED_OUT :: int where [simp]: "STOP_TIMED_OUT = 9"
definition STOP_KVM_DISCONNECT :: int where [simp]: "STOP_KVM_DISCONNECT = 10"

definition STOP_REASON_NAMES :: "int \<rightharpoonup> string" where
  "STOP_REASON_NAMES = [STOP_GENERIC \<mapsto> ''generic'', STOP_CONF_CHANGE \<mapsto> ''conf_change'',
     STOP_WEB_LOGOUT \<mapsto> ''web_logout'', STOP_LICENSE_EXPIRED \<mapsto> ''license_expired'',
     STOP_TIMED_OUT \<mapsto> ''timed_out'', STOP_KVM_DISCONNECT \<mapsto> ''kvm_disconnect'']"

definition stop_reason_name :: "int \<Rightarrow> string" where
  "stop_reason_name status = (case STOP_REASON_NAMES status of Some n \<Rightarrow> n | None \<Rightarrow> unknown_name status)"

definition stop_session_error :: "int \<Rightarrow> string option \<Rightarrow> exn" where
  "stop_session_error status ep = (let op = ''ivtp.open_channel'' in
     if status = STOP_WEB_LOGOUT then raises AUTHENTICATION op ep
     else if status = STOP_LICENSE_EXPIRED then raises UNSUPPORTED_CAPABILITY op ep
     else if status = STOP_TIMED_OUT then raises TIMEOUT op ep
     else if status = STOP_KVM_DISCONNECT then raises INVALID_STATE op ep
     else raises REMOTE_OPERATION op ep)"

section \<open>Video fragments\<close>

definition FRAG_LAST_BIT :: nat where [simp]: "FRAG_LAST_BIT = 0x8000"
definition FRAG_NUM_MASK :: nat where [simp]: "FRAG_NUM_MASK = 0x7FFF"
definition MAX_FRAME_BYTES :: nat where "MAX_FRAME_BYTES = 9216000"

definition frag_is_first :: "nat \<Rightarrow> bool" where
  "frag_is_first n \<longleftrightarrow> n AND FRAG_NUM_MASK = 0"

definition frag_is_last :: "nat \<Rightarrow> bool" where
  "frag_is_last n \<longleftrightarrow> n AND FRAG_LAST_BIT \<noteq> 0"

definition parse_video_fragment :: "bytes \<Rightarrow> exn + (nat \<times> bool \<times> bool \<times> bytes)" where
  "parse_video_fragment body = (if length body < 2 then Inl (ProtocolError ''ivtp.parse_video_fragment'')
     else let frag_num = le_nat (pslice 0 2 body)
          in Inr (frag_num, frag_is_first frag_num, frag_is_last frag_num, drop 2 body))"

record reassembler =
  buf :: bytes

definition reassembler_init :: reassembler where
  "reassembler_init = \<lparr>buf = []\<rparr>"

definition feed :: "reassembler \<Rightarrow> nat \<Rightarrow> bytes \<Rightarrow> (exn + bytes option) \<times> reassembler" where
  "feed r frag_num data =
     (let r1 = (if frag_is_first frag_num then r\<lparr>buf := []\<rparr> else r) in
      if length (buf r1) + length data > MAX_FRAME_BYTES then (Inl (ProtocolError ''ivtp.capture_one_frame''), r1)
      else let b = buf r1 @ data in
           if frag_is_last frag_num then (Inr (Some b), r1\<lparr>buf := []\<rparr>) else (Inr None, r1\<lparr>buf := b\<rparr>))"

section \<open>Facts about the codec\<close>

lemma length_ivtp_marshal [simp]: "length (ivtp_marshal h) = 8"
  by (simp add: ivtp_marshal_def)

definition ivtp_wire_header :: "ivtp_header \<Rightarrow> ivtp_header" where
  "ivtp_wire_header h = \<lparr>iv_type = iv_type h mod 2 ^ 16, pkt_size = pkt_size h mod 2 ^ 32,
     iv_status = iv_status h mod 2 ^ 16\<rparr>"

lemma ivtp_parse_marshal: "ivtp_parse (ivtp_marshal h @ rest) = Inr (ivtp_wire_header h)"
proof -
  let ?a = "mask_le 2 (iv_type h)" and ?b = "mask_le 4 (pkt_size h)" and ?c = "mask_le 2 (iv_status h)"
  have "pslice 0 2 (?a @ ?b @ ?c @ rest) = ?a" "pslice 2 6 (?a @ ?b @ ?c @ rest) = ?b"
    "pslice 6 8 (?a @ ?b @ ?c @ rest) = ?c"
    by (simp_all add: pslice_def)
  then show ?thesis
    by (simp add: ivtp_parse_def ivtp_marshal_def ivtp_wire_header_def)
qed

lemma ivtp_marshal_parse:
  assumes "length data = 8" and "ivtp_parse data = Inr h"
  shows "ivtp_marshal h = data"
proof -
  have m: "mask_le k (int (le_nat bs)) = bs" if "length bs = k" for k bs
    using that le_nat_less [of bs] by (auto simp: mask_le_def nat_mod_distrib nat_power_eq)
  have "ivtp_marshal h = pslice 0 2 data @ pslice 2 6 data @ pslice 6 8 data"
    using assms m [of "pslice 0 2 data" 2] m [of "pslice 2 6 data" 4] m [of "pslice 6 8 data" 2]
    by (auto simp: ivtp_parse_def ivtp_marshal_def)
  also have "\<dots> = data"
    using assms(1) pslice_adjacent [of 0 2 6 data] pslice_adjacent [of 0 6 8 data]
    by (simp flip: append_assoc)
  finally show ?thesis .
qed

lemma fixed_ascii_length: "fixed_ascii text w op = Inr bs \<Longrightarrow> length bs = w"
  by (auto simp: fixed_ascii_def split: option.splits if_splits)

lemma frag_num_and:
  assumes "n < 0x10000"
  shows "frag_is_first n \<longleftrightarrow> n = 0 \<or> n = 0x8000" and "frag_is_last n \<longleftrightarrow> 0x8000 \<le> n"
proof -
  have "n AND 0x7FFF = n mod 0x8000"
    using take_bit_eq_mask [of 15 n] by (simp add: mask_eq_exp_minus_1 take_bit_eq_mod)
  then show "frag_is_first n \<longleftrightarrow> n = 0 \<or> n = 0x8000" using assms by (auto simp: frag_is_first_def mod_eq_0_iff_dvd)
  have "n AND 0x8000 \<noteq> 0 \<longleftrightarrow> bit n 15"
    using and_exp_eq_0_iff_not_bit [of n 15] by simp
  also have "\<dots> \<longleftrightarrow> odd (n div 0x8000)" by (simp add: bit_iff_odd)
  also have "n div 0x8000 = (if 0x8000 \<le> n then 1 else 0)" using assms by auto
  also have "odd \<dots> \<longleftrightarrow> 0x8000 \<le> n" by simp
  finally show "frag_is_last n \<longleftrightarrow> 0x8000 \<le> n" by (simp add: frag_is_last_def)
qed

section \<open>Properties\<close>

text \<open>The IVTP header codec: a marshalled header is 8 bytes and parses, whatever follows, to the
  header with its fields reduced to 16, 32 and 16 bits; conversely any 8 bytes are the marshalled form
  of the header they parse to. Fewer than 8 bytes are a protocol error.\<close>

theorem ivtp_header_roundtrip:
  "length (ivtp_marshal h) = 8 \<and> ivtp_parse (ivtp_marshal h @ rest) = Inr (ivtp_wire_header h)
   \<and> (case ivtp_parse data of
        Inl e \<Rightarrow> length data < 8 \<and> e = ProtocolError ''ivtp.parse_header''
      | Inr g \<Rightarrow> 8 \<le> length data \<and> ivtp_marshal g = take 8 data)"
proof -
  have "ivtp_marshal g = take 8 data" if "8 \<le> length data" "ivtp_parse data = Inr g" for g
  proof (rule ivtp_marshal_parse)
    show "length (take 8 data) = 8" using that(1) by simp
    show "ivtp_parse (take 8 data) = Inr g" using that by (simp add: ivtp_parse_def pslice_def drop_take min_def)
  qed
  moreover have "if length data < 8 then ivtp_parse data = Inl (ProtocolError ''ivtp.parse_header'')
      else \<exists>g. ivtp_parse data = Inr g" by (simp add: ivtp_parse_def)
  ultimately show ?thesis by (auto simp: ivtp_parse_marshal split: if_splits)
qed

text \<open>The reassembler fed with a sequence of fragments, up to the first error.\<close>

fun feed_all :: "reassembler \<Rightarrow> (nat \<times> bytes) list \<Rightarrow> bytes list \<times> reassembler" where
  "feed_all r [] = ([], r)"
| "feed_all r ((n, d) # ps) = (case feed r n d of
      (Inl e, r1) \<Rightarrow> ([], r1)
    | (Inr None, r1) \<Rightarrow> feed_all r1 ps
    | (Inr (Some f), r1) \<Rightarrow> (let (fs, r2) = feed_all r1 ps in (f # fs, r2)))"

lemma feed_bound:
  assumes "length (buf r) \<le> MAX_FRAME_BYTES" and "feed r n d = (x, r1)"
  shows "length (buf r1) \<le> MAX_FRAME_BYTES \<and> (\<forall>f. x = Inr (Some f) \<longrightarrow> length f \<le> MAX_FRAME_BYTES)"
  using assms by (auto simp: feed_def Let_def split: if_splits)

lemma feed_all_bound:
  assumes "length (buf r) \<le> MAX_FRAME_BYTES"
  shows "length (buf (snd (feed_all r ps))) \<le> MAX_FRAME_BYTES
    \<and> list_all (\<lambda>f. length f \<le> MAX_FRAME_BYTES) (fst (feed_all r ps))"
  using assms
proof (induction ps arbitrary: r)
  case (Cons p ps)
  obtain n d x r1 where p: "p = (n, d)" and f: "feed r n d = (x, r1)" by (cases p) fastforce
  have b: "length (buf r1) \<le> MAX_FRAME_BYTES" "\<forall>f. x = Inr (Some f) \<longrightarrow> length f \<le> MAX_FRAME_BYTES"
    using feed_bound [OF Cons.prems f] by simp_all
  with Cons.IH [OF b(1)] show ?case
    by (auto simp: p f split_def Let_def split: sum.splits option.splits)
qed simp

text \<open>Memory bound of the frame reassembler: whatever fragments arrive, in whatever order and
  with whatever numbers, neither the buffer nor a completed frame ever exceeds \<open>MAX_FRAME_BYTES\<close>.\<close>

theorem reassembler_bounded:
  "length (buf (snd (feed_all reassembler_init ps))) \<le> MAX_FRAME_BYTES
   \<and> list_all (\<lambda>f. length f \<le> MAX_FRAME_BYTES) (fst (feed_all reassembler_init ps))"
  by (rule feed_all_bound) (simp add: reassembler_init_def)

end
