(* ===== verification/Ivtp_Channel.thy ===== *)
theory Ivtp_Channel
  imports Ivtp_Packet Sock_Transport
begin

text \<open>
  \<open>plugins/module_utils/ivtp.py\<close>, the part that drives a transport: \<open>SocketTransport\<close>,
  \<open>read_packet\<close>, the handshake \<open>open_channel\<close> and \<open>capture_one_frame\<close>. The two reading loops
  are unbounded in the source; here not returning is \<open>None\<close>. The TLS wrap of the dialled socket
  is an argument, as its outcome is decided by the \<open>ssl\<close> module.
\<close>

section \<open>\<open>SocketTransport\<close>\<close>

definition ivtp_recv_exact :: "sock recv_op" where
  "ivtp_recv_exact s n = recv_exact_with
     (\<lambda>chunks. Ikvm \<lparr>error_class = TIMEOUT, endpoint = None, operation = Some ''ivtp.read_packet'',
        indeterminate = (chunks \<noteq> []), return_value = None\<rparr>)
     (ConnectionErr ''ivtp.read_packet'') s n"

definition ivtp_send_all :: "sock send_op" where
  "ivtp_send_all s data = (case sock_sendall data s of
      (True, s1) \<Rightarrow> (Inr (), s1)
    | (False, s1) \<Rightarrow> (Inl (ConnectionErr ''ivtp.write_packet''), s1))"

datatype ivtp_dial = IvtpDialled sock | IvtpDialTimeout | IvtpDialOSError

datatype tls_wrap = TlsWrapped sock | TlsSSLError | TlsOSError

text \<open>The result and the dialled socket, which a failed wrap leaves closed.\<close>

definition ivtp_connect ::
  "ivtp_dial \<Rightarrow> (sock \<Rightarrow> tls_wrap) option \<Rightarrow> string \<Rightarrow> (exn + sock) \<times> sock option" where
  "ivtp_connect dial ssl_context ep = (case dial of
      IvtpDialTimeout \<Rightarrow> (Inl (raises CONNECTION ''ivtp.connect'' (Some ep)), None)
    | IvtpDialOSError \<Rightarrow> (Inl (raises CONNECTION ''ivtp.connect'' (Some ep)), None)
    | IvtpDialled raw \<Rightarrow>
        (case ssl_context of
           None \<Rightarrow> (Inr raw, Some raw)
         | Some wrap_socket \<Rightarrow>
             (case wrap_socket raw of
                TlsWrapped s \<Rightarrow> (Inr s, Some raw)
              | TlsSSLError \<Rightarrow> (Inl (raises TLS_VALIDATION ''ivtp.connect'' (Some ep)), Some (sock_close raw))
              | TlsOSError \<Rightarrow> (Inl (raises CONNECTION ''ivtp.connect'' (Some ep)), Some (sock_close raw)))))"

section \<open>Packets\<close>

definition ivtp_read_packet :: "'t recv_op \<Rightarrow> 't \<Rightarrow> (exn + ivtp_header \<times> bytes) \<times> 't" where
  "ivtp_read_packet recv t = (case recv t IVTP_HEADER_LEN of
      (Inl e, t1) \<Rightarrow> (Inl e, t1)
    | (Inr hdr, t1) \<Rightarrow>
        (case ivtp_parse hdr of
           Inl e \<Rightarrow> (Inl e, t1)
         | Inr h \<Rightarrow>
             if pkt_size h > int MAX_FRAME_BYTES then (Inl (ProtocolError ''ivtp.read_packet''), t1)
             else (case (if pkt_size h \<noteq> 0 then recv t1 (nat (pkt_size h)) else (Inr [], t1)) of
                 (Inl e, t2) \<Rightarrow> (Inl e, t2)
               | (Inr body, t2) \<Rightarrow> (Inr (h, body), t2))))"

section \<open>Handshake\<close>

record channel_facts =
  session_accepted :: bool
  greeting_body_len :: nat
  validate_status :: int
  cf_validate_status_name :: string
  validate_sub_status :: "int option"
  resumed :: bool

text \<open>The \<open>while status is None\<close> loop: everything but the response and a stop is discarded.\<close>

partial_function (option) await_validation ::
  "'t recv_op \<Rightarrow> 't \<Rightarrow> ((exn + int \<times> int option) \<times> 't) option" where
  "await_validation recv t = (case ivtp_read_packet recv t of
      (Inl e, t1) \<Rightarrow> Some (Inl e, t1)
    | (Inr (h, body), t1) \<Rightarrow>
        if iv_type h = OP_VALIDATE_VIDEO_SESSION_RESPONSE
        then Some (parse_validate_video_session_response body, t1)
        else if iv_type h = OP_STOP_SESSION_IMMEDIATE
        then Some (Inl (stop_session_error (iv_status h) None), t1)
        else await_validation recv t1)"

definition send_built :: "'t send_op \<Rightarrow> exn + bytes \<Rightarrow> 't \<Rightarrow> (exn + unit) \<times> 't" where
  "send_built send built t = (case built of Inl e \<Rightarrow> (Inl e, t) | Inr data \<Rightarrow> send t data)"

text \<open>The tail of \<open>open_channel\<close>, from the status on.\<close>

definition conclude_channel ::
  "'t send_op \<Rightarrow> nat \<Rightarrow> int \<Rightarrow> int option \<Rightarrow> 't \<Rightarrow> (exn + channel_facts) \<times> 't" where
  "conclude_channel send greeting_len status sub t =
     (if status \<noteq> SESSION_VALID then (Inl (validate_status_error status None), t)
      else case send t build_resume_redirection of
          (Inl e, t1) \<Rightarrow> (Inl e, t1)
        | (Inr _, t1) \<Rightarrow>
            (Inr \<lparr>session_accepted = True, greeting_body_len = greeting_len, validate_status = status,
                 cf_validate_status_name = validate_status_name status, validate_sub_status = sub,
                 resumed = True\<rparr>, t1))"

definition open_channel ::
  "'t recv_op \<Rightarrow> 't send_op \<Rightarrow> (nat option \<Rightarrow> 't \<Rightarrow> 't) \<Rightarrow> string \<Rightarrow> string \<Rightarrow> string \<Rightarrow> nat \<Rightarrow> bool
   \<Rightarrow> 't \<Rightarrow> ((exn + channel_facts) \<times> 't) option" where
  "open_channel recv send set_timeout token client_ip username handshake_timeout send_get_web_token t =
     (case ivtp_read_packet recv (set_timeout (Some handshake_timeout) t) of
        (Inl e, t1) \<Rightarrow> Some (Inl e, t1)
      | (Inr (h, body), t1) \<Rightarrow>
          if iv_type h \<noteq> OP_SESSION_ACCEPTED then Some (Inl (ProtocolError ''ivtp.open_channel''), t1)
          else
            (case (if send_get_web_token then send_built send (build_get_web_token token) t1 else (Inr (), t1)) of
               (Inl e, t2) \<Rightarrow> Some (Inl e, t2)
             | (Inr _, t2) \<Rightarrow>
                 (case send_built send (build_validate_video_session token client_ip username TOKEN_TYPE_WEB_SESSION) t2 of
                    (Inl e, t3) \<Rightarrow> Some (Inl e, t3)
                  | (Inr _, t3) \<Rightarrow>
                      (case await_validation recv t3 of
                         None \<Rightarrow> None
                       | Some (Inl e, t4) \<Rightarrow> Some (Inl e, t4)
                       | Some (Inr (status, sub), t4) \<Rightarrow>
                           Some (conclude_channel send (length body) status sub t4)))))"

section \<open>One frame\<close>

partial_function (option) capture_loop ::
  "'t recv_op \<Rightarrow> reassembler \<Rightarrow> 't \<Rightarrow> ((exn + bytes) \<times> 't) option" where
  "capture_loop recv r t = (case ivtp_read_packet recv t of
      (Inl e, t1) \<Rightarrow> Some (Inl e, t1)
    | (Inr (h, body), t1) \<Rightarrow>
        if iv_type h = OP_VIDEO_FRAGMENT then
          (case parse_video_fragment body of
             Inl e \<Rightarrow> Some (Inl e, t1)
           | Inr (frag_num, is_first, is_last, data) \<Rightarrow>
               (case feed r frag_num data of
                  (Inl e, r1) \<Rightarrow> Some (Inl e, t1)
                | (Inr (Some frame), r1) \<Rightarrow> Some (Inr frame, t1)
                | (Inr None, r1) \<Rightarrow> capture_loop recv r1 t1))
        else if iv_type h = OP_STOP_SESSION_IMMEDIATE
        then Some (Inl (stop_session_error (iv_status h) None), t1)
        else capture_loop recv r t1)"

definition capture_one_frame ::
  "'t recv_op \<Rightarrow> 't send_op \<Rightarrow> (nat option \<Rightarrow> 't \<Rightarrow> 't) \<Rightarrow> nat \<Rightarrow> bool \<Rightarrow> 't \<Rightarrow> ((exn + bytes) \<times> 't) option" where
  "capture_one_frame recv send set_timeout frame_timeout request_refresh t =
     (let t0 = set_timeout (Some frame_timeout) t in
      case (if request_refresh then send t0 build_refresh_video_screen else (Inr (), t0)) of
        (Inl e, t1) \<Rightarrow> Some (Inl e, t1)
      | (Inr _, t1) \<Rightarrow> capture_loop recv reassembler_init t1)"

section \<open>The socket is a transport\<close>

lemma ivtp_send_all_frame:
  assumes "ivtp_send_all s data = (r, s1)"
  shows "rx s1 = rx s" and "sock_closed s1 = sock_closed s"
    and "r = Inr () \<Longrightarrow> wire s1 = wire s @ data" and "r = Inl e \<Longrightarrow> wire s1 = wire s"
  using assms by (auto simp: ivtp_send_all_def sock_sendall_def split: if_splits list.splits)

interpretation ivtp_sock: transport ivtp_recv_exact ivtp_send_all "\<lambda>s. stream (rx s)" wire
proof unfold_locales
  fix s s1 :: sock and n bs e
  show "length bs = n \<and> stream (rx s) = bs @ stream (rx s1) \<and> wire s1 = wire s"
    if "ivtp_recv_exact s n = (Inr bs, s1)"
    using that recv_exact_with_ok recv_exact_with_frame by (auto simp: ivtp_recv_exact_def)
  show "wire s1 = wire s" if "ivtp_recv_exact s n = (Inl e, s1)"
    using that recv_exact_with_frame by (auto simp: ivtp_recv_exact_def)
  show "wire s1 = wire s @ bs \<and> stream (rx s1) = stream (rx s)" if "ivtp_send_all s bs = (Inr (), s1)"
    using ivtp_send_all_frame [OF that] by simp
  show "wire s1 = wire s \<and> stream (rx s1) = stream (rx s)" if "ivtp_send_all s bs = (Inl e, s1)"
    using ivtp_send_all_frame [OF that] by simp
qed

section \<open>The stages of the handshake\<close>

lemma open_channel_stages:
  assumes oc: "open_channel recv send set_timeout token ip user tmo flag t = Some (r, t1)"
    and r1: "ivtp_read_packet recv (set_timeout (Some tmo) t) = (x, t2)"
    and r2: "(if flag then send_built send (build_get_web_token token) t2 else (Inr (), t2)) = (y, t3)"
    and r3: "send_built send (build_validate_video_session token ip user TOKEN_TYPE_WEB_SESSION) t3 = (z, t4)"
  obtains (greeting) e where "r = Inl e" and "t1 = t2"
    | (token) e where "r = Inl e" and "t1 = t3" and "y = Inl e"
    | (request) e where "r = Inl e" and "t1 = t4" and "y = Inr ()"
    | (await) e where "r = Inl e" and "y = Inr ()" and "z = Inr ()" and "await_validation recv t4 = Some (Inl e, t1)"
    | (concluded) n st sub t5 where "y = Inr ()" and "z = Inr ()" and "await_validation recv t4 = Some (Inr (st, sub), t5)"
        and "conclude_channel send n st sub t5 = (r, t1)"
        and "\<exists>h body. x = Inr (h, body) \<and> iv_type h = OP_SESSION_ACCEPTED"
proof (cases x)
  case (Inl e)
  with oc r1 greeting show ?thesis by (auto simp: open_channel_def)
next
  case (Inr hb)
  obtain h body where hb: "hb = (h, body)" by fastforce
  show ?thesis
  proof (cases "iv_type h = OP_SESSION_ACCEPTED")
    case False
    with oc r1 Inr hb greeting show ?thesis by (auto simp: open_channel_def)
  next
    case acc: True
    show ?thesis
    proof (cases y)
      case (Inl e)
      with oc r1 Inr hb acc r2 token show ?thesis by (auto simp: open_channel_def)
    next
      case y: (Inr u)
      show ?thesis
      proof (cases z)
        case (Inl e)
        with oc r1 \<open>x = Inr hb\<close> hb acc r2 y r3 request show ?thesis by (auto simp: open_channel_def)
      next
        case z: (Inr v)
        have "(case await_validation recv t4 of None \<Rightarrow> None | Some (Inl e, t4) \<Rightarrow> Some (Inl e, t4)
            | Some (Inr (status, sub), t4) \<Rightarrow> Some (conclude_channel send (length body) status sub t4)) = Some (r, t1)"
          using oc r1 \<open>x = Inr hb\<close> hb acc r2 y r3 z by (simp add: open_channel_def)
        moreover have "\<exists>h body. x = Inr (h, body) \<and> iv_type h = OP_SESSION_ACCEPTED" using \<open>x = Inr hb\<close> hb acc by blast
        ultimately show ?thesis using y z await concluded
          by (cases "await_validation recv t4") (auto split: sum.splits)
      qed
    qed
  qed
qed

section \<open>What goes out\<close>

context transport
begin

lemma recv_wired: "recv_exact t n = (x, t1) \<Longrightarrow> wired t1 = wired t"
  using recv_ok recv_err by (cases x) blast+

lemma ivtp_read_packet_wired:
  assumes "ivtp_read_packet recv_exact t = (r, t1)"
  shows "wired t1 = wired t"
proof -
  obtain x t2 where r1: "recv_exact t 8 = (x, t2)" by fastforce
  note w2 = recv_wired [OF r1]
  show ?thesis
  proof (cases "\<exists>hdr h. x = Inr hdr \<and> ivtp_parse hdr = Inr h \<and> \<not> pkt_size h > int MAX_FRAME_BYTES")
    case False
    with assms r1 w2 show ?thesis
      by (cases x) (auto simp: ivtp_read_packet_def split: sum.splits)
  next
    case True
    then obtain hdr h where x: "x = Inr hdr" and h: "ivtp_parse hdr = Inr h" and m: "\<not> pkt_size h > int MAX_FRAME_BYTES"
      by blast
    obtain y t3 where r2: "(if pkt_size h \<noteq> 0 then recv_exact t2 (nat (pkt_size h)) else (Inr [], t2)) = (y, t3)"
      by fastforce
    have "wired t3 = wired t2" using r2 recv_wired [of t2 "nat (pkt_size h)" y t3] by (auto split: if_splits)
    moreover have "t1 = t3" using assms r1 x h m r2 by (cases y) (simp_all add: ivtp_read_packet_def)
    ultimately show ?thesis using w2 by simp
  qed
qed

lemma await_validation_wired:
  assumes "await_validation recv_exact t = Some (r, t1)"
  shows "wired t1 = wired t"
proof -
  have "recv = recv_exact \<longrightarrow> wired (snd x) = wired t" if "await_validation recv t = Some x" for recv t x
  proof (rule await_validation.raw_induct [where P = "\<lambda>recv t x. recv = recv_exact \<longrightarrow> wired (snd x) = wired t", OF _ that])
    fix loop :: "'t recv_op \<Rightarrow> 't \<Rightarrow> ((exn + int \<times> int option) \<times> 't) option" and recv t x
    assume IH: "\<And>recv t x. loop recv t = Some x \<Longrightarrow> recv = recv_exact \<longrightarrow> wired (snd x) = wired t"
      and eq: "(case ivtp_read_packet recv t of (Inl e, t1) \<Rightarrow> Some (Inl e, t1)
        | (Inr (h, body), t1) \<Rightarrow>
          if iv_type h = OP_VALIDATE_VIDEO_SESSION_RESPONSE
          then Some (parse_validate_video_session_response body, t1)
          else if iv_type h = OP_STOP_SESSION_IMMEDIATE
          then Some (Inl (stop_session_error (iv_status h) None), t1) else loop recv t1) = Some x"
    show "recv = recv_exact \<longrightarrow> wired (snd x) = wired t"
    proof
      assume r: "recv = recv_exact"
      obtain y t1 where rd: "ivtp_read_packet recv t = (y, t1)" by fastforce
      have w: "wired t1 = wired t" by (rule ivtp_read_packet_wired [OF rd [unfolded r]])
      have "t1 = snd x \<or> loop recv t1 = Some x"
        using eq rd by (cases y) (auto split: if_splits prod.splits)
      with w IH [of recv t1 x] r show "wired (snd x) = wired t" by auto
    qed
  qed
  from this [OF assms] show ?thesis by simp
qed

lemma send_built_wired:
  "send_built send_all built t = (Inr (), t1) \<Longrightarrow> \<exists>data. built = Inr data \<and> wired t1 = wired t @ data"
  "send_built send_all built t = (Inl e, t1) \<Longrightarrow> wired t1 = wired t"
  using send_ok [of t _ t1] send_err [of t _ e t1] by (auto simp: send_built_def split: sum.splits)

lemma conclude_channel_wired:
  assumes "conclude_channel send_all n st sub t = (r, t1)"
  shows "r = Inr f \<Longrightarrow> wired t1 = wired t @ build_resume_redirection \<and> st = SESSION_VALID \<and> validate_status f = st"
    and "r = Inl e \<Longrightarrow> wired t1 = wired t"
  using assms send_ok [of t _ t1] send_err [of t _ e t1]
  by (auto simp: conclude_channel_def split: if_splits prod.splits sum.splits)

lemma open_channel_wired:
  assumes oc: "open_channel recv_exact send_all set_timeout token ip user tmo flag t = Some (r, t1)"
    and st: "\<And>x t. wired (set_timeout x t) = wired t"
    and web: "build_get_web_token token = Inr web"
    and val: "build_validate_video_session token ip user TOKEN_TYPE_WEB_SESSION = Inr vpkt"
  shows "r = Inr f \<Longrightarrow> validate_status f = SESSION_VALID
      \<and> wired t1 = wired t @ (if flag then web else []) @ vpkt @ build_resume_redirection"
    and "r = Inl e \<Longrightarrow> \<exists>sent. prefix sent ((if flag then web else []) @ vpkt) \<and> wired t1 = wired t @ sent"
proof -
  let ?w = "if flag then web else []"
  obtain x t2 where r1: "ivtp_read_packet recv_exact (set_timeout (Some tmo) t) = (x, t2)" by fastforce
  have w2: "wired t2 = wired t" using ivtp_read_packet_wired [OF r1] st by simp
  obtain y t3 where r2: "(if flag then send_built send_all (Inr web) t2 else (Inr (), t2)) = (y, t3)" by fastforce
  have w3: "wired t3 = wired t @ (if y = Inr () then ?w else [])"
    using r2 w2 send_built_wired(1) [of "Inr web" t2 t3] send_built_wired(2) [of "Inr web" t2 _ t3]
    by (cases y) (auto split: if_splits)
  obtain z t4 where r3: "send_built send_all (Inr vpkt) t3 = (z, t4)" by fastforce
  have w4: "wired t4 = wired t3 @ (if z = Inr () then vpkt else [])"
    using r3 send_built_wired(1) [of "Inr vpkt" t3 t4] send_built_wired(2) [of "Inr vpkt" t3 _ t4]
    by (cases z) auto
  have early: "\<exists>sent. prefix sent (?w @ vpkt) \<and> wired t5 = wired t @ sent"
    if "t5 = t2 \<or> t5 = t3 \<or> y = Inr () \<and> wired t5 = wired t4" for t5
    using that w2 w3 w4 by (auto split: if_splits)
  note st = open_channel_stages [OF oc r1, of y t3 z t4]
  show "validate_status f = SESSION_VALID \<and> wired t1 = wired t @ ?w @ vpkt @ build_resume_redirection" if "r = Inr f"
  proof (rule st)
    fix n s sub t5
    assume y: "y = Inr ()" "z = Inr ()" and aw: "await_validation recv_exact t4 = Some (Inr (s, sub), t5)"
      and c: "conclude_channel send_all n s sub t5 = (r, t1)"
    from conclude_channel_wired(1) [OF c that] await_validation_wired [OF aw] w3 w4 y show ?thesis by simp
  qed (use r2 r3 web val that in auto)
  show "\<exists>sent. prefix sent (?w @ vpkt) \<and> wired t1 = wired t @ sent" if "r = Inl e"
  proof (rule early, rule st)
    fix n s sub t5
    assume y: "y = Inr ()" and aw: "await_validation recv_exact t4 = Some (Inr (s, sub), t5)"
      and c: "conclude_channel send_all n s sub t5 = (r, t1)"
    from conclude_channel_wired(2) [OF c that] await_validation_wired [OF aw] y
    show "t1 = t2 \<or> t1 = t3 \<or> y = Inr () \<and> wired t1 = wired t4" by simp
  qed (use r2 r3 web val await_validation_wired [of t4] in auto)
qed

end

section \<open>What comes in\<close>

text \<open>The bytes of one packet: a header that parses, and as many bytes of body as it announces.\<close>

definition packet_bytes :: "bytes \<Rightarrow> ivtp_header \<Rightarrow> bytes \<Rightarrow> bool" where
  "packet_bytes bs h body \<longleftrightarrow> (\<exists>hdr. bs = hdr @ body \<and> length hdr = IVTP_HEADER_LEN \<and> ivtp_parse hdr = Inr h
     \<and> length body = nat (pkt_size h))"

definition skipped :: "bytes \<Rightarrow> bool" where
  "skipped bs \<longleftrightarrow> (\<exists>h body. packet_bytes bs h body
     \<and> iv_type h \<notin> {OP_VALIDATE_VIDEO_SESSION_RESPONSE, OP_STOP_SESSION_IMMEDIATE})"

text \<open>A stretch of input that ends with the BMC's answer to the validation request: packets that are neither an
  answer nor a stop, and then the answer with its status byte.\<close>

definition answers :: "bytes \<Rightarrow> int \<Rightarrow> bool" where
  "answers bs st \<longleftrightarrow> (\<exists>noise resp h body. bs = concat noise @ resp \<and> list_all skipped noise
     \<and> packet_bytes resp h body \<and> iv_type h = OP_VALIDATE_VIDEO_SESSION_RESPONSE \<and> body \<noteq> [] \<and> uint (hd body) = st)"

lemma answers_skip: "skipped m \<Longrightarrow> answers bs st \<Longrightarrow> answers (m @ bs) st"
proof -
  assume m: "skipped m" and "answers bs st"
  then obtain noise resp h body where "bs = concat noise @ resp" "list_all skipped noise" "packet_bytes resp h body"
    "iv_type h = OP_VALIDATE_VIDEO_SESSION_RESPONSE" "body \<noteq> []" "uint (hd body) = st" by (auto simp: answers_def)
  with m show ?thesis unfolding answers_def
    by (intro exI [of _ "m # noise"] exI [of _ resp] exI [of _ h] exI [of _ body]) simp
qed

lemma answers_now:
  assumes "packet_bytes bs h body" and "iv_type h = OP_VALIDATE_VIDEO_SESSION_RESPONSE"
    and "parse_validate_video_session_response body = Inr (st, sub)"
  shows "answers bs st"
  unfolding answers_def
  by (intro exI [of _ "[]"] exI [of _ bs] exI [of _ h] exI [of _ body])
    (use assms in \<open>auto simp: parse_validate_video_session_response_def split: list.splits\<close>)

context transport
begin

lemma ivtp_read_packet_pending:
  assumes "ivtp_read_packet recv_exact t = (Inr (h, body), t1)"
  shows "\<exists>bs. pending t = bs @ pending t1 \<and> packet_bytes bs h body"
proof -
  obtain x t2 where r1: "recv_exact t IVTP_HEADER_LEN = (x, t2)" by fastforce
  with assms obtain hdr where x: "x = Inr hdr" and h: "ivtp_parse hdr = Inr h"
    and r2: "(if pkt_size h \<noteq> 0 then recv_exact t2 (nat (pkt_size h)) else (Inr [], t2)) = (Inr body, t1)"
    by (cases x) (auto simp: ivtp_read_packet_def split: sum.splits if_splits prod.splits)
  have "length hdr = IVTP_HEADER_LEN \<and> pending t = hdr @ pending t2" using recv_ok [OF r1 [unfolded x]] by simp
  moreover have "length body = nat (pkt_size h) \<and> pending t2 = body @ pending t1"
    using r2 recv_ok [of t2 "nat (pkt_size h)" body t1] by (auto split: if_splits)
  ultimately show ?thesis using h by (auto simp: packet_bytes_def intro!: exI [of _ "hdr @ body"])
qed

lemma await_validation_pending:
  assumes "await_validation recv_exact t = Some (Inr (st, sub), t1)"
  shows "\<exists>bs. pending t = bs @ pending t1 \<and> answers bs st"
proof -
  let ?P = "\<lambda>recv t x. recv = recv_exact \<longrightarrow> (\<forall>st sub. fst x = Inr (st, sub) \<longrightarrow>
      (\<exists>bs. pending t = bs @ pending (snd x) \<and> answers bs st))"
  have "?P recv t x" if "await_validation recv t = Some x" for recv t x
  proof (rule await_validation.raw_induct [where P = ?P, OF _ that])
    fix loop :: "'t recv_op \<Rightarrow> 't \<Rightarrow> ((exn + int \<times> int option) \<times> 't) option" and recv t x
    assume IH: "\<And>recv t x. loop recv t = Some x \<Longrightarrow> ?P recv t x"
      and eq: "(case ivtp_read_packet recv t of (Inl e, t1) \<Rightarrow> Some (Inl e, t1)
        | (Inr (h, body), t1) \<Rightarrow>
          if iv_type h = OP_VALIDATE_VIDEO_SESSION_RESPONSE
          then Some (parse_validate_video_session_response body, t1)
          else if iv_type h = OP_STOP_SESSION_IMMEDIATE
          then Some (Inl (stop_session_error (iv_status h) None), t1) else loop recv t1) = Some x"
    show "?P recv t x"
    proof (intro impI allI)
      fix st sub assume r: "recv = recv_exact" and f: "fst x = Inr (st, sub)"
      obtain h body t1 where rd: "ivtp_read_packet recv_exact t = (Inr (h, body), t1)"
        using eq r f by (cases "ivtp_read_packet recv t") (auto split: sum.splits)
      obtain bs where bs: "pending t = bs @ pending t1" "packet_bytes bs h body"
        using ivtp_read_packet_pending [OF rd] by blast
      show "\<exists>bs. pending t = bs @ pending (snd x) \<and> answers bs st"
      proof (cases "iv_type h = OP_VALIDATE_VIDEO_SESSION_RESPONSE")
        case True
        with eq r rd f have "parse_validate_video_session_response body = Inr (st, sub)" "snd x = t1" by auto
        with answers_now [OF bs(2) True] bs(1) show ?thesis by blast
      next
        case False
        with eq r rd f have l: "loop recv_exact t1 = Some x" and "iv_type h \<noteq> OP_STOP_SESSION_IMMEDIATE"
          by (auto split: if_splits)
        with False bs(2) have "skipped bs" by (auto simp: skipped_def)
        moreover obtain cs where "pending t1 = cs @ pending (snd x)" "answers cs st" using IH [OF l] f by blast
        ultimately show ?thesis using bs(1) answers_skip by (intro exI [of _ "bs @ cs"]) simp
      qed
    qed
  qed
  from this [OF assms] show ?thesis by simp
qed

lemma send_built_pending: "send_built send_all built t = (r, t1) \<Longrightarrow> pending t1 = pending t"
  using send_ok [of t _ t1] send_err [of t _ _ t1] by (auto simp: send_built_def split: sum.splits) (metis old.unit.exhaust sumE)+

lemma open_channel_received:
  assumes oc: "open_channel recv_exact send_all set_timeout token ip user tmo flag t = Some (Inr f, t1)"
    and st: "\<And>x t. pending (set_timeout x t) = pending t"
  shows "\<exists>greeting h body bs. pending t = greeting @ bs @ pending t1 \<and> packet_bytes greeting h body
    \<and> iv_type h = OP_SESSION_ACCEPTED \<and> answers bs SESSION_VALID"
proof -
  obtain x t2 where r1: "ivtp_read_packet recv_exact (set_timeout (Some tmo) t) = (x, t2)" by fastforce
  obtain y t3 where r2: "(if flag then send_built send_all (build_get_web_token token) t2 else (Inr (), t2)) = (y, t3)" by fastforce
  obtain z t4 where r3: "send_built send_all (build_validate_video_session token ip user TOKEN_TYPE_WEB_SESSION) t3 = (z, t4)"
    by fastforce
  have p4: "pending t4 = pending t2" using r2 send_built_pending [OF r3] send_built_pending [of _ t2 y t3] by (auto split: if_splits)
  show ?thesis
  proof (rule open_channel_stages [OF oc r1 r2 r3])
    fix n s sub t5
    assume aw: "await_validation recv_exact t4 = Some (Inr (s, sub), t5)" and c: "conclude_channel send_all n s sub t5 = (Inr f, t1)"
      and "\<exists>h body. x = Inr (h, body) \<and> iv_type h = OP_SESSION_ACCEPTED"
    then obtain h body where x: "x = Inr (h, body)" "iv_type h = OP_SESSION_ACCEPTED" by blast
    obtain g where g: "pending t = g @ pending t2" "packet_bytes g h body"
      using ivtp_read_packet_pending [OF r1 [unfolded x(1)]] st by auto
    obtain bs where bs: "pending t4 = bs @ pending t5" "answers bs s" using await_validation_pending [OF aw] by blast
    have "s = SESSION_VALID" using c by (auto simp: conclude_channel_def split: if_splits)
    moreover have "pending t1 = pending t5"
      using c send_ok [of t5 build_resume_redirection t1] by (auto simp: conclude_channel_def split: if_splits prod.splits sum.splits)
    ultimately show ?thesis using g bs p4 x(2) by (intro exI [of _ g] exI [of _ h] exI [of _ body] exI [of _ bs]) simp
  qed simp_all
qed

end

section \<open>Both loops return on every finite socket script\<close>

lemma ivtp_read_packet_weight:
  assumes "ivtp_read_packet ivtp_recv_exact s = (Inr hb, s1)"
  shows "rx_weight (rx s1) < rx_weight (rx s)"
proof -
  obtain x s2 where r1: "ivtp_recv_exact s 8 = (x, s2)" by fastforce
  then obtain hdr where x: "x = Inr hdr" using assms by (cases x) (auto simp: ivtp_read_packet_def)
  have w2: "rx_weight (rx s2) < rx_weight (rx s)"
    using r1 x recv_exact_with_ok(3) [of _ _ s 8 hdr s2] by (simp add: ivtp_recv_exact_def)
  obtain h where h: "ivtp_parse hdr = Inr h" "\<not> pkt_size h > int MAX_FRAME_BYTES"
    using assms r1 x by (auto simp: ivtp_read_packet_def split: sum.splits if_splits)
  obtain y s3 where r2: "(if pkt_size h \<noteq> 0 then ivtp_recv_exact s2 (nat (pkt_size h)) else (Inr [], s2)) = (y, s3)"
    by fastforce
  have "s1 = s3" using assms r1 x h r2 by (cases y) (auto simp: ivtp_read_packet_def)
  moreover have "rx_weight (rx s3) \<le> rx_weight (rx s2)"
    using r2 recv_exact_with_frame(4) [of _ _ s2 "nat (pkt_size h)" y s3]
    by (auto simp: ivtp_recv_exact_def split: if_splits)
  ultimately show ?thesis using w2 by simp
qed

lemma await_validation_returns: "\<exists>r s1. await_validation ivtp_recv_exact s = Some (r, s1)"
proof (induction "rx_weight (rx s)" arbitrary: s rule: less_induct)
  case less
  obtain x s1 where r: "ivtp_read_packet ivtp_recv_exact s = (x, s1)" by fastforce
  show ?case
  proof (cases x)
    case (Inl e)
    with r show ?thesis by (simp add: await_validation.simps [of _ s])
  next
    case (Inr hb)
    with r less [OF ivtp_read_packet_weight [OF r [unfolded Inr]]] show ?thesis
      by (cases hb) (simp add: await_validation.simps [of _ s])
  qed
qed

lemma capture_loop_returns: "\<exists>r s1. capture_loop ivtp_recv_exact ra s = Some (r, s1)"
proof (induction "rx_weight (rx s)" arbitrary: s ra rule: less_induct)
  case less
  obtain x s1 where r: "ivtp_read_packet ivtp_recv_exact s = (x, s1)" by fastforce
  show ?case
  proof (cases x)
    case (Inl e)
    with r show ?thesis by (simp add: capture_loop.simps [of _ ra s])
  next
    case (Inr hb)
    with r less [OF ivtp_read_packet_weight [OF r [unfolded Inr]]] show ?thesis
      by (cases hb) (auto simp: capture_loop.simps [of _ ra s] split: sum.splits prod.splits option.splits)
  qed
qed

lemma open_channel_returns:
  "\<exists>r s1. open_channel ivtp_recv_exact send st token ip user tmo flag s = Some (r, s1)"
proof -
  obtain x t2 where r1: "ivtp_read_packet ivtp_recv_exact (st (Some tmo) s) = (x, t2)" by fastforce
  obtain y t3 where r2: "(if flag then send_built send (build_get_web_token token) t2 else (Inr (), t2)) = (y, t3)"
    by fastforce
  obtain z t4 where r3: "send_built send (build_validate_video_session token ip user TOKEN_TYPE_WEB_SESSION) t3 = (z, t4)"
    by fastforce
  obtain v t5 where r4: "await_validation ivtp_recv_exact t4 = Some (v, t5)"
    using await_validation_returns [of t4] by blast
  have "open_channel ivtp_recv_exact send st token ip user tmo flag s \<noteq> None"
  proof (cases x)
    case (Inl e)
    with r1 show ?thesis by (simp add: open_channel_def)
  next
    case (Inr hb)
    then obtain h body where "x = Inr (h, body)" by (cases hb) auto
    with r1 r2 r3 r4 show ?thesis
      by (cases flag; cases y; cases z; cases v) (simp_all add: open_channel_def case_prod_beta)
  qed
  then show ?thesis by auto
qed

section \<open>Traffic\<close>

definition ivtp_packet :: "int \<Rightarrow> int \<Rightarrow> bytes \<Rightarrow> bytes" where
  "ivtp_packet typ status body =
     ivtp_marshal \<lparr>iv_type = typ, pkt_size = int (length body), iv_status = status\<rparr> @ body"

definition u16 :: "int \<Rightarrow> bool" where "u16 x \<longleftrightarrow> 0 \<le> x \<and> x < 2 ^ 16"

lemma ivtp_read_pieces:
  assumes pc: "pieces (ivtp_packet typ status body @ rest) es" and opn: "\<not> sock_closed s"
    and rx: "rx s = es @ later" and max: "length body \<le> MAX_FRAME_BYTES" and u: "u16 typ" "u16 status"
  shows "\<exists>es'. pieces rest es' \<and> ivtp_read_packet ivtp_recv_exact s =
    (Inr (\<lparr>iv_type = typ, pkt_size = int (length body), iv_status = status\<rparr>, body), s\<lparr>rx := es' @ later\<rparr>)"
proof -
  let ?h = "\<lparr>iv_type = typ, pkt_size = int (length body), iv_status = status\<rparr>"
  have "pieces (ivtp_marshal ?h @ (body @ rest)) es" using pc by (simp add: ivtp_packet_def)
  from recv_exact_with_pieces [OF this opn rx] obtain es1 where es1: "pieces (body @ rest) es1"
    and r1: "ivtp_recv_exact s 8 = (Inr (ivtp_marshal ?h), s\<lparr>rx := es1 @ later\<rparr>)"
    by (auto simp: ivtp_recv_exact_def)
  have m: "int (length body) < 2 ^ 32" using max by (simp add: MAX_FRAME_BYTES_def)
  have p: "ivtp_parse (ivtp_marshal ?h) = Inr ?h"
    using ivtp_parse_marshal [of ?h "[]"] u m by (simp add: ivtp_wire_header_def u16_def)
  from recv_exact_with_pieces [OF es1, of "s\<lparr>rx := es1 @ later\<rparr>" later] opn obtain es2 where es2: "pieces rest es2"
    and r2: "ivtp_recv_exact (s\<lparr>rx := es1 @ later\<rparr>) (length body) = (Inr body, s\<lparr>rx := es2 @ later\<rparr>)"
    by (auto simp: ivtp_recv_exact_def)
  have "body = [] \<Longrightarrow> s\<lparr>rx := es1 @ later\<rparr> = s\<lparr>rx := es2 @ later\<rparr>"
    using r2 by (simp add: ivtp_recv_exact_def recv_exact_with_def)
  then show ?thesis
    using es2 r1 r2 p max by (intro exI [of _ es2]) (auto simp: ivtp_read_packet_def)
qed

text \<open>A message as its type, status and body.\<close>

type_synonym ivtp_msg = "int \<times> int \<times> bytes"

fun enc :: "ivtp_msg \<Rightarrow> bytes" where
  "enc (typ, status, body) = ivtp_packet typ status body"

fun msg_ok :: "ivtp_msg \<Rightarrow> bool" where
  "msg_ok (typ, status, body) \<longleftrightarrow> u16 typ \<and> u16 status \<and> length body \<le> MAX_FRAME_BYTES"

definition encs :: "ivtp_msg list \<Rightarrow> bytes" where
  "encs ms = concat (map enc ms)"

lemma encs_simps [simp]: "encs [] = []" "encs (m # ms) = enc m @ encs ms" "encs (a @ b) = encs a @ encs b"
  by (simp_all add: encs_def)

lemma ivtp_read_msg:
  assumes "pieces (enc m @ rest) es" and "msg_ok m" and "\<not> sock_closed s" and "rx s = es @ later"
  obtains es' h where "pieces rest es'" and "iv_type h = fst m" and "iv_status h = fst (snd m)"
    and "ivtp_read_packet ivtp_recv_exact s = (Inr (h, snd (snd m)), s\<lparr>rx := es' @ later\<rparr>)"
proof -
  obtain ty status body where m: "m = (ty, status, body)" by (metis prod.collapse)
  with assms(1) have "pieces (ivtp_packet ty status body @ rest) es" by simp
  from ivtp_read_pieces [OF this assms(3,4)] assms(2) m that show ?thesis by auto
qed

lemma await_validation_traffic:
  assumes "pieces (encs noise @ enc (OP_VALIDATE_VIDEO_SESSION_RESPONSE, st, body) @ rest) es"
    and "list_all msg_ok noise" and "msg_ok (OP_VALIDATE_VIDEO_SESSION_RESPONSE, st, body)"
    and "\<forall>m \<in> set noise. fst m \<notin> {OP_VALIDATE_VIDEO_SESSION_RESPONSE, OP_STOP_SESSION_IMMEDIATE}"
    and "\<not> sock_closed s" and "rx s = es @ later"
  shows "\<exists>es'. pieces rest es' \<and> await_validation ivtp_recv_exact s =
    Some (parse_validate_video_session_response body, s\<lparr>rx := es' @ later\<rparr>)"
  using assms
proof (induction noise arbitrary: es s)
  case Nil
  obtain es' h where "pieces rest es'" "iv_type h = OP_VALIDATE_VIDEO_SESSION_RESPONSE"
    "ivtp_read_packet ivtp_recv_exact s = (Inr (h, body), s\<lparr>rx := es' @ later\<rparr>)"
    using ivtp_read_msg [OF _ Nil.prems(3,5,6), of rest] Nil.prems(1)
    by (metis append_Nil encs_simps(1) fst_conv snd_conv)
  then show ?case by (auto simp: await_validation.simps [of _ s])
next
  case (Cons m ms)
  let ?rest = "encs ms @ enc (OP_VALIDATE_VIDEO_SESSION_RESPONSE, st, body) @ rest"
  have m: "msg_ok m" and p: "pieces (enc m @ ?rest) es" using Cons.prems(1,2) by simp_all
  obtain es1 h where es1: "pieces ?rest es1" and h: "iv_type h = fst m"
    and rd: "ivtp_read_packet ivtp_recv_exact s = (Inr (h, snd (snd m)), s\<lparr>rx := es1 @ later\<rparr>)"
    by (rule ivtp_read_msg [OF p m Cons.prems(5,6)])
  have "\<exists>es'. pieces rest es' \<and> await_validation ivtp_recv_exact (s\<lparr>rx := es1 @ later\<rparr>) =
      Some (parse_validate_video_session_response body, s\<lparr>rx := es1 @ later\<rparr>\<lparr>rx := es' @ later\<rparr>)"
    by (rule Cons.IH [OF es1]) (use Cons.prems in auto)
  then show ?case using rd h Cons.prems(4) by (auto simp: await_validation.simps [of _ s])
qed

lemma ivtp_send_clear:
  "sends s = [] \<Longrightarrow> \<not> sock_closed s \<Longrightarrow> ivtp_send_all s d = (Inr (), s\<lparr>wire := wire s @ d\<rparr>)"
  by (simp add: ivtp_send_all_def sock_sendall_def)

lemma open_channel_handshake:
  assumes pc: "pieces (enc (OP_SESSION_ACCEPTED, gst, gbody) @ encs noise
      @ enc (OP_VALIDATE_VIDEO_SESSION_RESPONSE, st, 1 # sub) @ rest) es"
    and ok: "msg_ok (OP_SESSION_ACCEPTED, gst, gbody)" "list_all msg_ok noise"
      "msg_ok (OP_VALIDATE_VIDEO_SESSION_RESPONSE, st, 1 # sub)"
    and noise: "\<forall>m \<in> set noise. fst m \<notin> {OP_VALIDATE_VIDEO_SESSION_RESPONSE, OP_STOP_SESSION_IMMEDIATE}"
    and s: "\<not> sock_closed s" "rx s = es @ later" "sends s = []"
    and web: "build_get_web_token token = Inr web"
    and val: "build_validate_video_session token ip user TOKEN_TYPE_WEB_SESSION = Inr vpkt"
  shows "\<exists>f s1 es'. open_channel ivtp_recv_exact ivtp_send_all sock_settimeout token ip user tmo flag s = Some (Inr f, s1)
    \<and> validate_status f = SESSION_VALID \<and> resumed f \<and> greeting_body_len f = length gbody
    \<and> wire s1 = wire s @ (if flag then web else []) @ vpkt @ build_resume_redirection
    \<and> rx s1 = es' @ later \<and> pieces rest es'"
proof -
  let ?s0 = "sock_settimeout (Some tmo) s"
  let ?rest = "encs noise @ enc (OP_VALIDATE_VIDEO_SESSION_RESPONSE, st, 1 # sub) @ rest"
  have s0: "\<not> sock_closed ?s0" "rx ?s0 = es @ later" "sends ?s0 = []" "wire ?s0 = wire s"
    using s by (simp_all add: sock_settimeout_def)
  obtain es1 h where es1: "pieces ?rest es1" and h: "iv_type h = OP_SESSION_ACCEPTED"
    and r1: "ivtp_read_packet ivtp_recv_exact ?s0 = (Inr (h, gbody), ?s0\<lparr>rx := es1 @ later\<rparr>)"
    using ivtp_read_msg [OF pc ok(1) s0(1,2)] by (metis fst_conv snd_conv)
  define s2 where "s2 = ?s0\<lparr>rx := es1 @ later\<rparr>"
  define s3 where "s3 = s2\<lparr>wire := wire s @ (if flag then web else []) @ vpkt\<rparr>"
  have s3: "rx s3 = es1 @ later" "\<not> sock_closed s3" "sends s3 = []" using s0 by (simp_all add: s3_def s2_def)
  obtain es2 where es2: "pieces rest es2"
    and aw: "await_validation ivtp_recv_exact s3 =
      Some (parse_validate_video_session_response (1 # sub), s3\<lparr>rx := es2 @ later\<rparr>)"
    using await_validation_traffic [OF es1 ok(2,3) noise s3(2,1)] by blast
  have "sends s2 = []" "\<not> sock_closed s2" "wire s2 = wire s" using s0 by (simp_all add: s2_def)
  then have snd: "(if flag then send_built ivtp_send_all (Inr web) s2 else (Inr (), s2))
      = (Inr (), s2\<lparr>wire := wire s @ (if flag then web else [])\<rparr>)"
    by (simp add: send_built_def ivtp_send_clear)
  have "send_built ivtp_send_all (Inr vpkt) (s2\<lparr>wire := wire s @ (if flag then web else [])\<rparr>) = (Inr (), s3)"
    using s0 by (simp add: send_built_def ivtp_send_clear s2_def s3_def)
  with snd r1 h aw web val s3 es2 show ?thesis
    by (cases flag) (simp_all add: open_channel_def s2_def [symmetric] parse_validate_video_session_response_def
        conclude_channel_def ivtp_send_clear s3_def)
qed

section \<open>Reassembly\<close>

text \<open>The pieces of one frame numbered from \<open>i\<close>, the last one marked, and the messages that carry
  them among messages of other types.\<close>

fun number_from :: "nat \<Rightarrow> bytes list \<Rightarrow> (nat \<times> bytes) list" where
  "number_from i [] = []"
| "number_from i [d] = [(i + FRAG_LAST_BIT, d)]"
| "number_from i (d # e # ds) = (i, d) # number_from (Suc i) (e # ds)"

definition frag_msg :: "nat \<times> bytes \<Rightarrow> ivtp_msg" where
  "frag_msg p = (OP_VIDEO_FRAGMENT, 0, le_bytes 2 (fst p) @ snd p)"

inductive carries :: "ivtp_msg list \<Rightarrow> (nat \<times> bytes) list \<Rightarrow> bool" where
  none: "carries [] []"
| frag: "carries ms ps \<Longrightarrow> carries (frag_msg p # ms) (p # ps)"
| other: "carries ms ps \<Longrightarrow> ps \<noteq> [] \<Longrightarrow> fst m \<notin> {OP_VIDEO_FRAGMENT, OP_STOP_SESSION_IMMEDIATE} \<Longrightarrow> carries (m # ms) ps"

lemma parse_frag_msg:
  "n < 2 ^ 16 \<Longrightarrow> parse_video_fragment (le_bytes 2 n @ d) = Inr (n, frag_is_first n, frag_is_last n, d)"
  by (simp add: parse_video_fragment_def pslice_append_left)

lemma feed_number:
  assumes "i + length (d # ds) \<le> 0x8000" and "acc = (if i = 0 then [] else buf r)"
    and "length acc + length (concat (d # ds)) \<le> MAX_FRAME_BYTES"
  shows "ds = [] \<Longrightarrow> \<exists>r1. feed r (i + FRAG_LAST_BIT) d = (Inr (Some (acc @ d)), r1)"
    and "ds \<noteq> [] \<Longrightarrow> \<exists>r1. feed r i d = (Inr None, r1) \<and> buf r1 = acc @ d"
proof -
  have i: "i < 0x8000" using assms(1) by simp
  show "\<exists>r1. feed r (i + FRAG_LAST_BIT) d = (Inr (Some (acc @ d)), r1)" if "ds = []"
    using assms that i frag_num_and [of "i + 0x8000"] by (cases "i = 0") (auto simp: feed_def Let_def)
  show "\<exists>r1. feed r i d = (Inr None, r1) \<and> buf r1 = acc @ d" if "ds \<noteq> []"
    using assms that i frag_num_and [of i] by (cases "i = 0") (auto simp: feed_def Let_def)
qed

lemma number_from_Nil [simp]: "number_from i ds = [] \<longleftrightarrow> ds = []"
  by (cases "(i, ds)" rule: number_from.cases) auto

lemma capture_loop_traffic:
  assumes "carries ms (number_from i ds)" and "ds \<noteq> []" and "i + length ds \<le> 0x8000"
    and "acc = (if i = 0 then [] else buf r)" and "length acc + length (concat ds) \<le> MAX_FRAME_BYTES"
    and "pieces (encs ms @ rest) es" and "list_all msg_ok ms" and "\<not> sock_closed s" and "rx s = es @ later"
  shows "\<exists>es'. pieces rest es' \<and> capture_loop ivtp_recv_exact r s = Some (Inr (acc @ concat ds), s\<lparr>rx := es' @ later\<rparr>)"
  using assms
proof (induction ms "number_from i ds" arbitrary: i ds acc r es s rule: carries.induct)
  case none
  then show ?case using number_from_Nil [of i ds] by simp
next
  case (other ms m)
  obtain es1 h where es1: "pieces (encs ms @ rest) es1" and h: "iv_type h = fst m"
    and rd: "ivtp_read_packet ivtp_recv_exact s = (Inr (h, snd (snd m)), s\<lparr>rx := es1 @ later\<rparr>)"
    by (rule ivtp_read_msg [of m "encs ms @ rest" es s later]) (use other.prems in auto)
  have "\<exists>es'. pieces rest es' \<and> capture_loop ivtp_recv_exact r (s\<lparr>rx := es1 @ later\<rparr>) =
      Some (Inr (acc @ concat ds), s\<lparr>rx := es1 @ later\<rparr>\<lparr>rx := es' @ later\<rparr>)"
    by (rule other.hyps(2) [OF refl other.prems(1-4) es1]) (use other.prems in auto)
  then show ?case using rd h other.hyps(4) by (auto simp: capture_loop.simps [of _ r s])
next
  case (frag ms ps p)
  obtain es1 h where es1: "pieces (encs ms @ rest) es1" and h: "iv_type h = OP_VIDEO_FRAGMENT"
    and rd: "ivtp_read_packet ivtp_recv_exact s = (Inr (h, le_bytes 2 (fst p) @ snd p), s\<lparr>rx := es1 @ later\<rparr>)"
    by (rule ivtp_read_msg [of "frag_msg p" "encs ms @ rest" es s later])
      (use frag.prems in \<open>auto simp: frag_msg_def simp del: le_bytes.simps\<close>)
  obtain d ds' where ds: "ds = d # ds'" using frag.prems(1) by (cases ds) auto
  note fd = feed_number [OF frag.prems(2) [unfolded ds] frag.prems(3) frag.prems(4) [unfolded ds]]
  show ?case
  proof (cases "ds' = []")
    case True
    then have p: "p = (i + FRAG_LAST_BIT, d)" and ms: "ms = []"
      using frag.hyps(1,3) ds by (auto elim: carries.cases)
    have "parse_video_fragment (le_bytes 2 (fst p) @ snd p) =
        Inr (fst p, frag_is_first (fst p), frag_is_last (fst p), snd p)"
      by (rule parse_frag_msg) (use p frag.prems(2) ds in simp)
    with fd(1) [OF True] p ms rd h es1 ds True show ?thesis
      by (auto simp: capture_loop.simps [of _ r s] simp del: le_bytes.simps)
  next
    case False
    then have p: "p = (i, d)" and ps: "ps = number_from (Suc i) ds'"
      using frag.hyps(3) ds by (cases ds'; simp)+
    obtain r1 where r1: "feed r i d = (Inr None, r1)" "buf r1 = acc @ d" using fd(2) [OF False] by blast
    have "parse_video_fragment (le_bytes 2 (fst p) @ snd p) =
        Inr (fst p, frag_is_first (fst p), frag_is_last (fst p), snd p)"
      by (rule parse_frag_msg) (use p frag.prems(2) ds in simp)
    moreover have "\<exists>es'. pieces rest es' \<and> capture_loop ivtp_recv_exact r1 (s\<lparr>rx := es1 @ later\<rparr>) =
        Some (Inr ((acc @ d) @ concat ds'), s\<lparr>rx := es1 @ later\<rparr>\<lparr>rx := es' @ later\<rparr>)"
      by (rule frag.hyps(2) [OF ps]) (use False frag.prems ds es1 r1 in \<open>auto simp: frag_msg_def\<close>)
    ultimately show ?thesis using rd h p r1 ds
      by (auto simp: capture_loop.simps [of _ r s] simp del: le_bytes.simps)
  qed
qed

section \<open>Properties\<close>

text \<open>C27. Video is resumed only for a session the BMC declared valid: when \<open>open_channel\<close> succeeds, the bytes it
  took off the socket are a session-accepted packet, packets that are neither a validation response nor a
  stop, and a validation response whose status byte is \<open>SESSION_VALID\<close>; and the packets sent are, in this order,
  the web token (if asked for), the validation request and the resume command. When it fails, at most a
  leading part of the first two was sent and the resume command was not.\<close>

theorem resume_only_when_valid:
  assumes "open_channel ivtp_recv_exact ivtp_send_all sock_settimeout token ip user tmo flag s = Some (r, s1)"
    and "build_get_web_token token = Inr web"
    and "build_validate_video_session token ip user TOKEN_TYPE_WEB_SESSION = Inr vpkt"
  shows "case r of
      Inr f \<Rightarrow> validate_status f = SESSION_VALID \<and> resumed f
        \<and> (\<exists>greeting h body noise resp h1 body1. stream (rx s) = greeting @ concat noise @ resp @ stream (rx s1)
            \<and> packet_bytes greeting h body \<and> iv_type h = OP_SESSION_ACCEPTED \<and> list_all skipped noise
            \<and> packet_bytes resp h1 body1 \<and> iv_type h1 = OP_VALIDATE_VIDEO_SESSION_RESPONSE
            \<and> body1 \<noteq> [] \<and> uint (hd body1) = SESSION_VALID)
        \<and> wire s1 = wire s @ (if flag then web else []) @ vpkt @ build_resume_redirection
    | Inl e \<Rightarrow> \<exists>sent. prefix sent ((if flag then web else []) @ vpkt) \<and> wire s1 = wire s @ sent"
proof -
  have st: "wire (sock_settimeout x t) = wire t" "stream (rx (sock_settimeout x t)) = stream (rx t)" for x t
    by (simp_all add: sock_settimeout_def)
  note w = ivtp_sock.open_channel_wired [OF assms(1) st(1) assms(2,3)]
  have "resumed f \<and> (\<exists>greeting h body noise resp h1 body1. stream (rx s) = greeting @ concat noise @ resp @ stream (rx s1)
            \<and> packet_bytes greeting h body \<and> iv_type h = OP_SESSION_ACCEPTED \<and> list_all skipped noise
            \<and> packet_bytes resp h1 body1 \<and> iv_type h1 = OP_VALIDATE_VIDEO_SESSION_RESPONSE
            \<and> body1 \<noteq> [] \<and> uint (hd body1) = SESSION_VALID)" if "r = Inr f" for f
  proof
    show "resumed f"
      using assms(1) that by (auto simp: open_channel_def conclude_channel_def split: prod.splits sum.splits option.splits if_splits)
    have oc: "open_channel ivtp_recv_exact ivtp_send_all sock_settimeout token ip user tmo flag s = Some (Inr f, s1)"
      using assms(1) that by simp
    obtain g h body bs where "stream (rx s) = g @ bs @ stream (rx s1)" "packet_bytes g h body" "iv_type h = OP_SESSION_ACCEPTED"
      "answers bs SESSION_VALID"
      using ivtp_sock.open_channel_received [OF oc st(2)] by blast
    moreover from this(4) obtain noise resp h1 body1 where "bs = concat noise @ resp" "list_all skipped noise"
      "packet_bytes resp h1 body1" "iv_type h1 = OP_VALIDATE_VIDEO_SESSION_RESPONSE" "body1 \<noteq> []" "uint (hd body1) = SESSION_VALID"
      unfolding answers_def by blast
    ultimately show "\<exists>greeting h body noise resp h1 body1. stream (rx s) = greeting @ concat noise @ resp @ stream (rx s1)
            \<and> packet_bytes greeting h body \<and> iv_type h = OP_SESSION_ACCEPTED \<and> list_all skipped noise
            \<and> packet_bytes resp h1 body1 \<and> iv_type h1 = OP_VALIDATE_VIDEO_SESSION_RESPONSE
            \<and> body1 \<noteq> [] \<and> uint (hd body1) = SESSION_VALID"
      by (intro exI [of _ g] exI [of _ h] exI [of _ body] exI [of _ noise] exI [of _ resp] exI [of _ h1] exI [of _ body1]) simp
  qed
  with w show ?thesis by (cases r) auto
qed

text \<open>The handshake completes: after the greeting, any traffic that is neither a validation
  response nor a stop, and a response with status 1, all in arbitrary TCP segments, \<open>open_channel\<close>
  succeeds, has sent the expected packets, and leaves everything behind the response unread.\<close>

theorem handshake_completes:
  assumes "pieces (enc (OP_SESSION_ACCEPTED, gst, gbody) @ encs noise
      @ enc (OP_VALIDATE_VIDEO_SESSION_RESPONSE, st, 1 # sub) @ rest) es"
    and "msg_ok (OP_SESSION_ACCEPTED, gst, gbody)" and "list_all msg_ok noise"
    and "msg_ok (OP_VALIDATE_VIDEO_SESSION_RESPONSE, st, 1 # sub)"
    and "\<forall>m \<in> set noise. fst m \<notin> {OP_VALIDATE_VIDEO_SESSION_RESPONSE, OP_STOP_SESSION_IMMEDIATE}"
    and "\<not> sock_closed s" and "rx s = es @ later" and "sends s = []"
    and "build_get_web_token token = Inr web"
    and "build_validate_video_session token ip user TOKEN_TYPE_WEB_SESSION = Inr vpkt"
  shows "\<exists>f s1 es'. open_channel ivtp_recv_exact ivtp_send_all sock_settimeout token ip user tmo flag s = Some (Inr f, s1)
    \<and> validate_status f = SESSION_VALID \<and> resumed f \<and> greeting_body_len f = length gbody
    \<and> wire s1 = wire s @ (if flag then web else []) @ vpkt @ build_resume_redirection
    \<and> rx s1 = es' @ later \<and> pieces rest es'"
  by (rule open_channel_handshake) fact+

text \<open>C26. Frame capture reassembles: a frame cut into at most 32768 numbered fragments, with the
  last-fragment bit on the last one, and unrelated packets anywhere between them, all in arbitrary TCP
  segments, is returned byte for byte by \<open>capture_one_frame\<close>, provided it is within
  \<open>MAX_FRAME_BYTES\<close>.\<close>

theorem capture_reassembles:
  assumes "carries ms (number_from 0 ds)" and "ds \<noteq> []" and "length ds \<le> 0x8000"
    and "length (concat ds) \<le> MAX_FRAME_BYTES" and "pieces (encs ms @ rest) es" and "list_all msg_ok ms"
    and "\<not> sock_closed s" and "rx s = es @ later" and "sends s = []"
  shows "\<exists>s1 es'. capture_one_frame ivtp_recv_exact ivtp_send_all sock_settimeout tmo refresh s = Some (Inr (concat ds), s1)
    \<and> rx s1 = es' @ later \<and> pieces rest es'
    \<and> wire s1 = wire s @ (if refresh then build_refresh_video_screen else [])"
proof -
  let ?s = "(sock_settimeout (Some tmo) s)\<lparr>wire := wire s @ (if refresh then build_refresh_video_screen else [])\<rparr>"
  have sent: "(if refresh then ivtp_send_all (sock_settimeout (Some tmo) s) build_refresh_video_screen
      else (Inr (), sock_settimeout (Some tmo) s)) = (Inr (), ?s)"
    using ivtp_send_clear [of "sock_settimeout (Some tmo) s"] assms(7,9) by (simp add: sock_settimeout_def)
  have "\<exists>es'. pieces rest es' \<and> capture_loop ivtp_recv_exact reassembler_init ?s
      = Some (Inr ([] @ concat ds), ?s\<lparr>rx := es' @ later\<rparr>)"
    by (rule capture_loop_traffic [OF assms(1,2)]) (use assms in \<open>simp_all add: sock_settimeout_def\<close>)
  then show ?thesis using sent by (auto simp: capture_one_frame_def Let_def sock_settimeout_def)
qed

text \<open>Neither reading loop of the KVM channel can hang on a socket whose timeouts elapse:
  \<open>open_channel\<close> and \<open>capture_one_frame\<close> return, with a result or an exception, whatever the BMC sends.\<close>

theorem ivtp_loops_return:
  "(\<exists>r s1. open_channel ivtp_recv_exact ivtp_send_all sock_settimeout token ip user tmo flag s = Some (r, s1))
   \<and> (\<exists>r s1. capture_one_frame ivtp_recv_exact ivtp_send_all sock_settimeout tmo refresh s = Some (r, s1))"
proof -
  obtain x s0 where x: "(if refresh then ivtp_send_all (sock_settimeout (Some tmo) s) build_refresh_video_screen
      else (Inr (), sock_settimeout (Some tmo) s)) = (x, s0)" by fastforce
  then show ?thesis
    using capture_loop_returns [of reassembler_init s0] open_channel_returns
    by (cases x) (auto simp: capture_one_frame_def Let_def)
qed

section \<open>Witnesses\<close>

definition sample_handshake :: bytes where
  "sample_handshake = enc (OP_SESSION_ACCEPTED, 0, [7, 7]) @ encs [(40, 0, [9])]
     @ enc (OP_VALIDATE_VIDEO_SESSION_RESPONSE, 0, 1 # [0])"

definition sample_sock :: "sock_event list \<Rightarrow> sock" where
  "sample_sock es = \<lparr>rx = es, sends = [], wire = [], sock_timeout = None, sock_closed = False\<rparr>"

lemma sample_sock_simps [simp]: "rx (sample_sock es) = es" "sends (sample_sock es) = []" "wire (sample_sock es) = []"
  "\<not> sock_closed (sample_sock es)"
  by (simp_all add: sample_sock_def)

lemma sample_builders:
  obtains web vpkt where "build_get_web_token ''t'' = Inr web"
    and "build_validate_video_session ''t'' ''1.2.3.4'' ''u'' TOKEN_TYPE_WEB_SESSION = Inr vpkt"
proof -
  have "encode_ascii ''t'' = Some [116]" "encode_ascii ''u'' = Some [117]"
    "encode_ascii ''1.2.3.4'' = Some [49, 46, 50, 46, 51, 46, 52]" by code_simp+
  then show ?thesis
    using that by (simp add: build_get_web_token_def build_validate_video_session_def fixed_ascii_def VIDEO_PACKET_SIZE_def)
qed

lemma sample_handshake_opens:
  assumes "build_get_web_token ''t'' = Inr web" and "build_validate_video_session ''t'' ''1.2.3.4'' ''u'' TOKEN_TYPE_WEB_SESSION = Inr vpkt"
  shows "\<exists>f s1 es'. open_channel ivtp_recv_exact ivtp_send_all sock_settimeout ''t'' ''1.2.3.4'' ''u'' 5 True
      (sample_sock ([Chunk (take 5 sample_handshake), Chunk (drop 5 sample_handshake)] @ [])) = Some (Inr f, s1)
    \<and> validate_status f = SESSION_VALID \<and> resumed f \<and> greeting_body_len f = length [7 :: byte, 7]
    \<and> wire s1 = wire (sample_sock ([Chunk (take 5 sample_handshake), Chunk (drop 5 sample_handshake)] @ []))
        @ (if True then web else []) @ vpkt @ build_resume_redirection
    \<and> rx s1 = es' @ [] \<and> pieces [] es'"
proof -
  have "5 < length sample_handshake" by (simp add: sample_handshake_def ivtp_packet_def)
  then have p: "pieces (enc (OP_SESSION_ACCEPTED, 0, [7, 7]) @ encs [(40, 0, [9])]
     @ enc (OP_VALIDATE_VIDEO_SESSION_RESPONSE, 0, 1 # [0]) @ []) [Chunk (take 5 sample_handshake), Chunk (drop 5 sample_handshake)]"
    using pieces_split [of 5 sample_handshake] by (simp add: sample_handshake_def)
  show ?thesis
    by (rule open_channel_handshake [OF p _ _ _ _ _ _ _ assms]) (simp_all add: u16_def MAX_FRAME_BYTES_def)
qed

theorem resume_only_when_valid_witness:
  "\<exists>f s1 web vpkt. open_channel ivtp_recv_exact ivtp_send_all sock_settimeout ''t'' ''1.2.3.4'' ''u'' 5 True
      (sample_sock ([Chunk (take 5 sample_handshake), Chunk (drop 5 sample_handshake)] @ [])) = Some (Inr f, s1)
    \<and> validate_status f = SESSION_VALID \<and> resumed f \<and> wire s1 = web @ vpkt @ build_resume_redirection"
proof -
  obtain web vpkt where b: "build_get_web_token ''t'' = Inr web"
    "build_validate_video_session ''t'' ''1.2.3.4'' ''u'' TOKEN_TYPE_WEB_SESSION = Inr vpkt" using sample_builders .
  obtain f s1 where o: "open_channel ivtp_recv_exact ivtp_send_all sock_settimeout ''t'' ''1.2.3.4'' ''u'' 5 True
      (sample_sock ([Chunk (take 5 sample_handshake), Chunk (drop 5 sample_handshake)] @ [])) = Some (Inr f, s1)"
    using sample_handshake_opens [OF b] by blast
  from resume_only_when_valid [OF o b] o show ?thesis by auto
qed

theorem handshake_completes_witness:
  "\<exists>f s1. open_channel ivtp_recv_exact ivtp_send_all sock_settimeout ''t'' ''1.2.3.4'' ''u'' 5 True
      (sample_sock ([Chunk (take 5 sample_handshake), Chunk (drop 5 sample_handshake)] @ [])) = Some (Inr f, s1)
    \<and> validate_status f = SESSION_VALID \<and> greeting_body_len f = 2"
proof -
  obtain web vpkt where b: "build_get_web_token ''t'' = Inr web"
    "build_validate_video_session ''t'' ''1.2.3.4'' ''u'' TOKEN_TYPE_WEB_SESSION = Inr vpkt" using sample_builders .
  have "5 < length sample_handshake" by (simp add: sample_handshake_def ivtp_packet_def)
  then have p: "pieces (enc (OP_SESSION_ACCEPTED, 0, [7, 7]) @ encs [(40, 0, [9])]
     @ enc (OP_VALIDATE_VIDEO_SESSION_RESPONSE, 0, 1 # [0]) @ []) [Chunk (take 5 sample_handshake), Chunk (drop 5 sample_handshake)]"
    using pieces_split [of 5 sample_handshake] by (simp add: sample_handshake_def)
  have "\<exists>f s1 es'. open_channel ivtp_recv_exact ivtp_send_all sock_settimeout ''t'' ''1.2.3.4'' ''u'' 5 True
      (sample_sock ([Chunk (take 5 sample_handshake), Chunk (drop 5 sample_handshake)] @ [])) = Some (Inr f, s1)
    \<and> validate_status f = SESSION_VALID \<and> resumed f \<and> greeting_body_len f = length [7 :: byte, 7]
    \<and> wire s1 = wire (sample_sock ([Chunk (take 5 sample_handshake), Chunk (drop 5 sample_handshake)] @ []))
        @ (if True then web else []) @ vpkt @ build_resume_redirection
    \<and> rx s1 = es' @ [] \<and> pieces [] es'"
    by (rule handshake_completes [OF p _ _ _ _ _ _ _ b]) (simp_all add: u16_def MAX_FRAME_BYTES_def)
  then show ?thesis by auto
qed

theorem capture_reassembles_witness:
  "\<exists>ms s1. ms = [frag_msg (0, [1, 2]), (40, 0, []), frag_msg (0x8001, [3])]
    \<and> capture_one_frame ivtp_recv_exact ivtp_send_all sock_settimeout 5 True (sample_sock [Chunk (encs ms)])
      = Some (Inr [1, 2, 3], s1)"
proof -
  let ?ms = "[frag_msg (0, [1, 2]), (40, 0, []), frag_msg (0x8001, [3])]"
  have c: "carries ?ms (number_from 0 [[1, 2], [3]])"
    by (simp add: carries.intros)
  have "length (encs ?ms) > 0" by (simp add: frag_msg_def ivtp_packet_def)
  then have p: "pieces (encs ?ms @ []) [Chunk (encs ?ms)]" using pieces_single [of "encs ?ms"] by (simp del: encs_simps)
  have "\<exists>s1 es'. capture_one_frame ivtp_recv_exact ivtp_send_all sock_settimeout 5 True (sample_sock [Chunk (encs ?ms)])
      = Some (Inr (concat [[1, 2], [3]]), s1)
    \<and> rx s1 = es' @ [] \<and> pieces [] es'
    \<and> wire s1 = wire (sample_sock [Chunk (encs ?ms)]) @ (if True then build_refresh_video_screen else [])"
    by (rule capture_reassembles [OF c _ _ _ p]) (simp_all add: MAX_FRAME_BYTES_def frag_msg_def u16_def)
  then show ?thesis by (auto simp del: encs_simps)
qed

end
