(* ===== verification/Console_Module.thy ===== *)
theory Console_Module
  imports Web_Call Ivtp_Channel
begin

text \<open>
  \<open>plugins/modules/asmb8_console.py\<close>: obtain a KVM token (or take the caller's), dial the KVM port, perform the
  IVTP handshake, optionally capture one raw frame into a file, and always take the session down. The
  web surface, the dialled socket, the TLS wrap, the directory of the output path, the controller's
  user name and the outcome of opening the output file are arguments.
\<close>

section \<open>The module\<close>

datatype capture_mode = CAPTURE_HANDSHAKE_ONLY | CAPTURE_RAW_FRAME | CAPTURE_DECODED_FRAME

record console_params =
  kp_conn :: conn_params
  kp_kvm_port :: int
  kp_kvm_secure :: "bool option"
  kp_token :: "string option"
  kp_client_username :: "string option"
  kp_send_get_web_token :: bool
  kp_capture :: capture_mode
  kp_output_path :: "string option"
  kp_handshake_timeout :: nat
  kp_frame_timeout :: nat

text \<open>What becomes of \<open>write_frame\<close>: the file cannot be opened, or is truncated and then takes only some bytes.\<close>

datatype frame_write = FrameWritten | FrameOpenFails exn | FrameWriteFails nat exn

record console_env =
  ke_web :: web_env
  ke_route :: "string \<times> int \<Rightarrow> exn + string"
  ke_dial :: ivtp_dial
  ke_wrap :: "ssl_context \<Rightarrow> sock \<Rightarrow> tls_wrap"
  ke_os_user :: "string option"
  ke_parent_is_dir :: "string \<Rightarrow> bool"
  ke_write :: frame_write

text \<open>\<open>iusb.resolve_local_ip\<close>: a datagram socket connected to the host, never used to send, names the local
  address of the route; \<open>ke_route\<close> is the operating system's answer.\<close>

definition resolve_local_ip :: "(string \<times> int \<Rightarrow> exn + string) \<Rightarrow> string \<Rightarrow> exn + string" where
  "resolve_local_ip route host = route (host, 80)"

definition default_client_username :: "console_env \<Rightarrow> string" where
  "default_client_username env = (case ke_os_user env of Some u \<Rightarrow> u | None \<Rightarrow> ''ansible'')"

definition validate_output_path :: "console_env \<Rightarrow> string option \<Rightarrow> exn + unit" where
  "validate_output_path env path =
     (if \<not> given path then Inl (ProtocolError ''asmb8_console.capture'')
      else if \<not> ke_parent_is_dir env (the path) then Inl (ProtocolError ''asmb8_console.capture'')
      else Inr ())"

text \<open>Token, security flag and client address, with the web requests it took to get them.\<close>

definition resolve_token_and_security ::
  "console_env \<Rightarrow> console_params \<Rightarrow> (exn + string \<times> bool \<times> string) \<times> http_request list" where
  "resolve_token_and_security env p = (case resolve_local_ip (ke_route env) (cp_host (kp_conn p)) of
      Inl e \<Rightarrow> (Inl e, [])
    | Inr client_ip \<Rightarrow>
        (case kp_token p of
           Some token \<Rightarrow> (case kp_kvm_secure p of
               None \<Rightarrow> (Inl (ProtocolError ''asmb8_console.capture''), [])
             | Some secure \<Rightarrow> (Inr (token, secure, client_ip), []))
         | None \<Rightarrow>
             (case build_asp_client (ke_web env) (kp_conn p) of
                Inl e \<Rightarrow> (Inl e, [])
              | Inr c \<Rightarrow>
                  (case call_bind (web_login (ke_web env)) (\<lambda>_. allocate_media_session (we_server (ke_web env)) client_ip (kp_kvm_secure p)) c of
                     (Inl e, c1) \<Rightarrow> (Inl e, sent_requests (ac_log c1))
                   | (Inr jnlp, c1) \<Rightarrow>
                       ((case kvm_token jnlp of
                           None \<Rightarrow> Inl (asp_error PROTOCOL ''asmb8_console.capture'' False c1)
                         | Some token \<Rightarrow> Inr (token, (case kp_kvm_secure p of Some b \<Rightarrow> b | None \<Rightarrow> jnlp_session.kvm_secure jnlp = Some True), client_ip)),
                        sent_requests (ac_log c1))))))"

text \<open>The context of the KVM socket: \<open>None\<close> for a plain one.\<close>

definition kvm_ssl_context :: "console_env \<Rightarrow> console_params \<Rightarrow> bool \<Rightarrow> exn + ssl_context option" where
  "kvm_ssl_context env p secure =
     (if \<not> secure then Inr None
      else case policy_create (cp_validate_certs (kp_conn p)) (cp_ca_path (kp_conn p)) (cp_tls_fingerprint (kp_conn p)) of
          Inl e \<Rightarrow> Inl e
        | Inr policy \<Rightarrow> (case build_ssl_context (we_make_context (ke_web env)) (we_load_ca (ke_web env)) policy of
            Inl e \<Rightarrow> Inl e | Inr ctx \<Rightarrow> Inr (Some ctx)))"

definition kvm_endpoint :: "console_params \<Rightarrow> string" where
  "kvm_endpoint p = cp_host (kp_conn p) @ '':'' @ str_int (kp_kvm_port p)"

definition build_kvm_transport :: "console_env \<Rightarrow> console_params \<Rightarrow> bool \<Rightarrow> exn + sock" where
  "build_kvm_transport env p secure = (case kvm_ssl_context env p secure of
      Inl e \<Rightarrow> Inl e
    | Inr ctx \<Rightarrow> fst (ivtp_connect (ke_dial env) (map_option (ke_wrap env) ctx) (kvm_endpoint p)))"

record console_result =
  kr_facts :: channel_facts
  kr_frame :: "(nat \<times> string) option"

record console_run =
  kn_outcome :: "console_result option module_outcome"
  kn_requests :: "http_request list"
  kn_sock :: "sock option"
  kn_written :: "(string \<times> bytes) option"

text \<open>The \<open>try\<close> body over an open transport: facts and frame or the exception, the transport, the file.\<close>

definition capture_body ::
  "console_env \<Rightarrow> console_params \<Rightarrow> string \<Rightarrow> string \<Rightarrow> sock \<Rightarrow> ((exn + console_result) \<times> sock \<times> (string \<times> bytes) option) option" where
  "capture_body env p token client_ip s =
     (let username = (if given (kp_client_username p) then the (kp_client_username p) else default_client_username env) in
      case open_channel ivtp_recv_exact ivtp_send_all sock_settimeout token client_ip username
             (kp_handshake_timeout p) (kp_send_get_web_token p) s of
        None \<Rightarrow> None
      | Some (Inl e, s1) \<Rightarrow> Some (Inl e, s1, None)
      | Some (Inr facts, s1) \<Rightarrow>
          if kp_capture p \<noteq> CAPTURE_RAW_FRAME then Some (Inr \<lparr>kr_facts = facts, kr_frame = None\<rparr>, s1, None)
          else (case capture_one_frame ivtp_recv_exact ivtp_send_all sock_settimeout (kp_frame_timeout p) True s1 of
              None \<Rightarrow> None
            | Some (Inl e, s2) \<Rightarrow> Some (Inl e, s2, None)
            | Some (Inr frame, s2) \<Rightarrow>
                (let output_path = (case kp_output_path p of Some q \<Rightarrow> q | None \<Rightarrow> []) in
                 case ke_write env of
                   FrameOpenFails e \<Rightarrow> Some (Inl e, s2, None)
                 | FrameWriteFails n e \<Rightarrow> Some (Inl e, s2, Some (output_path, take n frame))
                 | FrameWritten \<Rightarrow> Some (Inr \<lparr>kr_facts = facts, kr_frame = Some (length frame, output_path)\<rparr>, s2, Some (output_path, frame)))))"

text \<open>The \<open>finally\<close> block.\<close>

definition take_down :: "sock \<Rightarrow> sock" where
  "take_down s = sock_close (snd (ivtp_send_all s (build_stop_session 0)))"

definition run_capture :: "console_env \<Rightarrow> console_params \<Rightarrow> console_run option" where
  "run_capture env p = (case resolve_token_and_security env p of
      (Inl e, rqs) \<Rightarrow> Some \<lparr>kn_outcome = caught e, kn_requests = rqs, kn_sock = None, kn_written = None\<rparr>
    | (Inr (token, secure, client_ip), rqs) \<Rightarrow>
        (case build_kvm_transport env p secure of
           Inl e \<Rightarrow> Some \<lparr>kn_outcome = caught e, kn_requests = rqs, kn_sock = None, kn_written = None\<rparr>
         | Inr s \<Rightarrow> (case capture_body env p token client_ip s of
             None \<Rightarrow> None
           | Some (r, s1, written) \<Rightarrow>
               Some \<lparr>kn_outcome = (case r of Inl e \<Rightarrow> caught e | Inr x \<Rightarrow> ExitJson False (Some x)),
                     kn_requests = rqs, kn_sock = Some (take_down s1), kn_written = written\<rparr>)))"

definition console_main :: "console_env \<Rightarrow> bool \<Rightarrow> console_params \<Rightarrow> console_run option" where
  "console_main env check_mode p =
     (let quiet = (\<lambda>out. Some \<lparr>kn_outcome = out, kn_requests = [], kn_sock = None, kn_written = None\<rparr>) in
      if \<not> we_has_requests (ke_web env) then quiet FailMsg
      else if kp_capture p = CAPTURE_DECODED_FRAME
      then quiet (caught (raises UNSUPPORTED_CAPABILITY ''asmb8_console.capture'' (Some (kvm_endpoint p))))
      else case (if kp_capture p = CAPTURE_RAW_FRAME then validate_output_path env (kp_output_path p) else Inr ()) of
          Inl e \<Rightarrow> quiet (caught e)
        | Inr _ \<Rightarrow> if check_mode then quiet (ExitJson False None) else run_capture env p)"

section \<open>Facts\<close>

lemma capture_body_returns: "\<exists>r s1 w. capture_body env p token ip s = Some (r, s1, w)"
proof -
  let ?user = "if given (kp_client_username p) then the (kp_client_username p) else default_client_username env"
  obtain x s1 where x: "open_channel ivtp_recv_exact ivtp_send_all sock_settimeout token ip ?user
      (kp_handshake_timeout p) (kp_send_get_web_token p) s = Some (x, s1)"
    using ivtp_loops_return by blast
  obtain y s2 where y: "capture_one_frame ivtp_recv_exact ivtp_send_all sock_settimeout (kp_frame_timeout p) True s1 = Some (y, s2)"
    using ivtp_loops_return by blast
  show ?thesis
    by (cases x; cases y; cases "ke_write env") (auto simp: capture_body_def Let_def x y)
qed

lemma capture_body_file:
  assumes "capture_body env p token ip s = Some (Inr res, s1, w)"
  shows "kr_frame res = map_option (\<lambda>(path, frame). (length frame, path)) w"
    and "(w \<noteq> None) = (kp_capture p = CAPTURE_RAW_FRAME)"
  using assms by (auto simp: capture_body_def Let_def split: option.splits prod.splits sum.splits if_splits frame_write.splits)

text \<open>What a failed run may leave on disk: nothing, or the beginning of the frame after a failed write.\<close>

definition leftover :: "console_env \<Rightarrow> (string \<times> bytes) option \<Rightarrow> bool" where
  "leftover env w \<longleftrightarrow> (case w of None \<Rightarrow> True | Some (path, bs) \<Rightarrow> (\<exists>n e. ke_write env = FrameWriteFails n e \<and> length bs \<le> n))"

lemma capture_body_failed:
  "capture_body env p token ip s = Some (Inl e, s1, w) \<Longrightarrow> leftover env w"
  by (auto simp: capture_body_def Let_def leftover_def split: option.splits prod.splits sum.splits if_splits frame_write.splits)

lemma caught_no_exit: "(case caught e :: 'r module_outcome of ExitJson ch res \<Rightarrow> P ch res | _ \<Rightarrow> Q) = Q"
  by (simp add: caught_def split: exn.splits)

text \<open>The transport at the end of a run, against the one the \<open>try\<close> body left: closed, with the stop request as the last
  thing on the wire unless the socket refused it.\<close>

definition taken_down :: "console_env \<Rightarrow> console_params \<Rightarrow> console_run \<Rightarrow> sock \<Rightarrow> bool" where
  "taken_down env p run s \<longleftrightarrow> sock_closed s \<and> (\<exists>token secure ip s0 r s1.
     resolve_token_and_security env p = (Inr (token, secure, ip), kn_requests run)
     \<and> build_kvm_transport env p secure = Inr s0 \<and> capture_body env p token ip s0 = Some (r, s1, kn_written run)
     \<and> wire s = wire s1 @ (if fst (sock_sendall (build_stop_session 0) s1) then build_stop_session 0 else []))"

lemma take_down_spec:
  "sock_closed (take_down s)"
  "wire (take_down s) = wire s @ (if fst (sock_sendall (build_stop_session 0) s) then build_stop_session 0 else [])"
  by (auto simp: take_down_def sock_close_def ivtp_send_all_def sock_sendall_def split: list.splits)

lemma run_capture_ends:
  "\<exists>run. run_capture env p = Some run \<and> (case kn_sock run of None \<Rightarrow> kn_written run = None | Some s \<Rightarrow> taken_down env p run s)
     \<and> (case kn_outcome run of
          ExitJson changed res \<Rightarrow> \<not> changed \<and> (case res of None \<Rightarrow> b
            | Some x \<Rightarrow> kn_sock run \<noteq> None \<and> kr_frame x = map_option (\<lambda>(path, frame). (length frame, path)) (kn_written run)
                \<and> (kn_written run \<noteq> None) = (kp_capture p = CAPTURE_RAW_FRAME))
        | _ \<Rightarrow> leftover env (kn_written run))"
proof (cases "resolve_token_and_security env p")
  case (Pair r rqs)
  show ?thesis
  proof (cases r)
    case (Inl e)
    with Pair show ?thesis by (simp add: run_capture_def caught_no_exit leftover_def)
  next
    case (Inr t)
    obtain token secure ip where t: "t = (token, secure, ip)" by (cases t)
    show ?thesis
    proof (cases "build_kvm_transport env p secure")
      case (Inl e)
      with Pair Inr t show ?thesis by (simp add: run_capture_def caught_no_exit leftover_def)
    next
      case s: (Inr s)
      obtain x s1 w where b: "capture_body env p token ip s = Some (x, s1, w)" using capture_body_returns by blast
      let ?run = "\<lparr>kn_outcome = (case x of Inl e \<Rightarrow> caught e | Inr x \<Rightarrow> ExitJson False (Some x)),
          kn_requests = rqs, kn_sock = Some (take_down s1), kn_written = w\<rparr>"
      have run: "run_capture env p = Some ?run" by (simp add: run_capture_def Pair Inr t s b)
      have "taken_down env p ?run (take_down s1)"
        using Pair Inr t s b by (auto simp: taken_down_def take_down_spec)
      with run capture_body_failed [of env p token ip s _ s1 w] capture_body_file [of env p token ip s _ s1 w] b show ?thesis
        by (cases x) (auto simp: caught_no_exit)
    qed
  qed
qed

section \<open>Properties\<close>

text \<open>C18. The console module takes its session down. For every finite sequence of socket events (each read has
  its timeout, the exchange as a whole has none) it returns, whatever the BMC, the network and the disk do.
  Once a transport was opened, the stop request has been sent after everything the capture sent, unless the
  socket refuses it, and the transport is closed, on every path out of the capture. A success reports no
  change, and a reported frame is the file written, with its length; a failure leaves no file but the
  beginning of a frame whose write failed; check mode and unsupported captures contact nothing.\<close>

theorem console_takes_session_down:
  "\<exists>run. console_main env check p = Some run
     \<and> (case kn_sock run of None \<Rightarrow> kn_written run = None | Some s \<Rightarrow> sock_closed s \<and> (\<exists>token secure ip s0 r s1.
          resolve_token_and_security env p = (Inr (token, secure, ip), kn_requests run)
          \<and> build_kvm_transport env p secure = Inr s0 \<and> capture_body env p token ip s0 = Some (r, s1, kn_written run)
          \<and> wire s = wire s1 @ (if fst (sock_sendall (build_stop_session 0) s1) then build_stop_session 0 else [])))
     \<and> (case kn_outcome run of
          ExitJson changed res \<Rightarrow> \<not> changed \<and> (case res of None \<Rightarrow> check
            | Some x \<Rightarrow> kn_sock run \<noteq> None \<and> kr_frame x = map_option (\<lambda>(path, frame). (length frame, path)) (kn_written run)
                \<and> (kn_written run \<noteq> None) = (kp_capture p = CAPTURE_RAW_FRAME))
        | _ \<Rightarrow> leftover env (kn_written run))
     \<and> (if check \<or> kp_capture p = CAPTURE_DECODED_FRAME then kn_requests run = [] \<and> kn_sock run = None \<and> kn_written run = None else True)"
  using run_capture_ends [of env p check] unfolding taken_down_def [symmetric]
  by (auto simp: console_main_def Let_def caught_no_exit leftover_def split: sum.splits)

text \<open>The pin is not compared on the KVM channel: with a fingerprint configured, the TLS context of a secure
  console connection verifies neither chain nor host name, and the connection is the same for every
  other well-formed fingerprint.\<close>

theorem console_pin_not_compared:
  assumes "cp_tls_fingerprint (kp_conn p) = Some f" and "f \<noteq> []" and "kvm_ssl_context env p True = Inr (Some ctx)"
    and "normalize_fingerprint g = Inr g1" and "g \<noteq> []"
  shows "verify_mode ctx = CERT_NONE \<and> \<not> check_hostname ctx
    \<and> build_kvm_transport env (p\<lparr>kp_conn := (kp_conn p)\<lparr>cp_tls_fingerprint := Some g\<rparr>\<rparr>) True = build_kvm_transport env p True"
proof -
  let ?ctx = "(we_make_context (ke_web env) BMC_CIPHERS)\<lparr>minimum_version := TLSv1_2, check_hostname := False, verify_mode := CERT_NONE\<rparr>"
  have ctx: "ctx = ?ctx" and ca: "\<not> given (cp_ca_path (kp_conn p))"
    using assms(1-3)
    by (auto simp: kvm_ssl_context_def policy_create_def given_def build_ssl_context_def pinned_def Let_def split: if_splits sum.splits)
  have "kvm_ssl_context env (p\<lparr>kp_conn := (kp_conn p)\<lparr>cp_tls_fingerprint := Some g\<rparr>\<rparr>) True = Inr (Some ?ctx)"
    using assms(4,5) ca by (auto simp: kvm_ssl_context_def policy_create_def given_def build_ssl_context_def pinned_def Let_def)
  then have "build_kvm_transport env (p\<lparr>kp_conn := (kp_conn p)\<lparr>cp_tls_fingerprint := Some g\<rparr>\<rparr>) True = build_kvm_transport env p True"
    using assms(3) ctx by (simp add: build_kvm_transport_def kvm_endpoint_def)
  with ctx show ?thesis by simp
qed

definition sample_console :: "string \<Rightarrow> console_params" where
  "sample_console f = \<lparr>kp_conn = sample_conn\<lparr>cp_tls_fingerprint := Some f\<rparr>, kp_kvm_port = 7582, kp_kvm_secure = Some True,
     kp_token = Some ''t'', kp_client_username = Some ''u'', kp_send_get_web_token = True, kp_capture = CAPTURE_HANDSHAKE_ONLY,
     kp_output_path = None, kp_handshake_timeout = 5, kp_frame_timeout = 5\<rparr>"

definition sample_console_env :: console_env where
  "sample_console_env = \<lparr>ke_web = sample_env [], ke_route = (\<lambda>_. Inr ''10.0.0.9''), ke_dial = IvtpDialTimeout,
     ke_wrap = (\<lambda>_ s. TlsWrapped s), ke_os_user = None, ke_parent_is_dir = (\<lambda>_. True), ke_write = FrameWritten\<rparr>"

theorem console_pin_not_compared_witness:
  "\<exists>ctx. kvm_ssl_context sample_console_env (sample_console (replicate 64 (CHR ''a''))) True = Inr (Some ctx) \<and> verify_mode ctx = CERT_NONE"
proof -
  have n: "normalize_fingerprint (replicate 64 (CHR ''a'')) = Inr (replicate 64 (CHR ''a''))" by code_simp
  have "case kvm_ssl_context sample_console_env (sample_console (replicate 64 (CHR ''a''))) True of Inr (Some _) \<Rightarrow> True | _ \<Rightarrow> False"
    by code_simp
  then obtain ctx where ctx: "kvm_ssl_context sample_console_env (sample_console (replicate 64 (CHR ''a''))) True = Inr (Some ctx)"
    by (auto split: sum.splits option.splits)
  have "cp_tls_fingerprint (kp_conn (sample_console (replicate 64 (CHR ''a'')))) = Some (replicate 64 (CHR ''a''))"
    by (simp add: sample_console_def)
  from console_pin_not_compared [OF this _ ctx n] ctx show ?thesis by simp
qed

end
