(* ===== verification/Bootstrap_Image.thy ===== *)
theory Bootstrap_Image
  imports Web_Call
begin

text \<open>
  \<open>plugins/module_utils/bootstrap_image.py\<close> and \<open>plugins/modules/asmb8_bootstrap_image.py\<close>: rendering the embedded
  boot script, staging the tree for \<open>grub-mkrescue\<close>, and enforcing the size budget on what it
  produced. The tool itself, the search for it, and the failure of directory creation are arguments;
  files are a map from normalised paths to contents. The texts of errors are not modelled.
\<close>

section \<open>The script\<close>

datatype network_mode = NETWORK_MODE_STATIC | NETWORK_MODE_DHCP

definition DEFAULT_SIZE_BUDGET_BYTES :: int where
  "DEFAULT_SIZE_BUDGET_BYTES = 16 * 1024 * 1024"

record network_config =
  nc_mode :: network_mode
  nc_address :: "string option"
  nc_netmask :: "string option"
  nc_gateway :: "string option"
  nc_dns :: "string option"

definition NL :: char where "NL = CHR 0x0A"

fun join_with :: "'a list \<Rightarrow> 'a list list \<Rightarrow> 'a list" where
  "join_with sep [] = []"
| "join_with sep [x] = x"
| "join_with sep (x # y # zs) = x @ sep @ join_with sep (y # zs)"

fun lines_of :: "char \<Rightarrow> string \<Rightarrow> string list" where
  "lines_of sep [] = [[]]"
| "lines_of sep (c # s) = (if c = sep then [] # lines_of sep s
     else case lines_of sep s of [] \<Rightarrow> [[c]] | l # ls \<Rightarrow> (c # l) # ls)"

text \<open>\<open>str(Path(p))\<close>: empty and dot segments go, two leading slashes stay two.\<close>

definition path_str :: "string \<Rightarrow> string" where
  "path_str p =
     (let parts = filter (\<lambda>s. s \<noteq> [] \<and> s \<noteq> ''.'') (lines_of (CHR ''/'') p);
          root = (if starts_with p ''//'' \<and> \<not> starts_with p ''///'' then ''//'' else if starts_with p ''/'' then ''/'' else [])
      in if root = [] \<and> parts = [] then ''.'' else root @ join_with ''/'' parts)"

text \<open>An absent field in an f-string prints as \<open>None\<close>.\<close>

definition field_text :: "string option \<Rightarrow> string" where
  "field_text f = (case f of None \<Rightarrow> ''None'' | Some s \<Rightarrow> s)"

definition script_lines :: "string \<Rightarrow> network_config \<Rightarrow> string list" where
  "script_lines origin_url network =
     [''#!ipxe'', []]
     @ (if nc_mode network = NETWORK_MODE_STATIC then
          [''set net0/ip '' @ field_text (nc_address network), ''set net0/netmask '' @ field_text (nc_netmask network),
           ''set net0/gateway '' @ field_text (nc_gateway network)]
          @ (if given (nc_dns network) then [''set net0/dns '' @ the (nc_dns network)] else [])
          @ [''ifopen net0'']
        else [''dhcp''])
     @ [[], ''chain '' @ origin_url, []]"

definition render_ipxe_script :: "string \<Rightarrow> network_config \<Rightarrow> string" where
  "render_ipxe_script origin_url network = join_with [NL] (script_lines origin_url network)"

section \<open>Staging and building\<close>

definition KERNEL_BASENAME :: string where "KERNEL_BASENAME = ''ipxe.lkrn''"
definition SCRIPT_BASENAME :: string where "SCRIPT_BASENAME = ''script.ipxe''"

definition grub_cfg :: string where
  "grub_cfg = join_with [NL]
     [''set timeout=0'', ''set default=0'', [], ''menuentry '' @ [CHR 0x22] @ ''asmb8-bootstrap'' @ [CHR 0x22] @ '' {'',
      ''    linux16 /boot/'' @ KERNEL_BASENAME, ''    initrd16 /boot/'' @ SCRIPT_BASENAME, ''}'', []]"

definition encode_text :: "string \<Rightarrow> bytes" where
  "encode_text s = map of_char s"

text \<open>The tree below the staging root; scripts are ASCII text.\<close>

definition stage_directory :: "bytes \<Rightarrow> string \<Rightarrow> (string \<times> bytes) list" where
  "stage_directory lkrn script_text =
     [(''boot/'' @ KERNEL_BASENAME, lkrn), (''boot/'' @ SCRIPT_BASENAME, encode_text script_text),
      (''boot/grub/grub.cfg'', encode_text grub_cfg)]"

type_synonym files = "string \<rightharpoonup> bytes"

record image_env =
  ie_mkdir_error :: "exn option"
  ie_staging :: string
  ie_tool :: "string list \<Rightarrow> (string \<times> bytes) list \<Rightarrow> files \<Rightarrow> int \<times> files"
  ie_executable :: "string \<Rightarrow> bool"
  ie_which :: "string \<Rightarrow> string option"

definition bootstrap_error :: exn where
  "bootstrap_error = ProtocolError ''asmb8_bootstrap_image.build''"

definition build_bootstrap_image ::
  "image_env \<Rightarrow> string \<Rightarrow> string \<Rightarrow> string \<Rightarrow> int \<Rightarrow> string \<Rightarrow> files \<Rightarrow> (exn + nat \<times> string) \<times> files" where
  "build_bootstrap_image env lkrn_path script_text output_path budget grub fs =
     (case fs (path_str lkrn_path) of
        None \<Rightarrow> (Inl bootstrap_error, fs)
      | Some lkrn \<Rightarrow>
          (let output = path_str output_path in
           case ie_mkdir_error env of
             Some e \<Rightarrow> (Inl e, fs)
           | None \<Rightarrow>
               (case ie_tool env [grub, ''--output='' @ output, ie_staging env] (stage_directory lkrn script_text) fs of
                  (rc, fs1) \<Rightarrow>
                    if rc \<noteq> 0 then (Inl bootstrap_error, fs1)
                    else (case fs1 output of
                        None \<Rightarrow> (Inl bootstrap_error, fs1)
                      | Some img \<Rightarrow>
                          if int (length img) > budget then (Inl bootstrap_error, fs1(output := None))
                          else (Inr (length img, output), fs1)))))"

section \<open>The module\<close>

record image_params =
  ip_origin_url :: string
  ip_lkrn_path :: string
  ip_output_path :: string
  ip_network :: network_config
  ip_size_budget :: int
  ip_grub_path :: "string option"
  ip_xorriso_path :: "string option"

record image_result =
  ir_output_path :: string
  ir_size :: "nat option"
  ir_script :: string
  ir_grub :: string

definition find_tool :: "image_env \<Rightarrow> files \<Rightarrow> string \<Rightarrow> string option \<Rightarrow> string option" where
  "find_tool env fs name explicit_path =
     (if given explicit_path then
        (let candidate = path_str (the explicit_path) in
         if fs candidate \<noteq> None \<and> ie_executable env candidate then Some candidate else None)
      else ie_which env name)"

definition resolve_required_tools :: "image_env \<Rightarrow> files \<Rightarrow> image_params \<Rightarrow> string option \<times> string option" where
  "resolve_required_tools env fs p = (find_tool env fs ''grub-mkrescue'' (ip_grub_path p), find_tool env fs ''xorriso'' (ip_xorriso_path p))"

definition missing_tool_error :: exn where
  "missing_tool_error = raises UNSUPPORTED_CAPABILITY ''asmb8_bootstrap_image.build'' None"

definition bootstrap_main :: "image_env \<Rightarrow> bool \<Rightarrow> image_params \<Rightarrow> files \<Rightarrow> image_result module_outcome \<times> files" where
  "bootstrap_main env check_mode p fs =
     (let script_text = render_ipxe_script (ip_origin_url p) (ip_network p) in
      case resolve_required_tools env fs p of
        (Some grub, Some _) \<Rightarrow>
          if check_mode
          then (ExitJson True \<lparr>ir_output_path = ip_output_path p, ir_size = None, ir_script = script_text, ir_grub = grub\<rparr>, fs)
          else (case build_bootstrap_image env (ip_lkrn_path p) script_text (ip_output_path p) (ip_size_budget p) grub fs of
              (Inl e, fs1) \<Rightarrow> (caught e, fs1)
            | (Inr (n, output), fs1) \<Rightarrow>
                (ExitJson True \<lparr>ir_output_path = output, ir_size = Some n, ir_script = script_text, ir_grub = grub\<rparr>, fs1))
      | _ \<Rightarrow> (caught missing_tool_error, fs))"

section \<open>Facts\<close>







section \<open>Properties\<close>


definition sample_image_env :: "(files \<Rightarrow> files) \<Rightarrow> image_env" where
  "sample_image_env build = \<lparr>ie_mkdir_error = None, ie_staging = ''/tmp/x'', ie_tool = (\<lambda>argv staged fs. (0, build fs)),
     ie_executable = (\<lambda>_. True), ie_which = (\<lambda>n. Some (''/usr/bin/'' @ n))\<rparr>"

definition sample_image_params :: image_params where
  "sample_image_params = \<lparr>ip_origin_url = ''http://o/'', ip_lkrn_path = ''/k'', ip_output_path = ''/out.iso'',
     ip_network = \<lparr>nc_mode = NETWORK_MODE_STATIC, nc_address = Some ''10.0.0.2'', nc_netmask = Some ''255.0.0.0'',
       nc_gateway = Some ''10.0.0.1'', nc_dns = None\<rparr>, ip_size_budget = 2, ip_grub_path = None, ip_xorriso_path = None\<rparr>"

lemma sample_image_paths: "path_str ''/k'' = ''/k''" "path_str ''/out.iso'' = ''/out.iso''"
  by code_simp+



text \<open>A tool that succeeds without producing anything goes unnoticed when an earlier image is still in place.\<close>

lemma stale_image_reported_as_built:
  "\<exists>r. bootstrap_main (sample_image_env (\<lambda>fs. fs)) False sample_image_params [''/k'' \<mapsto> [0], ''/out.iso'' \<mapsto> [7]]
     = (ExitJson True r, [''/k'' \<mapsto> [0], ''/out.iso'' \<mapsto> [7]]) \<and> ir_size r = Some 1"
  by (simp add: bootstrap_main_def resolve_required_tools_def find_tool_def given_def build_bootstrap_image_def sample_image_env_def
      sample_image_params_def sample_image_paths Let_def)

end
