(* ===== verification/Report_Modules.thy ===== *)
theory Report_Modules
  imports Web_Call
begin

text \<open>
  The modules that report accounts, network settings and services: \<open>plugins/modules/asmb8_users.py\<close>,
  \<open>asmb8_network.py\<close> and \<open>asmb8_sessions.py\<close>. Reports are Python dictionaries as the sources build them;
  the receipt repeats them. The properties: none of these modules writes, check mode sends nothing,
  personal and secret fields reach the report as flags only, and session queries name only services
  the device itself listed.
\<close>

section \<open>The shared \<open>main\<close>\<close>

definition report_main :: "web_env \<Rightarrow> bool \<Rightarrow> conn_params \<Rightarrow> 'r web_call \<Rightarrow> 'r option module_result" where
  "report_main env check_mode conn gather =
     (if \<not> we_has_requests env then (FailMsg, [])
      else if check_mode then (ExitJson False None, [])
      else run_module env conn True (call_bind gather (\<lambda>r. call_return (False, Some r))))"

definition web_records :: "web_env \<Rightarrow> string \<Rightarrow> webvar_record list web_call" where
  "web_records env ep = call_bind (web_get env ep None) (\<lambda>response. call_return (records response))"

lemma performs_records [performs_intros]: "GetWebvar ep None \<in> S \<Longrightarrow> performs env S (web_records env ep)"
  unfolding web_records_def by (intro performs_intros)

section \<open>\<open>asmb8_users\<close>\<close>

definition SSH_KEY_INFO_NOT_AVAILABLE :: string where
  "SSH_KEY_INFO_NOT_AVAILABLE = ''Not Available''"

definition is_configured_slot :: "webvar_record \<Rightarrow> bool" where
  "is_configured_slot r = truthy (rec_get r ''UserName'')"

definition decode_user_slot :: "webvar_record \<Rightarrow> py_literal" where
  "decode_user_slot r =
     (let email_id = lit_or (rec_get r ''EmailID'') (LitStr []);
          ssh_key_info = lit_or (rec_get r ''SSHKeyInfo'') (LitStr []);
          ssh_key_status = rec_get r ''SSHKeyStatus'';
          email_format = lit_or (rec_get r ''EmailFormat'') LitNone
      in obj [(''username'', rec_get r ''UserName''),
              (''enabled'', flag_of r ''UserStatus''),
              (''user_status_raw'', rec_get r ''UserStatus''),
              (''kvm_privilege'', flag_of r ''KVMPriv''),
              (''vmedia_privilege'', flag_of r ''VMediaPriv''),
              (''network_privilege_limit_raw'', rec_get r ''PrivLimit_Network''),
              (''serial_privilege_limit_raw'', rec_get r ''PrivLimit_Serial''),
              (''snmp'', obj [(''status_raw'', rec_get r ''SNMPStatus''),
                              (''access_raw'', rec_get r ''SNMPAccess''),
                              (''auth_protocol_raw'', rec_get r ''AUTHProtocol''),
                              (''priv_protocol_raw'', rec_get r ''PrivProtocol'')]),
              (''email_configured'', LitBool (truthy email_id)),
              (''email_format'', email_format),
              (''serial_over_lan_status_raw'', rec_get r ''SOL_Status''),
              (''ssh_key_configured'', LitBool (truthy ssh_key_status
                 \<or> ssh_key_info \<noteq> LitStr [] \<and> ssh_key_info \<noteq> LitStr SSH_KEY_INFO_NOT_AVAILABLE)),
              (''ssh_key_status_raw'', ssh_key_status),
              (''fixed_user_count'', rec_get r ''FixedUserCount'')])"

record users_report =
  ur_users :: "py_literal list"
  ur_total :: nat
  ur_configured :: nat
  ur_empty :: int
  ur_current_session :: py_literal
  ur_role_groups :: "py_literal list"

definition build_users_report :: "webvar_record list \<Rightarrow> py_literal list \<times> nat \<times> nat \<times> int" where
  "build_users_report rs =
     (let configured_records = filter is_configured_slot rs
      in (map decode_user_slot configured_records, length rs, length configured_records,
          int (length rs) - int (length configured_records)))"

definition build_current_session_report :: "webvar_record list \<Rightarrow> py_literal" where
  "build_current_session_report rs = (case rs of [] \<Rightarrow> LitNone
     | r # _ \<Rightarrow> obj [(''username'', rec_get r ''CURUSERNAME''), (''privilege_raw'', rec_get r ''CURPRIV''),
                     (''extended_privilege_raw'', rec_get r ''EXTENDED_PRIV'')])"

definition decode_role_group :: "webvar_record \<Rightarrow> py_literal" where
  "decode_role_group r =
     (let name = lit_or (rec_get r ''ROLEGROUP_NAME'') LitNone; domain = lit_or (rec_get r ''ROLEGROUP_DOMAIN'') LitNone
      in obj [(''id'', rec_get r ''ROLEGROUP_ID''), (''configured'', LitBool (truthy name)), (''name'', name), (''domain'', domain),
              (''privilege_raw'', rec_get r ''ROLEGROUP_PRIVILEGE''), (''kvm_privilege_raw'', rec_get r ''ROLEGROUP_KVM''),
              (''vmedia_privilege_raw'', rec_get r ''ROLEGROUP_VMEDIA'')])"

definition gather_users :: "web_env \<Rightarrow> users_report web_call" where
  "gather_users env =
     call_bind (web_login env) (\<lambda>_.
     call_bind (web_records env ''getalluserinfo'') (\<lambda>users.
     call_bind (web_records env ''getrole'') (\<lambda>role.
     call_bind (web_records env ''getallrolegroupcfg'') (\<lambda>groups.
       let (slots, total_n, configured_n, empty_n) = build_users_report users in
       call_return \<lparr>ur_users = slots, ur_total = total_n, ur_configured = configured_n, ur_empty = empty_n,
         ur_current_session = build_current_session_report role, ur_role_groups = map decode_role_group groups\<rparr>))))"

definition users_main :: "web_env \<Rightarrow> bool \<Rightarrow> conn_params \<Rightarrow> users_report option module_result" where
  "users_main env check_mode conn = report_main env check_mode conn (gather_users env)"

section \<open>\<open>asmb8_network\<close>\<close>

definition TSIG_PRIVATE_NOT_AVAILABLE :: string where
  "TSIG_PRIVATE_NOT_AVAILABLE = ''Not Available''"

definition decode_lan_channel :: "webvar_record \<Rightarrow> py_literal" where
  "decode_lan_channel r = obj
     [(''channel'', rec_get r ''channelNum''), (''enabled'', flag_of r ''lanEnable''), (''mac_address'', rec_get r ''macAddress''),
      (''ipv4'', obj [(''source_raw'', rec_get r ''v4IPSource''), (''address'', rec_get r ''v4IPAddr''),
                      (''subnet_mask'', rec_get r ''v4Subnet''), (''gateway'', rec_get r ''v4Gateway'')]),
      (''ipv6'', obj [(''enabled'', flag_of r ''v6Enable''), (''source_raw'', rec_get r ''v6IPSource''), (''address'', rec_get r ''v6IPAddr''),
                      (''prefix_length'', rec_get r ''v6Prefix''), (''gateway'', rec_get r ''v6Gateway'')]),
      (''vlan'', obj [(''enabled'', flag_of r ''vlanEnable''), (''id'', rec_get r ''vlanID''), (''priority'', rec_get r ''vlanPriority'')])]"

definition decode_interface :: "webvar_record \<Rightarrow> py_literal" where
  "decode_interface r = obj [(''index'', rec_get r ''ETH_INDEX''), (''name'', rec_get r ''INTERFACE_NAME''),
     (''channel'', rec_get r ''CHANNEL_NUM''), (''enabled'', flag_of r ''INTERFACE_ENABLE'')]"

definition decode_dns_entry :: "webvar_record \<Rightarrow> py_literal" where
  "decode_dns_entry r =
     (let tsig_private = lit_or (rec_get r ''TSIG_PRIVATE'') (LitStr []); tsig_exists = rec_get r ''TSIG_EXISTS''
      in obj [(''enabled'', flag_of r ''DNS_ENABLE''), (''mdns_enabled'', flag_of r ''MDNS''),
              (''hostname_source_raw'', rec_get r ''HOST_CFG''), (''hostname'', rec_get r ''HOST_NAME''),
              (''register_with_bmc'', flag_of r ''REG_BMC''), (''register_with_dhcp'', flag_of r ''REG_DHCP''),
              (''tsig_enabled'', flag_of r ''TSIG_ENABLE''),
              (''tsig_key_configured'', LitBool (truthy tsig_exists
                 \<or> tsig_private \<noteq> LitStr [] \<and> tsig_private \<noteq> LitStr TSIG_PRIVATE_NOT_AVAILABLE)),
              (''domain_source'', rec_get r ''DOMAIN_CFG''), (''domain_name'', rec_get r ''DOMAIN_NAME''),
              (''dns_source_raw'', rec_get r ''DNS_CFG''), (''dns_priority'', rec_get r ''DNS_PRIORITY''),
              (''dns_server'', rec_get r ''DNS_IP'')])"

definition decode_bonding :: "webvar_record \<Rightarrow> py_literal" where
  "decode_bonding r = obj [(''enabled'', flag_of r ''BOND_ENABLE''), (''mode_raw'', rec_get r ''BOND_MODE''),
     (''interface_raw'', rec_get r ''BOND_IFC''), (''vlan_enabled'', flag_of r ''VLAN_ENABLE''), (''auto_configured'', flag_of r ''AUTO_CONF'')]"

definition decode_bond_support :: "webvar_record \<Rightarrow> py_literal" where
  "decode_bond_support r = obj [(''nic_count'', rec_get r ''NIC_COUNT'')]"

definition first_or_none :: "(webvar_record \<Rightarrow> py_literal) \<Rightarrow> webvar_record list \<Rightarrow> py_literal" where
  "first_or_none f rs = (case rs of [] \<Rightarrow> LitNone | r # _ \<Rightarrow> f r)"

definition build_network_report ::
  "webvar_record list \<Rightarrow> webvar_record list \<Rightarrow> webvar_record list \<Rightarrow> webvar_record list \<Rightarrow> webvar_record list \<Rightarrow> py_literal" where
  "build_network_report lan ifaces dns bond bond_support = obj
     [(''lan_channels'', LitList (map decode_lan_channel lan)), (''interfaces'', LitList (map decode_interface ifaces)),
      (''dns_entries'', LitList (map decode_dns_entry dns)), (''bonding'', first_or_none decode_bonding bond),
      (''bond_support'', first_or_none decode_bond_support bond_support)]"

definition gather_network :: "web_env \<Rightarrow> py_literal web_call" where
  "gather_network env =
     call_bind (web_login env) (\<lambda>_.
     call_bind (web_records env ''getalllancfg'') (\<lambda>lan.
     call_bind (web_records env ''getlanchannelinfo'') (\<lambda>ifaces.
     call_bind (web_records env ''getdnscfg'') (\<lambda>dns.
     call_bind (web_records env ''getnwbondcfg'') (\<lambda>bond.
     call_bind (web_records env ''checknwbond'') (\<lambda>bond_support.
       call_return (build_network_report lan ifaces dns bond bond_support)))))))"

definition network_main :: "web_env \<Rightarrow> bool \<Rightarrow> conn_params \<Rightarrow> py_literal option module_result" where
  "network_main env check_mode conn = report_main env check_mode conn (gather_network env)"

section \<open>\<open>asmb8_sessions\<close>\<close>

definition SESSION_COUNT_OFFSET :: int where "SESSION_COUNT_OFFSET = 128"
definition SESSION_COUNT_SENTINEL :: int where "SESSION_COUNT_SENTINEL = 255"
definition UINT32_NOT_APPLICABLE :: int where "UINT32_NOT_APPLICABLE = 4294967295"

text \<open>Integers and booleans are the numbers; a value of another type has no subtraction.\<close>

definition decode_session_count :: "py_literal \<Rightarrow> exn + py_literal" where
  "decode_session_count raw =
     (if raw = LitNone then Inr LitNone
      else if raw = LitInt SESSION_COUNT_SENTINEL then Inr LitNone
      else case raw of
          LitInt i \<Rightarrow> Inr (LitInt (i - SESSION_COUNT_OFFSET))
        | LitBool b \<Rightarrow> Inr (LitInt (of_bool b - SESSION_COUNT_OFFSET))
        | _ \<Rightarrow> Inl TypeError)"

definition decode_uint32_or_none :: "py_literal \<Rightarrow> py_literal" where
  "decode_uint32_or_none raw = (if raw = LitInt UINT32_NOT_APPLICABLE then LitNone else raw)"

definition decode_service :: "webvar_record \<Rightarrow> exn + py_literal" where
  "decode_service r =
     (case decode_session_count (rec_get r ''MAXSESS'') of Inl e \<Rightarrow> Inl e
      | Inr max_sessions \<Rightarrow> (case decode_session_count (rec_get r ''CURSESS'') of Inl e \<Rightarrow> Inl e
      | Inr current_sessions \<Rightarrow> Inr (obj
          [(''id'', rec_get r ''SERVICEID''), (''name'', rec_get r ''SERVICENAME''), (''enabled'', flag_of r ''STATE''),
           (''interface_scope_raw'', rec_get r ''IFCNAME''),
           (''port'', obj [(''plain'', decode_uint32_or_none (rec_get r ''NSPORT'')),
                           (''secure'', decode_uint32_or_none (rec_get r ''SECPORT''))]),
           (''timeout_seconds'', decode_uint32_or_none (rec_get r ''SERVICE_TIMEOUT'')),
           (''sessions'', obj [(''max'', max_sessions), (''current'', current_sessions)]),
           (''single_port_status_raw'', rec_get r ''SINGLEPORT_STATUS'')])))"

type_synonym py_dict = "(py_literal \<times> py_literal) list"

fun services_loop :: "webvar_record list \<Rightarrow> py_dict \<Rightarrow> exn + py_dict" where
  "services_loop [] services = Inr services"
| "services_loop (r # rs) services =
     (let name = rec_get r ''SERVICENAME'' in
      if \<not> truthy name then services_loop rs services
      else case decode_service r of
          Inl e \<Rightarrow> Inl e
        | Inr s \<Rightarrow> if hashable name then services_loop rs (dict_set name s services) else Inl TypeError)"

definition build_services_report :: "webvar_record list \<Rightarrow> exn + py_dict" where
  "build_services_report rs = services_loop rs []"

fun known_ids_loop :: "webvar_record list \<Rightarrow> py_dict \<Rightarrow> exn + py_dict" where
  "known_ids_loop [] ids = Inr ids"
| "known_ids_loop (r # rs) ids =
     (let name = rec_get r ''SERVICENAME'' in
      if \<not> truthy name then known_ids_loop rs ids
      else case map_of r (LitStr ''SERVICEID'') of
          None \<Rightarrow> Inl KeyError
        | Some i \<Rightarrow> if hashable name then known_ids_loop rs (dict_set name i ids) else Inl TypeError)"

definition known_service_ids :: "webvar_record list \<Rightarrow> exn + py_dict" where
  "known_service_ids rs = known_ids_loop rs []"

definition resolve_requested_session_services :: "string list option \<Rightarrow> py_dict \<Rightarrow> exn + py_literal list" where
  "resolve_requested_session_services requested known_ids = (case requested of
      None \<Rightarrow> Inr []
    | Some names \<Rightarrow>
        if names = [] then Inr []
        else if ''all'' \<in> set names then Inr (map fst known_ids)
        else if filter (\<lambda>n. LitStr n \<notin> set (map fst known_ids)) names \<noteq> [] then Inl ValueError
        else Inr (first_seen (map LitStr names)))"

definition decode_session_record :: "py_literal \<Rightarrow> webvar_record \<Rightarrow> py_literal" where
  "decode_session_record service_name r = obj
     [(''service'', service_name), (''session_id_raw'', rec_get r ''SID''), (''session_type_raw'', rec_get r ''STYPE''),
      (''user_id_raw'', rec_get r ''UID''), (''username'', lit_or (rec_get r ''UNAME'') LitNone),
      (''ip_address'', lit_or (rec_get r ''IPADDRESS'') LitNone), (''privilege_raw'', rec_get r ''UPRIV'')]"

definition session_query :: "web_env \<Rightarrow> py_dict \<Rightarrow> py_literal \<Rightarrow> py_literal list web_call" where
  "session_query env service_ids name =
     call_bind (web_post env ''getsessioninfo'' [(''SERVICEBIT'', lit_text env (the (map_of service_ids name)))]) (\<lambda>response.
     call_return (map (decode_session_record name) (records response)))"

definition fetch_active_sessions :: "web_env \<Rightarrow> py_literal list \<Rightarrow> py_dict \<Rightarrow> py_literal list web_call" where
  "fetch_active_sessions env service_names service_ids =
     call_bind (call_map (session_query env service_ids) service_names) (\<lambda>groups. call_return (concat groups))"

definition decode_remote_session_config :: "webvar_record \<Rightarrow> py_literal" where
  "decode_remote_session_config r = obj
     [(''kvm_encryption_enabled'', flag_of r ''KVMENCRYPTION''), (''media_encryption_enabled'', flag_of r ''MEDIAENCRYPTION''),
      (''single_port_enabled'', flag_of r ''SINGLEPORT''), (''keyboard_language'', rec_get r ''KEYBOARDLANG''),
      (''local_media_enabled'', flag_of r ''LMEDIAENABLE''), (''remote_media_enabled'', flag_of r ''RMEDIAENABLE''),
      (''vmedia_attach_raw'', rec_get r ''VMEDIAATTACH''), (''host_lock_enabled'', flag_of r ''HOSTLOCK''),
      (''host_lock_auto_enabled'', flag_of r ''HOSTLOCKAUTO''), (''sd_card_status_raw'', rec_get r ''SDCARD_STATUS'')]"

text \<open>The outcome of a degradable read: \<open>read\<close>, or \<open>failed\<close> with the error class, if any.\<close>

datatype read_outcome = ReadOk | ReadFailed "error_class option"

definition fetch_remote_session_config :: "web_env \<Rightarrow> (py_literal \<times> read_outcome) web_call" where
  "fetch_remote_session_config env = call_try
     (call_bind (web_get env ''getremotesession'' None) (\<lambda>response. call_return
        (case records response of [] \<Rightarrow> (LitNone, ReadFailed None) | r # _ \<Rightarrow> (decode_remote_session_config r, ReadOk))))
     (\<lambda>err. (LitNone, ReadFailed (Some (error_class err)))) (\<lambda>err. error_class err = PROTOCOL)"

record sessions_report =
  sr_services :: py_dict
  sr_remote_session :: py_literal
  sr_remote_session_read :: read_outcome
  sr_active_sessions :: "py_literal list option"
  sr_queried :: "py_literal list"

definition gather_sessions :: "web_env \<Rightarrow> string list option \<Rightarrow> sessions_report web_call" where
  "gather_sessions env requested =
     call_bind (web_login env) (\<lambda>_.
     call_bind (web_records env ''getallservicescfg'') (\<lambda>rs.
     call_bind (call_lift (known_service_ids rs)) (\<lambda>service_ids.
     call_bind (fetch_remote_session_config env) (\<lambda>remote.
     call_bind (call_lift (resolve_requested_session_services requested service_ids)) (\<lambda>queried.
     call_bind (if queried \<noteq> [] then call_bind (fetch_active_sessions env queried service_ids) (\<lambda>xs. call_return (Some xs))
                else call_return None) (\<lambda>active.
     call_bind (call_lift (build_services_report rs)) (\<lambda>services.
       call_return \<lparr>sr_services = services, sr_remote_session = fst remote, sr_remote_session_read = snd remote,
         sr_active_sessions = active, sr_queried = queried\<rparr>)))))))"

text \<open>\<open>except ValueError\<close> stands before \<open>except IkvmError\<close>.\<close>

definition sessions_main :: "web_env \<Rightarrow> bool \<Rightarrow> conn_params \<Rightarrow> string list option \<Rightarrow> sessions_report option module_result" where
  "sessions_main env check_mode conn requested = (case report_main env check_mode conn (gather_sessions env requested) of
      (Uncaught e, rqs) \<Rightarrow> (if e = ValueError \<or> e = UnicodeEncodeError then FailMsg else Uncaught e, rqs)
    | r \<Rightarrow> r)"

section \<open>Facts\<close>

lemma keys_dict_set: "map fst (dict_set k v d) = (if k \<in> set (map fst d) then map fst d else map fst d @ [k])"
  by (induction k v d rule: dict_set.induct) auto

text \<open>The report and the table of identifiers list the same services in the same order.\<close>

lemma same_services:
  assumes "services_loop rs d = Inr d1" and "known_ids_loop rs i = Inr i1" and "map fst d = map fst i" and "distinct (map fst i)"
  shows "map fst d1 = map fst i1 \<and> distinct (map fst i1)"
  using assms
  by (induction rs arbitrary: d i)
    (auto simp: Let_def keys_dict_set split: if_splits sum.splits option.splits)

lemma resolve_sound:
  assumes "resolve_requested_session_services requested ids = Inr names" and "distinct (map fst ids)"
  shows "distinct names" and "set names \<subseteq> fst ` set ids"
    and "requested = Some ns \<Longrightarrow> ''all'' \<in> set ns \<Longrightarrow> names = map fst ids"
  using assms by (auto simp: resolve_requested_session_services_def filter_empty_conv split: option.splits if_splits)

lemma call_map_Inr:
  assumes "call_map f xs c = (Inr ys, c1)" and "\<And>x c y c1. f x c = (Inr y, c1) \<Longrightarrow> P x y"
  shows "list_all2 P xs ys"
  using assms(1)
proof (induction xs arbitrary: c c1 ys)
  case Nil
  then show ?case by (simp add: call_return_def)
next
  case (Cons x xs)
  then obtain y c2 zs c3 where "f x c = (Inr y, c2)" "call_map f xs c2 = (Inr zs, c3)" "ys = y # zs"
    by (auto simp: call_return_def elim!: call_bind_Inr)
  with Cons.IH assms(2) show ?case by auto
qed

lemma fetched_tagged:
  assumes "fetch_active_sessions env names ids c = (Inr xs, c1)" and "x \<in> set xs"
  shows "\<exists>n \<in> set names. \<exists>r. x = decode_session_record n r"
proof -
  obtain groups c2 where g: "call_map (session_query env ids) names c = (Inr groups, c2)" "xs = concat groups"
    using assms(1) by (auto simp: fetch_active_sessions_def call_return_def elim!: call_bind_Inr)
  have "list_all2 (\<lambda>n ys. \<forall>y \<in> set ys. \<exists>r. y = decode_session_record n r) names groups"
    by (rule call_map_Inr [OF g(1)]) (force simp: session_query_def call_return_def elim!: call_bind_Inr)
  with g(2) assms(2) show ?thesis by (auto simp: list_all2_conv_all_nth in_set_conv_nth) (metis nth_mem)
qed

lemma gather_sessions_success:
  assumes "gather_sessions env requested c = (Inr r, c1)"
  shows "\<exists>rs ids. known_service_ids rs = Inr ids \<and> build_services_report rs = Inr (sr_services r)
    \<and> resolve_requested_session_services requested ids = Inr (sr_queried r)
    \<and> (if sr_queried r = [] then sr_active_sessions r = None
       else \<exists>xs c2 c3. sr_active_sessions r = Some xs \<and> fetch_active_sessions env (sr_queried r) ids c2 = (Inr xs, c3))"
  using assms unfolding gather_sessions_def
  by (elim call_bind_Inr) (auto simp: call_lift_def call_return_def split: if_splits elim!: call_bind_Inr, blast+)

text \<open>What a reading module may put on the wire.\<close>

definition read_request :: "conn_params \<Rightarrow> http_request \<Rightarrow> bool" where
  "read_request conn rq \<longleftrightarrow> rq_method rq = ''GET'' \<and> rq_data rq = None
     \<or> rq_data rq = Some [(''WEBVAR_USERNAME'', cp_username conn), (''WEBVAR_PASSWORD'', cp_password conn)]
     \<or> (\<exists>base b. rq_url rq = base @ ''/rpc/getsessioninfo.asp'' \<and> rq_data rq = Some [(''SERVICEBIT'', b)])
     \<or> (\<exists>base i. rq_url rq = base @ ''/rpc/getselentries.asp'' \<and> rq_data rq = Some [(''WEBVAR_LASTEVENTID'', i)])"

definition reading_calls :: "asp_call set" where
  "reading_calls = insert Login (insert GetHostStatus ({GetWebvar ep op | ep op. True} \<union> {PostWebvar ''getsessioninfo'' [(''SERVICEBIT'', b)] None | b. True}
     \<union> {PostWebvar ''getselentries'' [(''WEBVAR_LASTEVENTID'', i)] None | i. True}))"

lemma reading_calls_mem [simp]:
  "Login \<in> reading_calls" "GetWebvar ep op \<in> reading_calls" "PostWebvar ''getsessioninfo'' [(''SERVICEBIT'', b)] None \<in> reading_calls"
  "PostWebvar ''getselentries'' [(''WEBVAR_LASTEVENTID'', i)] None \<in> reading_calls" "GetHostStatus \<in> reading_calls"
  by (auto simp: reading_calls_def)

lemma gather_performs:
  "performs env reading_calls (gather_users env)"
  "performs env reading_calls (gather_network env)"
  "performs env reading_calls (gather_sessions env requested)"
  unfolding gather_users_def gather_network_def gather_sessions_def fetch_remote_session_config_def fetch_active_sessions_def session_query_def
  by (auto simp: split_def Let_def intro!: performs_intros)

lemma run_module_reads:
  assumes "performs env reading_calls body"
  shows "set (snd (run_module env conn inside body)) \<subseteq> Collect (read_request conn)"
proof
  fix rq assume rq: "rq \<in> set (snd (run_module env conn inside body))"
  obtain c call where c: "build_asp_client env conn = Inr c" "call \<in> reading_calls"
    "rq_method rq = (if is_read call then ''GET'' else ''POST'')" "rq_url rq = url_of (call_scheme call c) c @ call_path call"
    "rq_data rq = call_data call c"
    by (rule run_module_requests [OF assms _ rq, where inside = inside]) (auto simp: prod_eq_iff)
  show "rq \<in> Collect (read_request conn)"
    using c init_credentials [OF c(1)] by (auto simp: reading_calls_def read_request_def rpc_path_def)
qed

lemma report_main_reads:
  assumes "performs env reading_calls gather"
  shows "set (snd (report_main env check conn gather)) \<subseteq> Collect (read_request conn)"
    and "fst (report_main env check conn gather) \<noteq> ExitJson True r"
proof -
  have "performs env reading_calls (call_bind gather (\<lambda>r. call_return (False, Some r)))" by (intro performs_intros assms)
  from run_module_reads [OF this] show "set (snd (report_main env check conn gather)) \<subseteq> Collect (read_request conn)"
    by (simp add: report_main_def)
  show "fst (report_main env check conn gather) \<noteq> ExitJson True r"
    by (auto simp: report_main_def run_module_def caught_def call_bind_def call_return_def split: sum.splits prod.splits exn.splits)
qed

section \<open>Properties\<close>

text \<open>The report modules never write: in check mode no request is sent at all, and otherwise every request
  of a run is the login, a bodiless GET, or the session query that the device defines as a POST with
  one service identifier; no success reports a change.\<close>

theorem report_modules_only_read:
  "snd (users_main env True conn) = [] \<and> snd (network_main env True conn) = [] \<and> snd (sessions_main env True conn requested) = []
   \<and> set (snd (users_main env check conn)) \<union> set (snd (network_main env check conn))
       \<union> set (snd (sessions_main env check conn requested)) \<subseteq> Collect (read_request conn)
   \<and> fst (users_main env check conn) \<noteq> ExitJson True ur \<and> fst (network_main env check conn) \<noteq> ExitJson True nr
   \<and> fst (sessions_main env check conn requested) \<noteq> ExitJson True sr"
proof -
  have s: "snd (sessions_main env ck conn requested) = snd (report_main env ck conn (gather_sessions env requested))"
    "fst (sessions_main env ck conn requested) = ExitJson True sr
       \<Longrightarrow> fst (report_main env ck conn (gather_sessions env requested)) = ExitJson True sr" for ck
    by (auto simp: sessions_main_def split: prod.splits module_outcome.splits if_splits)
  show ?thesis
    using report_main_reads [OF gather_performs(1)] report_main_reads [OF gather_performs(2)]
      report_main_reads [OF gather_performs(3)] s(2) [of check]
    unfolding users_main_def network_main_def s(1)
    by (intro conjI) (simp_all add: report_main_def, blast+)
qed

text \<open>Rows that agree outside some fields, and whether a field holds something other than the device's placeholder.\<close>

definition agree_outside :: "string set \<Rightarrow> webvar_record \<Rightarrow> webvar_record \<Rightarrow> bool" where
  "agree_outside hidden r s \<longleftrightarrow> (\<forall>k. k \<notin> hidden \<longrightarrow> rec_get r k = rec_get s k)"

definition on_file :: "webvar_record \<Rightarrow> string \<Rightarrow> bool" where
  "on_file r k \<longleftrightarrow> truthy (rec_get r k) \<and> rec_get r k \<noteq> LitStr ''Not Available''"

text \<open>C24. Personal and secret fields reach the reports as flags only. Two accounts tables whose rows agree outside
  the e-mail address and the SSH key text, and agree on whether an address and a key are on file, give
  the same users report; likewise two DNS tables that agree outside the TSIG key and on whether one is
  on file give the same network report.\<close>

theorem secret_fields_as_flags:
  assumes "list_all2 (\<lambda>r s. agree_outside {''EmailID'', ''SSHKeyInfo''} r s
      \<and> truthy (rec_get r ''EmailID'') = truthy (rec_get s ''EmailID'') \<and> on_file r ''SSHKeyInfo'' = on_file s ''SSHKeyInfo'') users users'"
    and "list_all2 (\<lambda>r s. agree_outside {''TSIG_PRIVATE''} r s \<and> on_file r ''TSIG_PRIVATE'' = on_file s ''TSIG_PRIVATE'') dns dns'"
  shows "build_users_report users = build_users_report users'
    \<and> build_network_report lan ifaces dns bond support = build_network_report lan ifaces dns' bond support"
proof -
  have key: "(lit_or (rec_get r k) (LitStr []) \<noteq> LitStr [] \<and> lit_or (rec_get r k) (LitStr []) \<noteq> LitStr ''Not Available'') = on_file r k" for r k
    by (auto simp: lit_or_def on_file_def)
  have slot: "is_configured_slot r = is_configured_slot s \<and> decode_user_slot r = decode_user_slot s"
    if "agree_outside {''EmailID'', ''SSHKeyInfo''} r s" "truthy (rec_get r ''EmailID'') = truthy (rec_get s ''EmailID'')"
      "on_file r ''SSHKeyInfo'' = on_file s ''SSHKeyInfo''" for r s
    using that
    by (simp add: is_configured_slot_def decode_user_slot_def Let_def flag_of_def SSH_KEY_INFO_NOT_AVAILABLE_def key
        agree_outside_def) (simp add: lit_or_def)
  have entry: "decode_dns_entry r = decode_dns_entry s"
    if "agree_outside {''TSIG_PRIVATE''} r s" "on_file r ''TSIG_PRIVATE'' = on_file s ''TSIG_PRIVATE''" for r s
    using that by (simp add: decode_dns_entry_def Let_def flag_of_def TSIG_PRIVATE_NOT_AVAILABLE_def key agree_outside_def)
  have "map decode_user_slot (filter is_configured_slot users) = map decode_user_slot (filter is_configured_slot users')
      \<and> length (filter is_configured_slot users) = length (filter is_configured_slot users')"
    using assms(1) by (induction rule: list_all2_induct) (auto dest: slot)
  moreover have "map decode_dns_entry dns = map decode_dns_entry dns'"
    using assms(2) by (induction rule: list_all2_induct) (auto dest: entry)
  ultimately show ?thesis
    using assms(1) by (simp add: build_users_report_def build_network_report_def Let_def list_all2_lengthD)
qed

text \<open>The sessions report is consistent with the device's own service list: on success the services have
  distinct names, every queried name is one of them and none is queried twice, asking for \<open>all\<close> queries
  every service in the device's order, active sessions are reported exactly when something was queried,
  and each is tagged with a queried service.\<close>

theorem sessions_report_consistent:
  assumes "sessions_main env False conn requested = (ExitJson changed (Some r), rqs)"
  shows "distinct (map fst (sr_services r)) \<and> distinct (sr_queried r) \<and> set (sr_queried r) \<subseteq> fst ` set (sr_services r)
    \<and> (\<forall>names. requested = Some names \<and> ''all'' \<in> set names \<longrightarrow> sr_queried r = map fst (sr_services r))
    \<and> (sr_active_sessions r = None \<longleftrightarrow> sr_queried r = [])
    \<and> (\<forall>xs. sr_active_sessions r = Some xs \<longrightarrow> (\<forall>x \<in> set xs. \<exists>n \<in> set (sr_queried r). \<exists>s. x = decode_session_record n s))"
proof -
  have "report_main env False conn (gather_sessions env requested) = (ExitJson changed (Some r), rqs)"
    using assms by (auto simp: sessions_main_def split: prod.splits module_outcome.splits if_splits)
  then have "run_module env conn True (call_bind (gather_sessions env requested) (\<lambda>r. call_return (False, Some r))) = (ExitJson changed (Some r), rqs)"
    by (auto simp: report_main_def split: if_splits)
  then obtain c c1 where "gather_sessions env requested c = (Inr r, c1)"
    by (rule run_module_exit) (auto simp: call_return_def elim!: call_bind_Inr)
  from gather_sessions_success [OF this] obtain rs ids where g: "known_service_ids rs = Inr ids" "build_services_report rs = Inr (sr_services r)"
      "resolve_requested_session_services requested ids = Inr (sr_queried r)"
      "if sr_queried r = [] then sr_active_sessions r = None
       else \<exists>xs c2 c3. sr_active_sessions r = Some xs \<and> fetch_active_sessions env (sr_queried r) ids c2 = (Inr xs, c3)" by blast
  have keys: "map fst (sr_services r) = map fst ids \<and> distinct (map fst ids)"
    using same_services [of rs "[]" "sr_services r" "[]" ids] g(1,2) by (simp add: known_service_ids_def build_services_report_def)
  then have "fst ` set (sr_services r) = fst ` set ids" by (metis list.set_map)
  with keys resolve_sound [OF g(3)] show ?thesis
    using g(4) by (auto split: if_splits dest: fetched_tagged)
qed

definition sample_account :: "string \<Rightarrow> string \<Rightarrow> webvar_record" where
  "sample_account mail key = [(LitStr ''UserName'', LitStr ''ann''), (LitStr ''EmailID'', LitStr mail), (LitStr ''SSHKeyInfo'', LitStr key)]"

theorem secret_fields_as_flags_witness:
  "build_users_report [sample_account ''a@x'' ''key1''] = build_users_report [sample_account ''b@y'' ''key2'']"
proof -
  have get: "rec_get (sample_account m k) n = (if n = ''UserName'' then LitStr ''ann'' else if n = ''EmailID'' then LitStr m
      else if n = ''SSHKeyInfo'' then LitStr k else LitNone)" for m k n
    by (simp add: rec_get_def sample_account_def)
  have "list_all2 (\<lambda>r s. agree_outside {''EmailID'', ''SSHKeyInfo''} r s
      \<and> truthy (rec_get r ''EmailID'') = truthy (rec_get s ''EmailID'') \<and> on_file r ''SSHKeyInfo'' = on_file s ''SSHKeyInfo'')
      [sample_account ''a@x'' ''key1''] [sample_account ''b@y'' ''key2'']"
    by (simp add: agree_outside_def on_file_def get)
  from secret_fields_as_flags [OF this list_all2_Nil [THEN iffD2, OF refl]] show ?thesis by blast
qed

definition sample_service :: "string \<Rightarrow> int \<Rightarrow> webvar_record" where
  "sample_service name i = [(LitStr ''SERVICENAME'', LitStr name), (LitStr ''SERVICEID'', LitInt i), (LitStr ''MAXSESS'', LitInt 129)]"

definition sample_sessions_run :: "sessions_report option module_result" where
  "sample_sessions_run = sessions_main (sample_env [[sample_service ''web'' 1, sample_service ''kvm'' 2], [[]],
     [[(LitStr ''SID'', LitInt 7)]]]) False sample_conn (Some [''kvm''])"

theorem sessions_report_consistent_witness:
  "\<exists>r xs. fst sample_sessions_run = ExitJson False (Some r) \<and> sr_active_sessions r = Some xs \<and> length xs = 1
     \<and> set (sr_queried r) \<subseteq> fst ` set (sr_services r)"
proof -
  have "case fst sample_sessions_run of ExitJson ch (Some r) \<Rightarrow> \<not> ch \<and> map_option length (sr_active_sessions r) = Some 1 | _ \<Rightarrow> False"
    by code_simp
  then obtain r where r: "fst sample_sessions_run = ExitJson False (Some r)" "map_option length (sr_active_sessions r) = Some 1"
    by (auto split: module_outcome.splits option.splits)
  then have "sessions_main (sample_env [[sample_service ''web'' 1, sample_service ''kvm'' 2], [[]], [[(LitStr ''SID'', LitInt 7)]]])
      False sample_conn (Some [''kvm'']) = (ExitJson False (Some r), snd sample_sessions_run)"
    by (simp add: sample_sessions_run_def prod_eq_iff)
  from sessions_report_consistent [OF this] r show ?thesis by auto
qed

end
