(* ===== verification/Log_Modules.thy ===== *)
theory Log_Modules
  imports Report_Modules
begin

text \<open>
  The modules that read logs and alert settings: \<open>plugins/modules/asmb8_sel.py\<close>, \<open>asmb8_auditlog.py\<close> and
  \<open>asmb8_alerts.py\<close>. The event log's time stamps are rendered as \<open>datetime.isoformat\<close> does in UTC. The
  two other modules read every endpoint on its own: a classified failure of one leaves its field
  empty and is recorded, and the rest is still reported.
\<close>

section \<open>Coercions of WEBVAR values\<close>

text \<open>\<open>int()\<close> of a value.\<close>

definition lit_int :: "web_env \<Rightarrow> py_literal \<Rightarrow> exn + int" where
  "lit_int env v = (case v of
      LitInt i \<Rightarrow> Inr i
    | LitBool b \<Rightarrow> Inr (of_bool b)
    | LitStr s \<Rightarrow> (case py_int s of None \<Rightarrow> Inl ValueError | Some i \<Rightarrow> Inr i)
    | LitOther b s \<Rightarrow> we_other_int env s
    | _ \<Rightarrow> Inl TypeError)"

text \<open>The coercions of \<open>models.py\<close> look at the type and the \<open>str()\<close> of a value only.\<close>

fun coercible :: "py_literal \<Rightarrow> pyval" where
  "coercible LitNone = PNone"
| "coercible (LitBool b) = PBool b"
| "coercible (LitInt i) = PInt i"
| "coercible (LitStr s) = PStr s"
| "coercible (LitOther b s) = PStr s"
| "coercible (LitList xs) = PList []"
| "coercible (LitDict kvs) = PDict []"

definition opt_int :: "webvar_record \<Rightarrow> string \<Rightarrow> py_literal" where
  "opt_int r k = (case optional_int (coercible (rec_get r k)) of None \<Rightarrow> LitNone | Some i \<Rightarrow> LitInt i)"

definition opt_flag :: "webvar_record \<Rightarrow> string \<Rightarrow> py_literal" where
  "opt_flag r k = (case optional_bool_flag (coercible (rec_get r k)) of None \<Rightarrow> LitNone | Some b \<Rightarrow> LitBool b)"

definition opt_str_or_empty :: "webvar_record \<Rightarrow> string \<Rightarrow> py_literal" where
  "opt_str_or_empty r k = LitStr (case optional_str (coercible (rec_get r k)) of None \<Rightarrow> [] | Some s \<Rightarrow> s)"

section \<open>UTC time stamps\<close>

definition is_leap :: "int \<Rightarrow> bool" where
  "is_leap y \<longleftrightarrow> y mod 4 = 0 \<and> (y mod 100 \<noteq> 0 \<or> y mod 400 = 0)"

text \<open>Days of the proleptic Gregorian calendar before a year, with 0001-01-01 as day zero.\<close>

definition days_before_year :: "int \<Rightarrow> int" where
  "days_before_year y = (let z = y - 1 in z * 365 + z div 4 - z div 100 + z div 400)"

definition month_lengths :: "int \<Rightarrow> int list" where
  "month_lengths y = [31, if is_leap y then 29 else 28, 31, 30, 31, 30, 31, 31, 30, 31, 30, 31]"

fun month_of_day :: "int list \<Rightarrow> int \<Rightarrow> int \<Rightarrow> int \<times> int" where
  "month_of_day [] m d = (m, d)"
| "month_of_day (l # ls) m d = (if d < l then (m, d) else month_of_day ls (m + 1) (d - l))"

text \<open>The year of a day and the day within it, by dividing out cycles of 400, 100, 4 and 1 years; the last
  day of a leap cycle divides into one year too many.\<close>

definition year_of_day :: "int \<Rightarrow> int \<times> int" where
  "year_of_day n =
     (let a = n div 146097; n1 = n mod 146097; b = n1 div 36524; n2 = n1 mod 36524;
          c = n2 div 1461; n3 = n2 mod 1461; d = n3 div 365; r = n3 mod 365;
          y = 400 * a + 100 * b + 4 * c + d + 1
      in if d = 4 \<or> b = 4 then (y - 1, 365) else (y, r))"

definition civil_of_day :: "int \<Rightarrow> int \<times> int \<times> int" where
  "civil_of_day n = (let (y, r) = year_of_day n; (m, d) = month_of_day (month_lengths y) 1 r in (y, m, d + 1))"

definition pad :: "nat \<Rightarrow> int \<Rightarrow> string" where
  "pad w i = (let s = str_int i in replicate (w - length s) (CHR ''0'') @ s)"

text \<open>\<open>fromtimestamp(t, tz=utc).isoformat()\<close>; outside years 1 to 9999 it raises.\<close>

definition utc_isoformat :: "int \<Rightarrow> string option" where
  "utc_isoformat t =
     (if t < - 62135596800 \<or> t > 253402300799 then None
      else let day = t div 86400 + 719162; s = t mod 86400; (y, m, d) = civil_of_day day
           in Some (pad 4 y @ ''-'' @ pad 2 m @ ''-'' @ pad 2 d @ ''T'' @ pad 2 (s div 3600) @ '':''
                    @ pad 2 (s mod 3600 div 60) @ '':'' @ pad 2 (s mod 60) @ ''+00:00''))"

lemma days_before_cycles:
  assumes "0 \<le> b" "b < 4" "0 \<le> c" "c < 25" "0 \<le> d" "d < 4"
  shows "days_before_year (400 * a + 100 * b + 4 * c + d + 1) = 146097 * a + 36524 * b + 1461 * c + 365 * d"
proof -
  let ?z = "400 * a + 100 * b + 4 * c + d"
  have "?z = 4 * (100 * a + 25 * b + c) + d" "?z = 100 * (4 * a + b) + (4 * c + d)" "?z = 400 * a + (100 * b + 4 * c + d)"
    by simp_all
  then have "?z div 4 = 100 * a + 25 * b + c" "?z div 100 = 4 * a + b" "?z div 400 = a"
    using assms int_div_pos_eq [of ?z 4 _ d] int_div_pos_eq [of ?z 100 _ "4 * c + d"] int_div_pos_eq [of ?z 400 a "100 * b + 4 * c + d"]
    by simp_all
  then show ?thesis by (simp add: days_before_year_def Let_def)
qed

lemma div_pred: "0 < k \<Longrightarrow> y div k = (y - 1) div k + of_bool (k dvd y)" for y k :: int
proof (cases "k dvd y")
  case True
  moreover assume "0 < k"
  ultimately obtain q where "y = k * q" by auto
  with \<open>0 < k\<close> int_div_pos_eq [of "y - 1" k "q - 1" "k - 1"] show ?thesis by (simp add: algebra_simps)
next
  case False
  assume k: "0 < k"
  then have "0 < y mod k" "y mod k < k"
    using False pos_mod_sign [OF k, of y] pos_mod_bound [OF k, of y] order.not_eq_order_implies_strict [of 0 "y mod k"]
    by (metis dvd_eq_mod_eq_0)+
  with k int_div_pos_eq [of "y - 1" k "y div k" "y mod k - 1"] False show ?thesis by simp
qed

lemma year_length: "days_before_year (y + 1) = days_before_year y + 365 + of_bool (is_leap y)"
proof -
  have "100 dvd y \<Longrightarrow> 4 dvd y" "400 dvd y \<Longrightarrow> 100 dvd y" using dvd_trans [of 4 100 y] dvd_trans [of 100 400 y] by simp_all
  then have leap: "of_bool (4 dvd y) - of_bool (100 dvd y) + of_bool (400 dvd y) = (of_bool (is_leap y) :: int)"
    unfolding is_leap_def dvd_eq_mod_eq_0 [symmetric]
    by (cases "4 dvd y"; cases "100 dvd y"; cases "400 dvd y") simp_all
  have sum: "y * 365 + (p + e) - (q + f) + (r + g) = (y - 1) * 365 + p - q + r + 365 + (e - f + g)" for p q r e f g :: int
    by simp
  have "days_before_year (y + 1) = y * 365 + y div 4 - y div 100 + y div 400" unfolding days_before_year_def Let_def by simp
  also have "\<dots> = y * 365 + ((y - 1) div 4 + of_bool (4 dvd y)) - ((y - 1) div 100 + of_bool (100 dvd y))
      + ((y - 1) div 400 + of_bool (400 dvd y))"
    using div_pred [of 4 y] div_pred [of 100 y] div_pred [of 400 y] by simp
  finally show ?thesis unfolding sum leap days_before_year_def Let_def .
qed

lemma last_year_of_cycle:
  assumes "0 \<le> b" "b < 4" "0 \<le> c" "c < 25"
  shows "is_leap (400 * a + 100 * b + 4 * c + 4) \<longleftrightarrow> c \<noteq> 24 \<or> b = (3 :: int)"
proof -
  let ?y = "400 * a + 100 * b + 4 * c + 4"
  have y: "?y = 4 * (100 * a + 25 * b + c + 1)" "?y = 4 * (c + 1) + 100 * (4 * a + b)" "?y = 4 * (25 * b + c + 1) + 400 * a" by simp_all
  have "?y mod 4 = 0" unfolding y(1) by (rule mod_mult_self1_is_0)
  moreover have "?y mod 100 = 4 * ((c + 1) mod 25)" unfolding y(2) mod_mult_self2 using mult_mod_right [of 4 "c + 1" 25] by simp
  moreover have "?y mod 400 = 4 * ((25 * b + c + 1) mod 100)" unfolding y(3) mod_mult_self2 using mult_mod_right [of 4 "25 * b + c + 1" 100] by simp
  moreover have "(c + 1) mod 25 = 0 \<longleftrightarrow> c = 24" using assms(3,4) by (cases "c = 24") simp_all
  moreover have "(25 * b + c + 1) mod 100 = 0 \<longleftrightarrow> 25 * b + c = 99" using assms by (cases "25 * b + c = 99") (simp_all add: add.assoc)
  ultimately show ?thesis using assms by (auto simp: is_leap_def)
qed

lemma year_of_day_correct:
  assumes "year_of_day n = (y, r)"
  shows "n = days_before_year y + r \<and> 0 \<le> r \<and> r < 365 + of_bool (is_leap y)"
proof -
  define a n1 b n2 c n3 d t where defs: "a = n div 146097" "n1 = n mod 146097" "b = n1 div 36524" "n2 = n1 mod 36524"
    "c = n2 div 1461" "n3 = n2 mod 1461" "d = n3 div 365" "t = n3 mod 365"
  have split: "n = 146097 * a + n1" "n1 = 36524 * b + n2" "n2 = 1461 * c + n3" "n3 = 365 * d + t"
    unfolding defs by (simp_all only: mult_div_mod_eq)
  have n1: "0 \<le> n1" "n1 < 146097" and n2: "0 \<le> n2" "n2 < 36524" and n3: "0 \<le> n3" "n3 < 1461" and t: "0 \<le> t" "t < 365"
    unfolding defs by (simp_all only: pos_mod_sign pos_mod_bound zero_less_numeral)
  have yr: "(y, r) = (if d = 4 \<or> b = 4 then (400 * a + 100 * b + 4 * c + d, 365) else (400 * a + 100 * b + 4 * c + d + 1, t))"
    using assms unfolding year_of_day_def Let_def defs by (auto split: if_splits)
  have b: "0 \<le> b" "b \<le> 4" and c: "0 \<le> c" "c \<le> 24" and d: "0 \<le> d" "d \<le> 4"
    using split n1 n2 n3 t by linarith+
  consider "b = 4" | "b < 4" "d = 4" | "b < 4" "d < 4" using b d by linarith
  then show ?thesis
  proof cases
    case 1
    then have "n2 = 0" using split(2) n1 n2 by linarith
    moreover from this have "c = 0" "n3 = 0" using split(3) n3 c by linarith+
    moreover from this have "d = 0" "t = 0" using split(4) t d by linarith+
    ultimately show ?thesis using 1 yr split days_before_cycles [of 3 24 3 a] last_year_of_cycle [of 3 24 a] by (simp add: add.commute)
  next
    case 2
    then have "t = 0" "c < 24" using split n2 n3 t c by linarith+
    with 2 yr split days_before_cycles [of b c 3 a] last_year_of_cycle [of b c a] b c show ?thesis by (simp add: add.commute)
  next
    case 3
    with yr split days_before_cycles [of b c d a] b c d t show ?thesis by simp
  qed
qed

lemma month_of_day_correct:
  assumes "month_of_day ls m d = (m1, d1)" and "0 \<le> d" and "d < sum_list ls"
  shows "\<exists>k < length ls. m1 = m + int k \<and> 0 \<le> d1 \<and> d1 < ls ! k \<and> d = sum_list (take k ls) + d1"
  using assms
proof (induction ls m d rule: month_of_day.induct)
  case (2 l ls m d)
  show ?case
  proof (cases "d < l")
    case True
    with 2 show ?thesis by (intro exI [of _ 0]) simp
  next
    case False
    with 2 obtain k where "k < length ls" "m1 = m + 1 + int k" "0 \<le> d1" "d1 < ls ! k" "d - l = sum_list (take k ls) + d1" by auto
    then show ?thesis by (intro exI [of _ "Suc k"]) simp
  qed
qed simp

lemma civil_of_day_correct:
  assumes "civil_of_day n = (y, m, d)"
  shows "\<exists>k < 12. m = int k + 1 \<and> 1 \<le> d \<and> d \<le> month_lengths y ! k
    \<and> n = days_before_year y + sum_list (take k (month_lengths y)) + d - 1"
proof -
  obtain r where yr: "year_of_day n = (y, r)" and "month_of_day (month_lengths y) 1 r = (m, d - 1)"
    using assms by (auto simp: civil_of_day_def Let_def split: prod.splits)
  moreover have "sum_list (month_lengths y) = 365 + of_bool (is_leap y)" by (simp add: month_lengths_def)
  ultimately obtain k where "k < length (month_lengths y)" "m = 1 + int k" "0 \<le> d - 1" "d - 1 < month_lengths y ! k"
      "r = sum_list (take k (month_lengths y)) + (d - 1)"
    using year_of_day_correct [OF yr] month_of_day_correct by metis
  then show ?thesis using year_of_day_correct [OF yr] by (intro exI [of _ k]) (simp add: month_lengths_def)
qed

section \<open>\<open>asmb8_sel\<close>\<close>

definition KNOWN_ENTRY_FIELDS :: "string list" where
  "KNOWN_ENTRY_FIELDS = [''RecordID'', ''RecordType'', ''TimeStamp'', ''GenID1'', ''GenID2'', ''EvmRev'', ''SensorType'',
     ''SensorName'', ''EventDirType'', ''EventData1'', ''EventData2'', ''EventData3'']"

text \<open>\<open>int()\<close> and \<open>fromtimestamp\<close> raise nothing but the classes that are caught here.\<close>

definition epoch_to_iso :: "web_env \<Rightarrow> py_literal \<Rightarrow> py_literal" where
  "epoch_to_iso env epoch = (case lit_int env epoch of
      Inl _ \<Rightarrow> LitNone
    | Inr t \<Rightarrow> (case utc_isoformat t of None \<Rightarrow> LitNone | Some s \<Rightarrow> LitStr s))"

record sel_entry =
  se_named :: "(string \<times> py_literal) list"
  se_extra :: webvar_record

definition parse_entry :: "web_env \<Rightarrow> webvar_record \<Rightarrow> sel_entry" where
  "parse_entry env r =
     (let extra = filter (\<lambda>(key, _). key \<notin> LitStr ` set KNOWN_ENTRY_FIELDS) r;
          timestamp_epoch = rec_get r ''TimeStamp''
      in \<lparr>se_named =
            [(''record_id'', rec_get r ''RecordID''),
             (''record_type'', rec_get r ''RecordType''),
             (''timestamp_epoch'', timestamp_epoch),
             (''timestamp'', if timestamp_epoch \<noteq> LitNone then epoch_to_iso env timestamp_epoch else LitNone),
             (''generator_id_1'', rec_get r ''GenID1''),
             (''generator_id_2'', rec_get r ''GenID2''),
             (''event_message_format_version'', rec_get r ''EvmRev''),
             (''sensor_type'', rec_get r ''SensorType''),
             (''sensor_name'', rec_get r ''SensorName''),
             (''event_dir_type'', rec_get r ''EventDirType''),
             (''event_data_1'', rec_get r ''EventData1''),
             (''event_data_2'', rec_get r ''EventData2''),
             (''event_data_3'', rec_get r ''EventData3'')],
          se_extra = extra\<rparr>)"

text \<open>\<open>entries[:limit]\<close>; \<open>main\<close> lets only non-negative limits through.\<close>

definition limited :: "int option \<Rightarrow> 'a list \<Rightarrow> 'a list" where
  "limited lim xs = (case lim of None \<Rightarrow> xs
     | Some l \<Rightarrow> if l < 0 then take (length xs - nat (- l)) xs else take (nat l) xs)"

definition read_entries :: "web_env \<Rightarrow> int option \<Rightarrow> (sel_entry list \<times> nat) web_call" where
  "read_entries env lim =
     call_bind (web_records env ''getallselentries'') (\<lambda>rs.
       let entries = map (parse_entry env) rs in call_return (limited lim entries, length entries))"

definition read_paged_entries :: "web_env \<Rightarrow> int \<Rightarrow> int option \<Rightarrow> (sel_entry list \<times> nat) web_call" where
  "read_paged_entries env after_event_id lim =
     call_bind (web_post env ''getselentries'' [(''WEBVAR_LASTEVENTID'', str_int after_event_id)]) (\<lambda>response.
       let entries = map (parse_entry env) (records response) in call_return (limited lim entries, length entries))"

text \<open>\<open>int(response.records[0][field])\<close>, or a \<open>ProtocolError\<close> when there is no such field.\<close>

definition read_count_field :: "web_env \<Rightarrow> string \<Rightarrow> string \<Rightarrow> int web_call" where
  "read_count_field env ep fld =
     call_bind (web_records env ep) (\<lambda>rs.
       case rs of [] \<Rightarrow> call_raise (\<lambda>c. asp_error PROTOCOL ''asmb8_sel.read'' False c)
       | r # _ \<Rightarrow> (case map_of r (LitStr fld) of
             None \<Rightarrow> call_raise (\<lambda>c. asp_error PROTOCOL ''asmb8_sel.read'' False c)
           | Some v \<Rightarrow> call_lift (lit_int env v)))"

definition read_max_entries :: "web_env \<Rightarrow> int web_call" where
  "read_max_entries env = read_count_field env ''getmaxselentries'' ''COUNT''"

definition read_sel_policy :: "web_env \<Rightarrow> int web_call" where
  "read_sel_policy env = read_count_field env ''getselcfg'' ''SEL_POLICY''"

record sel_report =
  sl_entries :: "sel_entry list"
  sl_available :: nat
  sl_returned :: nat
  sl_max_entries :: int
  sl_policy :: int

definition gather_sel :: "web_env \<Rightarrow> int option \<Rightarrow> int option \<Rightarrow> sel_report web_call" where
  "gather_sel env lim after_event_id =
     call_bind (web_login env) (\<lambda>_.
     call_bind (case after_event_id of Some i \<Rightarrow> read_paged_entries env i lim | None \<Rightarrow> read_entries env lim) (\<lambda>(entries, available).
     call_bind (read_max_entries env) (\<lambda>max_entries.
     call_bind (read_sel_policy env) (\<lambda>sel_policy.
       call_return \<lparr>sl_entries = entries, sl_available = available, sl_returned = length entries,
         sl_max_entries = max_entries, sl_policy = sel_policy\<rparr>))))"

definition sel_main :: "web_env \<Rightarrow> conn_params \<Rightarrow> int option \<Rightarrow> int option \<Rightarrow> sel_report module_result" where
  "sel_main env conn lim after_event_id =
     (if \<not> we_has_requests env then (FailMsg, [])
      else if (case lim of Some l \<Rightarrow> l < 0 | None \<Rightarrow> False) then (FailMsg, [])
      else if (case after_event_id of Some i \<Rightarrow> i < 0 | None \<Rightarrow> False) then (FailMsg, [])
      else run_module env conn False (call_bind (gather_sel env lim after_event_id) (\<lambda>r. call_return (False, r))))"

section \<open>\<open>asmb8_auditlog\<close>\<close>

text \<open>\<open>_read_endpoint\<close>: only a classified error is turned into an empty field.\<close>

definition read_endpoint :: "web_env \<Rightarrow> string \<Rightarrow> (webvar_record list \<Rightarrow> py_literal) \<Rightarrow> (py_literal \<times> read_outcome) web_call" where
  "read_endpoint env ep transform = call_try
     (call_bind (web_records env ep) (\<lambda>rs. call_return (transform rs, ReadOk)))
     (\<lambda>err. (LitNone, ReadFailed (Some (error_class err)))) (\<lambda>err. True)"

definition extract_entries :: "web_env \<Rightarrow> webvar_record list \<Rightarrow> py_literal" where
  "extract_entries env rs =
     LitList (map (\<lambda>v. LitStr (lit_text env v)) (filter (\<lambda>v. v \<noteq> LitNone) (map (\<lambda>r. rec_get r ''AUDIT_LOG'') rs)))"

definition build_remote_storage :: "webvar_record \<Rightarrow> py_literal" where
  "build_remote_storage r = obj
     [(''remote_enabled'', opt_flag r ''RM_ENABLE''),
      (''sd_card_enabled'', opt_flag r ''SD_ENABLE''),
      (''remote_status'', opt_int r ''REMOTE_STATUS''),
      (''sd_card_status'', opt_int r ''SDCARD_STATUS''),
      (''address'', opt_str_or_empty r ''IP_ADDR''),
      (''remote_path'', opt_str_or_empty r ''REMOTE_PATH''),
      (''share_type'', opt_int r ''SHR_TYPE''),
      (''username'', opt_str_or_empty r ''UNAME''),
      (''password_configured'', LitBool (optional_str (coercible (rec_get r ''PWORD'')) \<noteq> None)),
      (''domain_name'', opt_str_or_empty r ''DOMAIN_NAME'')]"

definition build_logging :: "webvar_record \<Rightarrow> py_literal" where
  "build_logging r = obj
     [(''audit_enabled'', opt_flag r ''AUDITENABLE''),
      (''syslog_enabled'', opt_flag r ''SYSLOGENABLE''),
      (''file_size'', opt_int r ''FILESIZE''),
      (''rotate_count'', opt_int r ''ROTATECNT''),
      (''remote_syslog_address'', opt_str_or_empty r ''SERVERADDR'')]"

definition build_sel_policy :: "webvar_record \<Rightarrow> py_literal" where
  "build_sel_policy r = opt_int r ''SEL_POLICY''"

text \<open>A report is the value and the outcome of each field, in the order of the reads.\<close>

type_synonym degraded_report = "(string \<times> py_literal \<times> read_outcome) list"

definition read_fields :: "web_env \<Rightarrow> (string \<times> string \<times> (webvar_record list \<Rightarrow> py_literal)) list \<Rightarrow> degraded_report web_call" where
  "read_fields env plan = call_map (\<lambda>(fld, ep, transform).
     call_bind (read_endpoint env ep transform) (\<lambda>v. call_return (fld, v))) plan"

definition auditlog_plan :: "web_env \<Rightarrow> (string \<times> string \<times> (webvar_record list \<Rightarrow> py_literal)) list" where
  "auditlog_plan env =
     [(''entries'', ''getauditlog'', extract_entries env),
      (''remote_storage'', ''getauditlogcfg'', first_or_none build_remote_storage),
      (''logging'', ''getlogcfg'', first_or_none build_logging),
      (''sel_policy'', ''getselcfg'', first_or_none build_sel_policy)]"

definition gather_auditlog :: "web_env \<Rightarrow> degraded_report web_call" where
  "gather_auditlog env = read_fields env (auditlog_plan env)"

definition auditlog_main :: "web_env \<Rightarrow> conn_params \<Rightarrow> degraded_report module_result" where
  "auditlog_main env conn = run_module env conn False
     (call_bind (web_login env) (\<lambda>_. call_bind (gather_auditlog env) (\<lambda>r. call_return (False, r))))"

section \<open>\<open>asmb8_alerts\<close>\<close>

definition smtp_relay :: "webvar_record \<Rightarrow> string \<Rightarrow> py_literal" where
  "smtp_relay r sfx = obj
     [(''enabled'', opt_flag r (''SMTPENABLE'' @ sfx)),
      (''port'', opt_int r (''SMTPPORT'' @ sfx)),
      (''server'', opt_str_or_empty r (''SMTPSERVER'' @ sfx)),
      (''auth_enabled'', opt_flag r (''SMTPAUTHENABLE'' @ sfx)),
      (''username'', opt_str_or_empty r (''USERNAME'' @ sfx))]"

definition smtp_channel :: "webvar_record \<Rightarrow> py_literal" where
  "smtp_channel r = obj
     [(''channel'', opt_int r ''CHANNEL_NUM''),
      (''sender_address'', opt_str_or_empty r ''SENDERADDR''),
      (''machine_name'', opt_str_or_empty r ''MACHINENAME''),
      (''primary'', smtp_relay r ''1''),
      (''secondary'', smtp_relay r ''2'')]"

definition lan_destination :: "webvar_record \<Rightarrow> py_literal" where
  "lan_destination r = obj
     [(''channel'', opt_int r ''CHANNEL_NUM''),
      (''destination_id'', opt_int r ''LANDestID''),
      (''destination_type'', opt_int r ''DestType''),
      (''address_format'', opt_int r ''AddrFormat''),
      (''address'', opt_str_or_empty r ''DestAddr''),
      (''user_id'', opt_int r ''UserID''),
      (''subject'', opt_str_or_empty r ''Subject''),
      (''message'', opt_str_or_empty r ''Message'')]"

definition event_filter :: "webvar_record \<Rightarrow> py_literal" where
  "event_filter r = obj
     [(''filter_config'', opt_int r ''FilterConfig''),
      (''filter_action'', opt_int r ''EvtFilterAction''),
      (''alert_policy_num'', opt_int r ''AlertPolicyNum''),
      (''event_severity'', opt_int r ''EventSeverity''),
      (''generator_byte_1'', opt_int r ''GeneratorByte1''),
      (''generator_byte_2'', opt_int r ''GeneratorByte2''),
      (''sensor_type'', opt_int r ''SensorType''),
      (''sensor_name'', opt_str_or_empty r ''SensorName''),
      (''event_trigger'', opt_int r ''EventTrigger''),
      (''event_data1_offset_mask'', opt_int r ''EventData1OffsetMask''),
      (''event_data1_and_mask'', opt_int r ''EventData1ANDMask''),
      (''event_data1_cmp1'', opt_int r ''EventData1Cmp1''),
      (''event_data1_cmp2'', opt_int r ''EventData1Cmp2''),
      (''event_data2_and_mask'', opt_int r ''EventData2ANDMask''),
      (''event_data2_cmp1'', opt_int r ''EventData2Cmp1''),
      (''event_data2_cmp2'', opt_int r ''EventData2Cmp2''),
      (''event_data3_and_mask'', opt_int r ''EventData3ANDMask''),
      (''event_data3_cmp1'', opt_int r ''EventData3Cmp1''),
      (''event_data3_cmp2'', opt_int r ''EventData3Cmp2'')]"

definition alert_policy :: "webvar_record \<Rightarrow> py_literal" where
  "alert_policy r = obj
     [(''entry_number'', opt_int r ''PolicyEntryNumber''),
      (''policy_number'', opt_int r ''PolicyNumber''),
      (''enabled'', opt_flag r ''EnablePolicy''),
      (''policy_set'', opt_int r ''PolicySet''),
      (''channel_number'', opt_int r ''ChannelNumber''),
      (''destination_selector'', opt_int r ''DestSelector''),
      (''event_specific'', opt_int r ''EventSpecific''),
      (''alert_string'', opt_int r ''AlertString'')]"

definition trigger :: "webvar_record \<Rightarrow> py_literal" where
  "trigger r = obj [(''enabled'', opt_flag r ''ENABLE''), (''timestamp'', lit_or (opt_int r ''TIMESTAMP'') (LitInt 0))]"

definition email_formats :: "webvar_record list \<Rightarrow> py_literal" where
  "email_formats rs = LitList (map LitStr (List.map_filter (\<lambda>r. optional_str (coercible (rec_get r ''EMAIL_FORMAT''))) rs))"

definition adviser :: "webvar_record \<Rightarrow> py_literal" where
  "adviser r = obj
     [(''kvm_license_status'', opt_int r ''V_STR_KVM_LICENSE_STATUS''),
      (''kvm_status'', opt_int r ''V_STR_KVM_STATUS''),
      (''secure_channel'', opt_int r ''V_STR_SECURE_CHANNEL''),
      (''kvm_port'', opt_int r ''V_STR_KVM_PORT''),
      (''mouse_mode'', opt_int r ''V_STR_MOUSE_MODE''),
      (''keyboard_layout'', opt_str_or_empty r ''V_STR_KEYBOARD_LAYOUT''),
      (''web_port'', opt_int r ''V_STR_WEB_PORT''),
      (''singleport_status'', opt_int r ''V_STR_SINGLEPORT_STATUS''),
      (''oem_feature_status'', opt_int r ''V_STR_OEM_FEATURE_STATUS'')]"

definition each_row :: "(webvar_record \<Rightarrow> py_literal) \<Rightarrow> webvar_record list \<Rightarrow> py_literal" where
  "each_row f rs = LitList (map f rs)"

definition alerts_plan :: "(string \<times> string \<times> (webvar_record list \<Rightarrow> py_literal)) list" where
  "alerts_plan =
     [(''smtp'', ''getsmtpcfg'', each_row smtp_channel),
      (''lan'', ''getlandeststable'', each_row lan_destination),
      (''event_filters'', ''getallpefcfg'', each_row event_filter),
      (''policies'', ''getallpolicycfg'', each_row alert_policy),
      (''triggers'', ''gettriggercfg'', each_row trigger),
      (''email_format'', ''getemailformat'', email_formats),
      (''adviser'', ''getadvisercfg'', first_or_none adviser)]"

definition gather_alerts :: "web_env \<Rightarrow> degraded_report web_call" where
  "gather_alerts env = read_fields env alerts_plan"

text \<open>The grouping of the fields as the module returns them.\<close>

definition alerts_result :: "degraded_report \<Rightarrow> py_literal" where
  "alerts_result report =
     (let value = (\<lambda>fld. case map_of report fld of None \<Rightarrow> LitNone | Some (v, _) \<Rightarrow> v)
      in obj [(''destinations'', obj [(''smtp'', value ''smtp''), (''lan'', value ''lan'')]),
              (''filtering'', obj [(''event_filters'', value ''event_filters''), (''policies'', value ''policies''),
                                   (''triggers'', value ''triggers'')]),
              (''email_format'', obj [(''available'', value ''email_format'')]),
              (''adviser'', value ''adviser'')])"

definition alerts_main :: "web_env \<Rightarrow> conn_params \<Rightarrow> (py_literal \<times> (string \<times> read_outcome) list) module_result" where
  "alerts_main env conn = run_module env conn False
     (call_bind (web_login env) (\<lambda>_. call_bind (gather_alerts env) (\<lambda>r.
        call_return (False, (alerts_result r, map (\<lambda>(fld, v, out). (fld, out)) r)))))"

section \<open>Facts\<close>

lemma sel_performs: "performs env reading_calls (gather_sel env lim after_event_id)"
proof -
  have "performs env reading_calls (read_count_field env ep fld)" for ep fld
    unfolding read_count_field_def by (auto intro!: performs_intros split: list.split option.split)
  then show ?thesis
    unfolding gather_sel_def read_entries_def read_paged_entries_def read_max_entries_def read_sel_policy_def Let_def
    by (auto intro!: performs_intros split: option.split prod.split)
qed

lemma fields_performs: "performs env reading_calls (read_fields env plan)"
  unfolding read_fields_def read_endpoint_def by (auto intro!: performs_intros split: prod.split)

lemma run_module_unchanged: "fst (run_module env conn inside (call_bind m (\<lambda>r. call_return (False, g r)))) \<noteq> ExitJson True x"
  by (auto simp: run_module_def caught_def call_bind_def call_return_def split: sum.splits prod.splits exn.splits)

lemma call_bind_assoc: "call_bind (call_bind m f) g = call_bind m (\<lambda>x. call_bind (f x) g)"
  by (rule ext) (auto simp: call_bind_def split: prod.splits sum.splits)

text \<open>The rows that the endpoints of a plan give, asked one after the other from the client \<open>c\<close>: what an endpoint
  answered, marked as read, or an empty field marked with the class of its error.\<close>

fun answered ::
  "web_env \<Rightarrow> asp_client \<Rightarrow> (string \<times> string \<times> (webvar_record list \<Rightarrow> py_literal)) list \<Rightarrow> degraded_report \<Rightarrow> bool" where
  "answered env c [] rows = (rows = [])"
| "answered env c ((fld, ep, transform) # plan) [] = False"
| "answered env c ((fld, ep, transform) # plan) ((name, v, out) # rows) =
     (name = fld \<and> (case web_records env ep c of
         (Inr rs, c1) \<Rightarrow> v = transform rs \<and> out = ReadOk \<and> answered env c1 plan rows
       | (Inl (Ikvm err), c1) \<Rightarrow> v = LitNone \<and> out = ReadFailed (Some (error_class err)) \<and> answered env c1 plan rows
       | _ \<Rightarrow> False))"

text \<open>The first of them that ends without a classified error, when one does.\<close>

fun unclassified :: "web_env \<Rightarrow> asp_client \<Rightarrow> (string \<times> string \<times> (webvar_record list \<Rightarrow> py_literal)) list \<Rightarrow> exn option" where
  "unclassified env c [] = None"
| "unclassified env c ((fld, ep, transform) # plan) = (case web_records env ep c of
      (Inr rs, c1) \<Rightarrow> unclassified env c1 plan
    | (Inl (Ikvm err), c1) \<Rightarrow> unclassified env c1 plan
    | (Inl e, c1) \<Rightarrow> Some e)"

lemma answered_unique: "answered env c plan rows \<Longrightarrow> answered env c plan rows' \<Longrightarrow> rows = rows'"
proof (induction env c plan rows arbitrary: rows' rule: answered.induct)
  case (3 env c fld ep f plan name v out rows)
  obtain r c1 where r: "web_records env ep c = (r, c1)" by fastforce
  from 3(4) obtain row rest where rows': "rows' = row # rest" by (cases rows') auto
  show ?case
  proof (cases r)
    case (Inr rs)
    with 3 r show ?thesis by (cases row) (simp add: rows')
  next
    case (Inl e)
    with 3 r show ?thesis by (cases row; cases e) (simp_all add: rows')
  qed
qed simp_all

lemma retry_loop_raises:
  "fst (retry_loop srv meth url op data params attempt c) = Inl e \<Longrightarrow> e = RequestException \<or> (\<exists>err. e = Ikvm err)"
proof (induction srv meth url op data params attempt c rule: retry_loop.induct)
  case (1 srv meth url op data params attempt c)
  obtain r c1 where r: "send_once srv meth url op data params c = (r, c1)" by fastforce
  then have failed: "e' = RequestException \<or> (\<exists>err. e' = Ikvm err)" if "r = Failed e'" for e'
    using that by (auto simp: send_once_def Let_def classify_outcome_def asp_error_def split: http_outcome.splits if_splits)
  show ?case using 1(2) failed 1(1) [OF r [symmetric]]
    by (cases r) (auto simp: retry_loop.simps [of srv meth url op data params attempt c] r asp_error_def split: if_splits)
qed

lemma web_records_raises: "web_records env ep c = (Inl e, c1) \<Longrightarrow> e = RequestException \<or> (\<exists>err. e = Ikvm err)"
  unfolding web_records_def call_bind_def call_return_def web_get_def get_webvar_def read_webvar_def client_request_def
    send_with_retry_def Let_def raise_if_session_expired_def
  by (auto simp: asp_error_def webvar_error_def split: prod.splits sum.splits if_splits option.splits dest!: arg_cong [of _ _ fst] dest!: retry_loop_raises parse_webvar_error)

lemma unclassified_raises: "unclassified env c plan = Some e \<Longrightarrow> e = RequestException"
  by (induction env c plan rule: unclassified.induct)
    (auto split: prod.splits sum.splits exn.splits dest: web_records_raises)

lemma read_endpoint_step:
  "read_endpoint env ep f c = (case web_records env ep c of
      (Inr rs, c1) \<Rightarrow> (Inr (f rs, ReadOk), c1)
    | (Inl (Ikvm err), c1) \<Rightarrow> (Inr (LitNone, ReadFailed (Some (error_class err))), c1)
    | (Inl e, c1) \<Rightarrow> (Inl e, c1))"
  by (auto simp: read_endpoint_def call_try_def call_bind_def call_return_def split: prod.splits sum.splits exn.splits)

lemma read_fields_Cons:
  "read_fields env ((fld, ep, f) # plan) c = call_bind (read_endpoint env ep f) (\<lambda>v.
     call_bind (read_fields env plan) (\<lambda>rows. call_return ((fld, v) # rows))) c"
  by (simp add: read_fields_def call_bind_def call_return_def split: prod.split sum.split)

lemma read_fields_answered:
  "case unclassified env c plan of
     Some e \<Rightarrow> fst (read_fields env plan c) = Inl e
   | None \<Rightarrow> \<exists>rows. fst (read_fields env plan c) = Inr rows \<and> answered env c plan rows"
proof (induction plan arbitrary: c)
  case Nil
  show ?case by (simp add: read_fields_def call_return_def)
next
  case (Cons item plan)
  obtain fld ep f where item: "item = (fld, ep, f)" by (cases item) auto
  obtain r c1 where r: "web_records env ep c = (r, c1)" by fastforce
  have rest: "case unclassified env c1 plan of
      Some e \<Rightarrow> fst (call_bind (read_fields env plan) (\<lambda>rows. call_return (row # rows)) c1) = Inl e
    | None \<Rightarrow> \<exists>rows. fst (call_bind (read_fields env plan) (\<lambda>rows. call_return (row # rows)) c1) = Inr (row # rows)
        \<and> answered env c1 plan rows" for row
    using Cons.IH [of c1] by (auto simp: call_bind_def call_return_def split: option.splits prod.splits sum.splits)
  show ?case
  proof (cases r)
    case (Inr rs)
    then show ?thesis using r rest [of "(fld, f rs, ReadOk)"]
      by (auto simp: item read_fields_Cons call_bind_step(1) read_endpoint_step split: option.splits)
  next
    case (Inl e)
    then show ?thesis using r rest [of "(fld, LitNone, ReadFailed (Some (case e of Ikvm err \<Rightarrow> error_class err)))"]
      by (cases e) (auto simp: item read_fields_Cons call_bind_step read_endpoint_step split: option.splits)
  qed
qed

lemma degraded_run:
  assumes "we_has_requests env" and "build_asp_client env conn = Inr c"
    and "main = run_module env conn False (call_bind (web_login env) (\<lambda>_. call_bind (read_fields env plan) (\<lambda>r. call_return (False, g r))))"
  shows "case web_login env c of
      (Inl e, c1) \<Rightarrow> fst main = caught e
    | (Inr _, c1) \<Rightarrow> (case unclassified env c1 plan of
         Some e \<Rightarrow> e = RequestException \<and> fst main = Uncaught e
       | None \<Rightarrow> \<exists>rows. fst main = ExitJson False (g rows) \<and> answered env c1 plan rows)"
proof -
  obtain r c1 where login: "web_login env c = (r, c1)" by fastforce
  with read_fields_answered [of env plan c1] assms show ?thesis
    by (auto simp: run_module_def call_bind_def call_return_def caught_def dest: unclassified_raises
        split: sum.splits prod.splits option.splits)
qed

lemma limited_length: "length (limited lim xs) \<le> length xs" "lim = Some l \<Longrightarrow> 0 \<le> l \<Longrightarrow> length (limited lim xs) = min (nat l) (length xs)"
  "0 \<le> l \<Longrightarrow> limited (Some l) xs = take (nat l) xs" "limited None xs = xs"
  by (auto simp: limited_def split: option.splits)

lemma gather_sel_success:
  assumes "gather_sel env lim after_event_id c = (Inr r, c1)"
  obtains rs where "sl_entries r = limited lim (map (parse_entry env) rs)" "sl_available r = length rs" "sl_returned r = length (sl_entries r)"
  using assms unfolding gather_sel_def read_entries_def read_paged_entries_def
  by (elim call_bind_Inr) (force simp: call_return_def Let_def split: option.splits elim!: call_bind_Inr intro: that)

section \<open>Properties\<close>

text \<open>The log and alert modules never write. Every request of a run is the login, a bodiless GET, or the
  paged event-log query that the device defines as a POST with one record number; no success reports a
  change; and a negative limit or record number is refused before anything is sent.\<close>

theorem log_modules_only_read:
  "set (snd (sel_main env conn lim after_event_id)) \<union> set (snd (auditlog_main env conn)) \<union> set (snd (alerts_main env conn))
     \<subseteq> Collect (read_request conn)
   \<and> fst (sel_main env conn lim after_event_id) \<noteq> ExitJson True sr \<and> fst (auditlog_main env conn) \<noteq> ExitJson True ar
   \<and> fst (alerts_main env conn) \<noteq> ExitJson True tr
   \<and> sel_main env conn (Some (- 1 - int n)) after_event_id = (FailMsg, []) \<and> sel_main env conn lim (Some (- 1 - int n)) = (FailMsg, [])"
proof -
  have "performs env reading_calls (call_bind (gather_sel env lim after_event_id) (\<lambda>r. call_return (False, r)))"
    by (intro performs_intros sel_performs)
  from run_module_reads [OF this] have sel: "set (snd (sel_main env conn lim after_event_id)) \<subseteq> Collect (read_request conn)"
    by (simp add: sel_main_def)
  have "performs env reading_calls (call_bind (web_login env) (\<lambda>_. call_bind (gather_auditlog env) (\<lambda>r. call_return (False, r))))"
    unfolding gather_auditlog_def by (intro performs_intros fields_performs) simp
  from run_module_reads [OF this] have audit: "set (snd (auditlog_main env conn)) \<subseteq> Collect (read_request conn)"
    by (simp add: auditlog_main_def)
  have "performs env reading_calls (call_bind (web_login env) (\<lambda>_. call_bind (gather_alerts env) (\<lambda>r.
        call_return (False, (alerts_result r, map (\<lambda>(fld, v, out). (fld, out)) r)))))"
    unfolding gather_alerts_def by (intro performs_intros fields_performs) simp
  from run_module_reads [OF this] have alerts: "set (snd (alerts_main env conn)) \<subseteq> Collect (read_request conn)"
    by (simp add: alerts_main_def)
  have "fst (sel_main env conn lim after_event_id) \<noteq> ExitJson True sr"
    by (simp add: sel_main_def run_module_unchanged)
  moreover have "fst (auditlog_main env conn) \<noteq> ExitJson True ar" "fst (alerts_main env conn) \<noteq> ExitJson True tr"
    unfolding auditlog_main_def alerts_main_def call_bind_assoc [symmetric] by (rule run_module_unchanged)+
  ultimately show ?thesis using sel audit alerts by (simp add: sel_main_def split: option.splits)
qed

text \<open>C31. One endpoint that fails costs one field. Once a client is built (a refused connection option escapes both
  modules before that) and the device has granted the login, the audit-log and the alerts module ask
  every endpoint of their plan in order, whatever the ones before gave, and exit without a change
  with one row per endpoint: what it answered, marked as read, or an empty field marked with the class of
  the error that very read ended in. Only a transport exception that \<open>requests\<close> does not classify stops
  the reading, and escapes as it is; a refused login ends the module with its own error.\<close>

theorem degraded_reads_accounted:
  assumes "we_has_requests env" and "build_asp_client env conn = Inr c"
  shows "case web_login env c of
      (Inl e, c1) \<Rightarrow> fst (auditlog_main env conn) = caught e \<and> fst (alerts_main env conn) = caught e
    | (Inr _, c1) \<Rightarrow>
        (case unclassified env c1 (auditlog_plan env) of
           Some e \<Rightarrow> e = RequestException \<and> fst (auditlog_main env conn) = Uncaught e
         | None \<Rightarrow> \<exists>rows. fst (auditlog_main env conn) = ExitJson False rows \<and> answered env c1 (auditlog_plan env) rows)
      \<and> (case unclassified env c1 alerts_plan of
           Some e \<Rightarrow> e = RequestException \<and> fst (alerts_main env conn) = Uncaught e
         | None \<Rightarrow> \<exists>rows. fst (alerts_main env conn)
               = ExitJson False (alerts_result rows, map (\<lambda>(fld, v, out). (fld, out)) rows) \<and> answered env c1 alerts_plan rows)"
  using degraded_run [OF assms auditlog_main_def [unfolded gather_auditlog_def]]
    degraded_run [OF assms alerts_main_def [unfolded gather_alerts_def]]
  by (auto split: prod.splits sum.splits)

definition sample_log_tables :: "webvar_record list list" where
  "sample_log_tables = [[[(LitStr ''AUDIT_LOG'', LitStr ''login'')]]]"

definition sample_log_rows :: degraded_report where
  "sample_log_rows = [(''entries'', LitList [LitStr ''login''], ReadOk), (''remote_storage'', LitNone, ReadFailed (Some PROTOCOL)),
     (''logging'', LitNone, ReadFailed (Some PROTOCOL)), (''sel_policy'', LitNone, ReadFailed (Some PROTOCOL))]"

theorem degraded_reads_accounted_witness:
  "fst (auditlog_main (sample_env sample_log_tables) sample_conn) = ExitJson False sample_log_rows"
proof -
  let ?env = "sample_env sample_log_tables"
  have "case build_asp_client ?env sample_conn of Inl _ \<Rightarrow> False | Inr c \<Rightarrow> (case web_login ?env c of (Inl _, _) \<Rightarrow> False
      | (Inr _, c1) \<Rightarrow> unclassified ?env c1 (auditlog_plan ?env) = None \<and> answered ?env c1 (auditlog_plan ?env) sample_log_rows)"
    by code_simp
  then obtain c cookie c1 where c: "build_asp_client ?env sample_conn = Inr c" and c1: "web_login ?env c = (Inr cookie, c1)"
      "unclassified ?env c1 (auditlog_plan ?env) = None" "answered ?env c1 (auditlog_plan ?env) sample_log_rows"
    by (auto split: sum.splits prod.splits) (metis obj_sumE)+
  moreover have "we_has_requests ?env" by (simp add: sample_env_def)
  ultimately obtain rows where "fst (auditlog_main ?env sample_conn) = ExitJson False rows" "answered ?env c1 (auditlog_plan ?env) rows"
    using degraded_reads_accounted [of ?env sample_conn c] by auto
  with c1(3) show ?thesis by (simp add: answered_unique)
qed

text \<open>The event-log report counts what it shows: the entries are the first ones the device returned, in its
  order and up to the limit, \<open>entries_available\<close> counts them before the limit, and an entry keeps every
  value of its record, under a named field or, for a field the module does not know, in \<open>extra\<close>.\<close>

theorem sel_report_complete:
  assumes "sel_main env conn lim after_event_id = (ExitJson changed r, rqs)" and "map_of rec (LitStr k) = Some v"
  shows "sl_returned r = length (sl_entries r)
    \<and> sl_returned r = (case lim of None \<Rightarrow> sl_available r | Some l \<Rightarrow> min (nat l) (sl_available r))
    \<and> (\<exists>rs. length rs = sl_available r \<and> sl_entries r = take (sl_returned r) (map (parse_entry env) rs))
    \<and> (v \<in> snd ` set (se_named (parse_entry env rec)) \<or> (LitStr k, v) \<in> set (se_extra (parse_entry env rec)))"
proof -
  have lim: "0 \<le> l" if "lim = Some l" for l using assms(1) that by (auto simp: sel_main_def split: if_splits)
  have "run_module env conn False (call_bind (gather_sel env lim after_event_id) (\<lambda>r. call_return (False, r))) = (ExitJson changed r, rqs)"
    using assms(1) by (auto simp: sel_main_def split: if_splits)
  then obtain c c1 where "gather_sel env lim after_event_id c = (Inr r, c1)"
    by (rule run_module_exit) (auto simp: call_return_def elim!: call_bind_Inr)
  then obtain rs where rs: "sl_entries r = limited lim (map (parse_entry env) rs)" "sl_available r = length rs"
      "sl_returned r = length (sl_entries r)" by (rule gather_sel_success)
  have "v \<in> snd ` set (se_named (parse_entry env rec))" if "k \<in> set KNOWN_ENTRY_FIELDS"
    using that assms(2) by (auto simp: KNOWN_ENTRY_FIELDS_def parse_entry_def Let_def rec_get_def)
  moreover have "(LitStr k, v) \<in> set (se_extra (parse_entry env rec))" if "k \<notin> set KNOWN_ENTRY_FIELDS"
    using that map_of_SomeD [OF assms(2)] by (auto simp: parse_entry_def Let_def)
  ultimately show ?thesis
    using rs lim by (cases lim) (auto simp: limited_length min_def intro!: exI [of _ rs])
qed

definition sample_log_entry :: "int \<Rightarrow> webvar_record" where
  "sample_log_entry i = [(LitStr ''RecordID'', LitInt i), (LitStr ''TimeStamp'', LitInt 1608171458), (LitStr ''Spare'', LitInt 7)]"

definition sample_sel_run :: "sel_report module_result" where
  "sample_sel_run = sel_main (sample_env [[sample_log_entry 2, sample_log_entry 1], [[(LitStr ''COUNT'', LitInt 3000)]],
     [[(LitStr ''SEL_POLICY'', LitInt 0)]]]) sample_conn (Some 1) None"

theorem sel_report_complete_witness:
  "\<exists>r. fst sample_sel_run = ExitJson False r \<and> sl_available r = 2 \<and> sl_returned r = 1
     \<and> (LitStr ''Spare'', LitInt 7) \<in> set (se_extra (parse_entry (sample_env []) (sample_log_entry 2)))"
proof -
  have "case fst sample_sel_run of ExitJson ch r \<Rightarrow> \<not> ch \<and> sl_available r = 2 | _ \<Rightarrow> False" by code_simp
  then obtain r where r: "fst sample_sel_run = ExitJson False r" "sl_available r = 2" by (auto split: module_outcome.splits)
  then have "sel_main (sample_env [[sample_log_entry 2, sample_log_entry 1], [[(LitStr ''COUNT'', LitInt 3000)]],
      [[(LitStr ''SEL_POLICY'', LitInt 0)]]]) sample_conn (Some 1) None = (ExitJson False r, snd sample_sel_run)"
    by (simp add: sample_sel_run_def prod_eq_iff)
  moreover have "map_of (sample_log_entry 2) (LitStr ''Spare'') = Some (LitInt 7)" by (simp add: sample_log_entry_def)
  ultimately have "sl_returned r = (case Some 1 of None \<Rightarrow> sl_available r | Some l \<Rightarrow> min (nat l) (sl_available r))"
    using sel_report_complete by blast
  moreover have "(LitStr ''Spare'', LitInt 7) \<in> set (se_extra (parse_entry (sample_env []) (sample_log_entry 2)))"
    by (simp add: sample_log_entry_def parse_entry_def KNOWN_ENTRY_FIELDS_def Let_def)
  ultimately show ?thesis using r by simp
qed

text \<open>An event's readable time stamp denotes the time the device reported. For every whole number of
  seconds within the years 1 to 9999, the text is a calendar date with a valid month and day and a time of
  day, and reading it back in the proleptic Gregorian calendar gives the same number of seconds.\<close>

theorem sel_timestamp_denotes:
  assumes "- 62135596800 \<le> t" and "t \<le> 253402300799"
  shows "\<exists>y k d h mi s. epoch_to_iso env (LitInt t) = LitStr (pad 4 y @ ''-'' @ pad 2 (int k + 1) @ ''-'' @ pad 2 d @ ''T''
      @ pad 2 h @ '':'' @ pad 2 mi @ '':'' @ pad 2 s @ ''+00:00'')
    \<and> k < 12 \<and> 1 \<le> d \<and> d \<le> month_lengths y ! k \<and> 0 \<le> h \<and> h < 24 \<and> 0 \<le> mi \<and> mi < 60 \<and> 0 \<le> s \<and> s < 60
    \<and> t = (days_before_year y + sum_list (take k (month_lengths y)) + d - 1 - 719162) * 86400 + h * 3600 + mi * 60 + s"
proof -
  obtain y m d where ymd: "civil_of_day (t div 86400 + 719162) = (y, m, d)" by (metis surj_pair)
  obtain k where k: "k < 12" "m = int k + 1" "1 \<le> d" "d \<le> month_lengths y ! k"
      "t div 86400 + 719162 = days_before_year y + sum_list (take k (month_lengths y)) + d - 1"
    using civil_of_day_correct [OF ymd] by blast
  define s where "s = t mod 86400"
  have s: "0 \<le> s" "s < 86400" "t = t div 86400 * 86400 + s" by (simp_all add: s_def)
  have h: "0 \<le> s div 3600" "s div 3600 < 24" using s(1,2) by (simp_all add: div_less_iff_less_mult)
  have "s mod 3600 = s mod 3600 div 60 * 60 + s mod 60" using div_mult_mod_eq [of "s mod 3600" 60] mod_mod_cancel [of 60 3600 s] by simp
  then have hms: "s = s div 3600 * 3600 + s mod 3600 div 60 * 60 + s mod 60" by (metis add.assoc div_mult_mod_eq)
  have mi: "0 \<le> s mod 3600 div 60" "s mod 3600 div 60 < 60" using pos_mod_bound [of 3600 s] pos_mod_sign [of 3600 s]
    by (simp_all add: div_less_iff_less_mult)
  have "t div 86400 = days_before_year y + sum_list (take k (month_lengths y)) + d - 1 - 719162" using k(5) by simp
  then have "t = (days_before_year y + sum_list (take k (month_lengths y)) + d - 1 - 719162) * 86400 + s div 3600 * 3600
      + s mod 3600 div 60 * 60 + s mod 60"
    using s(3) hms by (metis add.assoc)
  moreover have "epoch_to_iso env (LitInt t) = LitStr (pad 4 y @ ''-'' @ pad 2 (int k + 1) @ ''-'' @ pad 2 d @ ''T''
      @ pad 2 (s div 3600) @ '':'' @ pad 2 (s mod 3600 div 60) @ '':'' @ pad 2 (s mod 60) @ ''+00:00'')"
    using assms ymd k(2) by (simp add: epoch_to_iso_def lit_int_def utc_isoformat_def Let_def s_def)
  moreover have "0 \<le> s mod 60" "s mod 60 < 60" by simp_all
  ultimately show ?thesis using k(1,3,4) h mi by blast
qed

theorem sel_timestamp_denotes_witness:
  "epoch_to_iso (sample_env []) (LitInt 1608171458) = LitStr ''2020-12-17T02:17:38+00:00''
   \<and> (\<exists>y k d h mi s. k < 12 \<and> d \<le> month_lengths y ! k
        \<and> (1608171458 :: int) = (days_before_year y + sum_list (take k (month_lengths y)) + d - 1 - 719162) * 86400 + h * 3600 + mi * 60 + s)"
proof
  show "epoch_to_iso (sample_env []) (LitInt 1608171458) = LitStr ''2020-12-17T02:17:38+00:00''" by code_simp
  have range: "- 62135596800 \<le> (1608171458 :: int)" "(1608171458 :: int) \<le> 253402300799" by simp_all
  from sel_timestamp_denotes [OF range, of "sample_env []"]
  show "\<exists>y k d h mi s. k < 12 \<and> d \<le> month_lengths y ! k
      \<and> (1608171458 :: int) = (days_before_year y + sum_list (take k (month_lengths y)) + d - 1 - 719162) * 86400 + h * 3600 + mi * 60 + s"
    by blast
qed

text \<open>The log-share password and keys the alerts module does not name stay out of the reports: rows that agree
  outside \<open>PWORD\<close>, and on whether it is blank, give the same remote-storage report, and rows that agree on
  the thirteen named SMTP keys give the same SMTP report whatever else they hold.\<close>

theorem log_secrets_withheld:
  assumes "agree_outside {''PWORD''} r r'"
    and "(optional_str (coercible (rec_get r ''PWORD'')) = None) = (optional_str (coercible (rec_get r' ''PWORD'')) = None)"
    and "agree_outside (- {''CHANNEL_NUM'', ''SENDERADDR'', ''MACHINENAME'', ''SMTPENABLE1'', ''SMTPPORT1'', ''SMTPSERVER1'', ''SMTPAUTHENABLE1'',
       ''USERNAME1'', ''SMTPENABLE2'', ''SMTPPORT2'', ''SMTPSERVER2'', ''SMTPAUTHENABLE2'', ''USERNAME2''}) s s'"
  shows "build_remote_storage r = build_remote_storage r' \<and> smtp_channel s = smtp_channel s'"
  using assms
  by (simp add: agree_outside_def build_remote_storage_def smtp_channel_def smtp_relay_def opt_int_def opt_flag_def opt_str_or_empty_def)

theorem log_secrets_withheld_witness:
  "build_remote_storage [(LitStr ''UNAME'', LitStr ''ann''), (LitStr ''PWORD'', LitStr ''s3cret'')]
     = build_remote_storage [(LitStr ''UNAME'', LitStr ''ann''), (LitStr ''PWORD'', LitStr ''other'')]
   \<and> smtp_channel [(LitStr ''USERNAME1'', LitStr ''ann''), (LitStr ''PASSWORD1'', LitStr ''s3cret'')]
     = smtp_channel [(LitStr ''USERNAME1'', LitStr ''ann'')]"
proof (rule log_secrets_withheld)
  show "agree_outside {''PWORD''} [(LitStr ''UNAME'', LitStr ''ann''), (LitStr ''PWORD'', LitStr ''s3cret'')]
      [(LitStr ''UNAME'', LitStr ''ann''), (LitStr ''PWORD'', LitStr ''other'')]"
    by (simp add: agree_outside_def rec_get_def)
  show "(optional_str (coercible (rec_get [(LitStr ''UNAME'', LitStr ''ann''), (LitStr ''PWORD'', LitStr ''s3cret'')] ''PWORD'')) = None)
      = (optional_str (coercible (rec_get [(LitStr ''UNAME'', LitStr ''ann''), (LitStr ''PWORD'', LitStr ''other'')] ''PWORD'')) = None)"
    by code_simp
qed (auto simp: agree_outside_def rec_get_def)

end
