(* ===== verification/Postcode_Module.thy ===== *)
theory Postcode_Module
  imports Complex_Main Log_Modules
begin

text \<open>
  The POST-code module, \<open>plugins/modules/asmb8_postcode.py\<close>: one reading, or a bounded series of readings.
  The clock is a parameter: \<open>monotonic k\<close> is what the \<open>k\<close>-th call of \<open>time.monotonic\<close> returns and \<open>wall i\<close> the text of
  the \<open>i\<close>-th wall-clock reading. The properties: sampling ends within the polls its bounds allow, the
  codes are reported as the device wrote them, and a refused transport policy leaves \<open>main\<close> unhandled.
\<close>

section \<open>Hexadecimal codes\<close>

definition hex_digit :: "char \<Rightarrow> nat option" where
  "hex_digit c = map_of (zip ''0123456789abcdefABCDEF'' ([0..<16] @ [10..<16])) c"

text \<open>Single underscores may stand between digits, and one after the \<open>0x\<close> prefix.\<close>

fun hex_digits_val :: "nat \<Rightarrow> string \<Rightarrow> nat option" where
  "hex_digits_val acc [] = Some acc"
| "hex_digits_val acc (c # cs) = (case hex_digit c of
      Some v \<Rightarrow> hex_digits_val (16 * acc + v) cs
    | None \<Rightarrow> if c = CHR ''_'' then
        (case cs of [] \<Rightarrow> None
         | d # ds \<Rightarrow> (case hex_digit d of Some v \<Rightarrow> hex_digits_val (16 * acc + v) ds | None \<Rightarrow> None))
      else None)"

definition hex_unsigned :: "string \<Rightarrow> nat option" where
  "hex_unsigned s =
     (let body = (if take 2 s = ''0x'' \<or> take 2 s = ''0X''
                  then (case drop 2 s of CHR ''_'' # cs \<Rightarrow> cs | cs \<Rightarrow> cs) else s)
      in case body of [] \<Rightarrow> None | c # _ \<Rightarrow> if hex_digit c = None then None else hex_digits_val 0 body)"

definition parse_post_code_hex :: "web_env \<Rightarrow> py_literal \<Rightarrow> int option" where
  "parse_post_code_hex env raw = (case strip (lit_text env raw) of
      CHR ''-'' # s \<Rightarrow> map_option (\<lambda>n. - int n) (hex_unsigned s)
    | CHR ''+'' # s \<Rightarrow> map_option int (hex_unsigned s)
    | s \<Rightarrow> map_option int (hex_unsigned s))"

section \<open>Reading and sampling\<close>

definition read_post_code :: "web_env \<Rightarrow> (string \<times> int option) web_call" where
  "read_post_code env =
     call_bind (web_records env ''getpostcode'') (\<lambda>rs.
       case rs of [] \<Rightarrow> call_raise (\<lambda>c. asp_error PROTOCOL ''asmb8_postcode.read'' False c)
       | r # _ \<Rightarrow> (case map_of r (LitStr ''CurrPostCode'') of
             None \<Rightarrow> call_raise (\<lambda>c. asp_error PROTOCOL ''asmb8_postcode.read'' False c)
           | Some raw \<Rightarrow> call_return (lit_text env raw, parse_post_code_hex env raw)))"

record observation =
  po_code :: string
  po_int :: "int option"
  po_elapsed :: rat
  po_timestamp :: string

text \<open>\<open>round(x, 3)\<close>, on the exact value of the difference: half of a thousandth goes to the even neighbour.\<close>

definition round3 :: "rat \<Rightarrow> rat" where
  "round3 x = (let f = \<lfloor>x * 1000\<rfloor>; d = x * 1000 - of_int f
     in of_int (if d < 1 / 2 then f else if 1 / 2 < d then f + 1 else if even f then f else f + 1) / 1000)"

record sampling_clock =
  monotonic :: "nat \<Rightarrow> rat"
  wall :: "nat \<Rightarrow> string"

type_synonym 'a partial_call = "asp_client \<Rightarrow> ((exn + 'a) \<times> asp_client) option"

text \<open>Poll \<open>i\<close> reads the clock for the \<open>2 i + 1\<close>-st and, after the poll, for the \<open>2 i + 2\<close>-nd time.\<close>

partial_function (option) sample_loop ::
  "web_env \<Rightarrow> sampling_clock \<Rightarrow> int \<Rightarrow> int \<Rightarrow> nat \<Rightarrow> observation list \<Rightarrow> observation list partial_call" where
  "sample_loop env clk poll_interval max_duration i obs c =
     (let elapsed = monotonic clk (2 * i + 1) - monotonic clk 0 in
      case read_post_code env c of
        (Inl e, c1) \<Rightarrow> Some (Inl e, c1)
      | (Inr (code, n), c1) \<Rightarrow>
          (let obs1 = obs @ [\<lparr>po_code = code, po_int = n, po_elapsed = round3 elapsed, po_timestamp = wall clk i\<rparr>];
               elapsed_after = monotonic clk (2 * i + 2) - monotonic clk 0
           in if elapsed_after + of_int poll_interval > of_int max_duration then Some (Inr obs1, c1)
              else sample_loop env clk poll_interval max_duration (Suc i) obs1 c1))"

declare sample_loop.simps [code]

definition sample_post_codes :: "web_env \<Rightarrow> sampling_clock \<Rightarrow> int \<Rightarrow> int \<Rightarrow> observation list partial_call" where
  "sample_post_codes env clk poll_interval max_duration = sample_loop env clk poll_interval max_duration 0 []"

definition distinct_post_codes_in_order :: "observation list \<Rightarrow> string list" where
  "distinct_post_codes_in_order obs = first_seen (map po_code obs)"

definition MIN_POLL_INTERVAL_SECONDS :: int where "MIN_POLL_INTERVAL_SECONDS = 2"
definition MAX_POLL_INTERVAL_SECONDS :: int where "MAX_POLL_INTERVAL_SECONDS = 300"
definition MIN_MAX_DURATION_SECONDS :: int where "MIN_MAX_DURATION_SECONDS = 1"
definition MAX_MAX_DURATION_SECONDS :: int where "MAX_MAX_DURATION_SECONDS = 900"

lemmas sampling_limits = MIN_POLL_INTERVAL_SECONDS_def MAX_POLL_INTERVAL_SECONDS_def
  MIN_MAX_DURATION_SECONDS_def MAX_MAX_DURATION_SECONDS_def

text \<open>The bounds are fine; otherwise the module fails with a message.\<close>

definition validate_sampling_bounds :: "int \<Rightarrow> int \<Rightarrow> bool" where
  "validate_sampling_bounds poll_interval max_duration \<longleftrightarrow>
     MIN_POLL_INTERVAL_SECONDS \<le> poll_interval \<and> poll_interval \<le> MAX_POLL_INTERVAL_SECONDS
     \<and> MIN_MAX_DURATION_SECONDS \<le> max_duration \<and> max_duration \<le> MAX_MAX_DURATION_SECONDS"

record postcode_report =
  pr_code :: string
  pr_int :: "int option"
  pr_sample :: "(observation list \<times> string list \<times> nat) option"

definition sampled_report :: "observation list \<Rightarrow> postcode_report" where
  "sampled_report obs = \<lparr>pr_code = po_code (last obs), pr_int = po_int (last obs),
     pr_sample = Some (obs, distinct_post_codes_in_order obs, length obs)\<rparr>"

definition postcode_main :: "web_env \<Rightarrow> sampling_clock \<Rightarrow> conn_params \<Rightarrow> bool \<Rightarrow> int \<Rightarrow> int \<Rightarrow> postcode_report module_result option" where
  "postcode_main env clk conn sampling poll_interval max_duration =
     (if \<not> we_has_requests env then Some (FailMsg, [])
      else if sampling \<and> \<not> validate_sampling_bounds poll_interval max_duration then Some (FailMsg, [])
      else if \<not> sampling then Some (run_module env conn False
        (call_bind (web_login env) (\<lambda>_. call_bind (read_post_code env) (\<lambda>(code, n).
           call_return (False, \<lparr>pr_code = code, pr_int = n, pr_sample = None\<rparr>)))))
      else case build_asp_client env conn of
          Inl e \<Rightarrow> Some (Uncaught e, [])
        | Inr c \<Rightarrow> (case web_login env c of
            (Inl e, c1) \<Rightarrow> Some (caught e, sent_requests (ac_log c1))
          | (Inr _, c1) \<Rightarrow> (case sample_post_codes env clk poll_interval max_duration c1 of
              None \<Rightarrow> None
            | Some (Inl e, c2) \<Rightarrow> Some (caught e, sent_requests (ac_log c2))
            | Some (Inr obs, c2) \<Rightarrow> Some (ExitJson False (sampled_report obs), sent_requests (ac_log c2)))))"

section \<open>Facts\<close>

text \<open>The clock never runs backwards, and a sleep takes at least as long as asked.\<close>

definition clock_runs :: "sampling_clock \<Rightarrow> int \<Rightarrow> bool" where
  "clock_runs clk poll_interval \<longleftrightarrow> (\<forall>k. monotonic clk k \<le> monotonic clk (Suc k))
     \<and> (\<forall>i. monotonic clk (2 * i + 2) + of_int poll_interval \<le> monotonic clk (2 * i + 3))"

lemma elapsed_after_polls:
  assumes "clock_runs clk p"
  shows "of_nat i * of_int p \<le> monotonic clk (2 * i + 2) - monotonic clk 0"
proof -
  have tick: "monotonic clk k \<le> monotonic clk (Suc k)" for k using assms unfolding clock_runs_def by blast
  show ?thesis
  proof (induction i)
    case 0
    show ?case using tick [of 0] tick [of 1] by (simp add: numeral_2_eq_2)
  next
    case (Suc i)
    have "monotonic clk (2 * i + 2) + of_int p \<le> monotonic clk (2 * i + 3)"
      using assms unfolding clock_runs_def by blast
    moreover have "Suc (2 * i + 3) = 2 * Suc i + 2" by simp
    ultimately show ?case using Suc.IH tick [of "2 * i + 3"] by (simp only: of_nat_Suc) (simp add: algebra_simps)
  qed
qed

lemma next_poll_within:
  assumes "clock_runs clk p" and "\<not> of_int m < monotonic clk (2 * i + 2) - monotonic clk 0 + of_int p"
  shows "int (Suc i) * p \<le> m"
proof -
  have "of_nat (Suc i) * of_int p \<le> (of_int m :: rat)"
    using elapsed_after_polls [OF assms(1), of i] assms(2) by (simp add: algebra_simps)
  then have "(of_int (int (Suc i) * p) :: rat) \<le> of_int m" by simp
  then show ?thesis by (simp only: of_int_le_iff)
qed

definition poll_calls :: "asp_call set" where
  "poll_calls = {GetWebvar ''getpostcode'' None}"

lemma read_post_code_performs: "performs env poll_calls (read_post_code env)"
  unfolding read_post_code_def poll_calls_def by (auto intro!: performs_intros split: list.split option.split)

text \<open>What a run of the loop from poll \<open>i\<close> on gives.\<close>

definition loop_result :: "web_env \<Rightarrow> nat \<Rightarrow> observation list \<Rightarrow> asp_client \<Rightarrow> (exn + observation list) \<times> asp_client \<Rightarrow> bool" where
  "loop_result env left obs c res \<longleftrightarrow>
     (\<exists>calls. set calls \<subseteq> poll_calls \<and> snd res = fold (run_call (we_literal_eval env) (we_server env)) calls c)
     \<and> (case fst res of Inl e \<Rightarrow> True
        | Inr all \<Rightarrow> (\<exists>new. all = obs @ new \<and> 1 \<le> length new \<and> length new \<le> left))"

lemma loop_result_step:
  assumes "loop_result env left (obs @ [x]) c1 res" and "c1 = snd (read_post_code env c)"
  shows "loop_result env (Suc left) obs c res"
proof -
  obtain calls more where "set calls \<subseteq> poll_calls" "c1 = fold (run_call (we_literal_eval env) (we_server env)) calls c"
      and "set more \<subseteq> poll_calls" "snd res = fold (run_call (we_literal_eval env) (we_server env)) more c1"
    using assms read_post_code_performs [of env] unfolding performs_def loop_result_def by metis
  then have "\<exists>calls. set calls \<subseteq> poll_calls \<and> snd res = fold (run_call (we_literal_eval env) (we_server env)) calls c"
    by (intro exI [of _ "calls @ more"]) simp
  moreover have "\<exists>new. all = obs @ new \<and> 1 \<le> length new \<and> length new \<le> Suc left" if "fst res = Inr all" for all
    using assms(1) that by (auto simp: loop_result_def)
  ultimately show ?thesis by (auto simp: loop_result_def split: sum.splits)
qed

lemma sample_loop_returns:
  assumes "clock_runs clk p" and "0 < p" and "int i * p \<le> m \<or> i = 0"
  shows "\<exists>res. sample_loop env clk p m i obs c = Some res \<and> loop_result env (Suc (nat (m div p) - i)) obs c res"
  using assms(3)
proof (induction "nat (m div p) - i" arbitrary: i obs c rule: less_induct)
  case less
  obtain r c1 where rd: "read_post_code env c = (r, c1)" by fastforce
  have one: "\<exists>calls. set calls \<subseteq> poll_calls \<and> c1 = fold (run_call (we_literal_eval env) (we_server env)) calls c"
    using read_post_code_performs [of env] rd unfolding performs_def by (metis snd_conv)
  show ?case
  proof (cases r)
    case (Inl e)
    with rd one show ?thesis by (subst sample_loop.simps) (auto simp: loop_result_def Let_def)
  next
    case (Inr v)
    obtain code n where v: "v = (code, n)" by fastforce
    let ?x = "\<lparr>po_code = code, po_int = n, po_elapsed = round3 (monotonic clk (2 * i + 1) - monotonic clk 0), po_timestamp = wall clk i\<rparr>"
    show ?thesis
    proof (cases "of_int m < monotonic clk (2 * i + 2) - monotonic clk 0 + of_int p")
      case True
      with rd Inr v one show ?thesis
        by (subst sample_loop.simps) (auto simp: loop_result_def Let_def intro!: exI [of _ "[?x]"])
    next
      case False
      then have next_i: "int (Suc i) * p \<le> m" by (rule next_poll_within [OF assms(1)])
      then have "int (Suc i) \<le> m div p" using assms(2) by (metis zdiv_mono1 nonzero_mult_div_cancel_right less_irrefl)
      then have left: "nat (m div p) - i = Suc (nat (m div p) - Suc i)" by linarith
      with less(1) [of "Suc i" "obs @ [?x]" c1] next_i obtain res where
        res: "sample_loop env clk p m (Suc i) (obs @ [?x]) c1 = Some res" "loop_result env (Suc (nat (m div p) - Suc i)) (obs @ [?x]) c1 res"
        by auto
      have "loop_result env (Suc (nat (m div p) - i)) obs c res"
        unfolding left by (rule loop_result_step [OF res(2)]) (simp add: rd)
      moreover have "sample_loop env clk p m i obs c = Some res"
        using rd Inr v False res(1) by (subst sample_loop.simps) (simp add: Let_def)
      ultimately show ?thesis by blast
    qed
  qed
qed

definition sampling_body :: "web_env \<Rightarrow> sampling_clock \<Rightarrow> int \<Rightarrow> int \<Rightarrow> (bool \<times> postcode_report) web_call" where
  "sampling_body env clk p m = call_bind (web_login env) (\<lambda>_.
     call_bind (\<lambda>c. the (sample_post_codes env clk p m c)) (\<lambda>obs. call_return (False, sampled_report obs)))"

lemma sample_post_codes_returns:
  assumes "clock_runs clk p" and "0 < p"
  obtains res where "sample_post_codes env clk p m c = Some res" and "loop_result env (Suc (nat (m div p))) [] c res"
  using sample_loop_returns [OF assms, of 0 m env "[]" c] unfolding sample_post_codes_def by auto

lemma postcode_main_total:
  assumes "clock_runs clk p" and "0 < p" and "we_has_requests env" and "validate_sampling_bounds p m"
  shows "postcode_main env clk conn True p m = Some (run_module env conn False (sampling_body env clk p m))"
proof -
  have "sample_post_codes env clk p m c = Some (the (sample_post_codes env clk p m c))" for c
    by (rule sample_post_codes_returns [OF assms(1,2), of env m c]) simp
  then show ?thesis
    using assms(3,4) unfolding postcode_main_def run_module_def sampling_body_def call_bind_def call_return_def
    by (simp split: sum.split prod.split option.split) (metis option.distinct(1) option.sel prod.inject sum.distinct(1) sum.inject)
qed

lemma sampling_body_performs:
  assumes "clock_runs clk p" and "0 < p"
  shows "performs env reading_calls (sampling_body env clk p m)"
proof -
  have sub: "poll_calls \<subseteq> reading_calls" by (simp add: poll_calls_def)
  have "performs env reading_calls (\<lambda>c. the (sample_post_codes env clk p m c))"
    unfolding performs_def
  proof
    fix c
    obtain res where "sample_post_codes env clk p m c = Some res" "loop_result env (Suc (nat (m div p))) [] c res"
      by (rule sample_post_codes_returns [OF assms])
    then show "\<exists>calls. set calls \<subseteq> reading_calls \<and> snd (the (sample_post_codes env clk p m c))
        = fold (run_call (we_literal_eval env) (we_server env)) calls c"
      using sub by (auto simp: loop_result_def)
  qed
  then show ?thesis unfolding sampling_body_def by (auto intro!: performs_intros)
qed

definition report_sound :: "bool \<Rightarrow> int \<Rightarrow> int \<Rightarrow> postcode_report \<Rightarrow> bool" where
  "report_sound sampling p m r \<longleftrightarrow> (case pr_sample r of None \<Rightarrow> \<not> sampling
     | Some (obs, codes, n) \<Rightarrow> sampling \<and> n = length obs \<and> 1 \<le> n \<and> n \<le> Suc (nat (m div p)) \<and> n \<le> 451
         \<and> pr_code r = po_code (last obs) \<and> distinct codes \<and> set codes = po_code ` set obs)"

lemma polls_limit: "validate_sampling_bounds p m \<Longrightarrow> Suc (nat (m div p)) \<le> 451"
proof -
  assume "validate_sampling_bounds p m"
  then have "2 \<le> p" "m \<le> 900" "0 \<le> m" by (simp_all add: validate_sampling_bounds_def sampling_limits)
  then have "m div p \<le> 450" using zdiv_mono1 [of m 900 p] zdiv_mono2 [of 900 2 p] by simp
  then show ?thesis by simp
qed

lemma sampled_report_sound:
  assumes "clock_runs clk p" and "validate_sampling_bounds p m" and "sampling_body env clk p m c = (Inr (changed, r), c1)"
  shows "\<not> changed \<and> report_sound True p m r"
proof -
  have p: "0 < p" using assms(2) by (simp add: validate_sampling_bounds_def sampling_limits)
  obtain d obs d1 where obs: "the (sample_post_codes env clk p m d) = (Inr obs, d1)" "\<not> changed" "r = sampled_report obs"
    using assms(3) by (auto simp: sampling_body_def call_return_def elim!: call_bind_Inr)
  then have "obs \<noteq> [] \<and> length obs \<le> Suc (nat (m div p))"
    by (rule_tac sample_post_codes_returns [OF assms(1) p, of env m d]) (auto simp: loop_result_def)
  with obs polls_limit [OF assms(2)] show ?thesis
    by (auto simp: report_sound_def sampled_report_def distinct_post_codes_in_order_def Suc_le_eq)
qed

section \<open>Properties\<close>

text \<open>C29. POST-code sampling ends. When the clock never runs backwards and a sleep lasts at least as long as asked,
  the module returns; it only reads; the sampling bounds are checked before anything is sent; and a
  successful sampling run has between one and \<open>max_duration div poll_interval + 1\<close> polls, never more
  than 451, lists each code once in first-seen order, and reports the last reading as the current one.\<close>

theorem postcode_sampling_bounded:
  assumes "clock_runs clk p"
  shows "\<exists>out rqs. postcode_main env clk conn sampling p m = Some (out, rqs) \<and> set rqs \<subseteq> Collect (read_request conn)
    \<and> (case out of ExitJson changed r \<Rightarrow> \<not> changed \<and> report_sound sampling p m r | _ \<Rightarrow> True)
    \<and> (sampling \<and> \<not> validate_sampling_bounds p m \<longrightarrow> out = FailMsg \<and> rqs = [])"
proof -
  consider "\<not> we_has_requests env \<or> sampling \<and> \<not> validate_sampling_bounds p m" | "we_has_requests env" "\<not> sampling"
    | "we_has_requests env" "sampling" "validate_sampling_bounds p m" by blast
  then show ?thesis
  proof cases
    case 1
    then show ?thesis by (auto simp: postcode_main_def)
  next
    case 2
    let ?body = "call_bind (web_login env) (\<lambda>_. call_bind (read_post_code env) (\<lambda>(code, n).
      call_return (False, \<lparr>pr_code = code, pr_int = n, pr_sample = None\<rparr>)))"
    have "performs env reading_calls (read_post_code env)"
      using read_post_code_performs [of env] unfolding performs_def poll_calls_def by (meson insert_subset empty_subsetI order_trans reading_calls_mem(2))
    then have reads: "set (snd (run_module env conn False ?body)) \<subseteq> Collect (read_request conn)"
      by (auto intro!: run_module_reads performs_intros simp: split_def)
    have "case fst (run_module env conn False ?body) of ExitJson changed r \<Rightarrow> \<not> changed \<and> report_sound sampling p m r | _ \<Rightarrow> True"
      using 2 by (auto simp: run_module_def caught_def call_bind_def call_return_def report_sound_def
          split: sum.splits prod.splits exn.splits)
    with reads 2 show ?thesis by (auto simp: postcode_main_def prod_eq_iff)
  next
    case 3
    then have p: "0 < p" by (simp add: validate_sampling_bounds_def sampling_limits)
    have "case fst (run_module env conn False (sampling_body env clk p m)) of
        ExitJson changed r \<Rightarrow> \<not> changed \<and> report_sound True p m r | _ \<Rightarrow> True"
      by (auto simp: run_module_def caught_def split: sum.splits prod.splits exn.splits dest!: sampled_report_sound [OF assms 3(3)])
    with run_module_reads [OF sampling_body_performs [OF assms p], of env conn False m] 3
      postcode_main_total [OF assms p 3(1,3), of conn] show ?thesis
      by (auto simp: prod_eq_iff split: module_outcome.splits)
  qed
qed

definition sample_clock :: sampling_clock where
  "sample_clock = \<lparr>monotonic = (\<lambda>k. of_nat (5 * k)), wall = (\<lambda>i. ''t'' @ str_nat i)\<rparr>"

definition post_code_tables :: "webvar_record list list" where
  "post_code_tables = [[[(LitStr ''CurrPostCode'', LitStr ''0xA2'')]], [[(LitStr ''CurrPostCode'', LitStr ''b4'')]]]"

definition sampled_codes :: "postcode_report module_result option \<Rightarrow> (string list \<times> int option) option" where
  "sampled_codes main = (case main of Some (ExitJson _ r, _) \<Rightarrow> map_option (\<lambda>(obs, codes, n). (codes, pr_int r)) (pr_sample r) | _ \<Rightarrow> None)"

theorem postcode_sampling_bounded_witness:
  "sampled_codes (postcode_main (sample_env post_code_tables) sample_clock sample_conn True 5 20) = Some ([''0xA2'', ''b4''], Some 180)
   \<and> (\<exists>changed r rqs. postcode_main (sample_env post_code_tables) sample_clock sample_conn True 5 20 = Some (ExitJson changed r, rqs)
        \<and> report_sound True 5 20 r)"
proof -
  let ?main = "postcode_main (sample_env post_code_tables) sample_clock sample_conn True 5 20"
  have run: "sampled_codes ?main = Some ([''0xA2'', ''b4''], Some 180)" by code_simp
  have "clock_runs sample_clock 5" by (auto simp: clock_runs_def sample_clock_def)
  from postcode_sampling_bounded [OF this, of "sample_env post_code_tables" sample_conn True 20]
  obtain out rqs where out: "?main = Some (out, rqs)" "case out of ExitJson changed r \<Rightarrow> \<not> changed \<and> report_sound True 5 20 r | _ \<Rightarrow> True"
    by blast
  with run show ?thesis by (cases out) (auto simp: sampled_codes_def)
qed

text \<open>C40. Four modules build the client before their \<open>try\<close>. When the connection options are refused, because TLS is off
  without the explicit opt-in, the fingerprint is malformed or the trust anchors cannot be loaded, the
  error is not turned into a module failure but leaves \<open>main\<close>, with nothing sent; the users, network and
  sessions modules report the same refusal as a failure with its error class.\<close>

theorem refused_options_escape:
  assumes "we_has_requests env" and "build_asp_client env conn = Inl (Ikvm err)"
  shows "auditlog_main env conn = (Uncaught (Ikvm err), []) \<and> alerts_main env conn = (Uncaught (Ikvm err), [])
    \<and> sel_main env conn None None = (Uncaught (Ikvm err), []) \<and> postcode_main env clk conn False p m = Some (Uncaught (Ikvm err), [])
    \<and> users_main env False conn = (FailJson err, []) \<and> network_main env False conn = (FailJson err, [])
    \<and> sessions_main env False conn requested = (FailJson err, [])"
  using assms
  by (simp add: auditlog_main_def alerts_main_def sel_main_def postcode_main_def users_main_def network_main_def sessions_main_def
      report_main_def run_module_def caught_def)

theorem refused_options_escape_witness:
  "\<exists>err. auditlog_main (sample_env []) (sample_conn\<lparr>cp_allow_insecure_transport := False\<rparr>) = (Uncaught (Ikvm err), [])
     \<and> users_main (sample_env []) False (sample_conn\<lparr>cp_allow_insecure_transport := False\<rparr>) = (FailJson err, [])"
proof -
  have "case build_asp_client (sample_env []) (sample_conn\<lparr>cp_allow_insecure_transport := False\<rparr>) of Inl (Ikvm _) \<Rightarrow> True | _ \<Rightarrow> False"
    by code_simp
  then obtain err where "build_asp_client (sample_env []) (sample_conn\<lparr>cp_allow_insecure_transport := False\<rparr>) = Inl (Ikvm err)"
    by (auto split: sum.splits exn.splits)
  moreover have "we_has_requests (sample_env [])" by (simp add: sample_env_def)
  ultimately show ?thesis using refused_options_escape by blast
qed

end
