(* ===== verification/Sensor_Modules.thy ===== *)
theory Sensor_Modules
  imports Complex_Main Log_Modules "HOL-Library.List_Lexorder" "HOL-Library.Char_ord"
begin

text \<open>
  The modules that report hardware inventory and sensor readings: \<open>plugins/modules/asmb8_inventory.py\<close> and
  \<open>asmb8_sensors.py\<close>. Every numeric field is \<open>int(record.get(key, 0) or 0)\<close>, which raises on a value that is not
  a number. A reading divided by 1000.0 is modelled by its exact quotient.
\<close>

definition int_field :: "web_env \<Rightarrow> webvar_record \<Rightarrow> string \<Rightarrow> exn + int" where
  "int_field env r k = lit_int env (lit_or (rec_get r k) (LitInt 0))"

text \<open>Several such fields, read in order.\<close>

definition int_fields :: "web_env \<Rightarrow> webvar_record \<Rightarrow> string list \<Rightarrow> exn + (string \<Rightarrow> int)" where
  "int_fields env r ks = (case try_map (int_field env r) ks of Inl e \<Rightarrow> Inl e
     | Inr vs \<Rightarrow> Inr (\<lambda>k. case map_of (zip ks vs) k of None \<Rightarrow> 0 | Some v \<Rightarrow> v))"

section \<open>\<open>asmb8_inventory\<close>\<close>

datatype inventory_section = FRU | FIRMWARE | PROJECT_FEATURES

definition ALL_SECTIONS :: "inventory_section list" where
  "ALL_SECTIONS = [FRU, FIRMWARE, PROJECT_FEATURES]"

fun section_name :: "inventory_section \<Rightarrow> string" where
  "section_name FRU = ''fru''"
| "section_name FIRMWARE = ''firmware''"
| "section_name PROJECT_FEATURES = ''project_features''"

fun section_endpoint :: "inventory_section \<Rightarrow> string" where
  "section_endpoint FRU = ''getfruinfo''"
| "section_endpoint FIRMWARE = ''getfwinfo''"
| "section_endpoint PROJECT_FEATURES = ''getprojectcfg''"

definition BCD_DIGIT_MAX :: int where
  "BCD_DIGIT_MAX = 9"

definition decode_bcd_byte :: "int \<Rightarrow> string option" where
  "decode_bcd_byte v = (let hi = and (drop_bit 4 v) 15; lo = and v 15
     in if hi > BCD_DIGIT_MAX \<or> lo > BCD_DIGIT_MAX then None else Some (str_int hi @ str_int lo))"

definition opt_lit :: "string option \<Rightarrow> py_literal" where
  "opt_lit s = (case s of None \<Rightarrow> LitNone | Some t \<Rightarrow> LitStr t)"

definition manufacturer_combined :: "int \<Rightarrow> int \<Rightarrow> int \<Rightarrow> int" where
  "manufacturer_combined b0 b1 b2 = or (or b0 (push_bit 8 b1)) (push_bit 16 b2)"

definition parse_firmware :: "web_env \<Rightarrow> webvar_record list \<Rightarrow> exn + py_literal" where
  "parse_firmware env rs = (case rs of
      [] \<Rightarrow> Inl (Ikvm \<lparr>error_class = PROTOCOL, endpoint = None, operation = Some ''get_inventory:firmware'',
                       indeterminate = False, return_value = None\<rparr>)
    | r # _ \<Rightarrow>
        (case int_fields env r [''FirmwareRevision1'', ''FirmwareRevision2'', ''AuxFirmwareRevision'', ''DeviceID'', ''DevRevision'',
           ''IPMIVersion'', ''DevSupport'', ''MfgID_0'', ''MfgID_1'', ''MfgID_2'', ''ProdID'', ''CompletionCode''] of
           Inl e \<Rightarrow> Inl e
         | Inr f \<Rightarrow>
             (let bcd = decode_bcd_byte (f ''FirmwareRevision2'');
                  firmware_version = map_option (\<lambda>b. str_int (f ''FirmwareRevision1'') @ ''.'' @ b) bcd;
                  firmware_version_full = map_option (\<lambda>v. v @ ''.'' @ str_int (f ''AuxFirmwareRevision'')) firmware_version
              in Inr (obj
                [(''device_id'', LitInt (f ''DeviceID'')),
                 (''device_revision'', LitInt (f ''DevRevision'')),
                 (''ipmi_version'', LitInt (f ''IPMIVersion'')),
                 (''device_support'', LitInt (f ''DevSupport'')),
                 (''firmware_revision_1'', LitInt (f ''FirmwareRevision1'')),
                 (''firmware_revision_2_raw'', LitInt (f ''FirmwareRevision2'')),
                 (''firmware_revision_2_bcd'', opt_lit bcd),
                 (''firmware_version'', opt_lit firmware_version),
                 (''aux_firmware_revision'', LitInt (f ''AuxFirmwareRevision'')),
                 (''firmware_version_full'', opt_lit firmware_version_full),
                 (''firmware_build_date'', rec_get r ''FirmwareBuildDate''),
                 (''firmware_build_time'', rec_get r ''FirmwareBuildTime''),
                 (''manufacturer_id'', obj
                   [(''byte_0'', LitInt (f ''MfgID_0'')),
                    (''byte_1'', LitInt (f ''MfgID_1'')),
                    (''byte_2'', LitInt (f ''MfgID_2'')),
                    (''combined'', LitInt (manufacturer_combined (f ''MfgID_0'') (f ''MfgID_1'') (f ''MfgID_2'')))]),
                 (''product_id'', LitInt (f ''ProdID'')),
                 (''completion_code'', LitInt (f ''CompletionCode''))]))))"

text \<open>\<open>sorted(set(features))\<close>: exact on strings and on integers; \<open>mixed\<close> stands for lists with values of other types.\<close>

fun lit_strs :: "py_literal list \<Rightarrow> string list option" where
  "lit_strs [] = Some []"
| "lit_strs (LitStr s # vs) = map_option ((#) s) (lit_strs vs)"
| "lit_strs (_ # vs) = None"

fun lit_ints :: "py_literal list \<Rightarrow> int list option" where
  "lit_ints [] = Some []"
| "lit_ints (LitInt i # vs) = map_option ((#) i) (lit_ints vs)"
| "lit_ints (_ # vs) = None"

definition sorted_set :: "(py_literal list \<Rightarrow> exn + py_literal list) \<Rightarrow> py_literal list \<Rightarrow> exn + py_literal list" where
  "sorted_set mixed vs = (case lit_strs vs of Some ss \<Rightarrow> Inr (map LitStr (sort (remdups ss)))
     | None \<Rightarrow> (case lit_ints vs of Some is \<Rightarrow> Inr (map LitInt (sort (remdups is)))
     | None \<Rightarrow> if \<exists>v \<in> set vs. \<not> hashable v then Inl TypeError else mixed vs))"

definition parse_project_features :: "(py_literal list \<Rightarrow> exn + py_literal list) \<Rightarrow> webvar_record list \<Rightarrow> exn + py_literal" where
  "parse_project_features mixed rs =
     (let features = List.map_filter (\<lambda>r. map_of r (LitStr ''FEATURES'')) rs
      in case sorted_set mixed features of Inl e \<Rightarrow> Inl e
         | Inr feature_set \<Rightarrow> Inr (obj [(''features'', LitList features), (''feature_set'', LitList feature_set),
                                     (''feature_count'', LitInt (int (length features)))]))"

definition parse_fru :: "webvar_record list \<Rightarrow> py_literal" where
  "parse_fru rs = obj [(''populated'', LitBool (rs \<noteq> [])), (''entries'', LitList (map LitDict rs))]"

fun section_parser :: "web_env \<Rightarrow> (py_literal list \<Rightarrow> exn + py_literal list) \<Rightarrow> inventory_section \<Rightarrow> webvar_record list \<Rightarrow> exn + py_literal" where
  "section_parser env mixed FRU rs = Inr (parse_fru rs)"
| "section_parser env mixed FIRMWARE rs = parse_firmware env rs"
| "section_parser env mixed PROJECT_FEATURES rs = parse_project_features mixed rs"

definition read_section :: "web_env \<Rightarrow> (py_literal list \<Rightarrow> exn + py_literal list) \<Rightarrow> inventory_section \<Rightarrow> (inventory_section \<times> py_literal) web_call" where
  "read_section env mixed sec =
     call_bind (web_get env (section_endpoint sec) (Some (''get_inventory:'' @ section_name sec))) (\<lambda>response.
     call_bind (call_lift (section_parser env mixed sec (records response))) (\<lambda>v. call_return (sec, v)))"

text \<open>A section that was not requested stays \<open>None\<close>; of a section requested twice the last reading counts.\<close>

definition inventory_result :: "(inventory_section \<times> py_literal) list \<Rightarrow> inventory_section \<Rightarrow> py_literal" where
  "inventory_result readings sec = (case map_of (rev readings) sec of None \<Rightarrow> LitNone | Some v \<Rightarrow> v)"

definition inventory_main ::
  "web_env \<Rightarrow> (py_literal list \<Rightarrow> exn + py_literal list) \<Rightarrow> conn_params \<Rightarrow> inventory_section list \<Rightarrow>
   (inventory_section \<Rightarrow> py_literal) module_result" where
  "inventory_main env mixed conn sections = run_module env conn True
     (call_bind (web_login env) (\<lambda>_. call_bind (call_map (read_section env mixed) sections) (\<lambda>readings.
        call_return (False, inventory_result readings))))"

section \<open>\<open>asmb8_sensors\<close>\<close>

definition SENSOR_TYPE_NAMES :: "(int \<times> string) list" where
  "SENSOR_TYPE_NAMES =
     [(1, ''Temperature''), (2, ''Voltage''), (3, ''Current''), (4, ''Fan''), (5, ''Physical Security''),
      (6, ''Platform Security Violation Attempt''), (7, ''Processor''), (8, ''Power Supply''), (9, ''Power Unit''),
      (10, ''Cooling Device''), (12, ''Memory''), (15, ''System Firmware Progress''), (16, ''Event Logging Disabled''),
      (17, ''Watchdog 1''), (18, ''System Event''), (19, ''Critical Interrupt''), (20, ''Button/Switch''),
      (33, ''Slot/Connector''), (34, ''System ACPI Power State''), (35, ''Watchdog 2'')]"

definition SENSOR_UNIT_NAMES :: "(int \<times> string) list" where
  "SENSOR_UNIT_NAMES = [(0, ''none''), (1, ''degrees C''), (2, ''degrees F''), (3, ''Kelvin''), (4, ''Volts''), (5, ''Amps''),
     (6, ''Watts''), (18, ''RPM''), (19, ''Hz'')]"

definition THRESHOLD_FIELDS :: "(string \<times> string) list" where
  "THRESHOLD_FIELDS =
     [(''low_non_recoverable'', ''LowNRThresh''), (''low_critical'', ''LowCTThresh''), (''low_non_critical'', ''LowNCThresh''),
      (''high_non_critical'', ''HighNCThresh''), (''high_critical'', ''HighCTThresh''), (''high_non_recoverable'', ''HighNRThresh'')]"

definition sensor_type_name :: "int \<Rightarrow> string" where
  "sensor_type_name t = (case map_of SENSOR_TYPE_NAMES t of Some n \<Rightarrow> n | None \<Rightarrow> ''unknown('' @ str_int t @ '')'')"

definition sensor_unit_name :: "int \<Rightarrow> string option" where
  "sensor_unit_name u = map_of SENSOR_UNIT_NAMES u"

datatype sensor_kind = Threshold | Discrete

record sensor =
  sn_number :: int
  sn_name :: py_literal
  sn_owner_id :: int
  sn_owner_lun :: int
  sn_type :: int
  sn_type_name :: string
  sn_kind :: sensor_kind
  sn_raw :: int
  sn_scaled_raw :: int
  sn_value :: "rat option"
  sn_unit :: "string option"
  sn_unit_code :: int
  sn_thresholds :: "(string \<times> int \<times> rat option) list"
  sn_state :: int
  sn_discrete_state :: int
  sn_accessible :: int
  sn_settable_readable :: int

text \<open>\<open>n / 1000.0\<close>; an integer beyond the range of a double raises.\<close>

definition scaled :: "sensor_kind \<Rightarrow> int \<Rightarrow> exn + rat option" where
  "scaled kind n = (if kind = Discrete then Inr None
     else if \<bar>n\<bar> \<ge> 2 ^ 1024 - 2 ^ 970 then Inl OverflowError else Inr (Some (of_int n / 1000)))"

definition scaled_threshold :: "web_env \<Rightarrow> webvar_record \<Rightarrow> sensor_kind \<Rightarrow> string \<times> string \<Rightarrow> exn + (string \<times> int \<times> rat option)" where
  "scaled_threshold env r kind = (\<lambda>(key, fld).
     case int_field env r fld of Inl e \<Rightarrow> Inl e
     | Inr raw \<Rightarrow> (case scaled kind raw of Inl e \<Rightarrow> Inl e | Inr v \<Rightarrow> Inr (key, raw, v)))"

definition normalize_sensor :: "web_env \<Rightarrow> webvar_record \<Rightarrow> exn + sensor" where
  "normalize_sensor env r =
     (case int_fields env r [''SettableReadableFlags'', ''SensorReading'', ''SensorUnit2''] of Inl e \<Rightarrow> Inl e | Inr f \<Rightarrow>
      let kind = (if f ''SettableReadableFlags'' \<noteq> 0 then Threshold else Discrete) in
      case scaled kind (f ''SensorReading'') of Inl e \<Rightarrow> Inl e | Inr val \<Rightarrow>
      case try_map (scaled_threshold env r kind) THRESHOLD_FIELDS of Inl e \<Rightarrow> Inl e | Inr thresholds \<Rightarrow>
      case int_fields env r [''SensorType'', ''SensorNumber'', ''OwnerID'', ''OwnerLUN'', ''RawReading'', ''SensorState'', ''DiscreteState'',
        ''SensorAccessibleFlags''] of Inl e \<Rightarrow> Inl e | Inr g \<Rightarrow>
      Inr \<lparr>sn_number = g ''SensorNumber'', sn_name = rec_get r ''SensorName'', sn_owner_id = g ''OwnerID'', sn_owner_lun = g ''OwnerLUN'',
           sn_type = g ''SensorType'', sn_type_name = sensor_type_name (g ''SensorType''), sn_kind = kind,
           sn_raw = g ''RawReading'', sn_scaled_raw = f ''SensorReading'', sn_value = val,
           sn_unit = sensor_unit_name (f ''SensorUnit2''), sn_unit_code = f ''SensorUnit2'', sn_thresholds = thresholds,
           sn_state = g ''SensorState'', sn_discrete_state = g ''DiscreteState'',
           sn_accessible = g ''SensorAccessibleFlags'', sn_settable_readable = f ''SettableReadableFlags''\<rparr>)"

text \<open>Membership in a Python set hashes the name.\<close>

definition filter_sensors :: "sensor list \<Rightarrow> string list option \<Rightarrow> int list option \<Rightarrow> exn + sensor list" where
  "filter_sensors sensors sensor_names sensor_types =
     (let by_name = (case sensor_names of None \<Rightarrow> Inr sensors
        | Some names \<Rightarrow> if \<exists>s \<in> set sensors. \<not> hashable (sn_name s) then Inl TypeError
                        else Inr (filter (\<lambda>s. sn_name s \<in> LitStr ` set names) sensors))
      in case by_name of Inl e \<Rightarrow> Inl e
         | Inr result \<Rightarrow> Inr (case sensor_types of None \<Rightarrow> result | Some types \<Rightarrow> filter (\<lambda>s. sn_type s \<in> set types) result))"

text \<open>\<open>groups.setdefault(name, []).append(number)\<close>.\<close>

fun group_add :: "string \<Rightarrow> int \<Rightarrow> (string \<times> int list) list \<Rightarrow> (string \<times> int list) list" where
  "group_add name n [] = [(name, [n])]"
| "group_add name n ((k, ns) # gs) = (if k = name then (k, ns @ [n]) # gs else (k, ns) # group_add name n gs)"

definition group_by_type :: "sensor list \<Rightarrow> (string \<times> int list) list" where
  "group_by_type sensors = fold (\<lambda>s gs. group_add (sn_type_name s) (sn_number s) gs) sensors []"

record sensors_report =
  sp_sensors :: "sensor list"
  sp_count :: nat
  sp_by_type :: "(string \<times> int list) list"

definition build_sensors :: "web_env \<Rightarrow> string list option \<Rightarrow> int list option \<Rightarrow> webvar_record list \<Rightarrow> exn + sensors_report" where
  "build_sensors env sensor_names sensor_types rs = (case try_map (normalize_sensor env) rs of Inl e \<Rightarrow> Inl e
     | Inr all \<Rightarrow> (case filter_sensors all sensor_names sensor_types of Inl e \<Rightarrow> Inl e
     | Inr sensors \<Rightarrow> Inr \<lparr>sp_sensors = sensors, sp_count = length sensors, sp_by_type = group_by_type sensors\<rparr>))"

text \<open>The decoding stands after the \<open>try\<close>; the errors it raises are of no class of the collection.\<close>

definition sensors_main :: "web_env \<Rightarrow> conn_params \<Rightarrow> string list option \<Rightarrow> int list option \<Rightarrow> sensors_report module_result" where
  "sensors_main env conn sensor_names sensor_types = run_module env conn True
     (call_bind (web_login env) (\<lambda>_. call_bind (web_get env ''getallsensors'' (Some ''get_sensors'')) (\<lambda>response.
      call_bind (call_lift (build_sensors env sensor_names sensor_types (records response))) (\<lambda>r. call_return (False, r)))))"

section \<open>Facts\<close>

lemma try_map_Inr: "try_map f xs = Inr ys \<Longrightarrow> list_all2 (\<lambda>x y. f x = Inr y) xs ys"
  by (induction xs arbitrary: ys) (auto split: sum.splits simp: list_all2_Cons1)

lemma scaled_value: "scaled kind n = Inr v \<Longrightarrow> v = (if kind = Threshold then Some (of_int n / 1000) else None)"
  by (cases kind) (auto simp: scaled_def split: if_splits)

text \<open>A threshold sensor carries its reading and every threshold in the base unit, a discrete sensor none.\<close>

definition scaled_sensor :: "sensor \<Rightarrow> bool" where
  "scaled_sensor s \<longleftrightarrow> sn_kind s = (if sn_settable_readable s \<noteq> 0 then Threshold else Discrete)
     \<and> sn_value s = (if sn_kind s = Threshold then Some (of_int (sn_scaled_raw s) / 1000) else None)
     \<and> map fst (sn_thresholds s) = map fst THRESHOLD_FIELDS
     \<and> (\<forall>(k, raw, v) \<in> set (sn_thresholds s). v = (if sn_kind s = Threshold then Some (of_int raw / 1000) else None))"

lemma scaled_thresholds:
  assumes "try_map (scaled_threshold env r kind) fs = Inr ts"
  shows "map fst ts = map fst fs \<and> (\<forall>(k, raw, v) \<in> set ts. v = (if kind = Threshold then Some (of_int raw / 1000) else None))"
  using try_map_Inr [OF assms]
  by (induction rule: list_all2_induct) (auto simp: scaled_threshold_def dest: scaled_value split: sum.splits prod.splits)

lemma normalized_scaled:
  assumes "normalize_sensor env r = Inr s"
  shows "scaled_sensor s"
proof -
  obtain f kind val ts g where k: "kind = (if f ''SettableReadableFlags'' \<noteq> 0 then Threshold else Discrete)"
    and v: "scaled kind (f ''SensorReading'') = Inr val" and t: "try_map (scaled_threshold env r kind) THRESHOLD_FIELDS = Inr ts"
    and s: "sn_kind s = kind" "sn_value s = val" "sn_thresholds s = ts" "sn_scaled_raw s = f ''SensorReading''"
      "sn_settable_readable s = (f :: string \<Rightarrow> int) ''SettableReadableFlags''"
    using assms by (fastforce simp: normalize_sensor_def Let_def split: sum.splits)
  with scaled_thresholds [OF t] scaled_value [OF v] show ?thesis by (simp add: scaled_sensor_def)
qed

lemma filter_sensors_sound:
  assumes "filter_sensors all sensor_names sensor_types = Inr sensors"
  shows "sensors = filter (\<lambda>s. (sensor_names = None \<or> sn_name s \<in> LitStr ` set (the sensor_names))
    \<and> (sensor_types = None \<or> sn_type s \<in> set (the sensor_types))) all"
  using assms by (auto simp: filter_sensors_def split: option.splits if_splits intro!: filter_cong)

lemma group_add_map_of: "map_of (group_add name n gs) = (map_of gs)(name \<mapsto> (case map_of gs name of None \<Rightarrow> [] | Some ns \<Rightarrow> ns) @ [n])"
  by (induction gs rule: group_add.induct) (auto split: option.splits)

lemma group_add_keys: "set (map fst (group_add name n gs)) = insert name (set (map fst gs))"
    "distinct (map fst gs) \<Longrightarrow> distinct (map fst (group_add name n gs))"
proof -
  show keys: "set (map fst (group_add name n gs)) = insert name (set (map fst gs))" for name n gs
    by (induction gs rule: group_add.induct) auto
  show "distinct (map fst gs) \<Longrightarrow> distinct (map fst (group_add name n gs))"
  proof (induction gs rule: group_add.induct)
    case (2 name n k ns gs)
    then show ?case by (cases "k = name") (simp_all add: keys [simplified])
  qed simp
qed

lemma group_fold:
  assumes "distinct (map fst gs)" and "out = fold (\<lambda>s gs. group_add (sn_type_name s) (sn_number s) gs) ss gs"
  shows "distinct (map fst out) \<and> set (map fst out) = set (map fst gs) \<union> sn_type_name ` set ss
    \<and> (case map_of out name of None \<Rightarrow> [] | Some ns \<Rightarrow> ns)
      = (case map_of gs name of None \<Rightarrow> [] | Some ns \<Rightarrow> ns) @ map sn_number (filter (\<lambda>s. sn_type_name s = name) ss)"
  using assms
proof (induction ss arbitrary: gs)
  case (Cons s ss)
  from Cons.IH [OF group_add_keys(2) [OF Cons.prems(1)], of "sn_type_name s" "sn_number s"] Cons.prems(2)
  show ?case unfolding group_add_keys(1) group_add_map_of by (auto split: option.splits)
qed simp

lemma group_by_type_partition:
  assumes "(name, ns) \<in> set (group_by_type ss)"
  shows "ns = map sn_number (filter (\<lambda>s. sn_type_name s = name) ss)"
  using group_fold [OF _ refl, of "[]" ss name] assms unfolding group_by_type_def by (auto split: option.splits)

lemma hardware_performs:
  "performs env reading_calls (read_section env mixed sec)"
  unfolding read_section_def by (auto intro!: performs_intros)

lemma and_15: "and x 15 = x mod (16 :: int)"
  using take_bit_eq_mask [of 4 x] by (simp add: take_bit_eq_mod mask_eq_exp_minus_1 and.commute)

section \<open>Properties\<close>

text \<open>The sensors report is a consistent view of the device's table: exactly the sensors that pass both filters, counted;
  the groups have distinct type names, name exactly the types present, and list the numbers of the
  sensors of their type in report order; a reading and its thresholds are scaled for threshold sensors
  and absent for discrete ones.\<close>

theorem sensors_report_consistent:
  assumes "sensors_main env conn sensor_names sensor_types = (ExitJson changed r, rqs)"
  shows "\<not> changed \<and> sp_count r = length (sp_sensors r)
    \<and> (\<exists>all. list_all scaled_sensor all \<and> sp_sensors r = filter (\<lambda>s. (sensor_names = None \<or> sn_name s \<in> LitStr ` set (the sensor_names))
         \<and> (sensor_types = None \<or> sn_type s \<in> set (the sensor_types))) all)
    \<and> distinct (map fst (sp_by_type r)) \<and> fst ` set (sp_by_type r) = sn_type_name ` set (sp_sensors r)
    \<and> (\<forall>(name, ns) \<in> set (sp_by_type r). ns = map sn_number (filter (\<lambda>s. sn_type_name s = name) (sp_sensors r)))"
proof -
  obtain c c1 where "call_bind (web_login env) (\<lambda>_. call_bind (web_get env ''getallsensors'' (Some ''get_sensors'')) (\<lambda>response.
      call_bind (call_lift (build_sensors env sensor_names sensor_types (records response))) (\<lambda>r. call_return (False, r)))) c = (Inr (changed, r), c1)"
    using assms unfolding sensors_main_def by (rule run_module_exit)
  then obtain rs where "build_sensors env sensor_names sensor_types rs = Inr r" and ch: "\<not> changed"
    by (auto simp: call_lift_def call_return_def elim!: call_bind_Inr)
  then obtain all where all: "try_map (normalize_sensor env) rs = Inr all" "filter_sensors all sensor_names sensor_types = Inr (sp_sensors r)"
      "sp_count r = length (sp_sensors r)" "sp_by_type r = group_by_type (sp_sensors r)"
    by (auto simp: build_sensors_def split: sum.splits)
  have "list_all scaled_sensor all"
    using try_map_Inr [OF all(1)] by (induction rule: list_all2_induct) (auto dest: normalized_scaled)
  moreover have "distinct (map fst (sp_by_type r))" "fst ` set (sp_by_type r) = sn_type_name ` set (sp_sensors r)"
    using group_fold [OF _ refl, of "[]" "sp_sensors r" "[]"] unfolding all(4) group_by_type_def by auto
  ultimately show ?thesis
    using ch all(3) filter_sensors_sound [OF all(2)] group_by_type_partition [of _ _ "sp_sensors r"] unfolding all(4) by blast
qed

definition sample_sensor :: "int \<Rightarrow> int \<Rightarrow> int \<Rightarrow> webvar_record" where
  "sample_sensor n ty flags = [(LitStr ''SensorNumber'', LitInt n), (LitStr ''SensorType'', LitInt ty),
     (LitStr ''SettableReadableFlags'', LitInt flags), (LitStr ''SensorReading'', LitInt 3312), (LitStr ''SensorName'', LitStr ''s'')]"

definition sample_sensors_run :: "sensors_report module_result" where
  "sample_sensors_run = sensors_main (sample_env [[sample_sensor 1 2 1, sample_sensor 2 220 0, sample_sensor 3 2 1]]) sample_conn None (Some [2])"

theorem sensors_report_consistent_witness:
  "\<exists>r. fst sample_sensors_run = ExitJson False r \<and> sp_by_type r = [(''Voltage'', [1, 3])] \<and> sp_count r = length (sp_sensors r)"
proof -
  have "case fst sample_sensors_run of ExitJson ch r \<Rightarrow> \<not> ch \<and> sp_by_type r = [(''Voltage'', [1, 3])] | _ \<Rightarrow> False" by code_simp
  then obtain r where r: "fst sample_sensors_run = ExitJson False r" "sp_by_type r = [(''Voltage'', [1, 3])]"
    by (auto split: module_outcome.splits)
  then have "sensors_main (sample_env [[sample_sensor 1 2 1, sample_sensor 2 220 0, sample_sensor 3 2 1]]) sample_conn None (Some [2])
      = (ExitJson False r, snd sample_sensors_run)"
    by (simp add: sample_sensors_run_def prod_eq_iff)
  from sensors_report_consistent [OF this] r show ?thesis by blast
qed

text \<open>Firmware numbers are decoded without guessing. For a byte, the packed-decimal revision is the two-digit
  decimal numeral of its nibbles, leading zero kept, exactly when both are decimal digits, and absent
  otherwise; three manufacturer bytes combine to the little-endian number they spell; and of textual
  features the feature set holds each once, in ascending order.\<close>

theorem inventory_decoding:
  assumes "0 \<le> v" "v < 256" "0 \<le> b0" "b0 < 256" "0 \<le> b1" "b1 < 256" "lit_strs fs = Some ss"
  shows "decode_bcd_byte v = (if v div 16 \<le> 9 \<and> v mod 16 \<le> 9 then Some (pad 2 (10 * (v div 16) + v mod 16)) else None)
    \<and> manufacturer_combined b0 b1 b2 = b0 + 256 * b1 + 65536 * b2
    \<and> (\<exists>ts. sorted_set mixed fs = Inr (map LitStr ts) \<and> sorted ts \<and> distinct ts \<and> set ts = set ss)"
proof -
  have "\<forall>v \<in> {0..255}. decode_bcd_byte v
      = (if v div 16 \<le> 9 \<and> v mod 16 \<le> 9 then Some (pad 2 (10 * (v div 16) + v mod 16)) else None)"
    by code_simp
  then have bcd: "decode_bcd_byte v = (if v div 16 \<le> 9 \<and> v mod 16 \<le> 9 then Some (pad 2 (10 * (v div 16) + v mod 16)) else None)"
    using assms(1,2) by simp
  have low: "take_bit 8 b0 = b0" "take_bit 16 (b0 + push_bit 8 b1) = b0 + push_bit 8 b1"
    using assms(3-6) by (simp_all add: take_bit_int_eq_self_iff push_bit_eq_mult)
  have join: "or x (push_bit n y) = x + push_bit n y" if "take_bit n x = x" for x y :: int and n
  proof (rule disjunctive_add_eq_or [symmetric])
    show "and x (push_bit n y) = 0"
      using that by (metis (no_types) bit_eqI bit_and_iff bit_push_bit_iff_int bit_take_bit_iff not_le bit_0_eq bot_apply bot_bool_def)
  qed
  have "manufacturer_combined b0 b1 b2 = b0 + 256 * b1 + 65536 * b2"
    using join [OF low(1), of b1] join [OF low(2), of b2] by (simp add: manufacturer_combined_def push_bit_eq_mult)
  moreover have "sorted_set mixed fs = Inr (map LitStr (sort (remdups ss)))" using assms(7) by (simp add: sorted_set_def)
  ultimately show ?thesis using bcd by auto
qed

theorem inventory_decoding_witness:
  "decode_bcd_byte 20 = Some ''14'' \<and> decode_bcd_byte 26 = None \<and> manufacturer_combined 63 10 0 = 2623
   \<and> (\<exists>ts. sorted_set (\<lambda>_. Inl TypeError) [LitStr ''b'', LitStr ''a'', LitStr ''b''] = Inr (map LitStr ts) \<and> sorted ts \<and> distinct ts)"
proof -
  have "lit_strs [LitStr ''b'', LitStr ''a'', LitStr ''b''] = Some [''b'', ''a'', ''b'']" by simp
  from inventory_decoding [of 20 63 10, OF _ _ _ _ _ _ this, of 0 "\<lambda>_. Inl TypeError"]
  have "\<exists>ts. sorted_set (\<lambda>_. Inl TypeError) [LitStr ''b'', LitStr ''a'', LitStr ''b''] = Inr (map LitStr ts) \<and> sorted ts \<and> distinct ts"
    by fastforce
  moreover have "decode_bcd_byte 20 = Some ''14'' \<and> decode_bcd_byte 26 = None \<and> manufacturer_combined 63 10 0 = 2623" by code_simp
  ultimately show ?thesis by blast
qed

theorem hardware_modules_only_read:
  "set (snd (inventory_main env mixed conn sections)) \<union> set (snd (sensors_main env conn sensor_names sensor_types)) \<subseteq> Collect (read_request conn)
   \<and> fst (inventory_main env mixed conn sections) \<noteq> ExitJson True ir \<and> fst (sensors_main env conn sensor_names sensor_types) \<noteq> ExitJson True sr"
proof -
  have "performs env reading_calls (call_bind (web_login env) (\<lambda>_. call_bind (call_map (read_section env mixed) sections) (\<lambda>readings.
      call_return (False, inventory_result readings))))"
    by (intro performs_intros hardware_performs) simp
  from run_module_reads [OF this] have "set (snd (inventory_main env mixed conn sections)) \<subseteq> Collect (read_request conn)"
    by (simp add: inventory_main_def)
  moreover have "performs env reading_calls (call_bind (web_login env) (\<lambda>_. call_bind (web_get env ''getallsensors'' (Some ''get_sensors'')) (\<lambda>response.
      call_bind (call_lift (build_sensors env sensor_names sensor_types (records response))) (\<lambda>r. call_return (False, r)))))"
    by (intro performs_intros) simp_all
  from run_module_reads [OF this] have "set (snd (sensors_main env conn sensor_names sensor_types)) \<subseteq> Collect (read_request conn)"
    by (simp add: sensors_main_def)
  moreover have "fst (inventory_main env mixed conn sections) \<noteq> ExitJson True ir" "fst (sensors_main env conn sensor_names sensor_types) \<noteq> ExitJson True sr"
    unfolding inventory_main_def sensors_main_def call_bind_assoc [symmetric] by (rule run_module_unchanged)+
  ultimately show ?thesis by blast
qed

end
