(* ===== verification/Redirection_Module.thy ===== *)
theory Redirection_Module
  imports Complex_Main Web_Call "HOL-Library.AList"
begin

text \<open>
  The redirection-services module, \<open>plugins/modules/asmb8_redirection.py\<close>: a catalog of the device's services and
  a live probe of their ports. \<open>connect\<close>, the socket factory, is a parameter: \<open>Inr\<close> when the connection
  was made, and the exception otherwise. The ports tried are recorded in order.
\<close>

record service_capacity =
  nonsecure_port :: "int option"
  secure_port :: "int option"
  timeout_seconds :: "int option"
  max_sessions :: "int option"
  on_demand :: bool
  known_active :: bool

definition SERVICE_CATALOG :: "(string \<times> service_capacity) list" where
  "SERVICE_CATALOG =
     [(''web'', \<lparr>nonsecure_port = Some 80, secure_port = Some 443, timeout_seconds = Some 1800, max_sessions = Some 20,
        on_demand = False, known_active = True\<rparr>),
      (''kvm'', \<lparr>nonsecure_port = Some 7578, secure_port = Some 7582, timeout_seconds = Some 1800, max_sessions = Some 4,
        on_demand = True, known_active = True\<rparr>),
      (''cd-media'', \<lparr>nonsecure_port = Some 5120, secure_port = Some 5124, timeout_seconds = None, max_sessions = Some 1,
        on_demand = True, known_active = True\<rparr>),
      (''fd-media'', \<lparr>nonsecure_port = Some 5122, secure_port = Some 5126, timeout_seconds = None, max_sessions = Some 1,
        on_demand = True, known_active = True\<rparr>),
      (''hd-media'', \<lparr>nonsecure_port = Some 5123, secure_port = Some 5127, timeout_seconds = None, max_sessions = Some 1,
        on_demand = True, known_active = True\<rparr>),
      (''ssh'', \<lparr>nonsecure_port = None, secure_port = Some 22, timeout_seconds = Some 600, max_sessions = None,
        on_demand = False, known_active = True\<rparr>),
      (''telnet'', \<lparr>nonsecure_port = Some 23, secure_port = None, timeout_seconds = Some 600, max_sessions = None,
        on_demand = False, known_active = False\<rparr>)]"

definition SERVICE_NAMES :: "string list" where
  "SERVICE_NAMES = map fst SERVICE_CATALOG"

type_synonym connect_fn = "string \<times> int \<Rightarrow> rat \<Rightarrow> exn + unit"

type_synonym 'a probing = "(string \<times> int) list \<Rightarrow> (exn + 'a) \<times> (string \<times> int) list"

definition probe_port :: "connect_fn \<Rightarrow> string \<Rightarrow> int \<Rightarrow> rat \<Rightarrow> bool probing" where
  "probe_port connect host port timeout tried =
     ((case connect (host, port) timeout of
         Inr _ \<Rightarrow> Inr True
       | Inl e \<Rightarrow> if e \<in> {OSError, FileNotFoundError, IsADirectoryError} then Inr False else Inl e),
      tried @ [(host, port)])"

definition reachable_entry :: "connect_fn \<Rightarrow> string \<Rightarrow> int option \<Rightarrow> rat \<Rightarrow> (int \<times> bool) option probing" where
  "reachable_entry connect host port timeout tried = (case port of
      None \<Rightarrow> (Inr None, tried)
    | Some p \<Rightarrow> (case probe_port connect host p timeout tried of
        (Inl e, t) \<Rightarrow> (Inl e, t) | (Inr b, t) \<Rightarrow> (Inr (Some (p, b)), t)))"

record service_report =
  rp_known :: bool
  rp_on_demand :: bool
  rp_enabled :: bool
  rp_capacity :: "int option \<times> int option \<times> int option \<times> int option"
  rp_nonsecure :: "(int \<times> bool) option"
  rp_secure :: "(int \<times> bool) option"

definition build_service_report :: "connect_fn \<Rightarrow> string \<Rightarrow> string \<Rightarrow> rat \<Rightarrow> service_report probing" where
  "build_service_report connect name host timeout tried = (case map_of SERVICE_CATALOG name of
      None \<Rightarrow> (Inl KeyError, tried)
    | Some cap \<Rightarrow> (case reachable_entry connect host (nonsecure_port cap) timeout tried of
        (Inl e, t) \<Rightarrow> (Inl e, t)
      | (Inr plain, t) \<Rightarrow> (case reachable_entry connect host (secure_port cap) timeout t of
          (Inl e, t2) \<Rightarrow> (Inl e, t2)
        | (Inr sec, t2) \<Rightarrow> (Inr \<lparr>rp_known = True, rp_on_demand = on_demand cap, rp_enabled = known_active cap,
              rp_capacity = (nonsecure_port cap, secure_port cap, timeout_seconds cap, max_sessions cap),
              rp_nonsecure = plain, rp_secure = sec\<rparr>, t2))))"

text \<open>The dictionary comprehension; a name given twice is probed twice and keeps its first position.\<close>

fun redirection_services_loop ::
  "connect_fn \<Rightarrow> string list \<Rightarrow> string \<Rightarrow> rat \<Rightarrow> (string \<times> service_report) list \<Rightarrow> (string \<times> service_report) list probing" where
  "redirection_services_loop connect [] host timeout d tried = (Inr d, tried)"
| "redirection_services_loop connect (name # names) host timeout d tried =
     (case build_service_report connect name host timeout tried of
        (Inl e, t) \<Rightarrow> (Inl e, t)
      | (Inr r, t) \<Rightarrow> redirection_services_loop connect names host timeout (AList.update name r d) t)"

definition build_redirection_report :: "connect_fn \<Rightarrow> string list \<Rightarrow> string \<Rightarrow> rat \<Rightarrow> (string \<times> service_report) list probing" where
  "build_redirection_report connect names host timeout = redirection_services_loop connect names host timeout []"

definition redirection_main ::
  "connect_fn \<Rightarrow> string \<Rightarrow> string list \<Rightarrow> string option \<Rightarrow> rat \<Rightarrow> (string \<times> service_report) list module_outcome \<times> (string \<times> int) list" where
  "redirection_main connect host services state probe_timeout =
     (if state \<noteq> None then
        (FailJson \<lparr>error_class = UNSUPPORTED_CAPABILITY, endpoint = Some host, operation = Some ''asmb8_redirection.report'',
           indeterminate = False, return_value = None\<rparr>, [])
      else case build_redirection_report connect services host probe_timeout [] of
          (Inl e, tried) \<Rightarrow> (caught e, tried)
        | (Inr report, tried) \<Rightarrow> (ExitJson False report, tried))"

section \<open>Facts\<close>

definition opt_ports :: "service_capacity \<Rightarrow> int list" where
  "opt_ports cap = List.map_filter id [nonsecure_port cap, secure_port cap]"

definition catalog_ports :: "string \<Rightarrow> int list" where
  "catalog_ports name = (case map_of SERVICE_CATALOG name of None \<Rightarrow> [] | Some cap \<Rightarrow> opt_ports cap)"

definition probe_result :: "connect_fn \<Rightarrow> string \<Rightarrow> rat \<Rightarrow> int option \<Rightarrow> (int \<times> bool) option" where
  "probe_result connect host timeout port = map_option (\<lambda>p. (p, connect (host, p) timeout = Inr ())) port"

text \<open>A report says of its service what the catalog says, and of its ports what the probes found.\<close>

definition faithful_report :: "connect_fn \<Rightarrow> string \<Rightarrow> rat \<Rightarrow> string \<Rightarrow> service_report \<Rightarrow> bool" where
  "faithful_report connect host timeout name r \<longleftrightarrow> (\<exists>cap. map_of SERVICE_CATALOG name = Some cap
     \<and> rp_known r \<and> rp_on_demand r = on_demand cap \<and> rp_enabled r = known_active cap
     \<and> rp_capacity r = (nonsecure_port cap, secure_port cap, timeout_seconds cap, max_sessions cap)
     \<and> rp_nonsecure r = probe_result connect host timeout (nonsecure_port cap)
     \<and> rp_secure r = probe_result connect host timeout (secure_port cap))"

definition os_errors_only :: "connect_fn \<Rightarrow> string \<Rightarrow> rat \<Rightarrow> bool" where
  "os_errors_only connect host timeout \<longleftrightarrow>
     (\<forall>p. connect (host, p) timeout \<in> {Inr (), Inl OSError, Inl FileNotFoundError, Inl IsADirectoryError})"

lemma reachable_entry_ok:
  assumes "os_errors_only connect host timeout"
  shows "reachable_entry connect host port timeout tried
    = (Inr (probe_result connect host timeout port), tried @ map (Pair host) (case port of None \<Rightarrow> [] | Some p \<Rightarrow> [p]))"
proof (cases port)
  case None
  then show ?thesis by (simp add: reachable_entry_def probe_result_def)
next
  case (Some p)
  have "connect (host, p) timeout \<in> {Inr (), Inl OSError, Inl FileNotFoundError, Inl IsADirectoryError}"
    using assms by (auto simp: os_errors_only_def)
  with Some show ?thesis by (auto simp: reachable_entry_def probe_port_def probe_result_def)
qed

lemma build_service_report_ok:
  assumes "os_errors_only connect host timeout"
    and "name \<in> set SERVICE_NAMES"
  obtains r where "build_service_report connect name host timeout tried = (Inr r, tried @ map (Pair host) (catalog_ports name))"
    and "faithful_report connect host timeout name r"
proof -
  obtain cap where cap: "map_of SERVICE_CATALOG name = Some cap"
    using assms(2) unfolding SERVICE_NAMES_def by (metis map_of_eq_None_iff list.set_map option.exhaust)
  let ?r = "\<lparr>rp_known = True, rp_on_demand = on_demand cap, rp_enabled = known_active cap,
    rp_capacity = (nonsecure_port cap, secure_port cap, timeout_seconds cap, max_sessions cap),
    rp_nonsecure = probe_result connect host timeout (nonsecure_port cap), rp_secure = probe_result connect host timeout (secure_port cap)\<rparr>"
  have "build_service_report connect name host timeout tried = (Inr ?r, tried @ map (Pair host) (catalog_ports name))"
    by (simp add: build_service_report_def cap reachable_entry_ok [OF assms(1)] catalog_ports_def opt_ports_def List.map_filter_simps
        split: option.split)
  moreover have "faithful_report connect host timeout name ?r" by (simp add: faithful_report_def cap)
  ultimately show ?thesis by (rule that)
qed

lemma redirection_loop_ok:
  assumes "os_errors_only connect host timeout"
    and "set names \<subseteq> set SERVICE_NAMES"
  shows "\<exists>d1. redirection_services_loop connect names host timeout d tried
      = (Inr d1, tried @ map (Pair host) (concat (map catalog_ports names)))
    \<and> (\<forall>k. map_of d1 k = map_of d k \<and> k \<notin> set names \<or> k \<in> set names \<and> (\<exists>r. map_of d1 k = Some r \<and> faithful_report connect host timeout k r))"
  using assms(2)
proof (induction names arbitrary: d tried)
  case (Cons name names)
  obtain r where r: "build_service_report connect name host timeout tried = (Inr r, tried @ map (Pair host) (catalog_ports name))"
      "faithful_report connect host timeout name r"
    using Cons.prems by (auto intro: build_service_report_ok [OF assms(1), of name])
  obtain d1 where d1: "redirection_services_loop connect names host timeout (AList.update name r d) (tried @ map (Pair host) (catalog_ports name))
      = (Inr d1, (tried @ map (Pair host) (catalog_ports name)) @ map (Pair host) (concat (map catalog_ports names)))"
      "\<And>k. map_of d1 k = map_of (AList.update name r d) k \<and> k \<notin> set names
         \<or> k \<in> set names \<and> (\<exists>r. map_of d1 k = Some r \<and> faithful_report connect host timeout k r)"
    using Cons.IH [of "AList.update name r d" "tried @ map (Pair host) (catalog_ports name)"] Cons.prems by auto
  have "map_of d1 k = map_of d k \<and> k \<notin> set (name # names)
      \<or> k \<in> set (name # names) \<and> (\<exists>r. map_of d1 k = Some r \<and> faithful_report connect host timeout k r)" for k
    using d1(2) [of k] r(2) by (cases "k = name") (auto simp: update_conv)
  with d1(1) r(1) show ?case by (intro exI [of _ d1]) simp
qed simp

section \<open>Properties\<close>

text \<open>The redirection module never acts. Asking it to change a service fails as unsupported before any port is tried.
  Otherwise, when a connection attempt can only fail with an \<open>OSError\<close>, it succeeds without a change, tries
  exactly the catalogued ports of the requested services, in order, and reports for each of them the
  catalog's capacity and, per port, whether the connection was made.\<close>

theorem redirection_reports:
  assumes "os_errors_only connect host timeout"
    and "set services \<subseteq> set SERVICE_NAMES"
  shows "(\<exists>err. redirection_main connect host services (Some st) timeout = (FailJson err, []) \<and> error_class err = UNSUPPORTED_CAPABILITY)
    \<and> (\<exists>report. redirection_main connect host services None timeout
         = (ExitJson False report, map (Pair host) (concat (map catalog_ports services)))
       \<and> dom (map_of report) = set services
       \<and> (\<forall>k \<in> set services. \<exists>r. map_of report k = Some r \<and> faithful_report connect host timeout k r))"
proof -
  obtain d1 where d1: "redirection_services_loop connect services host timeout [] []
      = (Inr d1, map (Pair host) (concat (map catalog_ports services)))"
      "\<And>k. map_of d1 k = None \<and> k \<notin> set services \<or> k \<in> set services \<and> (\<exists>r. map_of d1 k = Some r \<and> faithful_report connect host timeout k r)"
    using redirection_loop_ok [OF assms, where d = "[]" and tried = "[]"] by auto
  then have "dom (map_of d1) = set services" by (auto simp: dom_def) (metis option.distinct(1))
  with d1 show ?thesis by (auto simp: redirection_main_def build_redirection_report_def)
qed

theorem redirection_reports_witness:
  "\<exists>report. redirection_main (\<lambda>(h, p) t. if p = 22 then Inr () else Inl OSError) ''h'' [''ssh'', ''telnet''] None 2
       = (ExitJson False report, [(''h'', 22), (''h'', 23)])
     \<and> dom (map_of report) = {''ssh'', ''telnet''}"
proof -
  let ?connect = "\<lambda>(h :: string, p :: int) (t :: rat). if p = 22 then Inr () else Inl OSError"
  have "set [''ssh'', ''telnet''] \<subseteq> set SERVICE_NAMES" by (simp add: SERVICE_NAMES_def SERVICE_CATALOG_def)
  moreover have "os_errors_only ?connect ''h'' 2" by (simp add: os_errors_only_def)
  ultimately obtain report where "redirection_main ?connect ''h'' [''ssh'', ''telnet''] None 2
      = (ExitJson False report, map (Pair ''h'') (concat (map catalog_ports [''ssh'', ''telnet''])))" "dom (map_of report) = set [''ssh'', ''telnet'']"
    using redirection_reports [of ?connect "''h''" 2 "[''ssh'', ''telnet'']"] by blast
  moreover have "map (Pair ''h'') (concat (map catalog_ports [''ssh'', ''telnet''])) = [(''h'', 22), (''h'', 23)]" by code_simp
  ultimately show ?thesis by auto
qed

end
