(* ===== verification/Info_Module.thy ===== *)
theory Info_Module
  imports Ipmi_Client Report_Modules
begin

text \<open>
  The facts module, \<open>plugins/modules/asmb8_info.py\<close>: three IPMI readings, each of which may fail on its own, and on
  request a web session with the host status and the settings that decide whether media can be
  attached. The result carries the IPMI commands and the web requests of the run. The explanatory
  notes of the capability table are not modelled.
\<close>

definition HOST_STATUS_DIAGNOSTIC_LIMIT :: nat where
  "HOST_STATUS_DIAGNOSTIC_LIMIT = 2048"

definition MEDIA_SESSION_COUNT_OFFSET :: int where
  "MEDIA_SESSION_COUNT_OFFSET = 128"

definition MEDIA_SESSION_COUNT_SENTINEL :: int where
  "MEDIA_SESSION_COUNT_SENTINEL = 255"

section \<open>IPMI facts\<close>

type_synonym 'a ipmi_call = "ipmi_client \<Rightarrow> (exn + 'a) \<times> ipmi_client"

definition read_ipmi_field :: "'a ipmi_call \<Rightarrow> ('a option \<times> read_outcome) ipmi_call" where
  "read_ipmi_field getter c = (case getter c of
      (Inl (Ikvm err), c1) \<Rightarrow> (Inr (None, ReadFailed (Some (error_class err))), c1)
    | (Inl e, c1) \<Rightarrow> (Inl e, c1)
    | (Inr v, c1) \<Rightarrow> (Inr (Some v, ReadOk), c1))"

record ipmi_facts =
  if_power_state :: "pydict option \<times> read_outcome"
  if_boot_device :: "pydict option \<times> read_outcome"
  if_mc_info :: "string option option \<times> read_outcome"

definition gather_ipmi_facts :: "bmc \<Rightarrow> ipmi_facts ipmi_call" where
  "gather_ipmi_facts bmc c = (case read_ipmi_field (get_power_state bmc) c of
      (Inl e, c1) \<Rightarrow> (Inl e, c1)
    | (Inr pw, c1) \<Rightarrow> (case read_ipmi_field (get_boot_device bmc) c1 of
        (Inl e, c2) \<Rightarrow> (Inl e, c2)
      | (Inr boot, c2) \<Rightarrow> (case read_ipmi_field (get_mc_info bmc) c2 of
          (Inl e, c3) \<Rightarrow> (Inl e, c3)
        | (Inr mc, c3) \<Rightarrow> (Inr \<lparr>if_power_state = pw, if_boot_device = boot, if_mc_info = mc\<rparr>, c3))))"

section \<open>Web facts\<close>

definition web_host_status :: "web_env \<Rightarrow> string web_call" where
  "web_host_status env = get_host_status (we_server env)"

definition gather_web_management_facts :: "web_env \<Rightarrow> string web_call" where
  "gather_web_management_facts env = call_bind (web_host_status env) (\<lambda>raw.
     call_return (if length raw > HOST_STATUS_DIAGNOSTIC_LIMIT then take HOST_STATUS_DIAGNOSTIC_LIMIT raw else raw))"

definition decode_media_session_count :: "py_literal \<Rightarrow> exn + py_literal" where
  "decode_media_session_count raw =
     (if raw = LitNone then Inr LitNone
      else if raw = LitInt MEDIA_SESSION_COUNT_SENTINEL then Inr LitNone
      else case raw of
          LitInt i \<Rightarrow> Inr (LitInt (i - MEDIA_SESSION_COUNT_OFFSET))
        | LitBool b \<Rightarrow> Inr (LitInt (of_bool b - MEDIA_SESSION_COUNT_OFFSET))
        | _ \<Rightarrow> Inl TypeError)"

record remote_preconditions =
  rm_media_encryption_enabled :: bool
  rm_attach_raw :: py_literal

definition decode_remote_session_preconditions :: "webvar_record \<Rightarrow> remote_preconditions" where
  "decode_remote_session_preconditions r =
     \<lparr>rm_media_encryption_enabled = truthy (rec_get r ''MEDIAENCRYPTION''), rm_attach_raw = rec_get r ''VMEDIAATTACH''\<rparr>"

definition fetch_remote_session_preconditions :: "web_env \<Rightarrow> (remote_preconditions option \<times> read_outcome) web_call" where
  "fetch_remote_session_preconditions env = call_try
     (call_bind (web_get env ''getremotesession'' None) (\<lambda>response. call_return
        (case records response of [] \<Rightarrow> (None, ReadFailed None) | r # _ \<Rightarrow> (Some (decode_remote_session_preconditions r), ReadOk))))
     (\<lambda>err. (None, ReadFailed (Some (error_class err)))) (\<lambda>err. error_class err = PROTOCOL)"

record vmedia_preconditions =
  vm_secure_channel_enabled :: bool
  vm_license_status_raw :: py_literal
  vm_device_counts :: py_literal
  vm_sessions :: py_literal
  vm_status_raw :: py_literal

definition decode_vmediacfg_preconditions :: "webvar_record \<Rightarrow> exn + vmedia_preconditions" where
  "decode_vmediacfg_preconditions r =
     (case decode_media_session_count (rec_get r ''V_MAX_CD_SESSIONS'') of Inl e \<Rightarrow> Inl e
      | Inr max_n \<Rightarrow> (case decode_media_session_count (rec_get r ''V_ACTIVE_CD_SESSIONS'') of Inl e \<Rightarrow> Inl e
      | Inr current_n \<Rightarrow> Inr
          \<lparr>vm_secure_channel_enabled = truthy (rec_get r ''V_STR_SECURE_CHANNEL''),
           vm_license_status_raw = rec_get r ''V_MEDIA_LICENSE_STATUS'',
           vm_device_counts = obj [(''cd'', rec_get r ''V_NUM_CD''), (''fd'', rec_get r ''V_NUM_FD''), (''hd'', rec_get r ''V_NUM_HD'')],
           vm_sessions = obj [(''cd'', obj [(''max'', max_n), (''current'', current_n)])],
           vm_status_raw = rec_get r ''V_MEDIA_STATUS''\<rparr>))"

definition fetch_vmediacfg_preconditions :: "web_env \<Rightarrow> vmedia_preconditions web_call" where
  "fetch_vmediacfg_preconditions env = call_bind (web_records env ''getvmediacfg'') (\<lambda>rs. case rs of
      [] \<Rightarrow> call_raise (\<lambda>c. asp_error PROTOCOL ''get_webvar:getvmediacfg'' False c)
    | r # _ \<Rightarrow> call_lift (decode_vmediacfg_preconditions r))"

definition gather_media_preconditions :: "web_env \<Rightarrow> (py_literal \<times> read_outcome) web_call" where
  "gather_media_preconditions env =
     call_bind (fetch_remote_session_preconditions env) (\<lambda>(remote_fields, remote_session_read).
     call_bind (fetch_vmediacfg_preconditions env) (\<lambda>vm. call_return
       (obj [(''encryption'', obj
                [(''media_encryption_enabled'', case remote_fields of None \<Rightarrow> LitNone | Some r \<Rightarrow> LitBool (rm_media_encryption_enabled r)),
                 (''secure_channel_enabled'', LitBool (vm_secure_channel_enabled vm))]),
             (''licensing'', obj [(''license_status_raw'', vm_license_status_raw vm)]),
             (''attach'', obj [(''attach_raw'', case remote_fields of None \<Rightarrow> LitNone | Some r \<Rightarrow> rm_attach_raw r)]),
             (''device_counts'', vm_device_counts vm),
             (''sessions'', vm_sessions vm),
             (''status_raw'', vm_status_raw vm)],
        remote_session_read)))"

section \<open>The module\<close>

text \<open>What is supported, and what has been proven: \<open>None\<close> stands for unknown.\<close>

definition build_capabilities :: "bool \<Rightarrow> bool \<Rightarrow> (string \<times> bool option \<times> bool) list" where
  "build_capabilities web_management include_web_session =
     [(''ipmi_power'', Some True, True), (''ipmi_boot_device'', Some True, True), (''ipmi_mc_info'', Some True, True),
      (''web_management'', Some True, include_web_session \<and> web_management),
      (''virtual_media'', None, False), (''remote_console'', None, False), (''redfish'', Some False, True)]"

record info_report =
  in_ipmi :: ipmi_facts
  in_host_status :: "string option"
  in_media :: "(py_literal \<times> read_outcome) option"
  in_capabilities :: "(string \<times> bool option \<times> bool) list"

definition web_facts :: "web_env \<Rightarrow> bool \<Rightarrow> (string \<times> (py_literal \<times> read_outcome) option) web_call" where
  "web_facts env include_media =
     call_bind (web_login env) (\<lambda>_.
     call_bind (gather_web_management_facts env) (\<lambda>status.
     call_bind (if include_media then call_bind (gather_media_preconditions env) (\<lambda>m. call_return (Some m)) else call_return None) (\<lambda>media.
       call_return (status, media))))"

definition info_main ::
  "bmc \<Rightarrow> bool \<Rightarrow> web_env \<Rightarrow> conn_params \<Rightarrow> int \<Rightarrow> bool \<Rightarrow> bool \<Rightarrow> info_report module_outcome \<times> ipmi_cmd list \<times> http_request list" where
  "info_main bmc has_pyghmi env conn ipmi_port include_web include_media =
     (if \<not> has_pyghmi then (FailMsg, [], [])
      else if include_web \<and> \<not> we_has_requests env then (FailMsg, [], [])
      else if include_media \<and> \<not> include_web then (FailMsg, [], [])
      else case ipmi_connect bmc (cp_host conn) ipmi_port of
          (Some e, c) \<Rightarrow> (caught e, ic_log c, [])
        | (None, c) \<Rightarrow> (case gather_ipmi_facts bmc c of
            (Inl e, c1) \<Rightarrow> (caught e, ic_log c1, [])
          | (Inr facts, c1) \<Rightarrow>
              if \<not> include_web then
                (module_outcome.ExitJson False \<lparr>in_ipmi = facts, in_host_status = None, in_media = None,
                   in_capabilities = build_capabilities False False\<rparr>, ic_log c1, [])
              else (case build_asp_client env conn of
                  Inl e \<Rightarrow> (caught e, ic_log c1, [])
                | Inr a \<Rightarrow> (case web_facts env include_media a of
                    (Inl e, a1) \<Rightarrow> (caught e, ic_log c1, sent_requests (ac_log a1))
                  | (Inr (status, media), a1) \<Rightarrow>
                      (module_outcome.ExitJson False \<lparr>in_ipmi = facts, in_host_status = Some status, in_media = media,
                         in_capabilities = build_capabilities True True\<rparr>, ic_log c1, sent_requests (ac_log a1))))))"

section \<open>Facts\<close>

text \<open>One reading: absent and marked with the class the client gives a refusal, or what the BMC answered.\<close>

definition ipmi_reading :: "(ipmi_outcome \<Rightarrow> 'a) \<Rightarrow> ipmi_outcome \<Rightarrow> 'a option \<times> read_outcome" where
  "ipmi_reading f out = (case out of PyghmiException _ _ \<Rightarrow> (None, ReadFailed (Some REMOTE_OPERATION)) | _ \<Rightarrow> (Some (f out), ReadOk))"

fun as_text :: "ipmi_outcome \<Rightarrow> string option" where
  "as_text (GotStr s) = Some s"
| "as_text _ = None"

definition expected_facts :: "bmc \<Rightarrow> ipmi_cmd \<Rightarrow> ipmi_facts" where
  "expected_facts bmc conn_cmd =
     \<lparr>if_power_state = ipmi_reading as_dict (bmc [conn_cmd, GetPower]),
      if_boot_device = ipmi_reading as_dict (bmc [conn_cmd, GetPower, GetBootdev]),
      if_mc_info = ipmi_reading as_text (bmc [conn_cmd, GetPower, GetBootdev, GetMci])\<rparr>"

lemma read_ipmi_field_getters:
  "read_ipmi_field (get_power_state bmc) c = (Inr (ipmi_reading as_dict (bmc (ic_log c @ [GetPower]))), c\<lparr>ic_log := ic_log c @ [GetPower]\<rparr>)"
  "read_ipmi_field (get_boot_device bmc) c = (Inr (ipmi_reading as_dict (bmc (ic_log c @ [GetBootdev]))), c\<lparr>ic_log := ic_log c @ [GetBootdev]\<rparr>)"
  "read_ipmi_field (get_mc_info bmc) c = (Inr (ipmi_reading as_text (bmc (ic_log c @ [GetMci]))), c\<lparr>ic_log := ic_log c @ [GetMci]\<rparr>)"
  by (simp_all add: read_ipmi_field_def get_power_state_def get_boot_device_def get_mc_info_def issue_def Let_def ipmi_reading_def ipmi_error_def
      split: ipmi_outcome.split)

lemma gather_ipmi_facts_total:
  assumes "ic_log c = [conn_cmd]"
  shows "gather_ipmi_facts bmc c = (Inr (expected_facts bmc conn_cmd), c\<lparr>ic_log := [conn_cmd, GetPower, GetBootdev, GetMci]\<rparr>)"
  using assms by (simp add: gather_ipmi_facts_def read_ipmi_field_getters expected_facts_def)

lemma ipmi_connect_log: "ic_log (snd (ipmi_connect bmc host p)) = [Connect host p]"
  by (simp add: ipmi_connect_def issue_def Let_def split: ipmi_outcome.split)

lemma performs_host_status [performs_intros]: "GetHostStatus \<in> S \<Longrightarrow> performs env S (web_host_status env)"
  by (erule performs_one) (simp add: web_host_status_def)

lemma web_facts_performs: "performs env reading_calls (web_facts env include_media)"
  unfolding web_facts_def gather_web_management_facts_def gather_media_preconditions_def fetch_remote_session_preconditions_def
    fetch_vmediacfg_preconditions_def
  by (auto intro!: performs_intros split: prod.split list.split)

lemma web_facts_success:
  assumes "web_facts env include_media a = (Inr (status, media), a1)"
  shows "length status \<le> HOST_STATUS_DIAGNOSTIC_LIMIT \<and> (media \<noteq> None) = include_media"
  using assms unfolding web_facts_def gather_web_management_facts_def
  by (elim call_bind_Inr) (auto simp: call_return_def split: if_splits elim!: call_bind_Inr)

lemma web_facts_reads:
  assumes "we_has_requests env" and "build_asp_client env conn = Inr a" and "web_facts env include_media a = (r, a1)"
  shows "set (sent_requests (ac_log a1)) \<subseteq> Collect (read_request conn)"
proof -
  have "performs env reading_calls (call_bind (web_facts env include_media) (\<lambda>x. call_return (False, x)))"
    by (intro performs_intros web_facts_performs)
  from run_module_reads [OF this, of conn True] show ?thesis
    using assms by (cases r) (auto simp: run_module_def call_bind_def call_return_def)
qed

section \<open>Properties\<close>

text \<open>The facts module only looks. Over IPMI it opens one session and, when that succeeds, issues exactly the three
  reading commands; web requests are sent only when a web session was asked for, and are the login and
  bodiless GETs; media preconditions without a web session are refused before any contact. On success nothing
  is reported as changed, each IPMI fact is the device's answer or is absent with the class of the
  refusal, and the host status is cut to 2048 characters.\<close>

theorem info_only_looks:
  "case info_main bmc has_pyghmi env conn ipmi_port include_web include_media of (out, cmds, rqs) \<Rightarrow>
     cmds \<in> {[], [Connect (cp_host conn) ipmi_port], [Connect (cp_host conn) ipmi_port, GetPower, GetBootdev, GetMci]}
     \<and> set rqs \<subseteq> Collect (read_request conn) \<and> (include_web \<or> rqs = [])
     \<and> info_main bmc has_pyghmi env conn ipmi_port False True = (FailMsg, [], [])
     \<and> (case out of
          module_outcome.ExitJson changed r \<Rightarrow> \<not> changed \<and> length cmds = 4
            \<and> in_ipmi r = expected_facts bmc (Connect (cp_host conn) ipmi_port)
            \<and> (in_host_status r \<noteq> None) = include_web \<and> (in_media r \<noteq> None) = include_media
            \<and> (case in_host_status r of None \<Rightarrow> True | Some s \<Rightarrow> length s \<le> 2048)
        | _ \<Rightarrow> True)"
proof -
  let ?cmd = "Connect (cp_host conn) ipmi_port"
  have refuse: "info_main bmc has_pyghmi env conn ipmi_port False True = (FailMsg, [], [])" by (simp add: info_main_def)
  obtain e c where conn: "ipmi_connect bmc (cp_host conn) ipmi_port = (e, c)" by fastforce
  then have log: "ic_log c = [?cmd]" using ipmi_connect_log [of bmc "cp_host conn" ipmi_port] by simp
  note facts = gather_ipmi_facts_total [OF log, of bmc]
  show ?thesis
    unfolding refuse info_main_def conn
    by (auto simp: facts log caught_def HOST_STATUS_DIAGNOSTIC_LIMIT_def
        split: option.splits sum.splits prod.splits exn.splits module_outcome.splits
        dest: web_facts_success web_facts_reads)
qed

end
