(* ===== verification/Argument_Specs.thy ===== *)
theory Argument_Specs
  imports Ipmi_Client Media_Module Origin_Module Ntp_Module Console_Module Bootstrap_Image Postcode_Module Sensor_Modules
    Redirection_Module Info_Module
begin

text \<open>
  The argument specifications of the modules (\<open>argument_spec\<close>, \<open>_connection_argument_spec\<close> and the
  \<open>required_if\<close> and \<open>required_by\<close> arguments of \<open>AnsibleModule\<close> in \<open>plugins/modules/*.py\<close>) and the
  reading of the connection options from the checked parameters. \<open>AnsibleModule\<close> itself is not part of the
  repository: what it documents about the parameters it hands to a module is the predicate
  \<open>checked_params\<close>, a hypothesis of the theorems that need it.
\<close>

section \<open>Options\<close>

datatype arg_value = AStr string | AInt int | ABool bool | AFloat rat | AList "arg_value list"

datatype arg_type = TStr | TInt | TBool | TPath | TFloat | TList arg_type

record option_spec =
  os_type :: arg_type
  os_required :: bool
  os_default :: "arg_value option"
  os_choices :: "string list option"
  os_no_log :: bool

type_synonym argument_spec = "(string \<times> option_spec) list"

text \<open>The shapes of the option dictionaries: a bare type, and what is added to it.\<close>

definition opt_of :: "arg_type \<Rightarrow> option_spec" where
  "opt_of t = \<lparr>os_type = t, os_required = False, os_default = None, os_choices = None, os_no_log = False\<rparr>"

definition req_of :: "arg_type \<Rightarrow> option_spec" where
  "req_of t = (opt_of t)\<lparr>os_required := True\<rparr>"

definition def_of :: "arg_type \<Rightarrow> arg_value \<Rightarrow> option_spec" where
  "def_of t v = (opt_of t)\<lparr>os_default := Some v\<rparr>"

definition one_of :: "string list \<Rightarrow> option_spec \<Rightarrow> option_spec" where
  "one_of cs s = s\<lparr>os_choices := Some cs\<rparr>"

definition unlogged :: "option_spec \<Rightarrow> option_spec" where
  "unlogged s = s\<lparr>os_no_log := True\<rparr>"

definition strs :: "string list \<Rightarrow> arg_value" where
  "strs xs = AList (map AStr xs)"

text \<open>\<open>spec.update({...})\<close> and \<open>spec[k] = v\<close>: a present key keeps its place.\<close>

fun spec_set :: "string \<Rightarrow> option_spec \<Rightarrow> argument_spec \<Rightarrow> argument_spec" where
  "spec_set k v [] = [(k, v)]"
| "spec_set k v ((k', v') # s) = (if k = k' then (k, v) # s else (k', v') # spec_set k v s)"

definition spec_update :: "argument_spec \<Rightarrow> argument_spec \<Rightarrow> argument_spec" where
  "spec_update spec extra = fold (\<lambda>(k, v). spec_set k v) extra spec"

section \<open>The specifications\<close>

definition connection_argument_spec :: argument_spec where
  "connection_argument_spec =
     [(''host'', req_of TStr),
      (''port'', def_of TInt (AInt 443)),
      (''username'', def_of TStr (AStr ''admin'')),
      (''password'', unlogged (req_of TStr)),
      (''use_tls'', def_of TBool (ABool True)),
      (''allow_insecure_transport'', def_of TBool (ABool False)),
      (''validate_certs'', def_of TBool (ABool True)),
      (''ca_path'', opt_of TPath),
      (''tls_fingerprint'', opt_of TStr),
      (''timeout'', def_of TInt (AInt 30)),
      (''connect_timeout'', def_of TInt (AInt 10))]"

definition DEFAULT_IPMI_PORT :: int where
  "DEFAULT_IPMI_PORT = 623"

definition ipmi_connection_argument_spec :: argument_spec where
  "ipmi_connection_argument_spec = spec_update connection_argument_spec [(''ipmi_port'', def_of TInt (AInt DEFAULT_IPMI_PORT))]"

definition RESET_MODES :: "string list" where
  "RESET_MODES = [''cold'', ''warm'']"

definition IDENTIFY_STATES :: "string list" where
  "IDENTIFY_STATES = [''on'', ''off'']"

definition boot_argument_spec :: argument_spec where
  "boot_argument_spec = spec_update ipmi_connection_argument_spec
     [(''device'', one_of BOOT_DEVICES (req_of TStr)), (''uefi'', def_of TBool (ABool False)),
      (''persistent'', def_of TBool (ABool False))]"

definition power_argument_spec :: argument_spec where
  "power_argument_spec = spec_update ipmi_connection_argument_spec
     [(''state'', one_of POWER_STATES (req_of TStr)), (''wait_timeout'', def_of TInt (AInt 60))]"

definition reset_argument_spec :: argument_spec where
  "reset_argument_spec = spec_update ipmi_connection_argument_spec [(''mode'', one_of RESET_MODES (req_of TStr))]"

definition identify_argument_spec :: argument_spec where
  "identify_argument_spec = spec_update ipmi_connection_argument_spec
     [(''state'', one_of IDENTIFY_STATES (req_of TStr)), (''duration'', opt_of TInt)]"

definition info_argument_spec :: argument_spec where
  "info_argument_spec = spec_update ipmi_connection_argument_spec
     [(''include_web_session'', def_of TBool (ABool False)), (''include_media_preconditions'', def_of TBool (ABool False))]"

definition alerts_argument_spec :: argument_spec where
  "alerts_argument_spec = connection_argument_spec"

definition auditlog_argument_spec :: argument_spec where
  "auditlog_argument_spec = connection_argument_spec"

definition network_argument_spec :: argument_spec where
  "network_argument_spec = connection_argument_spec"

definition users_argument_spec :: argument_spec where
  "users_argument_spec = connection_argument_spec"

definition ntp_argument_spec :: argument_spec where
  "ntp_argument_spec = spec_update connection_argument_spec
     [(''server1'', opt_of TStr), (''server2'', opt_of TStr), (''enabled'', opt_of TBool)]"

definition sel_argument_spec :: argument_spec where
  "sel_argument_spec = spec_update connection_argument_spec [(''limit'', opt_of TInt), (''after_event_id'', opt_of TInt)]"

definition sessions_argument_spec :: argument_spec where
  "sessions_argument_spec = spec_update connection_argument_spec [(''active_session_services'', opt_of (TList TStr))]"

definition sensors_argument_spec :: argument_spec where
  "sensors_argument_spec = spec_update connection_argument_spec
     [(''sensor_names'', opt_of (TList TStr)), (''sensor_types'', opt_of (TList TInt))]"

definition postcode_argument_spec :: argument_spec where
  "postcode_argument_spec = spec_update connection_argument_spec
     [(''sample'', def_of TBool (ABool False)), (''poll_interval_seconds'', def_of TInt (AInt 5)),
      (''max_duration_seconds'', def_of TInt (AInt 60))]"

definition inventory_argument_spec :: argument_spec where
  "inventory_argument_spec = (let all_sections = map section_name ALL_SECTIONS in spec_update connection_argument_spec
     [(''sections'', one_of all_sections (def_of (TList TStr) (strs all_sections)))])"

definition redirection_argument_spec :: argument_spec where
  "redirection_argument_spec = spec_update connection_argument_spec
     [(''services'', one_of SERVICE_NAMES (def_of (TList TStr) (strs SERVICE_NAMES))),
      (''service'', one_of SERVICE_NAMES (opt_of TStr)),
      (''state'', one_of [''enabled'', ''disabled''] (opt_of TStr)),
      (''probe_timeout'', def_of TFloat (AFloat 2))]"

fun capture_name :: "capture_mode \<Rightarrow> string" where
  "capture_name CAPTURE_HANDSHAKE_ONLY = ''handshake_only''"
| "capture_name CAPTURE_RAW_FRAME = ''raw_frame''"
| "capture_name CAPTURE_DECODED_FRAME = ''decoded_frame''"

definition console_argument_spec :: argument_spec where
  "console_argument_spec = spec_update connection_argument_spec
     [(''kvm_port'', def_of TInt (AInt 7578)), (''kvm_secure'', opt_of TBool), (''token'', unlogged (opt_of TStr)),
      (''client_username'', opt_of TStr), (''send_get_web_token'', def_of TBool (ABool True)),
      (''capture'', one_of (map capture_name [CAPTURE_HANDSHAKE_ONLY, CAPTURE_RAW_FRAME, CAPTURE_DECODED_FRAME])
         (def_of TStr (AStr (capture_name CAPTURE_HANDSHAKE_ONLY)))),
      (''output_path'', opt_of TPath), (''handshake_timeout'', def_of TInt (AInt 15)),
      (''frame_timeout'', def_of TInt (AInt 20))]"

definition media_argument_spec :: argument_spec where
  "media_argument_spec = spec_update connection_argument_spec
     [(''state'', one_of [''attached'', ''detached''] (req_of TStr)), (''image'', opt_of TPath),
      (''session_id'', opt_of TStr), (''runtime_dir'', def_of TPath (AStr ''~/.ansible/asmb8_ikvm/media-sessions'')),
      (''cd_port'', def_of TInt (AInt 5120)), (''instance'', def_of TInt (AInt 0)),
      (''attach_timeout'', def_of TInt (AInt 10)), (''detach_timeout'', def_of TInt (AInt 15))]"

definition origin_argument_spec :: argument_spec where
  "origin_argument_spec =
     [(''state'', one_of [''started'', ''stopped''] (req_of TStr)), (''path'', opt_of TPath), (''session_id'', opt_of TStr),
      (''runtime_dir'', def_of TPath (AStr ''~/.ansible/asmb8_ikvm/http-origins'')),
      (''bind_address'', def_of TStr (AStr DEFAULT_BIND_ADDRESS)), (''port'', def_of TInt (AInt (int DEFAULT_PORT))),
      (''lifetime_seconds'', def_of TInt (AInt (int DEFAULT_LIFETIME_SECONDS))),
      (''start_timeout'', def_of TInt (AInt 10)), (''stop_timeout'', def_of TInt (AInt 15))]"

fun network_mode_name :: "network_mode \<Rightarrow> string" where
  "network_mode_name NETWORK_MODE_STATIC = ''static''"
| "network_mode_name NETWORK_MODE_DHCP = ''dhcp''"

definition bootstrap_argument_spec :: argument_spec where
  "bootstrap_argument_spec =
     [(''origin_url'', req_of TStr), (''ipxe_lkrn_path'', req_of TPath), (''output_path'', req_of TPath),
      (''network_mode'', one_of (map network_mode_name [NETWORK_MODE_STATIC, NETWORK_MODE_DHCP])
         (def_of TStr (AStr (network_mode_name NETWORK_MODE_STATIC)))),
      (''address'', opt_of TStr), (''netmask'', opt_of TStr), (''gateway'', opt_of TStr), (''dns'', opt_of TStr),
      (''size_budget_bytes'', def_of TInt (AInt DEFAULT_SIZE_BUDGET_BYTES)),
      (''grub_mkrescue_path'', opt_of TPath), (''xorriso_path'', opt_of TPath), (''work_dir'', opt_of TPath)]"

definition module_specs :: "(string \<times> argument_spec) list" where
  "module_specs =
     [(''asmb8_boot'', boot_argument_spec), (''asmb8_power'', power_argument_spec), (''asmb8_reset'', reset_argument_spec),
      (''asmb8_identify'', identify_argument_spec), (''asmb8_info'', info_argument_spec),
      (''asmb8_alerts'', alerts_argument_spec), (''asmb8_auditlog'', auditlog_argument_spec),
      (''asmb8_network'', network_argument_spec), (''asmb8_users'', users_argument_spec), (''asmb8_ntp'', ntp_argument_spec),
      (''asmb8_sel'', sel_argument_spec), (''asmb8_sessions'', sessions_argument_spec),
      (''asmb8_sensors'', sensors_argument_spec), (''asmb8_postcode'', postcode_argument_spec),
      (''asmb8_inventory'', inventory_argument_spec), (''asmb8_redirection'', redirection_argument_spec),
      (''asmb8_console'', console_argument_spec), (''asmb8_media'', media_argument_spec),
      (''asmb8_http_origin'', origin_argument_spec), (''asmb8_bootstrap_image'', bootstrap_argument_spec)]"

text \<open>The \<open>required_if\<close> and \<open>required_by\<close> arguments of \<open>AnsibleModule\<close>: an option, the value that
  triggers the rule (any value for \<open>required_by\<close>), and the options it then requires.\<close>

type_synonym requirement = "string \<times> string option \<times> string list"

definition console_requirements :: "requirement list" where
  "console_requirements = [(''capture'', Some (capture_name CAPTURE_RAW_FRAME), [''output_path'']), (''token'', None, [''kvm_secure''])]"

definition media_requirements :: "requirement list" where
  "media_requirements = [(''state'', Some ''detached'', [''session_id'']), (''state'', Some ''attached'', [''image''])]"

definition origin_requirements :: "requirement list" where
  "origin_requirements = [(''state'', Some ''stopped'', [''session_id'']), (''state'', Some ''started'', [''path''])]"

definition bootstrap_requirements :: "requirement list" where
  "bootstrap_requirements = [(''network_mode'', Some (network_mode_name NETWORK_MODE_STATIC), [''address'', ''netmask'', ''gateway''])]"

definition redirection_requirements :: "requirement list" where
  "redirection_requirements = [(''state'', None, [''service''])]"

definition module_requirements :: "(argument_spec \<times> requirement list) list" where
  "module_requirements =
     [(console_argument_spec, console_requirements), (media_argument_spec, media_requirements),
      (origin_argument_spec, origin_requirements), (bootstrap_argument_spec, bootstrap_requirements),
      (redirection_argument_spec, redirection_requirements)]"

section \<open>Reading the checked parameters\<close>

type_synonym params = "string \<Rightarrow> arg_value option"

fun arg_str :: "arg_value option \<Rightarrow> string option" where
  "arg_str (Some (AStr s)) = Some s"
| "arg_str _ = None"

fun arg_int :: "arg_value option \<Rightarrow> int option" where
  "arg_int (Some (AInt i)) = Some i"
| "arg_int _ = None"

fun arg_bool :: "arg_value option \<Rightarrow> bool option" where
  "arg_bool (Some (ABool b)) = Some b"
| "arg_bool _ = None"

text \<open>The reads of \<open>build_asp_client\<close>; \<open>None\<close> when a parameter is missing or not of its type. The two
  optional strings may be \<open>None\<close> themselves.\<close>

definition conn_params_of :: "params \<Rightarrow> conn_params option" where
  "conn_params_of p = (case (arg_str (p ''host''), arg_int (p ''port''), arg_str (p ''username''), arg_str (p ''password'')) of
      (Some host, Some port, Some username, Some password) \<Rightarrow>
        (case (arg_bool (p ''use_tls''), arg_bool (p ''allow_insecure_transport''), arg_bool (p ''validate_certs'')) of
          (Some use_tls, Some allow_insecure, Some validate) \<Rightarrow>
            (case (arg_int (p ''timeout''), arg_int (p ''connect_timeout'')) of
              (Some timeout, Some connect_timeout) \<Rightarrow>
                Some \<lparr>cp_host = host, cp_port = port, cp_username = username, cp_password = password, cp_use_tls = use_tls,
                  cp_allow_insecure_transport = allow_insecure, cp_validate_certs = validate, cp_ca_path = arg_str (p ''ca_path''),
                  cp_tls_fingerprint = arg_str (p ''tls_fingerprint''), cp_timeout = timeout,
                  cp_connect_timeout = connect_timeout\<rparr>
            | _ \<Rightarrow> None)
        | _ \<Rightarrow> None)
    | _ \<Rightarrow> None)"

fun network_mode_of :: "string option \<Rightarrow> network_mode option" where
  "network_mode_of (Some s) = (if s = network_mode_name NETWORK_MODE_STATIC then Some NETWORK_MODE_STATIC
     else if s = network_mode_name NETWORK_MODE_DHCP then Some NETWORK_MODE_DHCP else None)"
| "network_mode_of None = None"

definition build_network_config :: "params \<Rightarrow> network_config option" where
  "build_network_config p = map_option (\<lambda>mode. \<lparr>nc_mode = mode, nc_address = arg_str (p ''address''),
     nc_netmask = arg_str (p ''netmask''), nc_gateway = arg_str (p ''gateway''), nc_dns = arg_str (p ''dns'')\<rparr>)
     (network_mode_of (arg_str (p ''network_mode'')))"

section \<open>What a well-formed specification is\<close>

fun has_type :: "arg_value \<Rightarrow> arg_type \<Rightarrow> bool" where
  "has_type (AStr _) t = (t = TStr \<or> t = TPath)"
| "has_type (AInt _) t = (t = TInt)"
| "has_type (ABool _) t = (t = TBool)"
| "has_type (AFloat _) t = (t = TFloat)"
| "has_type (AList vs) t = (case t of TList e \<Rightarrow> list_all (\<lambda>v. has_type v e) vs | _ \<Rightarrow> False)"

fun chosen_from :: "string list \<Rightarrow> arg_value \<Rightarrow> bool" where
  "chosen_from cs (AStr s) = (s \<in> set cs)"
| "chosen_from cs (AList vs) = list_all (\<lambda>v. case v of AStr s \<Rightarrow> s \<in> set cs | _ \<Rightarrow> False) vs"
| "chosen_from cs _ = False"

definition value_ok :: "option_spec \<Rightarrow> arg_value \<Rightarrow> bool" where
  "value_ok s v \<longleftrightarrow> has_type v (os_type s) \<and> (case os_choices s of None \<Rightarrow> True | Some cs \<Rightarrow> chosen_from cs v)"

definition option_ok :: "option_spec \<Rightarrow> bool" where
  "option_ok s \<longleftrightarrow> (case os_default s of None \<Rightarrow> True | Some v \<Rightarrow> \<not> os_required s \<and> value_ok s v)
     \<and> (case os_choices s of None \<Rightarrow> True | Some cs \<Rightarrow> cs \<noteq> [] \<and> distinct cs \<and> os_type s \<in> {TStr, TList TStr})"

definition spec_ok :: "argument_spec \<Rightarrow> bool" where
  "spec_ok spec \<longleftrightarrow> distinct (map fst spec) \<and> list_all (\<lambda>(n, s). option_ok s) spec"

definition requirement_ok :: "argument_spec \<Rightarrow> requirement \<Rightarrow> bool" where
  "requirement_ok spec r = (case r of (n, trig, needed) \<Rightarrow>
     (case map_of spec n of None \<Rightarrow> False
      | Some s \<Rightarrow> (case trig of None \<Rightarrow> True | Some v \<Rightarrow> value_ok s (AStr v) \<and> os_choices s \<noteq> None))
     \<and> list_all (\<lambda>m. case map_of spec m of None \<Rightarrow> False | Some s \<Rightarrow> \<not> os_required s \<and> os_default s = None) needed)"

text \<open>What \<open>AnsibleModule\<close> documents of the parameters it hands over: an option that was not given has its
  default and was not required, a given one has a value of its type among its choices.\<close>

definition checked_params :: "argument_spec \<Rightarrow> string list \<Rightarrow> params \<Rightarrow> bool" where
  "checked_params spec supplied p \<longleftrightarrow> list_all (\<lambda>(n, s).
     if n \<in> set supplied then (case p n of None \<Rightarrow> False | Some v \<Rightarrow> value_ok s v)
     else \<not> os_required s \<and> p n = os_default s) spec"

text \<open>Likewise for the rules: where the triggering option has the value (or is given at all), the required ones are given.\<close>

definition requirements_met :: "requirement list \<Rightarrow> string list \<Rightarrow> params \<Rightarrow> bool" where
  "requirements_met rules supplied p \<longleftrightarrow> list_all (\<lambda>(n, trig, needed).
     (case trig of None \<Rightarrow> n \<in> set supplied | Some v \<Rightarrow> p n = Some (AStr v)) \<longrightarrow> set needed \<subseteq> set supplied) rules"

section \<open>Properties\<close>

text \<open>The twenty argument specifications are well formed: no option is declared twice, a default belongs to an
  option that is not required, has the declared type and lies among the choices, choices are distinct
  strings, and every \<open>required_if\<close> and \<open>required_by\<close> rule is triggered by a possible value of a declared
  option and demands declared options that can be absent.\<close>

lemma argument_specs_wellformed:
  "list_all (\<lambda>(m, spec). spec_ok spec) module_specs
   \<and> list_all (\<lambda>(spec, rs). list_all (requirement_ok spec) rs) module_requirements"
  by code_simp

text \<open>Every specification that names a host repeats the connection options unchanged.\<close>

lemma specs_extend_connection:
  "list_all (\<lambda>(m, spec). m \<in> {''asmb8_http_origin'', ''asmb8_bootstrap_image''}
     \<or> list_all (\<lambda>(n, s). map_of spec n = Some s) connection_argument_spec) module_specs"
  by code_simp

lemma connection_option:
  assumes "(m, spec) \<in> set module_specs" and "m \<notin> {''asmb8_http_origin'', ''asmb8_bootstrap_image''}"
    and "(n, s) \<in> set connection_argument_spec"
  shows "map_of spec n = Some s"
  using specs_extend_connection assms by (fastforce simp: list_all_iff)

lemma checked_value:
  assumes "checked_params spec supplied p" and "map_of spec n = Some s"
  shows "if n \<in> set supplied then \<exists>v. p n = Some v \<and> value_ok s v else \<not> os_required s \<and> p n = os_default s"
  using assms(1) map_of_SomeD [OF assms(2)] by (fastforce simp: checked_params_def list_all_iff split: if_splits option.splits)

lemma has_type_cases:
  "has_type v TStr \<longleftrightarrow> (\<exists>s. v = AStr s)" "has_type v TPath \<longleftrightarrow> (\<exists>s. v = AStr s)"
  "has_type v TInt \<longleftrightarrow> (\<exists>i. v = AInt i)" "has_type v TBool \<longleftrightarrow> (\<exists>b. v = ABool b)"
  by (cases v; simp)+

lemma checked_required:
  assumes "checked_params spec supplied p" and "map_of spec n = Some s" and "os_required s"
  shows "\<exists>v. p n = Some v \<and> value_ok s v"
  using checked_value [OF assms(1,2)] assms(3) by (auto split: if_splits)

lemma checked_default:
  assumes "checked_params spec supplied p" and "map_of spec n = Some s" and "os_default s = Some d" and "value_ok s d"
  shows "\<exists>v. p n = Some v \<and> value_ok s v \<and> (n \<notin> set supplied \<longrightarrow> v = d)"
  using checked_value [OF assms(1,2)] assms(3,4) by (auto split: if_splits)

lemma checked_optional:
  assumes "checked_params spec supplied p" and "map_of spec n = Some s" and "os_default s = None" and "n \<notin> set supplied"
  shows "p n = None"
  using checked_value [OF assms(1,2)] assms(3,4) by simp

text \<open>The connection options as a module that contacts the BMC finds them.\<close>

lemma checked_connection:
  assumes spec: "(m, spec) \<in> set module_specs" "m \<notin> {''asmb8_http_origin'', ''asmb8_bootstrap_image''}"
    and checked: "checked_params spec supplied p"
  obtains cp where "conn_params_of p = Some cp"
    and "''use_tls'' \<notin> set supplied \<longrightarrow> cp_use_tls cp"
    and "''allow_insecure_transport'' \<notin> set supplied \<longrightarrow> \<not> cp_allow_insecure_transport cp"
    and "''validate_certs'' \<notin> set supplied \<longrightarrow> cp_validate_certs cp"
    and "''tls_fingerprint'' \<notin> set supplied \<longrightarrow> cp_tls_fingerprint cp = None"
proof -
  note opt = connection_option [OF spec]
  have str: "\<exists>t. p n = Some (AStr t)"
    if "(n, s) \<in> set connection_argument_spec" and "os_required s" and "os_type s = TStr" for n s
    using checked_required [OF checked opt [OF that(1)] that(2)] that(3) by (auto simp: value_ok_def has_type_cases)
  have dflt: "\<exists>v. p n = Some v \<and> has_type v t \<and> (n \<notin> set supplied \<longrightarrow> v = d)"
    if "(n, def_of t d) \<in> set connection_argument_spec" and "has_type d t" for n t d
    using checked_default [OF checked opt [OF that(1)], of d] that(2)
    by (auto simp: def_of_def opt_of_def value_ok_def)
  have "p ''tls_fingerprint'' = None" if "''tls_fingerprint'' \<notin> set supplied"
    using checked_optional [OF checked opt, of "''tls_fingerprint''" "opt_of TStr"] that
    by (simp add: connection_argument_spec_def opt_of_def)
  moreover obtain h pw where "p ''host'' = Some (AStr h)" "p ''password'' = Some (AStr pw)"
    using str [of "''host''" "req_of TStr"] str [of "''password''" "unlogged (req_of TStr)"]
    by (auto simp: connection_argument_spec_def req_of_def opt_of_def unlogged_def)
  moreover obtain po us ti ct where "p ''port'' = Some (AInt po)" "p ''username'' = Some (AStr us)"
      "p ''timeout'' = Some (AInt ti)" "p ''connect_timeout'' = Some (AInt ct)"
    using dflt [of "''port''" TInt "AInt 443"] dflt [of "''username''" TStr "AStr ''admin''"]
      dflt [of "''timeout''" TInt "AInt 30"] dflt [of "''connect_timeout''" TInt "AInt 10"]
    by (auto simp: connection_argument_spec_def has_type_cases)
  moreover obtain ut ai vc where "p ''use_tls'' = Some (ABool ut)" "''use_tls'' \<notin> set supplied \<Longrightarrow> ut"
      "p ''allow_insecure_transport'' = Some (ABool ai)" "''allow_insecure_transport'' \<notin> set supplied \<Longrightarrow> \<not> ai"
      "p ''validate_certs'' = Some (ABool vc)" "''validate_certs'' \<notin> set supplied \<Longrightarrow> vc"
    using dflt [of "''use_tls''" TBool "ABool True"] dflt [of "''allow_insecure_transport''" TBool "ABool False"]
      dflt [of "''validate_certs''" TBool "ABool True"]
    by (auto simp: connection_argument_spec_def has_type_cases)
  ultimately show thesis by (auto intro: that simp: conn_params_of_def)
qed

lemma built_client_trust:
  assumes "build_asp_client env cp = Inr c"
  shows "case ac_pool c of
      None \<Rightarrow> \<not> cp_use_tls cp \<and> cp_allow_insecure_transport cp
    | Some pool \<Rightarrow> cp_use_tls cp \<and> minimum_version (po_ssl_context pool) = TLSv1_2
        \<and> (cp_validate_certs cp \<and> cp_tls_fingerprint cp = None \<longrightarrow>
             verify_mode (po_ssl_context pool) = CERT_REQUIRED \<and> check_hostname (po_ssl_context pool))"
  using assms
  by (auto simp: build_asp_client_def asp_client_init_def enforce_transport_policy_def policy_create_def given_def
      init_poolmanager_def build_ssl_context_def pinned_def Let_def split: if_splits sum.splits option.splits)

text \<open>The options that carry a secret, in every module.\<close>

definition secret_options :: "string list" where
  "secret_options = [''password'', ''token'']"

lemma secret_options_unlogged:
  "list_all (\<lambda>(m, spec). list_all (\<lambda>n. case map_of spec n of None \<Rightarrow> True | Some s \<Rightarrow> os_no_log s \<and> os_default s = None)
     secret_options) module_specs"
  by code_simp

text \<open>C10. The options are safe as they come: a module that contacts the BMC, run with parameters that \<open>AnsibleModule\<close>
  has checked against its specification, finds every connection option present and of its type; the client
  built from them speaks plaintext only when the playbook itself set both \<open>use_tls\<close> and
  \<open>allow_insecure_transport\<close>, otherwise TLS 1.2 or later, and it verifies chain and host name unless the playbook
  set \<open>validate_certs\<close> or a fingerprint; the password and the console token have no default and are
  marked \<open>no_log\<close>.\<close>

theorem connection_secure_by_default:
  assumes "(m, spec) \<in> set module_specs" and "m \<notin> {''asmb8_http_origin'', ''asmb8_bootstrap_image''}"
    and "checked_params spec supplied p"
  shows "\<exists>cp. conn_params_of p = Some cp
    \<and> (case build_asp_client env cp of Inl e \<Rightarrow> True
       | Inr c \<Rightarrow> (case ac_pool c of
            None \<Rightarrow> {''use_tls'', ''allow_insecure_transport''} \<subseteq> set supplied
          | Some pool \<Rightarrow> minimum_version (po_ssl_context pool) = TLSv1_2
              \<and> (set supplied \<inter> {''validate_certs'', ''tls_fingerprint''} = {} \<longrightarrow>
                   verify_mode (po_ssl_context pool) = CERT_REQUIRED \<and> check_hostname (po_ssl_context pool))))
    \<and> list_all (\<lambda>n. case map_of spec n of None \<Rightarrow> True | Some s \<Rightarrow> os_no_log s \<and> os_default s = None) secret_options"
proof -
  obtain cp where cp: "conn_params_of p = Some cp" "''use_tls'' \<notin> set supplied \<longrightarrow> cp_use_tls cp"
      "''allow_insecure_transport'' \<notin> set supplied \<longrightarrow> \<not> cp_allow_insecure_transport cp"
      "''validate_certs'' \<notin> set supplied \<longrightarrow> cp_validate_certs cp"
      "''tls_fingerprint'' \<notin> set supplied \<longrightarrow> cp_tls_fingerprint cp = None"
    using checked_connection [OF assms] by blast
  have "list_all (\<lambda>n. case map_of spec n of None \<Rightarrow> True | Some s \<Rightarrow> os_no_log s \<and> os_default s = None) secret_options"
    using secret_options_unlogged assms(1) by (auto simp: list_all_iff [of _ module_specs])
  with cp show ?thesis
    by (auto split: sum.splits option.splits dest!: built_client_trust intro!: exI [of _ cp])
qed

definition sample_given :: params where
  "sample_given = (\<lambda>n. if n = ''host'' then Some (AStr ''bmc'') else if n = ''password'' then Some (AStr ''pw'')
     else Option.bind (map_of sel_argument_spec n) os_default)"

theorem connection_secure_by_default_witness:
  "checked_params sel_argument_spec [''host'', ''password''] sample_given
   \<and> (case build_asp_client (Web_Call.sample_env []) (the (conn_params_of sample_given)) of Inl e \<Rightarrow> False
       | Inr c \<Rightarrow> verify_mode (po_ssl_context (the (ac_pool c))) = CERT_REQUIRED)"
proof -
  have ok: "checked_params sel_argument_spec [''host'', ''password''] sample_given" by code_simp
  have mem: "(''asmb8_sel'', sel_argument_spec) \<in> set module_specs" by (simp add: module_specs_def)
  have pool: "case build_asp_client (Web_Call.sample_env []) (the (conn_params_of sample_given)) of Inl e \<Rightarrow> False
      | Inr c \<Rightarrow> ac_pool c \<noteq> None" by code_simp
  obtain cp where "conn_params_of sample_given = Some cp"
    and "case build_asp_client (Web_Call.sample_env []) cp of Inl e \<Rightarrow> True
       | Inr c \<Rightarrow> (case ac_pool c of None \<Rightarrow> False | Some pool \<Rightarrow> verify_mode (po_ssl_context pool) = CERT_REQUIRED)"
    using connection_secure_by_default [OF mem _ ok, of "Web_Call.sample_env []"]
    by (fastforce split: sum.splits option.splits)
  with ok pool show ?thesis by (auto split: sum.splits option.splits)
qed

section \<open>What the modules may assume of their own options\<close>

lemma value_ok_choice:
  assumes "value_ok s v" and "os_type s = TStr" and "os_choices s = Some cs"
  shows "\<exists>t \<in> set cs. v = AStr t"
  using assms by (auto simp: value_ok_def has_type_cases)

lemma value_ok_choices:
  assumes "value_ok s v" and "os_type s = TList TStr" and "os_choices s = Some cs"
  shows "\<exists>ts. v = strs ts \<and> set ts \<subseteq> set cs"
proof -
  obtain vs where "v = AList vs" and all: "list_all (\<lambda>v. case v of AStr t \<Rightarrow> t \<in> set cs | _ \<Rightarrow> False) vs"
    using assms by (cases v) (auto simp: value_ok_def)
  moreover from all have "vs = map AStr (map (\<lambda>v. case v of AStr t \<Rightarrow> t | _ \<Rightarrow> []) vs)"
    by (induction vs) (auto split: arg_value.splits)
  moreover from all have "set (map (\<lambda>v. case v of AStr t \<Rightarrow> t | _ \<Rightarrow> []) vs) \<subseteq> set cs"
    by (auto simp: list_all_iff split: arg_value.splits)
  ultimately show ?thesis unfolding strs_def by metis
qed

lemma option_specs:
  "map_of redirection_argument_spec ''services'' = Some (one_of SERVICE_NAMES (def_of (TList TStr) (strs SERVICE_NAMES)))"
  "map_of inventory_argument_spec ''sections'' =
     Some (one_of (map section_name ALL_SECTIONS) (def_of (TList TStr) (strs (map section_name ALL_SECTIONS))))"
  "map_of console_argument_spec ''capture'' =
     Some (one_of (map capture_name [CAPTURE_HANDSHAKE_ONLY, CAPTURE_RAW_FRAME, CAPTURE_DECODED_FRAME])
       (def_of TStr (AStr (capture_name CAPTURE_HANDSHAKE_ONLY))))"
  "map_of power_argument_spec ''state'' = Some (one_of POWER_STATES (req_of TStr))"
  "map_of postcode_argument_spec ''poll_interval_seconds'' = Some (def_of TInt (AInt 5))"
  "map_of postcode_argument_spec ''max_duration_seconds'' = Some (def_of TInt (AInt 60))"
  by code_simp+

lemma default_choices_ok:
  "value_ok (one_of SERVICE_NAMES (def_of (TList TStr) (strs SERVICE_NAMES))) (strs SERVICE_NAMES)"
  "value_ok (one_of (map section_name ALL_SECTIONS) (def_of (TList TStr) (strs (map section_name ALL_SECTIONS))))
     (strs (map section_name ALL_SECTIONS))"
  "value_ok (one_of (map capture_name [CAPTURE_HANDSHAKE_ONLY, CAPTURE_RAW_FRAME, CAPTURE_DECODED_FRAME])
       (def_of TStr (AStr (capture_name CAPTURE_HANDSHAKE_ONLY)))) (AStr (capture_name CAPTURE_HANDSHAKE_ONLY))"
  by code_simp+

lemma checked_choice_list:
  assumes "checked_params spec supplied p" and "map_of spec n = Some (one_of cs (def_of (TList TStr) d))"
    and "value_ok (one_of cs (def_of (TList TStr) d)) d"
  shows "\<exists>ts. p n = Some (strs ts) \<and> set ts \<subseteq> set cs"
proof -
  obtain v where "p n = Some v" and v: "value_ok (one_of cs (def_of (TList TStr) d)) v"
    using checked_default [OF assms(1,2) _ assms(3)] by (auto simp: one_of_def def_of_def)
  moreover from v obtain ts where "v = strs ts" "set ts \<subseteq> set cs"
    using value_ok_choices [OF v, of cs] by (auto simp: one_of_def def_of_def opt_of_def)
  ultimately show ?thesis by blast
qed

lemma checked_choice:
  assumes "checked_params spec supplied p" and "map_of spec n = Some (one_of cs s)" and "os_type s = TStr"
    and "case os_default s of None \<Rightarrow> os_required s | Some d \<Rightarrow> value_ok (one_of cs s) d"
  shows "\<exists>t \<in> set cs. p n = Some (AStr t)"
proof -
  obtain v where "p n = Some v" and v: "value_ok (one_of cs s) v"
    using checked_required [OF assms(1,2)] checked_default [OF assms(1,2)] assms(4)
    by (cases "os_default s") (auto simp: one_of_def)
  with value_ok_choice [OF v, of cs] assms(3) show ?thesis by (auto simp: one_of_def)
qed

text \<open>The values a module branches on arrive within the range its code handles: the services to probe are in the catalog,
  the sections are the known ones, the capture mode and the power state are one of the declared names, and
  the default sampling times of \<open>asmb8_postcode\<close> pass its own bounds check.\<close>

theorem checked_options_in_range:
  assumes r: "checked_params redirection_argument_spec sr pr" and i: "checked_params inventory_argument_spec si pn"
    and k: "checked_params console_argument_spec sk pk" and w: "checked_params power_argument_spec sw pw"
    and c: "checked_params postcode_argument_spec sc pc" and "set sc \<inter> {''poll_interval_seconds'', ''max_duration_seconds''} = {}"
  shows "(\<exists>names. pr ''services'' = Some (strs names) \<and> set names \<subseteq> set SERVICE_NAMES)
    \<and> (\<exists>sections. pn ''sections'' = Some (strs (map section_name sections)))
    \<and> (\<exists>mode. pk ''capture'' = Some (AStr (capture_name mode)))
    \<and> (\<exists>state \<in> set POWER_STATES. pw ''state'' = Some (AStr state))
    \<and> (\<exists>poll duration. pc ''poll_interval_seconds'' = Some (AInt poll) \<and> pc ''max_duration_seconds'' = Some (AInt duration)
         \<and> validate_sampling_bounds poll duration)"
proof (intro conjI)
  show "\<exists>names. pr ''services'' = Some (strs names) \<and> set names \<subseteq> set SERVICE_NAMES"
    by (rule checked_choice_list [OF r option_specs(1) default_choices_ok(1)])
  obtain ts where "pn ''sections'' = Some (strs ts)" "set ts \<subseteq> section_name ` set ALL_SECTIONS"
    using checked_choice_list [OF i option_specs(2) default_choices_ok(2)] by auto
  moreover from this(2) obtain ss where "ts = map section_name ss" by (metis ex_map_conv image_iff subset_iff)
  ultimately show "\<exists>sections. pn ''sections'' = Some (strs (map section_name sections))" by blast
  show "\<exists>mode. pk ''capture'' = Some (AStr (capture_name mode))"
    using checked_choice [OF k option_specs(3)] default_choices_ok(3)
    by (auto simp: def_of_def opt_of_def simp del: capture_name.simps)
  show "\<exists>state \<in> set POWER_STATES. pw ''state'' = Some (AStr state)"
    using checked_choice [OF w option_specs(4)] by (simp add: req_of_def opt_of_def)
  have "pc ''poll_interval_seconds'' = Some (AInt 5)" "pc ''max_duration_seconds'' = Some (AInt 60)"
    using checked_default [OF c option_specs(5), of "AInt 5"] checked_default [OF c option_specs(6), of "AInt 60"] assms(6)
    by (auto simp: def_of_def opt_of_def value_ok_def)
  then show "\<exists>poll duration. pc ''poll_interval_seconds'' = Some (AInt poll) \<and> pc ''max_duration_seconds'' = Some (AInt duration)
         \<and> validate_sampling_bounds poll duration" by (auto simp: validate_sampling_bounds_def sampling_limits)
qed

lemma bootstrap_options:
  "map_of bootstrap_argument_spec ''network_mode'' = Some (one_of (map network_mode_name [NETWORK_MODE_STATIC, NETWORK_MODE_DHCP])
     (def_of TStr (AStr (network_mode_name NETWORK_MODE_STATIC))))"
  "n \<in> {''address'', ''netmask'', ''gateway''} \<Longrightarrow> map_of bootstrap_argument_spec n = Some (opt_of TStr)"
  "map_of bootstrap_argument_spec ''dns'' = Some (opt_of TStr)"
  by (auto simp: bootstrap_argument_spec_def)

lemma checked_given_string:
  assumes "checked_params spec supplied p" and "map_of spec n = Some (opt_of TStr)" and "n \<in> set supplied"
  shows "\<exists>t. p n = Some (AStr t)"
  using checked_value [OF assms(1,2)] assms(3) by (auto simp: value_ok_def opt_of_def has_type_cases)

text \<open>C12. The boot script says what the playbook asked for. For every parameter set that passed the argument specification
  and its rule on \<open>network_mode\<close>, the module builds a network configuration of the requested mode, and the
  script text is, line for line: for a static configuration the address, the netmask and the gateway of
  the playbook (never the word \<open>None\<close> that an absent one would print), the name server exactly when a
  non-empty one was given, then \<open>ifopen\<close>; otherwise \<open>dhcp\<close> alone; and last the chain to the origin.\<close>

theorem static_script_complete:
  assumes checked: "checked_params bootstrap_argument_spec supplied p" and rules: "requirements_met bootstrap_requirements supplied p"
  shows "\<exists>nc. build_network_config p = Some nc \<and> p ''network_mode'' = Some (AStr (network_mode_name (nc_mode nc)))
    \<and> (case nc_mode nc of
         NETWORK_MODE_STATIC \<Rightarrow> \<exists>a m g. p ''address'' = Some (AStr a) \<and> p ''netmask'' = Some (AStr m) \<and> p ''gateway'' = Some (AStr g)
           \<and> render_ipxe_script url nc = join_with [NL]
               ([''#!ipxe'', [], ''set net0/ip '' @ a, ''set net0/netmask '' @ m, ''set net0/gateway '' @ g]
                @ (case p ''dns'' of Some (AStr d) \<Rightarrow> if d = [] then [] else [''set net0/dns '' @ d] | _ \<Rightarrow> [])
                @ [''ifopen net0'', [], ''chain '' @ url, []])
       | NETWORK_MODE_DHCP \<Rightarrow> render_ipxe_script url nc = join_with [NL] [''#!ipxe'', [], ''dhcp'', [], ''chain '' @ url, []])"
proof -
  have "\<exists>t \<in> set (map network_mode_name [NETWORK_MODE_STATIC, NETWORK_MODE_DHCP]). p ''network_mode'' = Some (AStr t)"
    by (rule checked_choice [OF checked bootstrap_options(1)]) (simp_all add: def_of_def opt_of_def one_of_def value_ok_def)
  then obtain mode where mode: "p ''network_mode'' = Some (AStr (network_mode_name mode))"
    by (auto simp del: network_mode_name.simps)
  have of: "network_mode_of (Some (network_mode_name mode)) = Some mode" by (cases mode) simp_all
  let ?nc = "\<lparr>nc_mode = mode, nc_address = arg_str (p ''address''), nc_netmask = arg_str (p ''netmask''),
      nc_gateway = arg_str (p ''gateway''), nc_dns = arg_str (p ''dns'')\<rparr>"
  have nc: "build_network_config p = Some ?nc" using mode of by (simp add: build_network_config_def)
  have sup: "{''address'', ''netmask'', ''gateway''} \<subseteq> set supplied" if "mode = NETWORK_MODE_STATIC"
    using rules mode that by (simp add: requirements_met_def bootstrap_requirements_def)
  have dns: "p ''dns'' = None \<or> (\<exists>d. p ''dns'' = Some (AStr d))"
    using checked_value [OF checked bootstrap_options(3)] by (auto simp: value_ok_def opt_of_def has_type_cases split: if_splits)
  have str: "\<exists>t. p n = Some (AStr t)" if "mode = NETWORK_MODE_STATIC" and n: "n \<in> {''address'', ''netmask'', ''gateway''}" for n
    by (rule checked_given_string [OF checked bootstrap_options(2) [OF n]]) (use sup [OF that(1)] n in blast)
  show ?thesis
  proof (cases "mode = NETWORK_MODE_STATIC")
    case True
    obtain a m g where "p ''address'' = Some (AStr a)" "p ''netmask'' = Some (AStr m)" "p ''gateway'' = Some (AStr g)"
      using str [OF True, of "''address''"] str [OF True, of "''netmask''"] str [OF True, of "''gateway''"] by auto
    with nc mode True dns show ?thesis by (auto simp: render_ipxe_script_def script_lines_def field_text_def given_def)
  next
    case False
    then have "mode = NETWORK_MODE_DHCP" by (cases mode) simp_all
    with nc mode show ?thesis by (simp add: render_ipxe_script_def script_lines_def)
  qed
qed

definition sample_bootstrap_options :: "(string \<times> arg_value) list" where
  "sample_bootstrap_options = [(''origin_url'', AStr ''http://o/b.ipxe''), (''ipxe_lkrn_path'', AStr ''/k''), (''output_path'', AStr ''/o''),
     (''address'', AStr ''10.0.0.2''), (''netmask'', AStr ''255.0.0.0''), (''gateway'', AStr ''10.0.0.1'')]"

definition sample_bootstrap_params :: params where
  "sample_bootstrap_params n = (case map_of sample_bootstrap_options n of Some v \<Rightarrow> Some v
     | None \<Rightarrow> (case map_of bootstrap_argument_spec n of None \<Rightarrow> None | Some s \<Rightarrow> os_default s))"

theorem static_script_complete_witness:
  "\<exists>nc. build_network_config sample_bootstrap_params = Some nc \<and> render_ipxe_script ''http://o/b.ipxe'' nc = join_with [NL]
     [''#!ipxe'', [], ''set net0/ip 10.0.0.2'', ''set net0/netmask 255.0.0.0'', ''set net0/gateway 10.0.0.1'', ''ifopen net0'', [],
      ''chain http://o/b.ipxe'', []]"
proof -
  have p: "checked_params bootstrap_argument_spec (map fst sample_bootstrap_options) sample_bootstrap_params"
      "requirements_met bootstrap_requirements (map fst sample_bootstrap_options) sample_bootstrap_params"
    by code_simp+
  have v: "sample_bootstrap_params ''network_mode'' = Some (AStr ''static'')" "sample_bootstrap_params ''dns'' = None"
      "sample_bootstrap_params ''address'' = Some (AStr ''10.0.0.2'')" "sample_bootstrap_params ''netmask'' = Some (AStr ''255.0.0.0'')"
      "sample_bootstrap_params ''gateway'' = Some (AStr ''10.0.0.1'')"
    by code_simp+
  obtain nc where nc: "build_network_config sample_bootstrap_params = Some nc"
      "sample_bootstrap_params ''network_mode'' = Some (AStr (network_mode_name (nc_mode nc)))"
      "case nc_mode nc of NETWORK_MODE_DHCP \<Rightarrow> True | NETWORK_MODE_STATIC \<Rightarrow> render_ipxe_script ''http://o/b.ipxe'' nc = join_with [NL]
         [''#!ipxe'', [], ''set net0/ip 10.0.0.2'', ''set net0/netmask 255.0.0.0'', ''set net0/gateway 10.0.0.1'', ''ifopen net0'', [],
          ''chain http://o/b.ipxe'', []]"
    using static_script_complete [OF p, of "''http://o/b.ipxe''"] unfolding v(2-5)
    by (elim exE conjE) (rule that, assumption+, auto split: network_mode.splits simp del: join_with.simps)
  from nc(2) v(1) have "nc_mode nc = NETWORK_MODE_STATIC" by (cases "nc_mode nc") simp_all
  with nc(1,3) show ?thesis by auto
qed

end
