(* ===== verification/Record_History.thy ===== *)
theory Record_History
  imports Media_Session
begin

text \<open>
  The media daemon of \<open>media_session.py\<close> as an implementation of an abstract life cycle. The module that
  started a daemon only ever sees the records it publishes by \<open>_write_state_atomic\<close>. Here the whole sequence
  of published records is taken as the behaviour of the daemon, and the daemon is shown to refine a small
  transition system on records. Inode numbers are never reused, so the sequence can be read off the inode
  table: every successful write leaves its record in a fresh inode. The media daemon has one thread, so its
  writes follow one another; the origin daemon's do not, and \<open>Origin_Writers\<close> says what that costs it.
\<close>

section \<open>Published records\<close>

definition record_in :: "'s file_content \<Rightarrow> 's option" where
  "record_in c = (case c of JsonDict s \<Rightarrow> Some s | _ \<Rightarrow> None)"

definition published :: "nat \<Rightarrow> 's rt_fs \<Rightarrow> 's list" where
  "published k fs = List.map_filter (\<lambda>i. record_in (inodes fs i)) [k..<next_ino fs]"

lemma published_new:
  assumes "k \<le> next_ino fs" and "next_ino fs1 = Suc (next_ino fs)" and "\<And>i. i < next_ino fs \<Longrightarrow> inodes fs1 i = inodes fs i"
  shows "published k fs1 = published k fs @ (case record_in (inodes fs1 (next_ino fs)) of None \<Rightarrow> [] | Some s \<Rightarrow> [s])"
proof -
  have "List.map_filter (\<lambda>i. record_in (inodes fs1 i)) [k..<next_ino fs] = published k fs"
    unfolding published_def by (rule map_filter_cong) (simp add: assms(3))
  then show ?thesis
    using assms(1,2) by (auto simp: published_def map_filter_append map_filter_simps split: option.splits)
qed

lemma published_start [simp]: "published (next_ino fs) fs = []"
  by (simp add: published_def map_filter_simps)

text \<open>No temporary file of this writer is left over.\<close>

definition no_tmp :: "string \<Rightarrow> nat \<Rightarrow> 's rt_fs \<Rightarrow> bool" where
  "no_tmp sid pid fs \<longleftrightarrow> fs_lookup (tmp_path sid pid) fs = None"

lemma write_publishes:
  assumes "no_tmp sid pid fs" and "k \<le> next_ino fs"
  shows "published k (write_state_atomic sid pid d fs) = published k fs @ [d]"
    and "no_tmp sid pid (write_state_atomic sid pid d fs)"
    and "next_ino (write_state_atomic sid pid d fs) = Suc (next_ino fs)"
    and "i < next_ino fs \<Longrightarrow> inodes (write_state_atomic sid pid d fs) i = inodes fs i"
proof -
  let ?t = "tmp_path sid pid" and ?n = "next_ino fs"
  let ?fs2 = "fs_write ?n (JsonDict d) (snd (fs_new ?t fs))"
  have w: "write_state_atomic sid pid d fs = fs_replace ?t (state_file_path sid) ?fs2"
    using assms(1) by (simp add: write_state_atomic_def atomic_open_def fs_open_trunc_def no_tmp_def fs_new_def)
  have l: "fs_lookup ?t ?fs2 = Some ?n"
    using assms(1) fs_lookup_new [of ?t ?t fs] by (simp add: no_tmp_def fs_lookup_def fs_write_def)
  show "next_ino (write_state_atomic sid pid d fs) = Suc ?n"
    using l by (simp add: w fs_replace_def) (simp add: fs_write_def fs_new_def)
  moreover have i: "inodes (write_state_atomic sid pid d fs) = (inodes fs)(?n := JsonDict d)"
    using l by (simp add: w fs_replace_def) (simp add: fs_write_def fs_new_def)
  ultimately show "published k (write_state_atomic sid pid d fs) = published k fs @ [d]"
    using published_new [OF assms(2)] by (simp add: record_in_def)
  show "no_tmp sid pid (write_state_atomic sid pid d fs)"
    using fs_lookup_replace [OF l] tmp_path_not_state by (simp add: no_tmp_def w)
  show "inodes (write_state_atomic sid pid d fs) i = inodes fs i" if "i < ?n" using i that by simp
qed

lemma failed_write_publishes_nothing:
  assumes "no_tmp sid pid fs" and "k \<le> next_ino fs"
  shows "published k (write_state_atomic_failed sid pid fs) = published k fs"
    and "no_tmp sid pid (write_state_atomic_failed sid pid fs)"
    and "next_ino (write_state_atomic_failed sid pid fs) = Suc (next_ino fs)"
    and "i < next_ino fs \<Longrightarrow> inodes (write_state_atomic_failed sid pid fs) i = inodes fs i"
proof -
  let ?t = "tmp_path sid pid" and ?n = "next_ino fs"
  have w: "write_state_atomic_failed sid pid fs = fs_unlink ?t (fs_write ?n Unparsable (snd (fs_new ?t fs)))"
    using assms(1) by (simp add: write_state_atomic_failed_def atomic_open_def fs_open_trunc_def no_tmp_def fs_new_def)
  show "next_ino (write_state_atomic_failed sid pid fs) = Suc ?n"
    by (simp add: w fs_unlink_def fs_write_def fs_new_def)
  moreover have i: "inodes (write_state_atomic_failed sid pid fs) = (inodes fs)(?n := Unparsable)"
    by (simp add: w fs_unlink_def fs_write_def)
  ultimately show "published k (write_state_atomic_failed sid pid fs) = published k fs"
    using published_new [OF assms(2)] by (simp add: record_in_def)
  show "no_tmp sid pid (write_state_atomic_failed sid pid fs)" by (simp add: no_tmp_def w fs_lookup_unlink)
  show "inodes (write_state_atomic_failed sid pid fs) i = inodes fs i" if "i < ?n" using i that by simp
qed

section \<open>Runs of an abstract machine\<close>

inductive run_of :: "('s \<Rightarrow> bool) \<Rightarrow> ('s \<Rightarrow> 's \<Rightarrow> bool) \<Rightarrow> 's list \<Rightarrow> bool" for initial step where
  run_empty: "run_of initial step []"
| run_first: "initial s \<Longrightarrow> run_of initial step [s]"
| run_step: "run_of initial step (h @ [a]) \<Longrightarrow> step a b \<Longrightarrow> run_of initial step (h @ [a, b])"

lemma run_of_extend:
  assumes "run_of initial step h" and "if h = [] then initial s else step (last h) s"
  shows "run_of initial step (h @ [s])"
proof (cases h rule: rev_cases)
  case Nil
  with assms(2) show ?thesis by (simp add: run_first)
next
  case (snoc g a)
  with assms run_step [of initial step g a s] show ?thesis by simp
qed

text \<open>A machine in which terminal records have no successor and every step keeps what identifies the session.\<close>

locale lifecycle_machine =
  fixes initial :: "'s \<Rightarrow> bool" and step :: "'s \<Rightarrow> 's \<Rightarrow> bool" and terminal :: "'s \<Rightarrow> bool" and ident :: "'s \<Rightarrow> 'i"
  assumes step_from_live: "step a b \<Longrightarrow> \<not> terminal a"
    and step_ident: "step a b \<Longrightarrow> ident a = ident b"
begin

lemma only_last_terminal: "run_of initial step h \<Longrightarrow> s \<in> set (butlast h) \<Longrightarrow> \<not> terminal s"
  by (induction rule: run_of.induct) (auto simp: butlast_append dest: step_from_live)

lemma same_ident: "run_of initial step h \<Longrightarrow> s \<in> set h \<Longrightarrow> ident s = ident (last h)"
  by (induction rule: run_of.induct) (auto dest: step_ident)

end

text \<open>What a daemon promises of the operation that publishes its record: \<open>wrote u ok u1\<close> relates the states before
  and after with the success of the write.\<close>

locale publisher =
  fixes recd :: "'d \<Rightarrow> 's" and dir :: "'d \<Rightarrow> 's rt_fs" and pid :: "'d \<Rightarrow> nat" and sid :: "'s \<Rightarrow> string"
    and wrote :: "'d \<Rightarrow> bool \<Rightarrow> 'd \<Rightarrow> bool"
  assumes write_dir: "wrote u ok u1 \<Longrightarrow> dir u1 =
      (if ok then write_state_atomic (sid (recd u)) (pid u) (recd u1) (dir u) else write_state_atomic_failed (sid (recd u)) (pid u) (dir u))"
    and write_pid: "wrote u ok u1 \<Longrightarrow> pid u1 = pid u"
    and write_sid: "wrote u ok u1 \<Longrightarrow> sid (recd u1) = sid (recd u)"
begin

text \<open>The directory is ready for the next write; what was published from inode \<open>k\<close> on.\<close>

definition ready :: "nat \<Rightarrow> 'd \<Rightarrow> bool" where
  "ready k u \<longleftrightarrow> k \<le> next_ino (dir u) \<and> no_tmp (sid (recd u)) (pid u) (dir u)"

lemma write_history:
  assumes "wrote u ok u1" and "ready k u"
  shows "published k (dir u1) = published k (dir u) @ (if ok then [recd u1] else [])" and "ready k u1"
    and "next_ino (dir u1) = Suc (next_ino (dir u))" and "i < next_ino (dir u) \<Longrightarrow> inodes (dir u1) i = inodes (dir u) i"
  using write_dir [OF assms(1)] write_pid [OF assms(1)] write_sid [OF assms(1)] assms(2)
    write_publishes [of "sid (recd u)" "pid u" "dir u" k] failed_write_publishes_nothing [of "sid (recd u)" "pid u" "dir u" k]
  by (auto simp: ready_def)

text \<open>A published record that the machine allows after the last one extends the run.\<close>

lemma write_extends_run:
  assumes "wrote u ok u1" and "ready k u" and "run_of initial step (published k (dir u))"
    and "ok \<Longrightarrow> if published k (dir u) = [] then initial (recd u1) else step (last (published k (dir u))) (recd u1)"
  shows "run_of initial step (published k (dir u1))"
  using assms(3,4) run_of_extend [of initial step "published k (dir u)" "recd u1"] write_history(1) [OF assms(1,2)]
  by (cases ok) simp_all

end

section \<open>The media daemon\<close>

definition media_ident :: "media_state \<Rightarrow> string \<times> int \<times> string \<times> string \<times> string" where
  "media_ident st = (ms_session_id st, ms_pid st, ms_endpoint st, ms_image st, ms_started_at st)"

text \<open>The life cycle over the observable states \<open>STATE_STARTING\<close> to \<open>STATE_ERROR\<close>.\<close>

definition media_edges :: "(lifecycle \<times> lifecycle) set" where
  "media_edges = {(STATE_STARTING, STATE_CONNECTING), (STATE_CONNECTING, STATE_ATTACHED), (STATE_ATTACHED, STATE_ATTACHED),
     (STATE_ATTACHED, STATE_DETACHED), (STATE_STARTING, STATE_ERROR), (STATE_CONNECTING, STATE_ERROR),
     (STATE_ATTACHED, STATE_ERROR)}"

definition media_first :: "media_state \<Rightarrow> bool" where
  "media_first st \<longleftrightarrow> ms_state st = STATE_STARTING \<and> running st \<and> idle_polls st = 0"

text \<open>One step on records: along an edge, for the same session, with the poll counter never going back, from a
  record without a verdict to one without or with a complete one.\<close>

definition media_step :: "media_state \<Rightarrow> media_state \<Rightarrow> bool" where
  "media_step a b \<longleftrightarrow> (ms_state a, ms_state b) \<in> media_edges \<and> media_ident a = media_ident b
     \<and> idle_polls a \<le> idle_polls b \<and> running a \<and> (running b \<or> verdict b)"

interpretation media_machine: lifecycle_machine media_first media_step "\<lambda>st. ms_state st \<in> TERMINAL_STATES" media_ident
  by unfold_locales (auto simp: media_step_def running_def)

text \<open>The states of a run: the first two, then \<open>attached\<close> repeatedly, and possibly one terminal state.\<close>

definition media_phase :: "nat \<Rightarrow> lifecycle" where
  "media_phase n = (if n = 0 then STATE_STARTING else if n = 1 then STATE_CONNECTING else STATE_ATTACHED)"

lemma media_run_phases:
  "run_of media_first media_step h \<Longrightarrow>
     \<exists>n fin. map ms_state h = map media_phase [0..<n] @ fin \<and> fin \<in> {[], [STATE_DETACHED], [STATE_ERROR]}"
proof (induction rule: run_of.induct)
  case run_empty
  show ?case by (intro exI [of _ 0] exI [of _ "[]"]) simp
next
  case (run_first s)
  then show ?case by (intro exI [of _ 1] exI [of _ "[]"]) (simp add: media_first_def media_phase_def)
next
  case (run_step h a b)
  then obtain n fin where n: "map ms_state h @ [ms_state a] = map media_phase [0..<n] @ fin"
    and fin: "fin \<in> {[], [STATE_DETACHED], [STATE_ERROR]}" by auto
  have e: "(ms_state a, ms_state b) \<in> media_edges" using run_step.hyps by (simp add: media_step_def)
  then have "ms_state a \<notin> TERMINAL_STATES" by (auto simp: media_edges_def TERMINAL_STATES_def)
  with n fin have "fin = []" by (auto simp: TERMINAL_STATES_def)
  with n obtain m where m: "n = Suc m" "ms_state a = media_phase m" "map ms_state h = map media_phase [0..<m]"
    by (cases n) auto
  have "ms_state b \<in> {STATE_DETACHED, STATE_ERROR} \<or> ms_state b = media_phase (Suc m)"
    using e m(2) by (auto simp: media_edges_def media_phase_def split: if_splits)
  then show ?case
  proof
    assume "ms_state b \<in> {STATE_DETACHED, STATE_ERROR}"
    then show ?thesis using m by (intro exI [of _ "Suc m"] exI [of _ "[ms_state b]"]) auto
  next
    assume "ms_state b = media_phase (Suc m)"
    then show ?thesis using m by (intro exI [of _ "Suc (Suc m)"] exI [of _ "[]"]) simp
  qed
qed

interpretation media_pub: publisher d_state d_fs d_pid ms_session_id
  "\<lambda>u ok u1. \<exists>now r. persist_at now u = (r, u1) \<and> ok = (r = Inr ())"
proof unfold_locales
  fix u u1 :: daemon and ok
  assume "\<exists>now r. persist_at now u = (r, u1) \<and> ok = (r = Inr ())"
  then obtain now r where p: "persist_at now u = (r, u1)" and ok: "ok = (r = Inr ())" by blast
  let ?v = "u\<lparr>d_state := (d_state u)\<lparr>updated_at := now\<rparr>\<rparr>"
  obtain w u2 where dw: "disk_write ?v = (w, u2)" by fastforce
  show "d_fs u1 = (if ok then write_state_atomic (ms_session_id (d_state u)) (d_pid u) (d_state u1) (d_fs u)
      else write_state_atomic_failed (ms_session_id (d_state u)) (d_pid u) (d_fs u))"
    using p disk_write_frame [OF dw] by (auto simp: ok persist_at_def Let_def dw split: if_splits)
  show "d_pid u1 = d_pid u" "ms_session_id (d_state u1) = ms_session_id (d_state u)"
    using persist_at_state(1,5) [OF p] by simp_all
qed

text \<open>The daemon's own record may run ahead of the last published one, whose state is \<open>s\<close>.\<close>

definition led :: "nat \<Rightarrow> lifecycle \<Rightarrow> daemon \<Rightarrow> bool" where
  "led k s u \<longleftrightarrow> media_pub.ready k u \<and> run_of media_first media_step (published k (d_fs u)) \<and> published k (d_fs u) \<noteq> []
     \<and> (let l = last (published k (d_fs u)) in ms_state l = s \<and> running l \<and> media_ident l = media_ident (d_state u)
          \<and> idle_polls l \<le> idle_polls (d_state u))"

lemma led_frame:
  assumes "led k s u" and "published k (d_fs v) = published k (d_fs u)" and "next_ino (d_fs u) \<le> next_ino (d_fs v)"
    and "fs_lookup (tmp_path (ms_session_id (d_state u)) (d_pid u)) (d_fs v) = fs_lookup (tmp_path (ms_session_id (d_state u)) (d_pid u)) (d_fs u)"
    and "d_pid v = d_pid u"
    and "media_ident (d_state v) = media_ident (d_state u)" and "idle_polls (d_state u) \<le> idle_polls (d_state v)"
  shows "led k s v"
  using assms by (auto simp: led_def media_pub.ready_def no_tmp_def media_ident_def Let_def)

lemma led_persist:
  assumes "led k s v" and "(s, ms_state (d_state v)) \<in> media_edges" and "running (d_state v) \<or> verdict (d_state v)"
    and "persist_at now v = (r, u1)"
  shows "run_of media_first media_step (published k (d_fs u1))"
    and "r = Inr () \<Longrightarrow> published k (d_fs u1) \<noteq> [] \<and> last (published k (d_fs u1)) = d_state u1"
    and "running (d_state v) \<Longrightarrow> led k (if r = Inr () then ms_state (d_state v) else s) u1"
    and "r \<noteq> Inr () \<Longrightarrow> led k s u1"
proof -
  let ?h = "published k (d_fs v)"
  have w: "\<exists>now' r'. persist_at now' v = (r', u1) \<and> (r = Inr ()) = (r' = Inr ())" using assms(4) by blast
  have st: "d_state u1 = (d_state v)\<lparr>updated_at := now\<rparr>" "d_pid u1 = d_pid v"
    using persist_at_state(1,5) [OF assms(4)] by simp_all
  have rdy: "media_pub.ready k v" and run: "run_of media_first media_step ?h" and ne: "?h \<noteq> []"
    and l: "ms_state (last ?h) = s" "running (last ?h)" "media_ident (last ?h) = media_ident (d_state v)"
      "idle_polls (last ?h) \<le> idle_polls (d_state v)"
    using assms(1) by (simp_all add: led_def Let_def)
  have step: "media_step (last ?h) (d_state u1)"
    using l assms(2,3) by (simp add: media_step_def st media_ident_def)
  show run1: "run_of media_first media_step (published k (d_fs u1))"
    by (rule media_pub.write_extends_run [OF w rdy run]) (use step ne in simp)
  have pub: "published k (d_fs u1) = ?h @ (if r = Inr () then [d_state u1] else [])" and rdy1: "media_pub.ready k u1"
    by (rule media_pub.write_history [OF w rdy])+
  then show "published k (d_fs u1) \<noteq> [] \<and> last (published k (d_fs u1)) = d_state u1" if "r = Inr ()"
    using that by simp
  show "led k (if r = Inr () then ms_state (d_state v) else s) u1" if "running (d_state v)"
    using that rdy1 run1 pub ne l st by (simp add: led_def media_ident_def)
  show "led k s u1" if "r \<noteq> Inr ()" using that rdy1 run1 pub ne l st by (simp add: led_def media_ident_def)
qed

text \<open>Appending to the read trace publishes nothing: its file is older than the run or holds no record.\<close>

definition traced :: "nat \<Rightarrow> daemon \<Rightarrow> bool" where
  "traced k u \<longleftrightarrow> d_trace u < next_ino (d_fs u) \<and> (d_trace u < k \<or> record_in (inodes (d_fs u) (d_trace u)) = None)"

lemma published_append:
  assumes "i < k \<or> record_in (inodes fs i) = None"
  shows "published k (fs_append i line fs) = published k fs"
proof -
  have "record_in (inodes (fs_append i line fs) j) = record_in (inodes fs j)" if "k \<le> j" for j
    using assms that by (auto simp: fs_append_def record_in_def split: file_content.splits)
  then have "List.map_filter (\<lambda>j. record_in (inodes (fs_append i line fs) j)) [k..<next_ino fs] = published k fs"
    unfolding published_def by (intro map_filter_cong) simp
  moreover have "next_ino (fs_append i line fs) = next_ino fs" by (simp add: fs_append_def)
  ultimately show ?thesis by (simp add: published_def)
qed

lemma traced_append: "traced k u \<Longrightarrow> d_trace v = d_trace u \<Longrightarrow> d_fs v = fs_append (d_trace u) line (d_fs u) \<Longrightarrow> traced k v"
  by (auto simp: traced_def fs_append_def record_in_def split: file_content.splits)

lemma traced_persist:
  assumes "traced k u" and "media_pub.ready k u" and "persist_at now u = (r, u1)"
  shows "traced k u1"
proof -
  have w: "\<exists>now' r'. persist_at now' u = (r', u1) \<and> (r = Inr ()) = (r' = Inr ())" using assms(3) by blast
  show ?thesis
    using assms(1) media_pub.write_history(3) [OF w assms(2)] media_pub.write_history(4) [OF w assms(2), of "d_trace u"]
      persist_at_state(3) [OF assms(3)] by (auto simp: traced_def)
qed

lemma led_ready: "led k s u \<Longrightarrow> media_pub.ready k u"
  by (simp add: led_def)

text \<open>The invariant of the serve loop.\<close>

definition attached :: "nat \<Rightarrow> daemon \<Rightarrow> bool" where
  "attached k u \<longleftrightarrow> led k STATE_ATTACHED u \<and> ms_state (d_state u) = STATE_ATTACHED \<and> running (d_state u) \<and> traced k u"

lemma attached_frame:
  assumes "attached k u" and "d_fs v = d_fs u" and "d_pid v = d_pid u" and "d_trace v = d_trace u"
    and "media_ident (d_state v) = media_ident (d_state u)" and "idle_polls (d_state u) \<le> idle_polls (d_state v)"
    and "ms_state (d_state v) = ms_state (d_state u)" and "running (d_state v)"
  shows "attached k v"
  using assms led_frame [of k STATE_ATTACHED u v] by (simp add: attached_def traced_def)

lemma attached_persist:
  assumes "attached k v" and "persist_at now v = (r, u1)"
  shows "attached k u1"
  using assms led_persist(3) [OF _ _ _ assms(2), of k STATE_ATTACHED] traced_persist [OF _ led_ready assms(2)] persist_at_state(1) [OF assms(2)]
  by (auto simp: attached_def media_edges_def split: if_splits)

lemma attached_on_idle:
  assumes "attached k u" and "on_idle u = (r, u1)"
  shows "attached k u1"
proof -
  obtain now v where n: "now_iso u = (now, v)"
    and v: "d_state v = d_state u" "d_fs v = d_fs u" "d_trace v = d_trace u" "d_pid v = d_pid u"
    using now_iso_simps by (metis prod.collapse)
  obtain streak where p: "persist_at now (upd (\<lambda>st. st\<lparr>current_idle_streak := Some streak,
      idle_polls := idle_polls st + 1\<rparr>) v) = (r, u1)"
    using assms(2) n by (auto simp: on_idle_def Let_def)
  show ?thesis
    by (rule attached_persist [OF attached_frame [OF assms(1)] p])
      (use assms(1) v in \<open>simp_all add: media_ident_def attached_def running_def TERMINAL_STATES_def\<close>)
qed

lemma note_request_fields [simp]:
  "media_ident (note_request dev now st) = media_ident st" "idle_polls (note_request dev now st) = idle_polls st"
  "ms_state (note_request dev now st) = ms_state st"
  by (simp_all add: note_request_def close_idle_streak_def media_ident_def split: option.splits)

lemma attached_on_request:
  assumes "attached k u" and "on_request dev req u = (r, u1)"
  shows "attached k u1"
  using assms(2)
proof (cases rule: on_request_cases)
  case (traced now v)
  have "attached k v"
  proof (cases "is_read_cdb (cdb req)")
    case True
    with traced(2) have fs: "d_fs v = fs_append (d_trace u) (trace_line (cdb req)) (d_fs u)" by simp
    have "published k (d_fs v) = published k (d_fs u)"
      using assms(1) published_append fs by (auto simp: attached_def traced_def)
    moreover have "next_ino (d_fs v) = next_ino (d_fs u)" "fs_lookup n (d_fs v) = fs_lookup n (d_fs u)" for n
      by (simp_all add: fs fs_append_def fs_lookup_def)
    ultimately have "led k STATE_ATTACHED v"
      using assms(1) led_frame [of k STATE_ATTACHED u v] traced by (simp add: attached_def)
    with assms(1) traced traced_append [of k u v] fs show ?thesis by (simp add: attached_def)
  next
    case False
    with assms(1) traced show ?thesis by (intro attached_frame [OF assms(1)]) (simp_all add: attached_def)
  qed
  then have "attached k (upd (\<lambda>st. st\<lparr>last_request_at := Some now\<rparr>) v)"
    by (rule attached_frame) (use \<open>attached k v\<close> in \<open>simp_all add: media_ident_def attached_def\<close>)
  then show ?thesis using traced(4) by (rule attached_persist)
next
  case (failed now)
  with assms(1) show ?thesis by (intro attached_frame [OF assms(1)]) (simp_all add: attached_def)
qed

interpretation media_history_cb: callbacks should_stop on_idle "on_request :: device \<Rightarrow> _" "attached k"
proof unfold_locales
  show "attached k u1" if "attached k u" "should_stop u = (b, u1)" for u b u1
    by (rule attached_frame [OF that(1)]) (use that in \<open>auto simp: should_stop_def attached_def split: list.splits\<close>)
qed (fact attached_on_idle, fact attached_on_request)

lemma trace_path_other: "read_trace_log_path sid \<noteq> state_file_path sid'" "read_trace_log_path sid \<noteq> tmp_path sid' pid"
proof -
  show "read_trace_log_path sid \<noteq> state_file_path sid'" by (rule state_path_not_log)
  have "last (read_trace_log_path sid) \<noteq> last (tmp_path sid' pid)" by (simp add: read_trace_log_path_def tmp_path_def)
  then show "read_trace_log_path sid \<noteq> tmp_path sid' pid" by metis
qed

lemma write_keeps_other_names:
  assumes "n \<noteq> state_file_path sid" and "n \<noteq> tmp_path sid pid"
  shows "fs_lookup n (write_state_atomic sid pid d fs) = fs_lookup n fs"
proof -
  obtain i fs1 where o: "atomic_open sid pid fs = (i, fs1)" by fastforce
  then have t: "fs_lookup (tmp_path sid pid) (fs_write i (JsonDict d) fs1) = Some i"
    and "fs_lookup n (fs_write i (JsonDict d) fs1) = fs_lookup n fs"
    using fs_lookup_open_trunc(1,2) [of "tmp_path sid pid" fs i fs1] assms(2)
    by (simp_all add: atomic_open_def fs_write_def fs_lookup_def)
  with fs_lookup_replace [OF t] assms show ?thesis by (simp add: write_state_atomic_def o)
qed

text \<open>Opening the read trace keeps the published records, and later appends publish nothing.\<close>

lemma led_open_trace:
  assumes "led k s u" and "fs_ok (d_fs u)"
    and "\<And>i. fs_lookup (read_trace_log_path (cfg_session_id cfg)) (d_fs u) = Some i \<Longrightarrow> i < k"
  shows "led k s (open_trace cfg u) \<and> traced k (open_trace cfg u)"
proof (cases "fs_lookup (read_trace_log_path (cfg_session_id cfg)) (d_fs u)")
  case (Some i)
  then have o: "open_trace cfg u = u\<lparr>d_trace := i, d_fs := d_fs u\<rparr>" by (simp add: open_trace_def fs_open_append_def)
  have "led k s (open_trace cfg u)" by (rule led_frame [OF assms(1)]) (simp_all add: o)
  moreover have "traced k (open_trace cfg u)"
    using assms(3) [OF Some] fs_lookup_inode_less [OF assms(2) Some] by (simp add: traced_def o)
  ultimately show ?thesis ..
next
  case None
  let ?n = "next_ino (d_fs u)" and ?p = "read_trace_log_path (cfg_session_id cfg)"
  define fs where "fs = (snd (fs_new ?p (d_fs u)))\<lparr>inodes := (inodes (snd (fs_new ?p (d_fs u))))(?n := TextLines [])\<rparr>"
  have o: "open_trace cfg u = u\<lparr>d_trace := ?n, d_fs := fs\<rparr>"
    using None by (simp add: open_trace_def fs_open_append_def fs_def) (simp add: fs_new_def)
  have fs: "next_ino fs = Suc ?n" "inodes fs = (inodes (d_fs u))(?n := TextLines [])" by (simp_all add: fs_def fs_new_def)
  have "k \<le> ?n" using led_ready [OF assms(1)] by (simp add: media_pub.ready_def)
  then have "published k fs = published k (d_fs u)" using published_new [of k "d_fs u" fs] fs by (simp add: record_in_def)
  moreover have "fs_lookup m fs = fs_lookup m (d_fs u)" if "m \<noteq> ?p" for m
    using that None fs_lookup_new [of m ?p "d_fs u"] by (auto simp: fs_def fs_lookup_def split: option.splits)
  ultimately have "led k s (open_trace cfg u)"
    by (intro led_frame [OF assms(1)]) (simp_all add: o fs trace_path_other(2) [THEN not_sym])
  then show ?thesis by (simp add: o traced_def fs record_in_def)
qed

text \<open>What is left to do after the \<open>try\<close> block: nothing, or to record its exception.\<close>

definition body_done :: "nat \<Rightarrow> exn + unit \<Rightarrow> daemon \<Rightarrow> bool" where
  "body_done k r u = (case r of
      Inr _ \<Rightarrow> run_of media_first media_step (published k (d_fs u)) \<and> published k (d_fs u) \<noteq> []
                 \<and> last (published k (d_fs u)) = d_state u
    | Inl e \<Rightarrow> \<exists>s. s \<notin> TERMINAL_STATES \<and> led k s u)"

lemma persist_now_split: "persist_now u = persist_at (fst (now_iso u)) (snd (now_iso u))"
  by (simp add: persist_now_def split_def Let_def)

lemma led_now: "led k s u \<Longrightarrow> led k s (snd (now_iso u))"
  by (erule led_frame) simp_all

lemma led_upd:
  assumes "led k s u" and "media_ident (f (d_state u)) = media_ident (d_state u)" and "idle_polls (d_state u) \<le> idle_polls (f (d_state u))"
  shows "led k s (upd f u)"
  by (rule led_frame [OF assms(1)]) (use assms in simp_all)

lemma finish_history:
  assumes "attached k u" and "finish out dev u = (r, u1)"
  shows "body_done k r u1"
proof -
  obtain now v where n: "now_iso u = (now, v)" by fastforce
  have v: "led k STATE_ATTACHED v" "d_state v = d_state u"
    using assms(1) led_now [of k STATE_ATTACHED u] n now_iso_simps [of u] by (auto simp: attached_def)
  let ?mark = "\<lambda>e q st. (note_request dev now st)\<lparr>ms_state := STATE_DETACHED, ms_error := e, ms_stop_reason := Some q\<rparr>"
  obtain e q where p: "persist_at now (upd (?mark e q) v) = (r, u1)" and eq: "e = None \<longleftrightarrow> q = Stop_signal"
    using assms(2) n by (cases out) (auto simp: finish_def Let_def note_request_def [symmetric] upd_def)
  have l: "led k STATE_ATTACHED (upd (?mark e q) v)"
    by (rule led_upd [OF v(1)]) (simp_all add: media_ident_def note_request_def close_idle_streak_def split: option.splits)
  have "verdict (d_state (upd (?mark e q) v))"
    using assms(1) v(2) eq by (simp add: verdict_def attached_def running_def note_request_def close_idle_streak_def split: option.splits)
  note lp = led_persist [OF l _ disjI2 [OF this] p]
  show ?thesis
  proof (cases "r = Inr ()")
    case True
    with lp(1,2) show ?thesis by (simp add: body_done_def media_edges_def)
  next
    case False
    with lp(4) persist_at_state(4) [OF p] have "r = Inl OSError" "led k STATE_ATTACHED u1" by (simp_all add: media_edges_def)
    then show ?thesis by (auto simp: body_done_def TERMINAL_STATES_def intro!: exI [of _ STATE_ATTACHED])
  qed
qed

lemma serve_body_history:
  assumes "attached k u" and "serve_body ses dev u = Some (r, u1, rest)"
  shows "body_done k r u1"
proof -
  obtain q w where sf: "serve_forever daemon_ops \<lparr>v_session = ses, v_handler = dev, v_user = u\<rparr> = Some (q, w)"
    using assms(2) by (auto simp: serve_body_def split: option.splits)
  have a: "attached k (v_user w)"
    using media_history_cb.serve_forever_uinv [OF sf] assms(1) by (simp add: daemon_ops_def)
  show ?thesis
  proof (cases q)
    case (Inl e)
    with sf assms(2) a show ?thesis
      by (auto simp: serve_body_def body_done_def attached_def TERMINAL_STATES_def intro!: exI [of _ STATE_ATTACHED])
  next
    case (Inr out)
    with sf assms(2) finish_history [OF a] show ?thesis by (auto simp: serve_body_def split: prod.splits)
  qed
qed

text \<open>One published transition to a state without a verdict: the run goes on, or the exception finds the last
  published state unchanged.\<close>

lemma led_enter:
  assumes "led k s u" and "running (d_state u)" and "(s, s1) \<in> media_edges" and "s1 \<notin> TERMINAL_STATES"
    and "persist_now (upd (\<lambda>st. st\<lparr>ms_state := s1\<rparr>) u) = (r, u1)"
  shows "led k (if r = Inr () then s1 else s) u1" and "running (d_state u1)" and "ms_state (d_state u1) = s1"
    and "traced k u \<Longrightarrow> traced k u1"
proof -
  let ?v = "snd (now_iso (upd (\<lambda>st. st\<lparr>ms_state := s1\<rparr>) u))"
  have l: "led k s ?v" by (intro led_now led_upd [OF assms(1)]) (simp_all add: media_ident_def)
  have run: "running (d_state ?v)" and st: "ms_state (d_state ?v) = s1" using assms(2,4) by (simp_all add: running_def)
  have p: "persist_at (fst (now_iso (upd (\<lambda>st. st\<lparr>ms_state := s1\<rparr>) u))) ?v = (r, u1)"
    using assms(5) by (simp add: persist_now_split)
  show "led k (if r = Inr () then s1 else s) u1" using led_persist(3) [OF l _ _ p] assms(3) run st by (cases "r = Inr ()") simp_all
  show "running (d_state u1)" "ms_state (d_state u1) = s1" using persist_at_state(1) [OF p] run st by simp_all
  show "traced k u1" if "traced k u" by (rule traced_persist [OF _ led_ready [OF l] p]) (use that in \<open>simp add: traced_def\<close>)
qed

lemma attach_body_history:
  assumes "led k STATE_STARTING u" and "running (d_state u)" and "fs_ok (d_fs u)"
    and "\<And>i. fs_lookup (read_trace_log_path (cfg_session_id cfg)) (d_fs u) = Some i \<Longrightarrow> i < k"
    and "attach_body cfg env f u = Some (r, u1, rest)"
  shows "body_done k r u1"
proof -
  obtain ok v where dw: "disk_write u = (ok, v)" by fastforce
  have v: "led k STATE_STARTING v" "d_fs v = d_fs u" "running (d_state v)"
    using led_frame [OF assms(1), of v] disk_write_frame [OF dw] assms(2) by simp_all
  let ?t = "open_trace cfg v"
  have t: "led k STATE_STARTING ?t" "traced k ?t" "running (d_state ?t)"
    using led_open_trace [OF v(1)] assms(3,4) v(2,3) by (simp_all add: open_trace_def split_def Let_def)
  obtain r2 u2 where p2: "persist_now (upd (\<lambda>st. st\<lparr>ms_state := STATE_CONNECTING\<rparr>) ?t) = (r2, u2)" by fastforce
  note c = led_enter [OF t(1,3) _ _ p2]
  obtain r3 u3 where p3: "persist_now (upd (\<lambda>st. st\<lparr>ms_state := STATE_ATTACHED\<rparr>) u2) = (r3, u3)" by fastforce
  have fails: "body_done k (Inl e) w" if "led k s w" "s \<notin> TERMINAL_STATES" for e s w
    using that by (auto simp: body_done_def)
  have start: "body_done k (Inl e) v" for e by (rule fails [OF v(1)]) (simp add: TERMINAL_STATES_def)
  have l2: "led k (if r2 = Inr () then STATE_CONNECTING else STATE_STARTING) u2" "running (d_state u2)" "traced k u2"
    using c t(2) by (simp_all add: media_edges_def TERMINAL_STATES_def)
  then have two: "body_done k (Inl e) u2" for e using fails [OF l2(1)] by (simp add: TERMINAL_STATES_def split: if_splits)
  have three: "(r3 \<noteq> Inr () \<longrightarrow> body_done k (Inl e) u3) \<and> (r3 = Inr () \<longrightarrow> attached k u3)" if "r2 = Inr ()" for e
  proof -
    have "led k STATE_CONNECTING u2" using l2(1) that by simp
    note a = led_enter [OF this l2(2) _ _ p3]
    then have "led k (if r3 = Inr () then STATE_ATTACHED else STATE_CONNECTING) u3" "attached k u3 \<or> r3 \<noteq> Inr ()"
      using l2(3) by (auto simp: media_edges_def TERMINAL_STATES_def attached_def)
    with fails show ?thesis by (auto simp: TERMINAL_STATES_def split: if_splits)
  qed
  show ?thesis
    using assms(5) start two three serve_body_history
    by (auto simp: attach_body_def Let_def dw p2 p3 split: bool.splits sum.splits option.splits)
qed

lemma fail_daemon_history:
  assumes "led k s u" and "s \<notin> TERMINAL_STATES" and "fail_daemon e u = (r, u1)"
  shows "run_of media_first media_step (published k (d_fs u1))"
    and "r = Inr () \<Longrightarrow> published k (d_fs u1) \<noteq> [] \<and> last (published k (d_fs u1)) = d_state u1"
proof -
  let ?mark = "\<lambda>st. st\<lparr>ms_state := STATE_ERROR,
      ms_error := Some (case e of Ikvm x \<Rightarrow> ExnText e | _ \<Rightarrow> UnexpectedText e),
      ms_error_class := Some (case e of Ikvm x \<Rightarrow> error_class x | _ \<Rightarrow> PROTOCOL)\<rparr>"
  let ?v = "snd (now_iso (upd ?mark u))"
  have l: "led k s ?v" by (intro led_now led_upd [OF assms(1)]) (simp_all add: media_ident_def)
  have "(s, ms_state (d_state ?v)) \<in> media_edges"
    using assms(2) by (cases s) (simp_all add: media_edges_def TERMINAL_STATES_def)
  moreover have "verdict (d_state ?v)" by (simp add: verdict_def)
  moreover have "persist_at (fst (now_iso (upd ?mark u))) ?v = (r, u1)"
    using assms(3) by (simp add: fail_daemon_def persist_now_split)
  ultimately show "run_of media_first media_step (published k (d_fs u1))"
    and "r = Inr () \<Longrightarrow> published k (d_fs u1) \<noteq> [] \<and> last (published k (d_fs u1)) = d_state u1"
    using led_persist(1,2) [OF l] by blast+
qed

text \<open>The first write of \<open>_run_daemon\<close>.\<close>

lemma first_persist:
  assumes ok: "fs_ok (d_fs u)" and tmp: "no_tmp sid (d_pid u) (d_fs u)"
    and st: "d_state u = initial_state t sid ep pid img" and pn: "persist_now u = (q, w)"
  shows "q \<noteq> Inr () \<Longrightarrow> published (next_ino (d_fs u)) (d_fs w) = []"
    and "q = Inr () \<Longrightarrow> led (next_ino (d_fs u)) STATE_STARTING w \<and> running (d_state w) \<and> fs_ok (d_fs w)"
    and "q = Inr () \<Longrightarrow> fs_lookup (read_trace_log_path n) (d_fs w) = fs_lookup (read_trace_log_path n) (d_fs u)"
proof -
  let ?k = "next_ino (d_fs u)"
  define v where "v = snd (now_iso u)"
  have v: "d_state v = initial_state t sid ep pid img" "d_fs v = d_fs u" "d_pid v = d_pid u" using st by (simp_all add: v_def)
  have sid: "ms_session_id (d_state v) = sid" by (simp add: v initial_state_def)
  obtain now where p: "persist_at now v = (q, w)" using pn by (simp add: persist_now_split v_def)
  have wr: "\<exists>now' r'. persist_at now' v = (r', w) \<and> (q = Inr ()) = (r' = Inr ())" using p by blast
  have rdy: "media_pub.ready ?k v" using tmp sid v by (simp add: media_pub.ready_def)
  have ws: "d_state w = (initial_state t sid ep pid img)\<lparr>updated_at := now\<rparr>" using persist_at_state(1) [OF p] v by simp
  have first: "media_first (d_state w)"
    using running_initial by (simp add: ws media_first_def) (simp add: initial_state_def)
  have pub: "published ?k (d_fs w) = (if q = Inr () then [d_state w] else [])" and rdy1: "media_pub.ready ?k w"
    using media_pub.write_history [OF wr rdy] v by simp_all
  then show "published ?k (d_fs w) = []" if "q \<noteq> Inr ()" using that by simp
  show "led ?k STATE_STARTING w \<and> running (d_state w) \<and> fs_ok (d_fs w)" if "q = Inr ()"
    using that first pub rdy1 persist_at_state(2) [OF p] ok v by (auto simp: led_def media_first_def intro: run_first)
  show "fs_lookup (read_trace_log_path n) (d_fs w) = fs_lookup (read_trace_log_path n) (d_fs u)" if "q = Inr ()"
    using media_pub.write_dir [OF wr] that v by (simp add: write_keeps_other_names [OF trace_path_other])
qed

lemma run_daemon_history:
  assumes ok: "fs_ok (d_fs u)" and tmp: "no_tmp (cfg_session_id cfg) (d_pid u) (d_fs u)"
    and run: "run_daemon cfg env u = Some (r, u1, ses, f)"
  shows "run_of media_first media_step (published (next_ino (d_fs u)) (d_fs u1))
    \<and> (r = Inr () \<longrightarrow> published (next_ino (d_fs u)) (d_fs u1) \<noteq> [] \<and> last (published (next_ino (d_fs u)) (d_fs u1)) = d_state u1)"
proof -
  let ?k = "next_ino (d_fs u)" and ?sid = "cfg_session_id cfg"
  define v where "v = (snd (now_iso u))\<lparr>d_state := initial_state (fst (now_iso u)) ?sid
      (endpoint_text (cfg_host cfg) (cfg_cd_port cfg)) (int (d_pid u)) (cfg_image cfg)\<rparr>"
  obtain q w where pn: "persist_now v = (q, w)" by fastforce
  have v: "d_fs v = d_fs u" "d_pid v = d_pid u" by (simp_all add: v_def)
  note first = first_persist [of v ?sid, unfolded v, OF ok tmp _ pn]
  note unfolded = run [unfolded run_daemon_def split_def Let_def, folded v_def, simplified pn]
  show ?thesis
  proof (cases q)
    case (Inl e)
    with unfolded first(1) show ?thesis by (auto simp: v_def run_empty)
  next
    case (Inr x)
    with first(2) have w: "led ?k STATE_STARTING w" "running (d_state w)" "fs_ok (d_fs w)" by (auto simp: v_def)
    have tr: "fs_lookup (read_trace_log_path ?sid) (d_fs w) = Some i \<Longrightarrow> i < ?k" for i
      using first(3) Inr fs_lookup_inode_less [OF ok] by (auto simp: v_def)
    obtain b z rest where t: "try_body cfg env w = Some (b, z, rest)"
      using unfolded Inr by (auto split: option.splits)
    have bd: "body_done ?k b z"
    proof (cases "file_reader_open (e_images env) (cfg_image cfg)")
      case (Inl e)
      with t w(1) show ?thesis by (auto simp: try_body_def body_done_def TERMINAL_STATES_def intro!: exI [of _ STATE_STARTING])
    next
      case (Inr fr)
      with t have "attach_body cfg env fr w = Some (b, z, rest)" by (simp add: try_body_def)
      with tr show ?thesis by (intro attach_body_history [OF w])
    qed
    show ?thesis
    proof (cases b)
      case (Inr y)
      with unfolded \<open>q = Inr x\<close> t bd show ?thesis by (auto simp: body_done_def)
    next
      case (Inl e)
      with unfolded \<open>q = Inr x\<close> t have "fail_daemon e z = (r, u1)" by (auto simp: prod_eq_iff)
      with bd Inl fail_daemon_history show ?thesis by (fastforce simp: body_done_def)
    qed
  qed
qed

section \<open>Properties\<close>

text \<open>C3. The media daemon refines the abstract life cycle. Started in a well-formed runtime directory without a
  temporary file of its own, it returns, and the records it published form a run of the machine
  \<open>media_first\<close>, \<open>media_step\<close>: \<open>starting\<close>, \<open>connecting\<close>, \<open>attached\<close> as often as polls and requests
  demand, then \<open>detached\<close>, with \<open>error\<close> reachable from each of them; all for one session, process,
  endpoint and image, the poll counter never going back, and no record after a terminal one. When the
  daemon ended without an unwritable record, the last record of the run carries the verdict and is the one a
  reader finds.\<close>

theorem media_records_refine_lifecycle:
  assumes "fs_ok (d_fs u)" and "fs_lookup (tmp_path (cfg_session_id cfg) (d_pid u)) (d_fs u) = None"
  shows "\<exists>r u1 ses f. run_daemon cfg env u = Some (r, u1, ses, f) \<and>
    (let h = published (next_ino (d_fs u)) (d_fs u1) in
       run_of media_first media_step h
       \<and> (\<exists>n fin. map ms_state h = map media_phase [0..<n] @ fin \<and> fin \<in> {[], [STATE_DETACHED], [STATE_ERROR]})
       \<and> (\<forall>s \<in> set (butlast h). ms_state s \<notin> TERMINAL_STATES) \<and> (\<forall>s \<in> set h. media_ident s = media_ident (last h))
       \<and> (r = Inr () \<and> h \<noteq> [] \<and> verdict (last h) \<and> read_state (d_fs u1) (cfg_session_id cfg) = Some (last h) \<or> r = Inl OSError))"
proof -
  obtain r u1 ses f where run: "run_daemon cfg env u = Some (r, u1, ses, f)"
    and res: "r = Inr () \<and> verdict (d_state u1) \<and> on_disk (cfg_session_id cfg) u1 \<or> r = Inl OSError"
    using run_daemon_ok [OF assms(1), of cfg env] by blast
  have h: "run_of media_first media_step (published (next_ino (d_fs u)) (d_fs u1))"
    "r = Inr () \<Longrightarrow> published (next_ino (d_fs u)) (d_fs u1) \<noteq> [] \<and> last (published (next_ino (d_fs u)) (d_fs u1)) = d_state u1"
    using run_daemon_history [OF assms(1) _ run] assms(2) by (auto simp: no_tmp_def)
  with media_machine.only_last_terminal [OF h(1)] media_machine.same_ident [OF h(1)] media_run_phases [OF h(1)] run res show ?thesis
    by (auto simp: on_disk_def Let_def)
qed

theorem media_records_refine_lifecycle_witness:
  "\<exists>r u1 ses f. run_daemon sample_config Media_Session.sample_env sample_daemon = Some (r, u1, ses, f)
    \<and> run_of media_first media_step (published 0 (d_fs u1))"
proof -
  have "fs_lookup (tmp_path (cfg_session_id sample_config) (d_pid sample_daemon)) (d_fs sample_daemon) = None"
    and k: "next_ino (d_fs sample_daemon) = 0"
    by (simp_all add: sample_daemon_def fs_lookup_def)
  from media_records_refine_lifecycle [OF sample_daemon_simps(1) this(1), of Media_Session.sample_env] show ?thesis
    by (auto simp: Let_def k)
qed

end
