(* ===== verification/Origin_Writers.thy ===== *)
theory Origin_Writers
  imports Http_Origin
begin

text \<open>
  Two threads of the origin daemon write its state record: the main thread, which persists \<open>stopped\<close> when it
  ends (\<open>_run_daemon\<close>), and a handler thread that accounts for its request (the \<open>finally\<close> block of
  \<open>_handle\<close>). The handler holds \<open>state_lock\<close> around its accounting, the main thread does not take it, and nothing
  joins a handler in flight. Both call the same \<open>_persist\<close>, which copies the shared dictionary and hands
  the copy to \<open>_write_state_atomic\<close>, whose temporary path is built from the process id and so is the same
  for both. Here each call is taken apart into the steps another thread can come between, and a schedule is
  any merge of the two threads' steps. (Handlers among themselves are serialised by the lock.)
\<close>

section \<open>The two writers\<close>

datatype origin_thread = MainThread | HandlerThread

text \<open>The thread's own change to the shared dictionary; the stamp and \<open>dict(state)\<close>; \<open>os.open\<close> of the temporary
  file; the one \<open>write\<close> of \<open>json.dump\<close>'s buffer; \<open>os.replace\<close>.\<close>

datatype persist_call = ChangeState | TakeSnapshot | OpenTmp | WriteTmp | ReplaceTmp

record persist_local =
  pl_snapshot :: origin_state
  pl_inode :: nat

record writers =
  ww_state :: origin_state
  ww_fs :: "origin_state rt_fs"
  ww_local :: "origin_thread \<Rightarrow> persist_local"

record writers_env =
  we_session_id :: string
  we_pid :: nat
  we_reason :: origin_stop
  we_bytes_sent :: nat
  we_now :: "origin_thread \<Rightarrow> string"
  we_json_length :: "origin_state \<Rightarrow> nat"

text \<open>The main thread stops; the handler accounts.\<close>

definition thread_change :: "writers_env \<Rightarrow> origin_thread \<Rightarrow> origin_state \<Rightarrow> origin_state" where
  "thread_change env t st = (case t of
      MainThread \<Rightarrow> st\<lparr>os_state := ORIGIN_STOPPED, os_stop_reason := Some (we_reason env)\<rparr>
    | HandlerThread \<Rightarrow> st\<lparr>request_count := request_count st + 1, bytes_served := bytes_served st + we_bytes_sent env,
        os_last_request_at := Some (we_now env t)\<rparr>)"

text \<open>A write through a descriptor at offset zero: a longer text already in the file keeps its tail, and the two
  together do not parse.\<close>

definition fs_overlay :: "('s \<Rightarrow> nat) \<Rightarrow> nat \<Rightarrow> 's \<Rightarrow> 's rt_fs \<Rightarrow> 's rt_fs" where
  "fs_overlay len i d fs = fs_write i (case inodes fs i of
      JsonDict d0 \<Rightarrow> if len d0 \<le> len d then JsonDict d else Unparsable
    | _ \<Rightarrow> JsonDict d) fs"

fun writers_step :: "writers_env \<Rightarrow> origin_thread \<times> persist_call \<Rightarrow> writers \<Rightarrow> writers" where
  "writers_step env (t, ChangeState) w = w\<lparr>ww_state := thread_change env t (ww_state w)\<rparr>"
| "writers_step env (t, TakeSnapshot) w =
     (let st = (ww_state w)\<lparr>os_updated_at := we_now env t\<rparr>
      in w\<lparr>ww_state := st, ww_local := (ww_local w)(t := (ww_local w t)\<lparr>pl_snapshot := st\<rparr>)\<rparr>)"
| "writers_step env (t, OpenTmp) w =
     (let (i, fs) = atomic_open (we_session_id env) (we_pid env) (ww_fs w)
      in w\<lparr>ww_fs := fs, ww_local := (ww_local w)(t := (ww_local w t)\<lparr>pl_inode := i\<rparr>)\<rparr>)"
| "writers_step env (t, WriteTmp) w =
     w\<lparr>ww_fs := fs_overlay (we_json_length env) (pl_inode (ww_local w t)) (pl_snapshot (ww_local w t)) (ww_fs w)\<rparr>"
| "writers_step env (t, ReplaceTmp) w =
     w\<lparr>ww_fs := fs_replace (tmp_path (we_session_id env) (we_pid env)) (state_file_path (we_session_id env)) (ww_fs w)\<rparr>"

definition persist_calls :: "origin_thread \<Rightarrow> (origin_thread \<times> persist_call) list" where
  "persist_calls t = map (Pair t) [ChangeState, TakeSnapshot, OpenTmp, WriteTmp, ReplaceTmp]"

definition writers_start :: "origin_state \<Rightarrow> origin_state rt_fs \<Rightarrow> writers" where
  "writers_start st fs = \<lparr>ww_state = st, ww_fs = fs, ww_local = (\<lambda>t. \<lparr>pl_snapshot = st, pl_inode = 0\<rparr>)\<rparr>"

definition writers_run :: "writers_env \<Rightarrow> (origin_thread \<times> persist_call) list \<Rightarrow> writers \<Rightarrow> writers" where
  "writers_run env calls w = fold (writers_step env) calls w"

section \<open>Facts\<close>

text \<open>A schedule of four blocks, taken from the two threads in turn.\<close>

lemma blocks_in_shuffles: "p @ q @ r @ s \<in> shuffles (p @ r) (q @ s)"
proof (induction p)
  case Nil
  have "r @ s \<in> shuffles r s" for r s :: "'a list"
    by (induction r) (auto intro: Cons_in_shuffles_leftI)
  then show ?case by (induction q) (auto intro: Cons_in_shuffles_rightI)
qed (auto intro: Cons_in_shuffles_leftI)

text \<open>One thread alone is the atomic write of its own snapshot.\<close>

definition thread_snapshot :: "writers_env \<Rightarrow> origin_thread \<Rightarrow> origin_state \<Rightarrow> origin_state" where
  "thread_snapshot env t st = (thread_change env t st)\<lparr>os_updated_at := we_now env t\<rparr>"

lemma writers_alone:
  "ww_state (writers_run env (persist_calls t) w) = thread_snapshot env t (ww_state w)"
  "ww_fs (writers_run env (persist_calls t) w)
     = write_state_atomic (we_session_id env) (we_pid env) (thread_snapshot env t (ww_state w)) (ww_fs w)"
proof -
  obtain i fs where o: "atomic_open (we_session_id env) (we_pid env) (ww_fs w) = (i, fs)" by fastforce
  have e: "inodes fs i = Unparsable" using fs_lookup_open_trunc(3) [OF o [unfolded atomic_open_def]] by simp
  show "ww_state (writers_run env (persist_calls t) w) = thread_snapshot env t (ww_state w)"
    "ww_fs (writers_run env (persist_calls t) w)
     = write_state_atomic (we_session_id env) (we_pid env) (thread_snapshot env t (ww_state w)) (ww_fs w)"
    by (simp_all add: writers_run_def persist_calls_def thread_snapshot_def o write_state_atomic_def fs_overlay_def e Let_def)
qed

lemma writers_run_append: "writers_run env (a @ b) w = writers_run env b (writers_run env a w)"
  by (simp add: writers_run_def)

lemma serial_record:
  assumes "fs_ok fs"
  shows "read_state (ww_fs (writers_run env (persist_calls t @ persist_calls s) (writers_start st fs))) (we_session_id env)
      = Some (ww_state (writers_run env (persist_calls t @ persist_calls s) (writers_start st fs)))"
  using assms
  by (simp add: writers_run_append writers_alone writers_start_def read_state_write_atomic fs_ok_write_state_atomic)

text \<open>The handler is overtaken between its copy and its write.\<close>

definition overtaken :: "(origin_thread \<times> persist_call) list" where
  "overtaken = map (Pair HandlerThread) [ChangeState, TakeSnapshot] @ persist_calls MainThread
     @ map (Pair HandlerThread) [OpenTmp, WriteTmp, ReplaceTmp]"

lemma overtaken_record:
  assumes "fs_ok fs"
  shows "read_state (ww_fs (writers_run env overtaken (writers_start st fs))) (we_session_id env) = Some (thread_snapshot env HandlerThread st)"
    and "ww_state (writers_run env overtaken (writers_start st fs)) = thread_snapshot env MainThread (thread_snapshot env HandlerThread st)"
proof -
  define w where "w = writers_run env (map (Pair HandlerThread) [ChangeState, TakeSnapshot]) (writers_start st fs)"
  have w: "ww_state w = thread_snapshot env HandlerThread st" "ww_fs w = fs"
    "pl_snapshot (ww_local w HandlerThread) = thread_snapshot env HandlerThread st"
    by (simp_all add: w_def writers_run_def writers_start_def thread_snapshot_def Let_def)
  define v where "v = writers_run env (persist_calls MainThread) w"
  have v: "fs_ok (ww_fs v)" using assms by (simp add: v_def writers_alone w fs_ok_write_state_atomic)
  have l: "pl_snapshot (ww_local v HandlerThread) = thread_snapshot env HandlerThread st"
    by (simp add: v_def writers_run_def persist_calls_def w(3) Let_def split: prod.splits)
  obtain i fs1 where o: "atomic_open (we_session_id env) (we_pid env) (ww_fs v) = (i, fs1)" by fastforce
  have e: "inodes fs1 i = Unparsable" using fs_lookup_open_trunc(3) [OF o [unfolded atomic_open_def]] by simp
  have run: "writers_run env overtaken (writers_start st fs) = writers_run env (map (Pair HandlerThread) [OpenTmp, WriteTmp, ReplaceTmp]) v"
    by (simp only: overtaken_def writers_run_append v_def w_def)
  have "ww_fs (writers_run env overtaken (writers_start st fs))
      = write_state_atomic (we_session_id env) (we_pid env) (thread_snapshot env HandlerThread st) (ww_fs v)"
    unfolding run by (simp add: writers_run_def o write_state_atomic_def fs_overlay_def e l)
  then show "read_state (ww_fs (writers_run env overtaken (writers_start st fs))) (we_session_id env) = Some (thread_snapshot env HandlerThread st)"
    using v by (simp add: read_state_write_atomic)
  show "ww_state (writers_run env overtaken (writers_start st fs)) = thread_snapshot env MainThread (thread_snapshot env HandlerThread st)"
    unfolding run by (simp add: writers_run_def o v_def [unfolded writers_run_def, symmetric] split: prod.splits)
      (simp add: v_def writers_alone w)
qed

text \<open>The handler opens, and so empties, the file the main thread is about to move into place.\<close>

definition emptied :: "(origin_thread \<times> persist_call) list" where
  "emptied = map (Pair MainThread) [ChangeState, TakeSnapshot, OpenTmp, WriteTmp]
     @ map (Pair HandlerThread) [ChangeState, TakeSnapshot, OpenTmp] @ [(MainThread, ReplaceTmp)]"

lemma emptied_record: "read_state (ww_fs (writers_run env emptied (writers_start st fs))) (we_session_id env) = None"
proof -
  obtain i fs1 where o: "atomic_open (we_session_id env) (we_pid env) fs = (i, fs1)" by fastforce
  have lk: "fs_lookup (tmp_path (we_session_id env) (we_pid env)) fs1 = Some i"
    by (rule fs_lookup_open_trunc(1) [OF o [unfolded atomic_open_def]])
  have again: "atomic_open (we_session_id env) (we_pid env) (fs_overlay len i d fs1)
      = (i, fs_write i Unparsable (fs_overlay len i d fs1))" for len d
    using lk by (simp add: atomic_open_def fs_open_trunc_def fs_overlay_def) (simp add: fs_write_def)
  let ?d = "thread_snapshot env MainThread st"
  let ?fs3 = "fs_write i Unparsable (fs_overlay (we_json_length env) i ?d fs1)"
  have run: "ww_fs (writers_run env emptied (writers_start st fs))
      = fs_replace (tmp_path (we_session_id env) (we_pid env)) (state_file_path (we_session_id env)) ?fs3"
    by (simp add: writers_run_def emptied_def writers_start_def o again thread_snapshot_def Let_def)
  have lk3: "fs_lookup (tmp_path (we_session_id env) (we_pid env)) ?fs3 = Some i" using lk by (simp add: fs_overlay_def)
  have "inodes (fs_replace a b ?fs3) i = Unparsable" for a b
    by (simp add: fs_replace_def fs_write_def split: option.splits)
  then show ?thesis
    by (simp add: run read_state_def fs_read_def fs_lookup_replace [OF lk3])
qed

section \<open>Properties\<close>

text \<open>C9. The record of a stopping origin depends on the schedule of its threads. From any well-formed
  runtime directory and any \<open>serving\<close> state: when the main thread's \<open>stopped\<close> write and a handler's accounting
  follow one another, in either order, the record on disk is the state in memory, stopped with its
  reason and with the request counted. But there is a schedule, with both writes complete, after which the
  record on disk still says \<open>serving\<close>, with no stop reason, while the process has stopped; and one in the
  course of which a reader finds no record at all although the main thread has renamed its own into place. Neither is
  possible for a \<open>_persist\<close> that holds the lock.\<close>

theorem stop_record_race:
  assumes "fs_ok fs" and "os_state st = ORIGIN_SERVING" and "os_stop_reason st = None"
  shows "(\<forall>t s. t \<noteq> s \<longrightarrow> (let w = writers_run env (persist_calls t @ persist_calls s) (writers_start st fs) in
        read_state (ww_fs w) (we_session_id env) = Some (ww_state w) \<and> os_state (ww_state w) = ORIGIN_STOPPED
        \<and> os_stop_reason (ww_state w) = Some (we_reason env) \<and> request_count (ww_state w) = request_count st + 1))
    \<and> (\<exists>calls \<in> shuffles (persist_calls MainThread) (persist_calls HandlerThread).
        let w = writers_run env calls (writers_start st fs) in os_state (ww_state w) = ORIGIN_STOPPED
        \<and> (\<exists>r. read_state (ww_fs w) (we_session_id env) = Some r \<and> os_state r = ORIGIN_SERVING \<and> os_stop_reason r = None))
    \<and> (\<exists>sofar rest. sofar @ rest \<in> shuffles (persist_calls MainThread) (persist_calls HandlerThread)
        \<and> (MainThread, ReplaceTmp) \<in> set sofar
        \<and> read_state (ww_fs (writers_run env sofar (writers_start st fs))) (we_session_id env) = None)"
proof (intro conjI)
  show "\<forall>t s. t \<noteq> s \<longrightarrow> (let w = writers_run env (persist_calls t @ persist_calls s) (writers_start st fs) in
        read_state (ww_fs w) (we_session_id env) = Some (ww_state w) \<and> os_state (ww_state w) = ORIGIN_STOPPED
        \<and> os_stop_reason (ww_state w) = Some (we_reason env) \<and> request_count (ww_state w) = request_count st + 1)"
  proof (intro allI impI)
    fix t s :: origin_thread assume "t \<noteq> s"
    then show "let w = writers_run env (persist_calls t @ persist_calls s) (writers_start st fs) in
        read_state (ww_fs w) (we_session_id env) = Some (ww_state w) \<and> os_state (ww_state w) = ORIGIN_STOPPED
        \<and> os_stop_reason (ww_state w) = Some (we_reason env) \<and> request_count (ww_state w) = request_count st + 1"
      by (cases t; cases s) (simp_all add: Let_def serial_record [OF assms(1)], simp_all add: writers_run_append writers_alone
          thread_snapshot_def thread_change_def writers_start_def)
  qed
  have "overtaken \<in> shuffles (persist_calls MainThread) (persist_calls HandlerThread)"
    using blocks_in_shuffles [of "[]" "map (Pair HandlerThread) [ChangeState, TakeSnapshot]" "persist_calls MainThread"
        "map (Pair HandlerThread) [OpenTmp, WriteTmp, ReplaceTmp]"]
    by (simp only: overtaken_def persist_calls_def list.map append.simps)
  moreover have "let w = writers_run env overtaken (writers_start st fs) in os_state (ww_state w) = ORIGIN_STOPPED
        \<and> (\<exists>r. read_state (ww_fs w) (we_session_id env) = Some r \<and> os_state r = ORIGIN_SERVING \<and> os_stop_reason r = None)"
    using overtaken_record [OF assms(1), of env st] assms(2,3) by (simp add: Let_def thread_snapshot_def thread_change_def)
  ultimately show "\<exists>calls \<in> shuffles (persist_calls MainThread) (persist_calls HandlerThread).
        let w = writers_run env calls (writers_start st fs) in os_state (ww_state w) = ORIGIN_STOPPED
        \<and> (\<exists>r. read_state (ww_fs w) (we_session_id env) = Some r \<and> os_state r = ORIGIN_SERVING \<and> os_stop_reason r = None)"
    by blast
  have "emptied @ map (Pair HandlerThread) [WriteTmp, ReplaceTmp] \<in> shuffles (persist_calls MainThread) (persist_calls HandlerThread)"
    using blocks_in_shuffles [of "map (Pair MainThread) [ChangeState, TakeSnapshot, OpenTmp, WriteTmp]"
        "map (Pair HandlerThread) [ChangeState, TakeSnapshot, OpenTmp]" "[(MainThread, ReplaceTmp)]"
        "map (Pair HandlerThread) [WriteTmp, ReplaceTmp]"]
    by (simp only: emptied_def persist_calls_def list.map append.simps)
  moreover have "(MainThread, ReplaceTmp) \<in> set emptied" by (simp add: emptied_def)
  moreover note emptied_record [of env st fs]
  ultimately show "\<exists>sofar rest. sofar @ rest \<in> shuffles (persist_calls MainThread) (persist_calls HandlerThread)
        \<and> (MainThread, ReplaceTmp) \<in> set sofar
        \<and> read_state (ww_fs (writers_run env sofar (writers_start st fs))) (we_session_id env) = None"
    by blast
qed

definition sample_writers_env :: writers_env where
  "sample_writers_env = \<lparr>we_session_id = ''o'', we_pid = 5, we_reason = OriginSignal, we_bytes_sent = 3,
     we_now = (\<lambda>t. ''t''), we_json_length = (\<lambda>s. 100)\<rparr>"

theorem stop_record_race_witness:
  "\<exists>calls \<in> shuffles (persist_calls MainThread) (persist_calls HandlerThread).
     \<exists>r. read_state (ww_fs (writers_run sample_writers_env calls (writers_start
       ((origin_initial_state ''t'' sample_origin_config 5)\<lparr>os_state := ORIGIN_SERVING\<rparr>) (o_fs sample_origin)))) ''o'' = Some r
     \<and> os_state r = ORIGIN_SERVING"
proof -
  let ?st = "(origin_initial_state ''t'' sample_origin_config 5)\<lparr>os_state := ORIGIN_SERVING\<rparr>"
  have "fs_ok (o_fs sample_origin)" "os_state ?st = ORIGIN_SERVING" "os_stop_reason ?st = None"
    "we_session_id sample_writers_env = ''o''"
    by (simp_all add: fs_ok_def sample_origin_def origin_initial_state_def sample_writers_env_def)
  from stop_record_race [OF this(1-3), of sample_writers_env] this(4) show ?thesis by (auto simp: Let_def)
qed

end
