(* ===== verification/Daemon_Spawn.thy ===== *)
theory Daemon_Spawn
  imports Media_Session Http_Origin
begin

text \<open>
  The processes of \<open>spawn_session\<close>, the same double fork in \<open>media_session.py\<close> and \<open>http_origin.py\<close>, and
  \<open>_redirect_std_fds\<close> of \<open>daemon_runtime.py\<close>. Each process has its table of file descriptors; the parent, the
  first child and the daemon take their steps in any interleaving, and the parent's read of the pipe ends only
  when no process holds the write end. Where a system call of the children may fail, the step has a second
  outcome; a failing \<open>os.pipe\<close> or first \<open>os.fork\<close> leaves \<open>spawn_session\<close> before any of this.
\<close>

section \<open>Descriptor tables\<close>

datatype fd_target = InheritedFile nat | PipeReadEnd | PipeWriteEnd | DevNull | LogFile

text \<open>The entry at position \<open>i\<close> is what descriptor \<open>i\<close> refers to; positions past the end are closed.\<close>

type_synonym fd_table = "fd_target option list"

definition fd_get :: "fd_table \<Rightarrow> nat \<Rightarrow> fd_target option" where
  "fd_get t i = (if i < length t then t ! i else None)"

definition fd_set :: "nat \<Rightarrow> fd_target option \<Rightarrow> fd_table \<Rightarrow> fd_table" where
  "fd_set i x t = (t @ replicate (Suc i - length t) None)[i := x]"

text \<open>\<open>os.open\<close> and \<open>os.pipe\<close> take the lowest free number.\<close>

definition lowest_free :: "fd_table \<Rightarrow> nat" where
  "lowest_free t = length (takeWhile (\<lambda>x. x \<noteq> None) t)"

definition fd_open :: "fd_target \<Rightarrow> fd_table \<Rightarrow> nat \<times> fd_table" where
  "fd_open x t = (let i = lowest_free t in (i, fd_set i (Some x) t))"

definition fd_close :: "nat \<Rightarrow> fd_table \<Rightarrow> fd_table" where
  "fd_close i t = fd_set i None t"

definition fd_dup2 :: "nat \<Rightarrow> nat \<Rightarrow> fd_table \<Rightarrow> fd_table" where
  "fd_dup2 i j t = (if i = j then t else fd_set j (fd_get t i) t)"

definition redirect_std_fds :: "fd_table \<Rightarrow> fd_table" where
  "redirect_std_fds t =
     (let (devnull_fd, t1) = fd_open DevNull t; t2 = fd_close devnull_fd (fd_dup2 devnull_fd 0 t1);
          (log_fd, t3) = fd_open LogFile t2
      in fd_close log_fd (fd_dup2 log_fd 2 (fd_dup2 log_fd 1 t3)))"

section \<open>The processes\<close>

datatype parent_pc = P_close | P_read | P_waitpid | P_returned

datatype child_pc = C_close | C_setsid | C_fork | C_report | C_exit | C_gone nat

datatype daemon_pc = D_unborn | D_close | D_redirect | D_running | D_gone

record spawn_sys =
  sp_parent :: fd_table
  sp_child :: fd_table
  sp_daemon :: fd_table
  sp_p :: parent_pc
  sp_c :: child_pc
  sp_d :: daemon_pc
  sp_pipe :: string
  sp_got :: string

definition pipe_fds :: "fd_table \<Rightarrow> nat \<times> nat \<times> fd_table" where
  "pipe_fds t = (let (r, t1) = fd_open PipeReadEnd t; (w, t2) = fd_open PipeWriteEnd t1 in (r, w, t2))"

text \<open>After \<open>os.pipe()\<close> and the first \<open>os.fork()\<close>.\<close>

definition forked :: "fd_table \<Rightarrow> spawn_sys" where
  "forked t = (let (r, w, t2) = pipe_fds t in \<lparr>sp_parent = t2, sp_child = t2, sp_daemon = [], sp_p = P_close, sp_c = C_close,
     sp_d = D_unborn, sp_pipe = [], sp_got = []\<rparr>)"

definition write_end_open :: "spawn_sys \<Rightarrow> bool" where
  "write_end_open s \<longleftrightarrow> Some PipeWriteEnd \<in> set (sp_parent s) \<union> set (sp_child s) \<union> set (sp_daemon s)"

text \<open>One step of one process; \<open>r\<close> and \<open>w\<close> are the descriptors of the pipe, \<open>pid\<close> the daemon's process
  number. A process that is gone has its descriptors closed.\<close>

inductive spawn_step :: "nat \<Rightarrow> nat \<Rightarrow> nat \<Rightarrow> spawn_sys \<Rightarrow> spawn_sys \<Rightarrow> bool" for r w pid where
  parent_close: "sp_p s = P_close \<Longrightarrow>
    spawn_step r w pid s (s\<lparr>sp_parent := fd_close w (sp_parent s), sp_p := P_read\<rparr>)"
| parent_data: "sp_p s = P_read \<Longrightarrow> sp_pipe s \<noteq> [] \<Longrightarrow>
    spawn_step r w pid s (s\<lparr>sp_got := sp_got s @ sp_pipe s, sp_pipe := []\<rparr>)"
| parent_eof: "sp_p s = P_read \<Longrightarrow> sp_pipe s = [] \<Longrightarrow> \<not> write_end_open s \<Longrightarrow>
    spawn_step r w pid s (s\<lparr>sp_parent := fd_close r (sp_parent s), sp_p := P_waitpid\<rparr>)"
| parent_reap: "sp_p s = P_waitpid \<Longrightarrow> sp_c s = C_gone n \<Longrightarrow> spawn_step r w pid s (s\<lparr>sp_p := P_returned\<rparr>)"
| child_close: "sp_c s = C_close \<Longrightarrow>
    spawn_step r w pid s (s\<lparr>sp_child := fd_close r (sp_child s), sp_c := C_setsid\<rparr>)"
| child_setsid: "sp_c s = C_setsid \<Longrightarrow> spawn_step r w pid s (s\<lparr>sp_c := C_fork\<rparr>)"
| child_fork: "sp_c s = C_fork \<Longrightarrow>
    spawn_step r w pid s (s\<lparr>sp_daemon := sp_child s, sp_d := D_close, sp_c := C_report\<rparr>)"
| child_fails: "sp_c s \<in> {C_setsid, C_fork} \<Longrightarrow> spawn_step r w pid s (s\<lparr>sp_child := [], sp_c := C_gone 1\<rparr>)"
| child_report: "sp_c s = C_report \<Longrightarrow>
    spawn_step r w pid s (s\<lparr>sp_pipe := sp_pipe s @ str_nat pid @ [CHR 0x0A], sp_child := fd_close w (sp_child s), sp_c := C_exit\<rparr>)"
| child_exit: "sp_c s = C_exit \<Longrightarrow> spawn_step r w pid s (s\<lparr>sp_child := [], sp_c := C_gone 0\<rparr>)"
| daemon_close: "sp_d s = D_close \<Longrightarrow>
    spawn_step r w pid s (s\<lparr>sp_daemon := fd_close w (sp_daemon s), sp_d := D_redirect\<rparr>)"
| daemon_redirect: "sp_d s = D_redirect \<Longrightarrow>
    spawn_step r w pid s (s\<lparr>sp_daemon := redirect_std_fds (sp_daemon s), sp_d := D_running\<rparr>)"
| daemon_fails: "sp_d s = D_redirect \<Longrightarrow> spawn_step r w pid s (s\<lparr>sp_daemon := [], sp_d := D_gone\<rparr>)"
| daemon_ends: "sp_d s = D_running \<Longrightarrow> spawn_step r w pid s (s\<lparr>sp_daemon := [], sp_d := D_gone\<rparr>)"

inductive spawn_reach :: "fd_table \<Rightarrow> nat \<Rightarrow> spawn_sys \<Rightarrow> bool" for t pid where
  reach_forked: "spawn_reach t pid (forked t)"
| reach_step: "spawn_reach t pid s \<Longrightarrow> spawn_step (fst (pipe_fds t)) (fst (snd (pipe_fds t))) pid s s1 \<Longrightarrow> spawn_reach t pid s1"

text \<open>What \<open>spawn_session\<close> gets from the pipe: \<open>reader.read().strip()\<close>, nothing when empty.\<close>

definition reported_text :: "spawn_sys \<Rightarrow> string option" where
  "reported_text s = (let reported = strip (sp_got s) in if reported = [] then None else Some reported)"

section \<open>Facts about descriptor tables\<close>

lemma fd_get_set [simp]: "fd_get (fd_set i x t) j = (if j = i then x else fd_get t j)"
  by (auto simp: fd_get_def fd_set_def nth_append)

lemma fd_get_close [simp]: "fd_get (fd_close i t) j = (if j = i then None else fd_get t j)"
  by (simp add: fd_close_def)

lemma fd_get_dup2 [simp]: "fd_get (fd_dup2 i k t) j = (if j = k then fd_get t i else fd_get t j)"
  by (simp add: fd_dup2_def)

lemma lowest_free_closed: "fd_get t (lowest_free t) = None"
proof (cases "lowest_free t < length t")
  case True
  then have "\<not> (t ! lowest_free t \<noteq> None)" unfolding lowest_free_def by (rule nth_length_takeWhile)
  then show ?thesis by (simp add: fd_get_def)
qed (simp add: fd_get_def)

lemma fd_open_get: "fd_open x t = (i, t1) \<Longrightarrow> fd_get t i = None \<and> (\<forall>j. fd_get t1 j = (if j = i then Some x else fd_get t j))"
  by (auto simp: fd_open_def lowest_free_closed Let_def)

lemma fd_held: "Some x \<in> set t \<longleftrightarrow> (\<exists>i. fd_get t i = Some x)"
  by (auto simp: fd_get_def in_set_conv_nth split: if_splits)

lemma redirect_std_fds_get:
  assumes "\<And>i. i \<le> 2 \<Longrightarrow> fd_get t i \<noteq> None"
  shows "fd_get (redirect_std_fds t) i = (if i = 0 then Some DevNull else if i \<le> 2 then Some LogFile else fd_get t i)"
proof -
  obtain d t1 where d: "fd_open DevNull t = (d, t1)" by fastforce
  define t2 where "t2 = fd_close d (fd_dup2 d 0 t1)"
  obtain l t3 where l: "fd_open LogFile t2 = (l, t3)" by fastforce
  note od = fd_open_get [OF d] and ol = fd_open_get [OF l]
  have d2: "2 < d" using od assms [of d] by (meson not_le_imp_less)
  have t2: "fd_get t2 j = (if j = 0 then Some DevNull else fd_get t j)" for j using od d2 by (auto simp: t2_def)
  have l2: "2 < l"
  proof (rule ccontr)
    assume "\<not> 2 < l"
    with assms [of l] t2 [of l] ol show False by (auto split: if_splits)
  qed
  have t3: "fd_get t3 j = (if j = l then Some LogFile else fd_get t2 j)" for j using ol by blast
  have "fd_get t l = None" using ol t2 [of l] l2 by (auto split: if_splits)
  then show ?thesis using d2 l2 by (auto simp: redirect_std_fds_def Let_def d l t3 t2 t2_def [symmetric])
qed

lemma redirect_std_fds_holds:
  assumes "Some x \<in> set (redirect_std_fds t)"
  shows "x \<in> {DevNull, LogFile} \<or> Some x \<in> set t"
proof -
  obtain d t1 where d: "fd_open DevNull t = (d, t1)" by fastforce
  define t2 where "t2 = fd_close d (fd_dup2 d 0 t1)"
  obtain l t3 where l: "fd_open LogFile t2 = (l, t3)" by fastforce
  have t1: "fd_get t1 j = (if j = d then Some DevNull else fd_get t j)" for j using fd_open_get [OF d] by blast
  have t3: "fd_get t3 j = (if j = l then Some LogFile else fd_get t2 j)" for j using fd_open_get [OF l] by blast
  obtain i where "fd_get (redirect_std_fds t) i = Some x" using assms by (auto simp: fd_held)
  then show ?thesis
    by (auto simp: redirect_std_fds_def Let_def d l t3 t2_def [symmetric] fd_held split: if_splits)
      (auto simp: t2_def t1 split: if_splits)
qed

lemma pipe_fds_get:
  assumes "pipe_fds t = (r, w, t2)"
  shows "fd_get t r = None \<and> fd_get t w = None \<and> r \<noteq> w"
    and "fd_get t2 j = (if j = r then Some PipeReadEnd else if j = w then Some PipeWriteEnd else fd_get t j)"
proof -
  obtain t1 where a: "fd_open PipeReadEnd t = (r, t1)" and b: "fd_open PipeWriteEnd t1 = (w, t2)"
    using assms by (auto simp: pipe_fds_def Let_def split: prod.splits)
  show "fd_get t r = None \<and> fd_get t w = None \<and> r \<noteq> w"
    and "fd_get t2 j = (if j = r then Some PipeReadEnd else if j = w then Some PipeWriteEnd else fd_get t j)"
    using fd_open_get [OF a] fd_open_get [OF b] by (auto split: if_splits)
qed

section \<open>Every interleaving\<close>

text \<open>The pipe is a new object, so no end of it is open before.\<close>

definition no_pipe :: "fd_table \<Rightarrow> bool" where
  "no_pipe t \<longleftrightarrow> Some PipeReadEnd \<notin> set t \<and> Some PipeWriteEnd \<notin> set t"

fun parent_rank :: "parent_pc \<Rightarrow> nat" where
  "parent_rank P_close = 3"
| "parent_rank P_read = 2"
| "parent_rank P_waitpid = 1"
| "parent_rank P_returned = 0"

definition spawn_tables :: "nat \<Rightarrow> nat \<Rightarrow> fd_table \<Rightarrow> spawn_sys \<Rightarrow> bool" where
  "spawn_tables r w t2 s \<longleftrightarrow>
     sp_parent s = (case sp_p s of P_close \<Rightarrow> t2 | P_read \<Rightarrow> fd_close w t2 | _ \<Rightarrow> fd_close r (fd_close w t2))
   \<and> sp_child s = (case sp_c s of C_close \<Rightarrow> t2 | C_exit \<Rightarrow> fd_close w (fd_close r t2) | C_gone n \<Rightarrow> [] | _ \<Rightarrow> fd_close r t2)
   \<and> sp_daemon s = (case sp_d s of D_close \<Rightarrow> fd_close r t2 | D_redirect \<Rightarrow> fd_close w (fd_close r t2)
        | D_running \<Rightarrow> redirect_std_fds (fd_close w (fd_close r t2)) | _ \<Rightarrow> [])"

text \<open>How far the child has come: past the second fork, past its report, gone.\<close>

fun born :: "child_pc \<Rightarrow> bool" where
  "born C_report = True"
| "born C_exit = True"
| "born (C_gone n) = (n = 0)"
| "born _ = False"

fun reported :: "child_pc \<Rightarrow> bool" where
  "reported C_exit = True"
| "reported (C_gone n) = (n = 0)"
| "reported _ = False"

fun silent :: "child_pc \<Rightarrow> bool" where
  "silent C_exit = True"
| "silent (C_gone n) = True"
| "silent _ = False"

text \<open>What has gone through the pipe, that the daemon exists exactly when the child got past the second fork, and that
  the parent stops reading only when nothing more can come.\<close>

definition spawn_control :: "nat \<Rightarrow> spawn_sys \<Rightarrow> bool" where
  "spawn_control pid s \<longleftrightarrow>
     sp_got s @ sp_pipe s = (if reported (sp_c s) then str_nat pid @ [CHR 0x0A] else [])
   \<and> (sp_d s \<noteq> D_unborn \<longleftrightarrow> born (sp_c s))
   \<and> (2 \<le> parent_rank (sp_p s) \<or> sp_pipe s = [] \<and> silent (sp_c s))
   \<and> (sp_p s = P_returned \<longrightarrow> (\<exists>n. sp_c s = C_gone n))"

definition spawn_inv :: "nat \<Rightarrow> nat \<Rightarrow> fd_table \<Rightarrow> nat \<Rightarrow> spawn_sys \<Rightarrow> bool" where
  "spawn_inv r w t2 pid s \<longleftrightarrow> spawn_tables r w t2 s \<and> spawn_control pid s"

text \<open>A child that has not yet reported holds the write end, so the parent cannot see the end of the pipe.\<close>

lemma unreported_child_holds_write_end:
  assumes "pipe_fds t = (r, w, t2)" and "spawn_inv r w t2 pid s" and "\<not> write_end_open s"
  shows "silent (sp_c s)"
proof -
  have "fd_get t2 w = Some PipeWriteEnd" "w \<noteq> r" using pipe_fds_get [OF assms(1)] by auto
  then have "Some PipeWriteEnd \<in> set t2" "Some PipeWriteEnd \<in> set (fd_close r t2)"
    by (auto simp: fd_held intro!: exI [of _ w])
  with assms(2,3) show ?thesis by (cases "sp_c s") (simp_all add: spawn_inv_def spawn_tables_def write_end_open_def)
qed

lemma spawn_tables_step:
  assumes "spawn_tables r w t2 s" and "spawn_step r w pid s s1"
  shows "spawn_tables r w t2 s1"
  using assms(2)
  by (cases rule: spawn_step.cases) (use assms(1) in \<open>auto simp: spawn_tables_def\<close>)

lemma spawn_control_step:
  assumes "spawn_control pid s" and "spawn_step r w pid s s1" and "\<not> write_end_open s \<Longrightarrow> silent (sp_c s)"
  shows "spawn_control pid s1"
  using assms(2) by (cases rule: spawn_step.cases) (use assms(1,3) in \<open>auto simp: spawn_control_def\<close>)

lemma spawn_inv_step:
  assumes "pipe_fds t = (r, w, t2)" and "spawn_inv r w t2 pid s" and "spawn_step r w pid s s1"
  shows "spawn_inv r w t2 pid s1"
  using spawn_tables_step spawn_control_step unreported_child_holds_write_end [OF assms(1,2)] assms(2,3)
  by (auto simp: spawn_inv_def)

lemma spawn_reach_inv:
  assumes "pipe_fds t = (r, w, t2)" and "spawn_reach t pid s"
  shows "spawn_inv r w t2 pid s"
  using assms(2)
proof (induction rule: spawn_reach.induct)
  case reach_forked
  then show ?case by (simp add: spawn_inv_def spawn_tables_def spawn_control_def forked_def assms(1))
next
  case (reach_step s s1)
  then show ?case using spawn_inv_step [OF assms(1)] assms(1) by auto
qed

section \<open>The parent never waits for the daemon\<close>

fun child_rank :: "child_pc \<Rightarrow> nat" where
  "child_rank C_close = 9"
| "child_rank C_setsid = 8"
| "child_rank C_fork = 7"
| "child_rank C_report = 3"
| "child_rank C_exit = 1"
| "child_rank (C_gone n) = 0"

fun daemon_rank :: "daemon_pc \<Rightarrow> nat" where
  "daemon_rank D_close = 3"
| "daemon_rank D_redirect = 2"
| "daemon_rank D_running = 1"
| "daemon_rank _ = 0"

definition spawn_rank :: "spawn_sys \<Rightarrow> nat" where
  "spawn_rank s = parent_rank (sp_p s) + child_rank (sp_c s) + daemon_rank (sp_d s) + (if sp_pipe s = [] then 0 else 1)"

lemma spawn_rank_decreases:
  assumes "spawn_step r w pid s s1" and "spawn_inv r w t2 pid s"
  shows "spawn_rank s1 < spawn_rank s"
  using assms(1)
proof (cases rule: spawn_step.cases)
  case child_fork
  with assms(2) have "sp_d s = D_unborn" by (simp add: spawn_inv_def spawn_control_def)
  with child_fork show ?thesis by (simp add: spawn_rank_def)
qed (auto simp: spawn_rank_def)

text \<open>While the parent has not returned, a step other than the end of the running daemon is possible.\<close>

lemma spawn_progress:
  assumes "pipe_fds t = (r, w, t2)" and "no_pipe t" and "spawn_inv r w t2 pid s" and "sp_p s \<noteq> P_returned"
  shows "\<exists>s1. spawn_step r w pid s s1 \<and> sp_d s1 \<in> {sp_d s, D_close, D_redirect}"
proof -
  have child: ?thesis if "sp_c s \<in> {C_close, C_setsid, C_fork, C_report, C_exit}"
    using that child_close [of s r w pid] child_setsid [of s r w pid] child_fork [of s r w pid] child_report [of s r w pid]
      child_exit [of s r w pid] by fastforce
  consider "sp_p s = P_close" | "sp_p s = P_read" "sp_pipe s \<noteq> []" | "sp_p s = P_read" "sp_pipe s = []" "\<not> write_end_open s"
    | "sp_p s = P_read" "write_end_open s" | "sp_p s = P_waitpid"
    using assms(4) by (cases "sp_p s") auto
  then show ?thesis
  proof cases
    case 4
    have "Some PipeWriteEnd \<notin> set (fd_close w t2)" "Some PipeWriteEnd \<notin> set (fd_close w (fd_close r t2))"
      using pipe_fds_get(2) [OF assms(1)] assms(2) by (auto simp: fd_held no_pipe_def split: if_splits)
    moreover from this(2) have "Some PipeWriteEnd \<notin> set (redirect_std_fds (fd_close w (fd_close r t2)))"
      using redirect_std_fds_holds by blast
    ultimately have "sp_d s = D_close \<or> sp_c s \<in> {C_close, C_setsid, C_fork, C_report}"
      using assms(3) 4 by (auto simp: write_end_open_def spawn_inv_def spawn_tables_def split: daemon_pc.splits child_pc.splits)
    with child daemon_close [of s r w pid] show ?thesis by fastforce
  next
    case 5
    with assms(3) have "silent (sp_c s)" by (simp add: spawn_inv_def spawn_control_def)
    then have "sp_c s = C_exit \<or> (\<exists>n. sp_c s = C_gone n)" by (cases "sp_c s") simp_all
    with child parent_reap [of s _ r w pid, OF 5] show ?thesis by fastforce
  qed (use parent_close [of s r w pid] parent_data [of s r w pid] parent_eof [of s r w pid] in fastforce)+
qed

lemma spawn_returns:
  assumes "pipe_fds t = (r, w, t2)" and "no_pipe t" and "spawn_reach t pid s"
  shows "\<exists>s1. spawn_reach t pid s1 \<and> sp_p s1 = P_returned \<and> (sp_d s1 = D_gone \<longrightarrow> sp_d s = D_gone)"
  using assms(3)
proof (induction "spawn_rank s" arbitrary: s rule: less_induct)
  case less
  show ?case
  proof (cases "sp_p s = P_returned")
    case False
    note i = spawn_reach_inv [OF assms(1) less.prems]
    obtain s1 where s1: "spawn_step r w pid s s1" "sp_d s1 \<in> {sp_d s, D_close, D_redirect}"
      using spawn_progress [OF assms(1,2) i False] by blast
    have "spawn_reach t pid s1" using reach_step [OF less.prems] s1(1) assms(1) by simp
    with less.hyps [OF spawn_rank_decreases [OF s1(1) i]] s1(2) show ?thesis by fastforce
  qed (use less.prems in blast)
qed

lemma spawn_steps_rank:
  assumes "pipe_fds t = (r, w, t2)" and "(spawn_step r w pid ^^ n) s s1" and "spawn_reach t pid s"
  shows "n + spawn_rank s1 \<le> spawn_rank s"
  using assms(2,3)
proof (induction n arbitrary: s1)
  case (Suc n)
  then obtain m where m: "(spawn_step r w pid ^^ n) s m" "spawn_step r w pid m s1" by auto
  have "spawn_reach t pid m" using m(1) Suc.prems(2)
  proof (induction n arbitrary: m)
    case (Suc n)
    then show ?case using reach_step assms(1) by (metis fst_conv relpowp_Suc_E snd_conv)
  qed auto
  then have "spawn_rank s1 < spawn_rank m" using spawn_rank_decreases [OF m(2)] spawn_reach_inv [OF assms(1)] by blast
  with Suc.IH [OF m(1) Suc.prems(2)] show ?case by simp
qed simp

section \<open>Properties\<close>

text \<open>C4. The double fork of \<open>spawn_session\<close> detaches the daemon, in every interleaving of the three processes and whatever
  of \<open>setsid\<close>, the second fork and the log file fails: when the parent returns it holds exactly the
  descriptors it held before, and it returns the daemon's process number if the daemon was started and the
  protocol error if not, for the media and for the origin daemon alike. A running daemon reads from the null device,
  writes to its log file, keeps every other inherited descriptor, and holds neither end of the pipe nor any of the
  standard streams of the module, for which the controller would wait.\<close>

theorem spawn_detaches_daemon:
  assumes "spawn_reach t pid s" and "no_pipe t" and "\<And>i. i \<le> 2 \<Longrightarrow> fd_get t i \<noteq> None" and "sp_p s = P_returned"
  shows "(\<forall>i. fd_get (sp_parent s) i = fd_get t i)
    \<and> fst (spawn_session True cfg (reported_text s) now fs) =
        (if sp_d s = D_unborn then Inl (ProtocolError ''asmb8_media.spawn_session'') else Inr (int pid))
    \<and> fst (origin_spawn_session True ocfg (reported_text s) now ofs) =
        (if sp_d s = D_unborn then Inl (ProtocolError ''asmb8_http_origin.spawn_session'') else Inr (int pid))
    \<and> (sp_d s = D_running \<longrightarrow> (\<forall>i. fd_get (sp_daemon s) i =
        (if i = 0 then Some DevNull else if i \<le> 2 then Some LogFile else fd_get t i)))"
proof -
  obtain r w t2 where p: "pipe_fds t = (r, w, t2)" by (cases "pipe_fds t") auto
  note g = pipe_fds_get [OF p] and i = spawn_reach_inv [OF p assms(1)]
  have "fd_get (sp_parent s) j = fd_get t j" for j using i g assms(4) by (auto simp: spawn_inv_def spawn_tables_def)
  moreover have "reported_text s = (if sp_d s = D_unborn then None else Some (str_nat pid))"
  proof -
    obtain n where c: "sp_c s = C_gone n" using i assms(4) by (auto simp: spawn_inv_def spawn_control_def)
    with i assms(4) have "sp_got s = (if n = 0 then str_nat pid @ [CHR 0x0A] else [])" "(sp_d s = D_unborn) = (n \<noteq> 0)"
      by (auto simp: spawn_inv_def spawn_control_def)
    then show ?thesis by (simp add: reported_text_def strip_report Let_def)
  qed
  moreover have "fd_get (sp_daemon s) j = (if j = 0 then Some DevNull else if j \<le> 2 then Some LogFile else fd_get t j)"
    if "sp_d s = D_running" for j
  proof -
    have std: "fd_get (fd_close w (fd_close r t2)) k = fd_get t k" for k using g by auto
    have "sp_daemon s = redirect_std_fds (fd_close w (fd_close r t2))" using i that by (simp add: spawn_inv_def spawn_tables_def)
    then show ?thesis using redirect_std_fds_get [of "fd_close w (fd_close r t2)" j] assms(3) std by simp
  qed
  ultimately show ?thesis
    by (simp add: spawn_session_def origin_spawn_session_def py_int_str_nat split: if_splits)
qed

definition sample_fds :: fd_table where
  "sample_fds = [Some (InheritedFile 0), Some (InheritedFile 1), Some (InheritedFile 2), None, Some (InheritedFile 4)]"

lemma sample_fds_ok: "no_pipe sample_fds" "i \<le> 2 \<Longrightarrow> fd_get sample_fds i \<noteq> None"
  by (auto simp: no_pipe_def sample_fds_def fd_get_def nth_Cons split: nat.splits)

theorem spawn_detaches_daemon_witness:
  "\<exists>s. spawn_reach sample_fds 77 s \<and> sp_p s = P_returned \<and> fd_get (sp_parent s) 3 = None
     \<and> fst (spawn_session True sample_config (reported_text s) ''t'' \<lparr>names = [], inodes = (\<lambda>_. Unparsable), next_ino = 0\<rparr>)
         \<in> {Inl (ProtocolError ''asmb8_media.spawn_session''), Inr 77}"
proof -
  obtain s where s: "spawn_reach sample_fds 77 s" "sp_p s = P_returned"
    using spawn_returns [OF _ sample_fds_ok(1) reach_forked] by (metis prod_cases3)
  have "fd_get sample_fds 3 = None" by (simp add: sample_fds_def fd_get_def)
  with spawn_detaches_daemon [OF s(1) sample_fds_ok s(2), of sample_config "''t''"
      "\<lparr>names = [], inodes = (\<lambda>_. Unparsable), next_ino = 0\<rparr>" sample_origin_config
      "\<lparr>names = [], inodes = (\<lambda>_. Unparsable), next_ino = 0\<rparr>"] s show ?thesis
    by (intro exI [of _ s]) auto
qed

text \<open>C11. \<open>spawn_session\<close> does not wait for the life of the daemon: from every reachable state the parent can return by steps
  that do not include the end of a running daemon, it is never stuck before, and no schedule of the three
  processes has more than twelve steps.\<close>

theorem spawn_never_waits_for_daemon:
  assumes "spawn_reach t pid s" and "no_pipe t"
  shows "(\<exists>s1. spawn_reach t pid s1 \<and> sp_p s1 = P_returned \<and> (sp_d s1 = D_gone \<longrightarrow> sp_d s = D_gone))
    \<and> (sp_p s = P_returned \<or> (\<exists>s1. spawn_step (fst (pipe_fds t)) (fst (snd (pipe_fds t))) pid s s1
          \<and> sp_d s1 \<in> {sp_d s, D_close, D_redirect}))
    \<and> (\<forall>n s1. (spawn_step (fst (pipe_fds t)) (fst (snd (pipe_fds t))) pid ^^ n) (forked t) s1 \<longrightarrow> n \<le> 12)"
proof -
  obtain r w t2 where p: "pipe_fds t = (r, w, t2)" by (cases "pipe_fds t") auto
  have "spawn_rank (forked t) = 12" by (simp add: spawn_rank_def forked_def p)
  then have "n \<le> 12" if "(spawn_step r w pid ^^ n) (forked t) s1" for n s1
    using spawn_steps_rank [OF p that reach_forked] by simp
  with spawn_returns [OF p assms(2,1)] spawn_progress [OF p assms(2) spawn_reach_inv [OF p assms(1)]] p show ?thesis
    by auto
qed

theorem spawn_never_waits_for_daemon_witness:
  "\<exists>s1. spawn_reach sample_fds 77 s1 \<and> sp_p s1 = P_returned \<and> sp_d s1 \<noteq> D_gone"
proof -
  have "sp_d (forked sample_fds) = D_unborn" by (simp add: forked_def split: prod.splits)
  then show ?thesis using spawn_never_waits_for_daemon [OF reach_forked sample_fds_ok(1)] by auto
qed

text \<open>The redirection relies on the three standard descriptors being open when it starts: where standard output is closed,
  the log file takes number 1 itself, and closing the spare descriptor closes it again.\<close>

lemma closed_stdout_stays_closed:
  "fd_get (redirect_std_fds [Some (InheritedFile 0), None, Some (InheritedFile 2)]) 1 = None
   \<and> fd_get (redirect_std_fds [None, Some (InheritedFile 1), Some (InheritedFile 2)]) 0 = None"
  by code_simp

end
