(* ===== verification/Spec2Isabelle.thy ===== *)
theory Spec2Isabelle
  imports Argument_Specs Record_History Origin_Writers Daemon_Spawn
begin

text \<open>
Verification of the ASMB8-iKVM Ansible collection.

\<^bold>\<open>The program.\<close> The collection drives the ASUS ASMB8-iKVM baseboard management controller. Its
library code (src/plugins/module_utils) consists of a web client for the management pages (asp.py on
webvar.py and models.py), an IPMI client (ipmi.py), the virtual-media protocol IUSB with a CD-ROM
emulation over an image on disk (iusb.py), the console protocol IVTP (ivtp.py), two detached daemons,
one serving a CD-ROM session (media_session.py) and one serving installer files over HTTP
(http_origin.py), both on daemon_runtime.py, and the error and redaction layer (errors.py). The modules
(src/plugins/modules) validate parameters, call the library, and assemble a result. A media attach runs
through nearly all of it: asmb8_media plans and forks, the daemon logs in and allocates a session with
asp.py, connects and authenticates with iusb.py, serves SCSI reads through the window cache, and tells
the forking module through a state file written by daemon_runtime.py.

\<^bold>\<open>The theories.\<close>
\<^item> Ikvm_Prelude: integer codecs, Python slices and slice assignment, ordered dictionaries, polling loops.
  Py_Value: Python strings and dynamic values (int(), str(), strip, replace, lower). Py_Regex: the
  backtracking matcher of re for the operators the source uses; search, finditer and sub on top of it.
\<^item> Ikvm_Errors (errors.py): error classes, the exception object, and redact with its three stages, the
  regular expressions included.
\<^item> Iusb_Frame, Iusb_Cache, Iusb_Cdrom, Iusb_Session, Iusb_Serve (iusb.py): header and packet codec and
  authentication; FileReader and the LRU window Cache, also as a transition relation of threads; the SCSI
  commands of CDROMDevice; framing over a transport, the frame recorder, Session.authenticate and the
  serve loop; and the theorems on the loop. Sock_Transport is the socket both protocols read from.
\<^item> Ivtp_Packet, Ivtp_Channel (ivtp.py): codec, packet builders and fragment reassembly; handshake and
  capture loop.
\<^item> Daemon_Runtime (daemon_runtime.py): the state directory with inodes, atomic and create-only writes and
  their interleavings, liveness, signals and waits. Media_Session (media_session.py): the daemon's record,
  callbacks and life from fork to exit, the trace summary, endpoint reclamation.
  Daemon_Spawn: the three processes of spawn_session with their descriptor tables and the pipe, as a step
  relation, and _redirect_std_fds. Record_History: the sequence of records the media daemon publishes, as
  a run of an abstract life cycle.
\<^item> Http_Path, Http_Serve, Http_Origin (http_origin.py): request-path resolution over a file tree with
  symbolic links; ranges and the request handler; accounting, self-test, control loop and daemon.
  Origin_Writers: the origin's control thread, which persists without the lock, and its handler threads,
  which persist under it, as a step relation over one state directory and one temporary file.
\<^item> Ikvm_Models (models.py), Webvar (webvar.py), Asp_Parse and Asp_Client (asp.py): coercions and receipts;
  the WEBVAR parser; TLS trust policy, response recognisers and the JNLP scan; every request method of
  AspClient with headers, retries and classification.
\<^item> Ipmi_Client (ipmi.py and the modules asmb8_power, asmb8_boot, asmb8_reset, asmb8_identify),
  Media_Module (asmb8_media, and the allocation step of media_session.py), Origin_Module
  (asmb8_http_origin), Console_Module (asmb8_console) and Bootstrap_Image (bootstrap_image.py and
  asmb8_bootstrap_image).
\<^item> Web_Call is what the modules on the web client share: sequences of client calls that stop at the first
  exception, WEBVAR records read as dictionaries, the client built from the connection options, the shape
  of main, and the relation of a sequence to the calls it performs. On it stand Ntp_Module (asmb8_ntp),
  Report_Modules (asmb8_users, asmb8_network, asmb8_sessions), Log_Modules (asmb8_sel, asmb8_auditlog,
  asmb8_alerts), Postcode_Module (asmb8_postcode), Sensor_Modules (asmb8_inventory, asmb8_sensors) and
  Info_Module (asmb8_info). Redirection_Module (asmb8_redirection) uses its outcomes only.
\<^item> Argument_Specs: the argument specification of each module, the rules on required options, and the
  reading of the connection options from the checked parameters.

\<^bold>\<open>State and effects.\<close> Objects are records named after the classes; an operation takes the record and
returns its result and the new record. Exceptions are values of a sum type. The world is explicit: a
socket is the list of segments, timeouts and resets the peer will produce, of any finite length,
together with the bytes written; the runtime directory is a map of names to inodes; the web client and the IPMI client keep the
log of what they sent, and the BMC is a function of that log; a daemon's disk, clock and signals are
streams of outcomes. A module's result carries what it sent, forked, signalled or wrote besides its
outcome: exit_json, fail_json with an error or with a message only, or an exception that left main.

\<^bold>\<open>Interfaces.\<close> Eight locales state what one component relies on in another. \<open>reader\<close> is the read_at
contract, interpreted for the plain file and for the cache over it, whence cached and direct reads agree.
\<open>transport\<close> is recv_exact/send_all, interpreted for the IUSB and the IVTP socket. \<open>handler\<close> is
what the serve loop asks of the frame handler, interpreted for the CD-ROM device on the cached reader.
\<open>callbacks\<close> is what it asks of should_stop, on_idle and on_request, and \<open>stop_polls\<close> that
polling consumes the answers of the flag one by one; both are interpreted for the media daemon, whence a
stop request ends the serving at the poll that sees it, over any transport.
\<open>session_files\<close> is the set of files a daemon session owns, interpreted for the media and for the origin
daemon, whence both modules remove exactly the files of the session they name.
\<open>publisher\<close> is what a daemon promises of the write that publishes its record, and \<open>lifecycle_machine\<close> a
transition system on records whose terminal records are final; both are interpreted for the media
daemon, whence its published records form a run of the machine. The origin has no such run: its control
thread writes records without the lock, and Origin_Writers shows an older one landing after stopped.

\<^bold>\<open>What is shown.\<close>
\<^item> Codecs: headers, WEBVAR bodies, JNLP documents, video fragments and URL paths survive their round
  trips under any segmentation of the stream; malformed input ends in the documented error.
\<^item> Media: cached reads equal reads of the image, and so do those of interleaved threads as long as seek and
  read of the shared file are not torn apart (the lock of the cache does not cover them: a torn pair
  caches wrong bytes, which is shown); READ returns the requested blocks; the serve loop answers each
  frame by what process_frame gives and ends with a stop request; an idle peer keeps it for any length of
  time. The daemon ends with its session and image closed and a verdict on disk unless a write of
  the record itself failed, and then with exactly that error.
\<^item> Records: readers see old or new, never partial; the daemon's record survives the race with the parent;
  reclaiming and detaching remove exactly the records they name; the modules report an attach or a
  served origin only after reading it in the record of the daemon they forked; the records published over
  the media daemon's life refine an abstract life cycle.
\<^item> Processes: the double fork detaches the daemon in every interleaving, the parent returns without waiting
  for it, leaks no descriptor and reports the daemon's process number or an error.
\<^item> Options: the client built from checked options is plaintext or unverified only when the playbook asked
  for it; secrets are never logged by default; checked options determine the boot script line for line.
\<^item> Web client: retries are bounded and only on the busy shape; the token never goes to a WEBSES URL; only
  granted cookies are stored; a TLS pool pins or verifies; a granted login and allocation return the session.
\<^item> HTTP origin: no request leaves the root; the bytes sent are the bytes asked for; the daemon reports
  listening only after a passed self-test, counts every request, and ends with a verdict in its record;
  three exceptions no handler catches (a looping root, a file name that is not UTF-8, a file that may not
  be looked at) leave it at starting, which is shown as well.
\<^item> IPMI modules: check mode issues no mutating command; a command is sent exactly on a difference.
\<^item> Web modules: the web client keeps its type under any sequence of calls; the reporting modules send nothing
  but reads; asmb8_ntp writes exactly what it reports; a failing endpoint of the audit-log and alerts
  modules costs one field, marked with its own error, and the remaining endpoints are still asked; reports count and group what the device returned and lose no value; POST-code
  sampling ends within its bounds; asmb8_info issues the three reading IPMI commands only.
\<^item> Console and boot image: a console run that connected sends the stop request, unless the socket refuses
  it, and closes the socket; streaming is resumed only on a validation response whose status byte the BMC sent;
  an image is reported exactly when the tool ended with status zero and within the budget.
\<^item> Secrets: no literal secret survives redact's literal stage; the value of a BMC secret name is
  replaced; each string of a receipt has passed through redact; addresses, keys and passwords of the
  reported tables reach the reports as flags only.

\<^bold>\<open>Bounds.\<close> Loops that end by a measure are total functions (recv_exact, the cache loop, the scanners,
the retry loop, whose measure is max_retries + 1 - attempt). Loops that wait for the outside are
\<open>partial_function (option)\<close>, and each has a lemma that says when it returns: wait_for_exit and
wait_for_state by their deadline, the origin's control loop and serve_forever by a stop request, the
sampling loop when sleeping advances the clock. serve_forever, await_validation and capture_one_frame also
return once a finite script of the peer is used up; that says nothing of a peer that never stops, and
the source gives none of the three a deadline of its own. The
only counted fuel is in the regex matcher, where a repetition runs at most as often as characters
remain, which is enough because re abandons empty iterations; and in path resolution, where the fuel is
the symbolic-link limit of the operating system and running out is the error it reports.

\<^bold>\<open>Not modelled.\<close> The texts of messages, except where code matches on them. Code outside the repository is
an argument: requests and urllib3, pyghmi, ssl, socketserver, json, ast.literal_eval, mimetypes, the
clock, the outcome of each disk operation. Strings are Latin-1 in the parsers. A sendall that fails has
sent nothing. A read of an image or of a served file that fails once it was opened, the wait for a
reclaimed process to exit, and a failure to redirect the standard descriptors or to install the signal
handlers before the daemon's first record are left out. Redirects followed by requests are part of its
answer. AnsibleModule's check of the parameters is the hypothesis checked_params. The instance lock of
AspClient, the process group setsid gives the first child, the watchdog thread that bounds the origin's
shutdown, and documentation fragments have no definitions. Floating-point values
occur in two places: a sensor reading is the exact quotient by 1000, and clock readings are rational
numbers. A number that is not an integer among the WEBVAR values has its text only, and its int() is an
argument. Receipts repeat the fields of a module's result and are built in the IPMI modules only.
\<close>

section \<open>Properties across components\<close>

text \<open>C17. The reporting modules never write. Whatever the device answers, every request of the users, network, sessions,
  event-log, audit-log, alerts, inventory and sensors modules is the login, a bodiless GET, or one of the
  two queries the device defines as a POST with a single identifier; and none of them reports a change.\<close>

theorem reporting_only_reads:
  "set (snd (users_main env check conn)) \<union> set (snd (network_main env check conn)) \<union> set (snd (sessions_main env check conn services))
     \<union> set (snd (sel_main env conn max_shown after_event_id)) \<union> set (snd (auditlog_main env conn)) \<union> set (snd (alerts_main env conn))
     \<union> set (snd (inventory_main env mixed conn sections)) \<union> set (snd (sensors_main env conn sensor_names sensor_types))
     \<subseteq> Collect (read_request conn)
   \<and> fst (users_main env check conn) \<noteq> module_outcome.ExitJson True r1 \<and> fst (network_main env check conn) \<noteq> module_outcome.ExitJson True r2
   \<and> fst (sessions_main env check conn services) \<noteq> module_outcome.ExitJson True r3
   \<and> fst (sel_main env conn max_shown after_event_id) \<noteq> module_outcome.ExitJson True r4
   \<and> fst (auditlog_main env conn) \<noteq> module_outcome.ExitJson True r5 \<and> fst (alerts_main env conn) \<noteq> module_outcome.ExitJson True r6
   \<and> fst (inventory_main env mixed conn sections) \<noteq> module_outcome.ExitJson True r7
   \<and> fst (sensors_main env conn sensor_names sensor_types) \<noteq> module_outcome.ExitJson True r8"
  using report_modules_only_read [of env conn services check r1 r2 r3] log_modules_only_read [of env conn max_shown after_event_id r4 r5 r6]
    hardware_modules_only_read [of env mixed conn sections sensor_names sensor_types r7 r8]
  by (simp only: Un_subset_iff simp_thms)

end
